(* ===== verification/Prelude.thy ===== *)
theory Prelude
  imports Main "HOL-Library.Monad_Syntax" "HOL-Library.Sublist"
begin

text \<open>
  Shared vocabulary of the development.

  \<^item> Type names of the Rust sources (\<open>u16\<close>, \<open>u64\<close>, \<open>Uuid\<close>, \<dots>). Unsigned machine integers are
    natural numbers with the width written into the operation that uses it: \<open>checked_add\<close> and
    \<open>checked_sub\<close> are the plain operators \<open>+\<close> and \<open>-\<close> of the sources, whose overflow is
    \<open>None\<close> (a panic in a checked build, a wrap-around in an unchecked one), and
    \<open>saturating_add\<close> and \<open>saturating_sub\<close> are the methods of the same name.
  \<^item> A Rust \<open>Result<T, E>\<close> is the sum \<open>E + T\<close>; a computation that can panic returns an option, with
    \<open>None\<close> for the panic.
  \<^item> Generic lemmas on options, lists and maps that the component theories share.
\<close>

section \<open>Names of the source's types\<close>

type_synonym u8 = nat
type_synonym u16 = nat
type_synonym u32 = nat
type_synonym u64 = nat
type_synonym usize = nat
type_synonym i32 = int
type_synonym uuid = nat
type_synonym bytes = "nat list"

abbreviation u16_max :: nat where "u16_max \<equiv> 65535"
abbreviation u32_max :: nat where "u32_max \<equiv> 4294967295"
abbreviation u64_max :: nat where "u64_max \<equiv> 18446744073709551615"

section \<open>Machine arithmetic\<close>

definition checked_add :: "nat \<Rightarrow> nat \<Rightarrow> nat \<Rightarrow> nat option" where
  "checked_add mx a b = (if a + b \<le> mx then Some (a + b) else None)"

definition checked_sub :: "nat \<Rightarrow> nat \<Rightarrow> nat option" where
  "checked_sub a b = (if b \<le> a then Some (a - b) else None)"

definition saturating_add :: "nat \<Rightarrow> nat \<Rightarrow> nat \<Rightarrow> nat" where
  "saturating_add mx a b = min mx (a + b)"

definition saturating_sub :: "nat \<Rightarrow> nat \<Rightarrow> nat" where
  "saturating_sub a b = a - b"

named_theorems arith_defs "machine arithmetic, unfolded"
named_theorems panic_free "facts that an operation returns a value"

declare checked_add_def [arith_defs] checked_sub_def [arith_defs]
  saturating_add_def [arith_defs] saturating_sub_def [arith_defs]

lemma checked_add_Some [panic_free]: "a + b \<le> mx \<Longrightarrow> checked_add mx a b = Some (a + b)"
  by (simp add: checked_add_def)

lemma checked_sub_Some [panic_free]: "b \<le> a \<Longrightarrow> checked_sub a b = Some (a - b)"
  by (simp add: checked_sub_def)

lemma checked_add_SomeD: "checked_add mx a b = Some c \<Longrightarrow> c = a + b \<and> a + b \<le> mx"
  by (simp add: checked_add_def split: if_splits)

lemma checked_sub_SomeD: "checked_sub a b = Some c \<Longrightarrow> c = a - b \<and> b \<le> a"
  by (simp add: checked_sub_def split: if_splits)

lemma saturating_add_le [simp]: "saturating_add mx a b \<le> mx"
  by (simp add: saturating_add_def)

section \<open>Options, lists and maps\<close>

lemma bind_Some_conv: "(m \<bind> f = Some y) \<longleftrightarrow> (\<exists>x. m = Some x \<and> f x = Some y)"
  by (cases m) auto

lemma dropWhile_filter_sorted:
  assumes "sorted xs" and "\<And>x y. x \<le> y \<Longrightarrow> P y \<Longrightarrow> P x"
  shows "dropWhile P xs = filter (\<lambda>x. \<not> P x) xs"
  using assms(1)
proof (induction xs)
  case (Cons x xs)
  show ?case
  proof (cases "P x")
    case True
    with Cons show ?thesis by simp
  next
    case False
    with Cons.prems assms(2) have "\<forall>y\<in>set xs. \<not> P y" by auto
    then have "filter (\<lambda>y. \<not> P y) xs = xs" by (simp add: filter_id_conv)
    with False show ?thesis by simp
  qed
qed simp

lemma sorted_dropWhile_list: "sorted xs \<Longrightarrow> sorted (dropWhile P xs)"
  by (induction xs) auto

section \<open>Transition systems and invariants\<close>

inductive reachable :: "('s \<Rightarrow> bool) \<Rightarrow> ('s \<Rightarrow> 's \<Rightarrow> bool) \<Rightarrow> 's \<Rightarrow> bool"
  for init :: "'s \<Rightarrow> bool" and step :: "'s \<Rightarrow> 's \<Rightarrow> bool" where
  reach_init: "init s \<Longrightarrow> reachable init step s"
| reach_step: "reachable init step s \<Longrightarrow> step s t \<Longrightarrow> reachable init step t"

text \<open>
  The contract every stateful component fulfils: its start states satisfy an invariant and each of
  its steps keeps it.
\<close>

locale invariant_system =
  fixes init :: "'s \<Rightarrow> bool" and step :: "'s \<Rightarrow> 's \<Rightarrow> bool" and inv :: "'s \<Rightarrow> bool"
  assumes init_inv: "init s \<Longrightarrow> inv s"
    and step_inv: "inv s \<Longrightarrow> step s t \<Longrightarrow> inv t"
begin

lemma reachable_inv: "reachable init step s \<Longrightarrow> inv s"
  by (induction rule: reachable.induct) (auto intro: init_inv step_inv)

lemma steps_inv: "step\<^sup>*\<^sup>* s t \<Longrightarrow> inv s \<Longrightarrow> inv t"
  by (induction rule: rtranclp_induct) (auto intro: step_inv)

end

end
