(* ===== verification/Floats.thy ===== *)
theory Floats
  imports Prelude Complex_Main
begin

text \<open>
  IEEE binary floating point as the sources use it (\<open>f32\<close> ratios in a layout, \<open>f64\<close> delays and
  token counts). A finite value is the rational number it denotes; every arithmetic result is the
  exact result rounded to nearest, ties to even, with gradual underflow and overflow to infinity.
  The sign of zero is not kept (no branch of the sources depends on it).
\<close>

section \<open>Values and rounding\<close>

datatype fp = NaN | Inf bool | Fin rat

definition pow2 :: "int \<Rightarrow> rat" where
  "pow2 k = (if 0 \<le> k then 2 ^ nat k else 1 / 2 ^ nat (- k))"

fun bit_length :: "nat \<Rightarrow> nat" where
  "bit_length n = (if n = 0 then 0 else Suc (bit_length (n div 2)))"

declare bit_length.simps [simp del]

text \<open>The exponent of the leading bit of a positive rational.\<close>

definition ilog2 :: "rat \<Rightarrow> int" where
  "ilog2 x = (let (a, b) = quotient_of x;
                  d = int (bit_length (nat a)) - int (bit_length (nat b))
              in if pow2 d \<le> x then d else d - 1)"

definition round_half_even :: "rat \<Rightarrow> int" where
  "round_half_even y = (let f = \<lfloor>y\<rfloor>; d = y - of_int f in
     if d < 1 / 2 then f else if 1 / 2 < d then f + 1 else if even f then f else f + 1)"

record format =
  prec :: nat
  emin :: int
  emax :: int

definition binary32 :: format where
  "binary32 = \<lparr>prec = 24, emin = -149, emax = 128\<rparr>"

definition binary64 :: format where
  "binary64 = \<lparr>prec = 53, emin = -1074, emax = 1024\<rparr>"

definition ulp :: "format \<Rightarrow> rat \<Rightarrow> rat" where
  "ulp F x = pow2 (max (emin F) (ilog2 \<bar>x\<bar> - int (prec F) + 1))"

definition fround :: "format \<Rightarrow> rat \<Rightarrow> fp" where
  "fround F x = (if x = 0 then Fin 0
     else let u = ulp F x; r = of_int (round_half_even (x / u)) * u
          in if pow2 (emax F) \<le> \<bar>r\<bar> then Inf (x < 0) else Fin r)"

section \<open>Operations\<close>

fun fneg :: "fp \<Rightarrow> fp" where
  "fneg NaN = NaN"
| "fneg (Inf s) = Inf (\<not> s)"
| "fneg (Fin x) = Fin (- x)"

fun fadd :: "format \<Rightarrow> fp \<Rightarrow> fp \<Rightarrow> fp" where
  "fadd F NaN b = NaN"
| "fadd F a NaN = NaN"
| "fadd F (Inf s) (Inf t) = (if s = t then Inf s else NaN)"
| "fadd F (Inf s) (Fin y) = Inf s"
| "fadd F (Fin x) (Inf t) = Inf t"
| "fadd F (Fin x) (Fin y) = fround F (x + y)"

definition fsub :: "format \<Rightarrow> fp \<Rightarrow> fp \<Rightarrow> fp" where
  "fsub F a b = fadd F a (fneg b)"

fun fmul :: "format \<Rightarrow> fp \<Rightarrow> fp \<Rightarrow> fp" where
  "fmul F NaN b = NaN"
| "fmul F a NaN = NaN"
| "fmul F (Inf s) (Inf t) = Inf (s \<noteq> t)"
| "fmul F (Inf s) (Fin y) = (if y = 0 then NaN else Inf (s \<noteq> (y < 0)))"
| "fmul F (Fin x) (Inf t) = (if x = 0 then NaN else Inf (t \<noteq> (x < 0)))"
| "fmul F (Fin x) (Fin y) = fround F (x * y)"

fun flt :: "fp \<Rightarrow> fp \<Rightarrow> bool" where
  "flt NaN b = False"
| "flt a NaN = False"
| "flt (Inf s) (Inf t) = (s \<and> \<not> t)"
| "flt (Inf s) (Fin y) = s"
| "flt (Fin x) (Inf t) = (\<not> t)"
| "flt (Fin x) (Fin y) = (x < y)"

fun fle :: "fp \<Rightarrow> fp \<Rightarrow> bool" where
  "fle NaN b = False"
| "fle a NaN = False"
| "fle (Inf s) (Inf t) = (s \<or> \<not> t)"
| "fle (Inf s) (Fin y) = s"
| "fle (Fin x) (Inf t) = (\<not> t)"
| "fle (Fin x) (Fin y) = (x \<le> y)"

fun fabs :: "fp \<Rightarrow> fp" where
  "fabs NaN = NaN"
| "fabs (Inf s) = Inf False"
| "fabs (Fin x) = Fin \<bar>x\<bar>"

fun is_finite :: "fp \<Rightarrow> bool" where
  "is_finite (Fin x) = True"
| "is_finite a = False"

text \<open>\<open>f64::min\<close> returns the other operand when one is NaN; \<open>f64::clamp\<close> keeps a NaN.\<close>

fun fmin :: "fp \<Rightarrow> fp \<Rightarrow> fp" where
  "fmin NaN b = b"
| "fmin a b = (case b of NaN \<Rightarrow> a | _ \<Rightarrow> if flt b a then b else a)"

definition fclamp :: "fp \<Rightarrow> fp \<Rightarrow> fp \<Rightarrow> fp" where
  "fclamp a lo hi = (if flt a lo then lo else if flt hi a then hi else a)"

fun ffloor :: "fp \<Rightarrow> fp" where
  "ffloor (Fin x) = Fin (of_int \<lfloor>x\<rfloor>)"
| "ffloor a = a"

text \<open>\<open>f64::round\<close>: to the nearest integer, halves away from zero.\<close>

fun fround_int :: "fp \<Rightarrow> fp" where
  "fround_int (Fin x) =
     Fin (of_int (if 0 \<le> x then \<lfloor>x + 1 / 2\<rfloor> else - \<lfloor>- x + 1 / 2\<rfloor>))"
| "fround_int a = a"

text \<open>The saturating cast \<open>as uN\<close>: NaN and negative values become 0, too large ones the maximum.\<close>

fun to_uint :: "nat \<Rightarrow> fp \<Rightarrow> nat" where
  "to_uint mx NaN = 0"
| "to_uint mx (Inf s) = (if s then 0 else mx)"
| "to_uint mx (Fin x) = (if x \<le> 0 then 0 else min mx (nat \<lfloor>x\<rfloor>))"

definition of_uint :: "format \<Rightarrow> nat \<Rightarrow> fp" where
  "of_uint F n = fround F (of_nat n)"

section \<open>Rounding never leaves an interval of small integers\<close>

lemma pow2_pos [simp]: "0 < pow2 k"
  by (simp add: pow2_def)

lemma pow2_nonneg_int: "0 \<le> k \<Longrightarrow> pow2 k = of_int (2 ^ nat k)"
  by (simp add: pow2_def)

lemma pow2_neg: "k < 0 \<Longrightarrow> pow2 k * 2 ^ nat (- k) = 1"
  by (simp add: pow2_def)

lemma pow2_add_one: "pow2 (k + 1) = 2 * pow2 k"
proof (cases "0 \<le> k")
  case True
  then show ?thesis by (simp add: pow2_def nat_add_distrib)
next
  case False
  then obtain n where n: "k = - int (Suc n)"
    by (metis int_cases linorder_not_less not_le of_nat_0_le_iff)
  have a: "k + 1 = - int n" using n by simp
  have s: "nat (int n + 1) = Suc n" by simp
  show ?thesis unfolding a unfolding n by (simp add: pow2_def s)
qed

lemma pow2_mono: "j \<le> k \<Longrightarrow> pow2 j \<le> pow2 k"
proof (induction "nat (k - j)" arbitrary: k)
  case 0
  then show ?case by simp
next
  case (Suc n)
  then have "pow2 j \<le> pow2 (k - 1)" by simp
  also have "\<dots> \<le> pow2 k"
    using pow2_add_one [of "k - 1"] pow2_pos [of "k - 1"] by simp
  finally show ?case .
qed

lemma pow2_add: "pow2 (j + k) = pow2 j * pow2 k"
proof -
  have nn: "pow2 (j + int n) = pow2 j * pow2 (int n)" for j n
  proof (induction n)
    case 0
    then show ?case by (simp add: pow2_def)
  next
    case (Suc n)
    then show ?case using pow2_add_one [of "j + int n"] pow2_add_one [of "int n"]
      by (simp add: algebra_simps)
  qed
  show ?thesis
  proof (cases "0 \<le> k")
    case True
    then show ?thesis using nn [of j "nat k"] by simp
  next
    case False
    have "pow2 j = pow2 (j + k) * pow2 (- k)" using nn [of "j + k" "nat (- k)"] False by simp
    moreover have "pow2 k * pow2 (- k) = 1" using False by (simp add: pow2_def)
    ultimately show ?thesis using False by (simp add: pow2_def field_simps)
  qed
qed

lemma bit_length_bounds: "0 < n \<Longrightarrow> 2 ^ (bit_length n - 1) \<le> n \<and> n < 2 ^ bit_length n"
proof (induction n rule: bit_length.induct)
  case (1 n)
  show ?case
  proof (cases "n div 2 = 0")
    case True
    with 1 have "n = 1" by linarith
    then show ?thesis by (simp add: bit_length.simps)
  next
    case False
    then have ih: "2 ^ (bit_length (n div 2) - 1) \<le> n div 2" "n div 2 < 2 ^ bit_length (n div 2)"
      using 1 by auto
    have l: "bit_length n = Suc (bit_length (n div 2))"
      using 1 by (subst bit_length.simps) simp
    have p: "0 < bit_length (n div 2)" using False by (subst bit_length.simps) simp
    then obtain b where b: "bit_length (n div 2) = Suc b" by (cases "bit_length (n div 2)") auto
    from ih show ?thesis unfolding l b by auto
  qed
qed

lemma pow2_ilog2_le:
  assumes "0 < x"
  shows "pow2 (ilog2 x) \<le> x"
proof -
  obtain a b where q: "quotient_of x = (a, b)" by force
  then have b: "0 < b" and x: "x = of_int a / of_int b"
    by (auto simp: quotient_of_denom_pos quotient_of_div)
  with assms have a: "0 < a" by (simp add: zero_less_divide_iff)
  define la lb where "la = bit_length (nat a)" and "lb = bit_length (nat b)"
  have a1: "2 ^ (la - 1) \<le> nat a" and b1: "nat b < 2 ^ lb"
    using bit_length_bounds [of "nat a"] bit_length_bounds [of "nat b"] a b
    by (auto simp: la_def lb_def)
  have la: "0 < la" using a by (subst la_def, subst bit_length.simps) simp
  have a2: "(2::int) ^ (la - 1) \<le> a"
    using a1 a by (metis nat_le_iff le_nat_iff less_imp_le of_nat_numeral of_nat_power)
  have b2: "b \<le> (2::int) ^ lb" using b1 b by (simp add: nat_less_iff)
  have e: "pow2 (int la - 1) = of_int (2 ^ (la - 1))" using la
    by (simp add: pow2_def nat_diff_distrib)
  have a3: "pow2 (int la - 1) \<le> of_int a" unfolding e using a2 by (simp only: of_int_le_iff)
  have e': "pow2 (int lb) = of_int (2 ^ lb)" by (simp add: pow2_def)
  have b3: "of_int b \<le> pow2 (int lb)" unfolding e' using b2 by (simp only: of_int_le_iff)
  have "pow2 (int la - int lb - 1) * of_int b \<le> pow2 (int la - int lb - 1) * pow2 (int lb)"
    using b3 by (intro mult_left_mono) (auto intro: less_imp_le)
  also have "\<dots> = pow2 (int la - 1)" by (simp flip: pow2_add)
  also have "\<dots> \<le> of_int a" by (rule a3)
  finally have "pow2 (int la - int lb - 1) \<le> x" using b by (simp add: x field_simps)
  then show ?thesis by (simp add: ilog2_def q la_def lb_def Let_def)
qed

lemma round_half_even_le:
  assumes "y \<le> of_int k"
  shows "round_half_even y \<le> k"
proof (cases "y = of_int k")
  case True
  then show ?thesis by (simp add: round_half_even_def)
next
  case False
  with assms have "\<lfloor>y\<rfloor> < k" by (simp add: floor_less_iff)
  then show ?thesis by (auto simp: round_half_even_def Let_def)
qed

lemma round_half_even_ge: "of_int k \<le> y \<Longrightarrow> k \<le> round_half_even y"
proof -
  assume "of_int k \<le> y"
  then have "k \<le> \<lfloor>y\<rfloor>" by (simp add: le_floor_iff)
  then show ?thesis by (auto simp: round_half_even_def Let_def)
qed

lemma round_half_even_int [simp]: "round_half_even (of_int k) = k"
  by (simp add: round_half_even_def)

definition small_format :: "format \<Rightarrow> bool" where
  "small_format F \<longleftrightarrow> emin F \<le> 0 \<and> int (prec F) \<le> emax F"

lemma small_formats [simp]: "small_format binary32" "small_format binary64"
  by (simp_all add: small_format_def binary32_def binary64_def)

lemma prec_simps [simp]: "prec binary32 = 24" "prec binary64 = 53" "emin binary32 = -149"
    "emin binary64 = -1074" "emax binary32 = 128" "emax binary64 = 1024"
  by (simp_all add: binary32_def binary64_def)

lemma pow2_less_cancel: "pow2 j < pow2 k \<Longrightarrow> j < k"
  using pow2_mono [of k j] by (auto simp: not_le [symmetric])

text \<open>Below \<open>2 ^ (prec - j)\<close> the spacing of the format divides every multiple of \<open>2 ^ -j\<close>.\<close>

lemma ulp_divides_int:
  assumes "small_format F" and "0 < x" and "x \<le> of_int N" and "N < 2 ^ (prec F - j)"
    and "j \<le> prec F" and "emin F \<le> - int j"
  shows "\<exists>n\<ge>j. ulp F x * 2 ^ n = 1"
proof -
  define k where "k = max (emin F) (ilog2 x - int (prec F) + 1)"
  have "pow2 (ilog2 x) \<le> of_int N" using pow2_ilog2_le [OF assms(2)] assms(3) by simp
  also have "\<dots> < of_int (2 ^ (prec F - j))" using assms(4) by (simp only: of_int_less_iff)
  also have "\<dots> = pow2 (int (prec F - j))" by (simp add: pow2_def)
  finally have "ilog2 x < int (prec F - j)" by (rule pow2_less_cancel)
  then have k: "k \<le> - int j" using assms(5,6) by (simp add: k_def of_nat_diff)
  then have "pow2 k * 2 ^ nat (- k) = 1"
    by (cases "k = 0") (simp add: pow2_def, simp add: pow2_neg)
  moreover have "ulp F x = pow2 k" using assms(2) by (simp add: ulp_def k_def)
  moreover have "j \<le> nat (- k)" using k by simp
  ultimately show ?thesis by metis
qed

lemma fround_le_int:
  assumes "small_format F" and "0 \<le> M" and "of_int M \<le> x" and "x \<le> of_int N" and "N < 2 ^ prec F"
  shows "\<exists>r. fround F x = Fin r \<and> of_int M \<le> r \<and> r \<le> of_int N"
proof (cases "x = 0")
  case True
  with assms show ?thesis by (simp add: fround_def)
next
  case False
  moreover have "0 \<le> x" using assms(2,3) by (meson of_int_0_le_iff order_trans)
  ultimately have x: "0 < x" by simp
  define u where "u = ulp F x"
  have u: "0 < u" by (simp add: u_def ulp_def)
  obtain n where n: "u * 2 ^ n = 1"
    using ulp_divides_int [OF assms(1) x assms(4), of 0] assms(1,5) by (auto simp: u_def small_format_def)
  then have u': "u = 1 / 2 ^ n" by (simp add: field_simps)
  have "x / u \<le> of_int (N * 2 ^ n)" using assms(4) by (simp add: u')
  then have le: "round_half_even (x / u) \<le> N * 2 ^ n" by (rule round_half_even_le)
  have "of_int (M * 2 ^ n) \<le> x / u" using assms(3) by (simp add: u')
  then have ge: "M * 2 ^ n \<le> round_half_even (x / u)" by (rule round_half_even_ge)
  define r where "r = of_int (round_half_even (x / u)) * u"
  have "of_int (M * 2 ^ n) * u \<le> r"
    unfolding r_def using u ge by (intro mult_right_mono) (simp_all only: of_int_le_iff less_imp_le)
  then have rM: "of_int M \<le> r" by (simp add: u')
  then have r0: "0 \<le> r" using assms(2) by (meson of_int_0_le_iff order_trans)
  have "r \<le> of_int (N * 2 ^ n) * u"
    unfolding r_def using u le by (intro mult_right_mono) (simp_all only: of_int_le_iff less_imp_le)
  also have "\<dots> = of_int N" by (simp add: u')
  finally have rN: "r \<le> of_int N" .
  also have "\<dots> < of_int (2 ^ prec F)" using assms(5) by (simp only: of_int_less_iff)
  also have "\<dots> = pow2 (int (prec F))" by (simp add: pow2_def)
  also have "\<dots> \<le> pow2 (emax F)" using assms(1) by (intro pow2_mono) (simp add: small_format_def)
  finally have "r < pow2 (emax F)" .
  then have "fround F x = Fin r" using False r0
    by (simp add: fround_def Let_def u_def [symmetric] r_def [symmetric])
  with rM rN show ?thesis by blast
qed

text \<open>Integers below \<open>2 ^ prec\<close> are represented exactly.\<close>

lemma fround_int_exact:
  assumes "small_format F" and "0 \<le> N" and "N < 2 ^ prec F"
  shows "fround F (of_int N) = Fin (of_int N)"
  using fround_le_int [OF assms(1,2) order_refl order_refl assms(3)] by (auto intro: order_antisym)

text \<open>So are halves of integers, with one bit less.\<close>

lemma fround_half_exact:
  assumes "small_format F" and "0 < N" and "N < 2 ^ (prec F - 1)" and "1 \<le> prec F" and "emin F \<le> - 1"
  shows "fround F (of_int N / 2) = Fin (of_int N / 2)"
proof -
  define x :: rat where "x = of_int N / 2"
  have x: "0 < x" "x \<le> of_int N" using assms(2) by (simp_all add: x_def)
  obtain n where n: "1 \<le> n" "ulp F x * 2 ^ n = 1"
    using ulp_divides_int [OF assms(1) x assms(3)] assms(4,5) by auto
  then obtain m where m: "n = Suc m" by (cases n) auto
  have u: "ulp F x = 1 / 2 ^ n" using n(2) by (simp add: field_simps)
  have q: "x / ulp F x = of_int (N * 2 ^ m)" unfolding u by (simp add: m x_def)
  have r: "of_int (round_half_even (x / ulp F x)) * ulp F x = x"
    unfolding q round_half_even_int unfolding u by (simp add: m x_def)
  have N: "N < 2 ^ prec F"
    by (rule less_le_trans [OF assms(3)]) (rule power_increasing, simp_all)
  obtain s where "fround F x = Fin s"
    using fround_le_int [OF assms(1) _ _ x(2) N, of 0] x by auto
  with x r have "fround F x = Fin x" by (simp add: fround_def Let_def split: if_splits)
  then show ?thesis by (simp add: x_def)
qed

lemma of_uint_exact:
  assumes "small_format F" and "n < 2 ^ prec F"
  shows "of_uint F n = Fin (of_nat n)"
proof -
  have "int n < 2 ^ prec F" using assms(2) by (metis of_nat_less_iff of_nat_numeral of_nat_power)
  then show ?thesis using fround_int_exact [OF assms(1), of "int n"] by (simp add: of_uint_def)
qed

lemma to_uint_le: "to_uint mx a \<le> mx"
  by (cases a) auto

lemma to_uint_mono_bound:
  assumes "r \<le> of_nat n"
  shows "to_uint mx (Fin r) \<le> n"
proof -
  have "\<lfloor>r\<rfloor> \<le> int n" using assms by (simp add: floor_le_iff)
  then show ?thesis by auto
qed

end
