(* ===== verification/Layout.thy ===== *)
theory Layout
  imports Floats
begin

text \<open>
  The split tree of a window (\<open>crates/tymux-core/src/layout.rs\<close>): the data types, the geometry
  computation, splitting and removing a leaf. A \<open>Split\<close> keeps its children in a list, as the
  \<open>Vec\<close> of the source does, so that the operations that index or pop two children can panic; an
  operation that may panic returns an option.
\<close>

section \<open>Data\<close>

datatype orientation = Horizontal | Vertical

definition MIN_PANE_ROWS :: u16 where "MIN_PANE_ROWS = 2"
definition MIN_PANE_COLS :: u16 where "MIN_PANE_COLS = 10"
definition RECOMMENDED_SPLIT_MIN_ROWS :: u16 where "RECOMMENDED_SPLIT_MIN_ROWS = 20"

record pty_rect =
  rect_row :: u16
  rect_col :: u16
  rect_rows :: u16
  rect_cols :: u16

datatype layout_node =
    Leaf uuid
  | Split orientation "(layout_node \<times> fp) list"

datatype remove_outcome = Collapsed layout_node | WindowEmpty

datatype layout_error =
    BelowMinimumSize u16 u16
  | BelowRecommendedSize u16
  | PaneNotFound uuid

section \<open>Geometry\<close>

definition split_extent :: "u16 \<Rightarrow> fp \<Rightarrow> u16" where
  "split_extent extent ratio =
     to_uint u16_max (ffloor (fmul binary32 (of_uint binary32 extent) ratio))"

fun compute_geometry_at ::
  "layout_node \<Rightarrow> u16 \<Rightarrow> u16 \<Rightarrow> u16 \<Rightarrow> u16 \<Rightarrow> (uuid \<times> pty_rect) list option" where
  "compute_geometry_at (Leaf pane_id) r c rs cs =
     Some [(pane_id, \<lparr>rect_row = r, rect_col = c, rect_rows = rs, rect_cols = cs\<rparr>)]"
| "compute_geometry_at (Split Horizontal ((first, first_ratio) # (second, _) # _)) r c rs cs =
     (let first_cols = split_extent cs first_ratio in
      do { second_cols \<leftarrow> checked_sub cs first_cols;
           out \<leftarrow> compute_geometry_at first r c rs first_cols;
           c' \<leftarrow> checked_add u16_max c first_cols;
           out' \<leftarrow> compute_geometry_at second r c' rs second_cols;
           Some (out @ out') })"
| "compute_geometry_at (Split Vertical ((first, first_ratio) # (second, _) # _)) r c rs cs =
     (let first_rows = split_extent rs first_ratio in
      do { second_rows \<leftarrow> checked_sub rs first_rows;
           out \<leftarrow> compute_geometry_at first r c first_rows cs;
           r' \<leftarrow> checked_add u16_max r first_rows;
           out' \<leftarrow> compute_geometry_at second r' c second_rows cs;
           Some (out @ out') })"
| "compute_geometry_at (Split _ _) r c rs cs = None"

definition compute_geometry :: "layout_node \<Rightarrow> u16 \<Rightarrow> u16 \<Rightarrow> (uuid \<times> pty_rect) list option" where
  "compute_geometry node rs cs = compute_geometry_at node 0 0 rs cs"

section \<open>Queries\<close>

fun contains :: "layout_node \<Rightarrow> uuid \<Rightarrow> bool" where
  "contains (Leaf i) pane_id = (i = pane_id)"
| "contains (Split _ children) pane_id = list_ex (\<lambda>ch. contains (fst ch) pane_id) children"

fun leaves :: "layout_node \<Rightarrow> uuid list" where
  "leaves (Leaf pane_id) = [pane_id]"
| "leaves (Split _ children) = concat (map (\<lambda>ch. leaves (fst ch)) children)"

section \<open>Splitting\<close>

text \<open>
  \<open>replace_leaf\<close> walks the whole tree with the replacement in an \<open>Option<FnOnce>\<close> that the target
  leaf takes; a second visit of the target finds it gone and panics.
\<close>

fun replace_go :: "layout_node \<Rightarrow> uuid \<Rightarrow> (layout_node \<Rightarrow> layout_node) option
    \<Rightarrow> (layout_node \<times> (layout_node \<Rightarrow> layout_node) option) option"
  and replace_go_children :: "(layout_node \<times> fp) list \<Rightarrow> uuid \<Rightarrow> (layout_node \<Rightarrow> layout_node) option
    \<Rightarrow> ((layout_node \<times> fp) list \<times> (layout_node \<Rightarrow> layout_node) option) option" where
  "replace_go (Leaf i) target f =
     (if i = target then (case f of None \<Rightarrow> None | Some g \<Rightarrow> Some (g (Leaf i), None))
      else Some (Leaf i, f))"
| "replace_go (Split o' children) target f =
     (case replace_go_children children target f of
        None \<Rightarrow> None
      | Some (children', f') \<Rightarrow> Some (Split o' children', f'))"
| "replace_go_children [] target f = Some ([], f)"
| "replace_go_children ((child, ratio) # rest) target f =
     (case replace_go child target f of
        None \<Rightarrow> None
      | Some (child', f') \<Rightarrow>
          (case replace_go_children rest target f' of
             None \<Rightarrow> None
           | Some (rest', f'') \<Rightarrow> Some ((child', ratio) # rest', f'')))"

definition replace_leaf ::
  "layout_node \<Rightarrow> uuid \<Rightarrow> (layout_node \<Rightarrow> layout_node) \<Rightarrow> layout_node option" where
  "replace_leaf node target f = map_option fst (replace_go node target (Some f))"

text \<open>
  \<open>LayoutNode::split\<close>. The outer option is a panic; \<open>Inl\<close> is a rejection, which leaves the tree as
  it was; \<open>Inr\<close> carries the tree after the mutation.
\<close>

definition split :: "layout_node \<Rightarrow> uuid \<Rightarrow> orientation \<Rightarrow> uuid \<Rightarrow> u16 \<Rightarrow> u16
    \<Rightarrow> (layout_error + layout_node) option" where
  "split node target o' new_pane window_rows window_cols =
     (if \<not> contains node target then Some (Inl (PaneNotFound target))
      else do {
        geometry \<leftarrow> compute_geometry node window_rows window_cols;
        target_rect \<leftarrow> map_option snd (find (\<lambda>(i, _). i = target) geometry);
        let (new_rows, new_cols) = (case o' of
              Horizontal \<Rightarrow> (rect_rows target_rect, rect_cols target_rect div 2)
            | Vertical \<Rightarrow> (rect_rows target_rect div 2, rect_cols target_rect));
        (if new_rows < MIN_PANE_ROWS \<or> new_cols < MIN_PANE_COLS
         then Some (Inl (BelowMinimumSize new_rows new_cols))
         else if o' = Horizontal \<and> new_rows < RECOMMENDED_SPLIT_MIN_ROWS
         then Some (Inl (BelowRecommendedSize new_rows))
         else map_option Inr (replace_leaf node target
                (\<lambda>old_leaf. Split o' [(old_leaf, Fin (1 / 2)), (Leaf new_pane, Fin (1 / 2))])))
      })"

section \<open>Removing\<close>

fun is_leaf :: "layout_node \<Rightarrow> bool" where
  "is_leaf (Leaf _) = True"
| "is_leaf (Split _ _) = False"

text \<open>\<open>children.pop().unwrap()\<close> twice: the last two entries, \<open>None\<close> when there are fewer.\<close>

definition pop_two :: "'a list \<Rightarrow> ('a \<times> 'a) option" where
  "pop_two xs = (case rev xs of second # first # _ \<Rightarrow> Some (first, second) | _ \<Rightarrow> None)"

lemma pop_two_mem:
  assumes "pop_two xs = Some (a, b)"
  shows "a \<in> set xs \<and> b \<in> set xs"
proof -
  from assms obtain ys where "rev xs = b # a # ys"
    by (auto simp: pop_two_def split: list.splits)
  then have "set xs = set (b # a # ys)" by (metis set_rev)
  then show ?thesis by simp
qed

lemma pop_two_pair [simp]: "pop_two [a, b] = Some (a, b)"
  by (simp add: pop_two_def)

lemma size_child [termination_simp]:
  "(c, q) \<in> set cs \<Longrightarrow> size c < Suc (size_list (size_prod size (\<lambda>_. 0)) cs)"
  by (induction cs) auto

function remove :: "layout_node \<Rightarrow> uuid \<Rightarrow> remove_outcome option" where
  "remove (Leaf i) pane_id = Some (if i = pane_id then WindowEmpty else Collapsed (Leaf i))"
| "remove (Split o' children) pane_id =
     (case pop_two children of
        None \<Rightarrow> None
      | Some ((first, first_ratio), (second, second_ratio)) \<Rightarrow>
          let first_has_target = contains first pane_id;
              second_has_target = contains second pane_id
          in if first_has_target \<and> is_leaf first then Some (Collapsed second)
             else if second_has_target \<and> is_leaf second then Some (Collapsed first)
             else if first_has_target then
               (case remove first pane_id of
                  None \<Rightarrow> None
                | Some (Collapsed new_first) \<Rightarrow>
                    Some (Collapsed (Split o' [(new_first, first_ratio), (second, second_ratio)]))
                | Some WindowEmpty \<Rightarrow> Some (Collapsed second))
             else if second_has_target then
               (case remove second pane_id of
                  None \<Rightarrow> None
                | Some (Collapsed new_second) \<Rightarrow>
                    Some (Collapsed (Split o' [(first, first_ratio), (new_second, second_ratio)]))
                | Some WindowEmpty \<Rightarrow> Some (Collapsed first))
             else Some (Collapsed (Split o' [(first, first_ratio), (second, second_ratio)])))"
  by pat_completeness auto
termination
  by (relation "measure (\<lambda>(n, _). size n)") (auto dest!: pop_two_mem intro: size_child)

section \<open>Well-formed trees\<close>

definition ratio_ok :: "fp \<Rightarrow> bool" where
  "ratio_ok q \<longleftrightarrow> (case q of Fin x \<Rightarrow> 0 \<le> x \<and> x \<le> 1 | _ \<Rightarrow> False)"

fun wf_layout :: "layout_node \<Rightarrow> bool" where
  "wf_layout (Leaf _) = True"
| "wf_layout (Split _ [(a, p), (b, q)]) = (ratio_ok p \<and> ratio_ok q \<and> wf_layout a \<and> wf_layout b)"
| "wf_layout (Split _ _) = False"

lemma wf_layout_Split:
  "wf_layout (Split o' cs) \<longleftrightarrow>
     (\<exists>a p b q. cs = [(a, p), (b, q)] \<and> ratio_ok p \<and> ratio_ok q \<and> wf_layout a \<and> wf_layout b)"
  by (cases "(Split o' cs)" rule: wf_layout.cases) auto

lemma split_extent_le:
  assumes "ratio_ok q" and "n \<le> u16_max"
  shows "split_extent n q \<le> n"
proof -
  from assms(1) obtain x where q: "q = Fin x" "0 \<le> x" "x \<le> 1"
    by (auto simp: ratio_ok_def split: fp.splits)
  have n: "of_uint binary32 n = Fin (of_nat n)"
    by (rule of_uint_exact) (use assms(2) in simp_all)
  have "of_nat n * x \<le> of_int (int n)" using mult_left_mono [OF q(3), of "of_nat n"] by simp
  moreover have "int n < 2 ^ prec binary32" using assms(2) by simp
  ultimately obtain r where r: "fround binary32 (of_nat n * x) = Fin r" "r \<le> of_int (int n)"
    using fround_le_int [of binary32 0 "of_nat n * x" "int n"] q(2) by auto
  have "of_int \<lfloor>r\<rfloor> \<le> (of_nat n :: rat)" by (rule order_trans [OF of_int_floor_le]) (use r(2) in simp)
  with r q show ?thesis by (simp add: split_extent_def n to_uint_mono_bound del: to_uint.simps)
qed

lemma split_extent_half:
  assumes "n \<le> u16_max"
  shows "split_extent n (Fin (1 / 2)) = n div 2"
proof -
  have n: "of_uint binary32 n = Fin (of_nat n)"
    by (rule of_uint_exact) (use assms in simp_all)
  have f: "fround binary32 (of_nat n / 2) = Fin (of_nat n / 2)"
  proof (cases "n = 0")
    case True
    then show ?thesis by (simp add: fround_def)
  next
    case False
    have "fround binary32 (of_int (int n) / 2) = Fin (of_int (int n) / 2)"
      by (rule fround_half_exact) (use False assms in simp_all)
    then show ?thesis by simp
  qed
  have "\<lfloor>of_nat n / (2::rat)\<rfloor> = int (n div 2)"
    using floor_divide_of_nat_eq [of n 2] by simp
  then show ?thesis using assms by (simp add: split_extent_def n f)
qed

section \<open>The geometry tiles the window\<close>

definition in_rect :: "u16 \<Rightarrow> u16 \<Rightarrow> pty_rect \<Rightarrow> bool" where
  "in_rect i j R \<longleftrightarrow> rect_row R \<le> i \<and> i < rect_row R + rect_rows R
                   \<and> rect_col R \<le> j \<and> j < rect_col R + rect_cols R"

definition covering :: "u16 \<Rightarrow> u16 \<Rightarrow> (uuid \<times> pty_rect) list \<Rightarrow> uuid list" where
  "covering i j gs = map fst (filter (\<lambda>(_, R). in_rect i j R) gs)"

definition cell_count :: "u16 \<Rightarrow> u16 \<Rightarrow> (uuid \<times> pty_rect) list \<Rightarrow> nat" where
  "cell_count i j gs = length (covering i j gs)"

lemma cell_count_append [simp]: "cell_count i j (xs @ ys) = cell_count i j xs + cell_count i j ys"
  by (simp add: cell_count_def covering_def)

lemma compute_geometry_at_tiles:
  assumes "wf_layout node" and "r + rs \<le> u16_max" and "c + cs \<le> u16_max"
  shows "\<exists>gs. compute_geometry_at node r c rs cs = Some gs \<and> map fst gs = leaves node \<and>
    (\<forall>i j. cell_count i j gs = (if r \<le> i \<and> i < r + rs \<and> c \<le> j \<and> j < c + cs then 1 else 0))"
  using assms
proof (induction node arbitrary: r c rs cs)
  case (Leaf x)
  then show ?case by (auto simp: cell_count_def covering_def in_rect_def)
next
  case (Split o' ch)
  then obtain a p b q where ch: "ch = [(a, p), (b, q)]" "ratio_ok p" "wf_layout a" "wf_layout b"
    by (auto simp: wf_layout_Split)
  note IH = Split.IH [of "(a, p)" a] Split.IH [of "(b, q)" b]
  show ?case
  proof (cases o')
    case Horizontal
    define k where "k = split_extent cs p"
    have k: "k \<le> cs" using split_extent_le [OF ch(2)] Split.prems by (simp add: k_def)
    obtain g1 where g1: "compute_geometry_at a r c rs k = Some g1" "map fst g1 = leaves a"
      "\<forall>i j. cell_count i j g1 = (if r \<le> i \<and> i < r + rs \<and> c \<le> j \<and> j < c + k then 1 else 0)"
      using IH(1) [of r rs c k] ch Split.prems k by auto
    obtain g2 where g2: "compute_geometry_at b r (c + k) rs (cs - k) = Some g2" "map fst g2 = leaves b"
      "\<forall>i j. cell_count i j g2 = (if r \<le> i \<and> i < r + rs \<and> c + k \<le> j \<and> j < c + cs then 1 else 0)"
      using IH(2) [of r rs "c + k" "cs - k"] ch Split.prems k by auto
    show ?thesis
      using g1 g2 k Split.prems by (auto simp: ch Horizontal k_def [symmetric] Let_def arith_defs)
  next
    case Vertical
    define k where "k = split_extent rs p"
    have k: "k \<le> rs" using split_extent_le [OF ch(2)] Split.prems by (simp add: k_def)
    obtain g1 where g1: "compute_geometry_at a r c k cs = Some g1" "map fst g1 = leaves a"
      "\<forall>i j. cell_count i j g1 = (if r \<le> i \<and> i < r + k \<and> c \<le> j \<and> j < c + cs then 1 else 0)"
      using IH(1) [of r k c cs] ch Split.prems k by auto
    obtain g2 where g2: "compute_geometry_at b (r + k) c (rs - k) cs = Some g2" "map fst g2 = leaves b"
      "\<forall>i j. cell_count i j g2 = (if r + k \<le> i \<and> i < r + rs \<and> c \<le> j \<and> j < c + cs then 1 else 0)"
      using IH(2) [of "r + k" "rs - k" c cs] ch Split.prems k by auto
    show ?thesis
      using g1 g2 k Split.prems by (auto simp: ch Vertical k_def [symmetric] Let_def arith_defs)
  qed
qed

section \<open>Leaves, replacement and removal\<close>

lemma contains_iff [simp]: "contains node t \<longleftrightarrow> t \<in> set (leaves node)"
  by (induction node t rule: contains.induct) (auto simp: list_ex_iff)

text \<open>What \<open>replace_leaf\<close> computes, without the take-once cell.\<close>

fun subst_leaf :: "layout_node \<Rightarrow> uuid \<Rightarrow> layout_node \<Rightarrow> layout_node" where
  "subst_leaf (Leaf i) t n = (if i = t then n else Leaf i)"
| "subst_leaf (Split o' cs) t n = Split o' (map (\<lambda>ch. (subst_leaf (fst ch) t n, snd ch)) cs)"

lemma subst_leaf_id: "t \<notin> set (leaves node) \<Longrightarrow> subst_leaf node t n = node"
  by (induction node) (auto intro!: map_idI)

lemma replace_go_absent:
  "t \<notin> set (leaves node) \<Longrightarrow> replace_go node t f = Some (node, f)"
  "t \<notin> set (concat (map (\<lambda>ch. leaves (fst ch)) cs)) \<Longrightarrow> replace_go_children cs t f = Some (cs, f)"
  by (induction node t f and cs t f rule: replace_go_replace_go_children.induct) auto

lemma replace_go_present:
  "t \<in> set (leaves node) \<Longrightarrow> distinct (leaves node) \<Longrightarrow> f = Some g \<Longrightarrow>
     replace_go node t f = Some (subst_leaf node t (g (Leaf t)), None)"
  "t \<in> set (concat (map (\<lambda>ch. leaves (fst ch)) cs)) \<Longrightarrow>
     distinct (concat (map (\<lambda>ch. leaves (fst ch)) cs)) \<Longrightarrow> f = Some g \<Longrightarrow>
     replace_go_children cs t f = Some (map (\<lambda>ch. (subst_leaf (fst ch) t (g (Leaf t)), snd ch)) cs, None)"
proof (induction node t f and cs t f rule: replace_go_replace_go_children.induct)
  case (4 child ratio rest t f)
  show ?case
  proof (cases "t \<in> set (leaves child)")
    case True
    then have "t \<notin> set (concat (map (\<lambda>ch. leaves (fst ch)) rest))" using 4(4) by auto
    moreover from this have "map (\<lambda>ch. (subst_leaf (fst ch) t (g (Leaf t)), snd ch)) rest = rest"
      by (auto intro!: map_idI subst_leaf_id)
    ultimately show ?thesis using 4 True by (simp add: replace_go_absent)
  next
    case False
    then show ?thesis using 4 by (simp add: replace_go_absent subst_leaf_id)
  qed
qed auto

lemma replace_leaf_subst:
  "t \<in> set (leaves node) \<Longrightarrow> distinct (leaves node) \<Longrightarrow>
   replace_leaf node t g = Some (subst_leaf node t (g (Leaf t)))"
  by (simp add: replace_leaf_def replace_go_present(1))

lemma wf_subst_leaf: "wf_layout node \<Longrightarrow> wf_layout n \<Longrightarrow> wf_layout (subst_leaf node t n)"
  by (induction node rule: wf_layout.induct) auto

lemma concat_map_concat: "concat (map f (concat (map g xs))) = concat (map (\<lambda>x. concat (map f (g x))) xs)"
  by (induction xs) auto

lemma leaves_subst_leaf:
  "leaves (subst_leaf node t n) = concat (map (\<lambda>i. if i = t then leaves n else [i]) (leaves node))"
proof (induction node)
  case (Split o' cs)
  then have "map (\<lambda>ch. leaves (subst_leaf (fst ch) t n)) cs =
      map (\<lambda>ch. concat (map (\<lambda>i. if i = t then leaves n else [i]) (leaves (fst ch)))) cs"
    by (intro map_cong refl) (metis fsts.intros prod.collapse)
  then show ?case
    unfolding subst_leaf.simps leaves.simps concat_map_concat map_map comp_def fst_conv
    by (rule arg_cong)
qed simp

text \<open>Splitting a leaf rewrites its rectangle and no other.\<close>

definition expand :: "uuid \<Rightarrow> layout_node \<Rightarrow> (uuid \<times> pty_rect) list \<Rightarrow> (uuid \<times> pty_rect) list" where
  "expand t n gs = concat (map (\<lambda>(i, R). if i = t
     then the (compute_geometry_at n (rect_row R) (rect_col R) (rect_rows R) (rect_cols R))
     else [(i, R)]) gs)"

lemma expand_append [simp]: "expand t n (xs @ ys) = expand t n xs @ expand t n ys"
  by (simp add: expand_def)

lemma compute_geometry_at_subst:
  assumes "wf_layout node" and "wf_layout n" and "r + rs \<le> u16_max" and "c + cs \<le> u16_max"
    and "compute_geometry_at node r c rs cs = Some gs"
  shows "compute_geometry_at (subst_leaf node t n) r c rs cs = Some (expand t n gs)"
  using assms
proof (induction node r c rs cs arbitrary: gs rule: compute_geometry_at.induct)
  case (1 i r c rs cs)
  then show ?case using compute_geometry_at_tiles [of n r rs c cs] by (auto simp: expand_def)
next
  case (2 a p b q ch r c rs cs)
  have "split_extent cs p \<le> cs" by (rule split_extent_le) (use 2 in \<open>auto simp: wf_layout_Split\<close>)
  with 2 show ?case
    by (auto simp: wf_layout_Split Let_def bind_Some_conv arith_defs split: if_splits)
next
  case (3 a p b q ch r c rs cs)
  have "split_extent rs p \<le> rs" by (rule split_extent_le) (use 3 in \<open>auto simp: wf_layout_Split\<close>)
  with 3 show ?case
    by (auto simp: wf_layout_Split Let_def bind_Some_conv arith_defs split: if_splits)
qed (auto simp: wf_layout_Split)

lemma remove_absent:
  "wf_layout node \<Longrightarrow> t \<notin> set (leaves node) \<Longrightarrow> remove node t = Some (Collapsed node)"
  by (cases node) (auto simp: wf_layout_Split)

lemma remove_present:
  assumes "wf_layout node" and "distinct (leaves node)" and "t \<in> set (leaves node)" and "node \<noteq> Leaf t"
  shows "\<exists>n'. remove node t = Some (Collapsed n') \<and> wf_layout n' \<and>
           leaves n' = filter (\<lambda>i. i \<noteq> t) (leaves node)"
  using assms
proof (induction node rule: wf_layout.induct)
  case (2 o' a p b q)
  have fb: "t \<in> set (leaves a) \<Longrightarrow> filter (\<lambda>i. i \<noteq> t) (leaves b) = leaves b"
    and fa: "t \<in> set (leaves b) \<Longrightarrow> filter (\<lambda>i. i \<noteq> t) (leaves a) = leaves a"
    using 2(4) by (auto intro!: filter_True)
  show ?case
  proof (cases "t \<in> set (leaves a)")
    case True
    then have nb: "t \<notin> set (leaves b)" using 2(4) by auto
    show ?thesis
    proof (cases "is_leaf a")
      case True
      then show ?thesis using 2 \<open>t \<in> set (leaves a)\<close> fb by (cases a) auto
    next
      case False
      then have "a \<noteq> Leaf t" by auto
      with 2 True nb False fb show ?thesis by auto
    qed
  next
    case False
    then have tb: "t \<in> set (leaves b)" using 2 by auto
    show ?thesis
    proof (cases "is_leaf b")
      case True
      then show ?thesis using 2 False tb fa by (cases b) auto
    next
      case False
      then have "b \<noteq> Leaf t" by auto
      with 2 tb False \<open>t \<notin> set (leaves a)\<close> fa show ?thesis by auto
    qed
  qed
qed auto


lemma find_map_of: "map_option snd (find (\<lambda>(i, _). i = t) xs) = map_of xs t"
  by (induction xs) auto

text \<open>The tree a successful split puts in place of the target leaf.\<close>

definition halves :: "orientation \<Rightarrow> uuid \<Rightarrow> uuid \<Rightarrow> layout_node" where
  "halves o' t new = Split o' [(Leaf t, Fin (1 / 2)), (Leaf new, Fin (1 / 2))]"

lemma wf_halves [simp]: "wf_layout (halves o' t new)"
  by (simp add: halves_def ratio_ok_def)

lemma leaves_halves [simp]: "leaves (halves o' t new) = [t, new]"
  by (simp add: halves_def)

lemma split_InrD:
  assumes "split node t o' new rs cs = Some (Inr node')"
    and "wf_layout node" and "distinct (leaves node)"
  shows "t \<in> set (leaves node)" "node' = subst_leaf node t (halves o' t new)"
  using assms
  by (cases o', auto simp: split_def Let_def bind_Some_conv replace_leaf_subst halves_def split: if_splits)+

text \<open>Under the floor that \<open>split\<close> checks, both halves of the target's rectangle stay above it.\<close>

lemma geometry_halves:
  assumes "r + rs \<le> u16_max" and "c + cs \<le> u16_max" 
  shows "compute_geometry_at (halves o' t new) r c rs cs = Some (case o' of
     Horizontal \<Rightarrow> [(t, \<lparr>rect_row = r, rect_col = c, rect_rows = rs, rect_cols = cs div 2\<rparr>),
                    (new, \<lparr>rect_row = r, rect_col = c + cs div 2, rect_rows = rs, rect_cols = cs - cs div 2\<rparr>)]
   | Vertical \<Rightarrow> [(t, \<lparr>rect_row = r, rect_col = c, rect_rows = rs div 2, rect_cols = cs\<rparr>),
                    (new, \<lparr>rect_row = r + rs div 2, rect_col = c, rect_rows = rs - rs div 2, rect_cols = cs\<rparr>)])"
  using assms by (cases o') (auto simp: halves_def split_extent_half arith_defs Let_def)

lemma compute_geometry_at_inside:
  assumes "wf_layout node" and "compute_geometry_at node r c rs cs = Some gs" and "(i, R) \<in> set gs"
    and "r + rs \<le> u16_max" and "c + cs \<le> u16_max"
  shows "r \<le> rect_row R \<and> rect_row R + rect_rows R \<le> r + rs
       \<and> c \<le> rect_col R \<and> rect_col R + rect_cols R \<le> c + cs"
  using assms
proof (induction node r c rs cs arbitrary: gs rule: compute_geometry_at.induct)
  case (2 a p b q ch r c rs cs)
  have k: "split_extent cs p \<le> cs" by (rule split_extent_le) (use 2 in \<open>auto simp: wf_layout_Split\<close>)
  from 2(4,6) obtain g1 g2 where g: "compute_geometry_at a r c rs (split_extent cs p) = Some g1"
      "compute_geometry_at b r (c + split_extent cs p) rs (cs - split_extent cs p) = Some g2" "gs = g1 @ g2"
    using k by (auto simp: Let_def bind_Some_conv arith_defs split: if_splits)
  show ?case
  proof (cases "(i, R) \<in> set g1")
    case True
    then show ?thesis using 2(1) [OF refl, of "cs - split_extent cs p" g1] g 2 k
      by (force simp: wf_layout_Split arith_defs)
  next
    case False
    then have "(i, R) \<in> set g2" using g 2 by auto
    then show ?thesis using 2(2) [OF refl, of "cs - split_extent cs p" g1 "c + split_extent cs p" g2] g 2 k
      by (force simp: wf_layout_Split arith_defs)
  qed
next
  case (3 a p b q ch r c rs cs)
  have k: "split_extent rs p \<le> rs" by (rule split_extent_le) (use 3 in \<open>auto simp: wf_layout_Split\<close>)
  from 3(4,6) obtain g1 g2 where g: "compute_geometry_at a r c (split_extent rs p) cs = Some g1"
      "compute_geometry_at b (r + split_extent rs p) c (rs - split_extent rs p) cs = Some g2" "gs = g1 @ g2"
    using k by (auto simp: Let_def bind_Some_conv arith_defs split: if_splits)
  show ?case
  proof (cases "(i, R) \<in> set g1")
    case True
    then show ?thesis using 3(1) [OF refl, of "rs - split_extent rs p" g1] g 3 k
      by (force simp: wf_layout_Split arith_defs)
  next
    case False
    then have "(i, R) \<in> set g2" using g 3 by auto
    then show ?thesis using 3(2) [OF refl, of "rs - split_extent rs p" g1 "r + split_extent rs p" g2] g 3 k
      by (force simp: wf_layout_Split arith_defs)
  qed
qed auto


definition on_screen :: "pty_rect \<Rightarrow> bool" where
  "on_screen R \<longleftrightarrow> rect_row R + rect_rows R \<le> u16_max \<and> rect_col R + rect_cols R \<le> u16_max"

lemma expand_Nil [simp]: "expand t n [] = []"
  by (simp add: expand_def)

lemma expand_Cons:
  "expand t n ((i, R) # gs) = (if i = t
     then the (compute_geometry_at n (rect_row R) (rect_col R) (rect_rows R) (rect_cols R))
     else [(i, R)]) @ expand t n gs"
  by (simp add: expand_def)

lemma map_of_expand_other:
  assumes "\<forall>(i, R) \<in> set gs. on_screen R" and "i \<noteq> t" and "i \<noteq> new"
  shows "map_of (expand t (halves o' t new) gs) i = map_of gs i"
  using assms
  by (induction gs) (auto simp: expand_Cons on_screen_def geometry_halves split: orientation.splits)

lemma map_of_expand_halves:
  assumes "\<forall>(i, R) \<in> set gs. on_screen R" and "map_of gs t = Some R"
    and "new \<notin> set (map fst gs)" and "distinct (map fst gs)" 
  shows "\<exists>R1 R2. map_of (expand t (halves o' t new) gs) t = Some R1
       \<and> map_of (expand t (halves o' t new) gs) new = Some R2
       \<and> (case o' of
            Horizontal \<Rightarrow> rect_rows R1 = rect_rows R \<and> rect_rows R2 = rect_rows R
              \<and> rect_cols R1 = rect_cols R div 2 \<and> rect_cols R1 + rect_cols R2 = rect_cols R
          | Vertical \<Rightarrow> rect_cols R1 = rect_cols R \<and> rect_cols R2 = rect_cols R
              \<and> rect_rows R1 = rect_rows R div 2 \<and> rect_rows R1 + rect_rows R2 = rect_rows R)"
  using assms
proof (induction gs)
  case (Cons g gs)
  obtain i R' where g: "g = (i, R')" by force
  show ?case
  proof (cases "i = t")
    case True
    then have "t \<noteq> new" "R' = R" "on_screen R" using Cons g by auto
    with True show ?thesis
      by (cases o') (auto simp: g expand_Cons on_screen_def geometry_halves)
  next
    case False
    then show ?thesis using Cons by (auto simp: g expand_Cons)
  qed
qed simp

lemma compute_geometry_inside:
  assumes "wf_layout node" and "rs \<le> u16_max" and "cs \<le> u16_max" and "compute_geometry node rs cs = Some gs"
  shows "\<forall>(i, R) \<in> set gs. on_screen R"
  using assms compute_geometry_at_inside [of node 0 0 rs cs gs]
  by (fastforce simp: compute_geometry_def on_screen_def)

lemma compute_geometry_Some:
  assumes "wf_layout node" and "rs \<le> u16_max" and "cs \<le> u16_max"
  obtains gs where "compute_geometry node rs cs = Some gs" "map fst gs = leaves node"
    "\<And>i j. cell_count i j gs = (if i < rs \<and> j < cs then 1 else 0)"
  using compute_geometry_at_tiles [OF assms(1), of 0 rs 0 cs] assms that
  by (auto simp: compute_geometry_def)

section \<open>Properties\<close>

text \<open>
  C7. For a well-formed tree the geometry computation returns (no arithmetic overflow, no index
  panic), lists one rectangle per leaf in the tree's order, and the rectangles tile the window:
  every cell of the window lies in exactly one of them, every cell outside in none.
\<close>

theorem compute_geometry_tiles:
  assumes "wf_layout node" and "rs \<le> u16_max" and "cs \<le> u16_max"
  shows "\<exists>gs. compute_geometry node rs cs = Some gs \<and> map fst gs = leaves node \<and>
    (\<forall>i j. cell_count i j gs = (if i < rs \<and> j < cs then 1 else 0))"
  using compute_geometry_Some [OF assms] by metis

theorem compute_geometry_tiles_witness:
  "\<exists>gs. compute_geometry (Split Horizontal [(Leaf 1, Fin (1 / 2)), (Leaf 2, Fin (1 / 2))]) 24 81 = Some gs
      \<and> map fst gs = leaves (Split Horizontal [(Leaf 1, Fin (1 / 2)), (Leaf 2, Fin (1 / 2))])
      \<and> (\<forall>i j. cell_count i j gs = (if i < 24 \<and> j < 81 then 1 else 0))"
  by (rule compute_geometry_tiles) (simp_all add: ratio_ok_def)

text \<open>
  C11. A successful split keeps the tree well formed, puts the new pane right after its target in
  leaf order, leaves every other pane's rectangle untouched, and gives both halves of the target's
  rectangle at least the minimum pane size.
\<close>

theorem split_success:
  assumes "wf_layout node" and "distinct (leaves node)" and "new \<notin> set (leaves node)"
    and "rs \<le> u16_max" and "cs \<le> u16_max"
    and "split node t o' new rs cs = Some (Inr node')"
  shows "wf_layout node' \<and> distinct (leaves node')
    \<and> leaves node' = concat (map (\<lambda>i. if i = t then [t, new] else [i]) (leaves node))
    \<and> (\<exists>gs gs'. compute_geometry node rs cs = Some gs \<and> compute_geometry node' rs cs = Some gs'
        \<and> (\<forall>i. i \<noteq> t \<and> i \<noteq> new \<longrightarrow> map_of gs' i = map_of gs i)
        \<and> (\<forall>i. i = t \<or> i = new \<longrightarrow> (\<exists>R. map_of gs' i = Some R
              \<and> MIN_PANE_ROWS \<le> rect_rows R \<and> MIN_PANE_COLS \<le> rect_cols R)))"
proof -
  note node' = split_InrD [OF assms(6,1,2)]
  obtain gs where gs: "compute_geometry node rs cs = Some gs" "map fst gs = leaves node"
    using compute_geometry_Some [OF assms(1,4,5)] by metis
  have scr: "\<forall>(i, R) \<in> set gs. on_screen R"
    by (rule compute_geometry_inside [OF assms(1,4,5) gs(1)])
  have gs': "compute_geometry node' rs cs = Some (expand t (halves o' t new) gs)"
    using compute_geometry_at_subst [of node "halves o' t new" 0 rs 0 cs gs t] assms gs
    by (simp add: compute_geometry_def node')
  obtain R where R: "map_of gs t = Some R"
    using node'(1) gs(2) by (metis list.set_map weak_map_of_SomeI map_of_eq_None_iff not_None_eq)
  have floor: "case o' of
      Horizontal \<Rightarrow> MIN_PANE_ROWS \<le> rect_rows R \<and> MIN_PANE_COLS \<le> rect_cols R div 2
    | Vertical \<Rightarrow> MIN_PANE_ROWS \<le> rect_rows R div 2 \<and> MIN_PANE_COLS \<le> rect_cols R"
    using assms(6) R node'(1) gs(1)
    by (auto simp: split_def find_map_of not_less split: if_splits orientation.splits)
  obtain R1 R2 where R12: "map_of (expand t (halves o' t new) gs) t = Some R1"
      "map_of (expand t (halves o' t new) gs) new = Some R2"
      "case o' of
            Horizontal \<Rightarrow> rect_rows R1 = rect_rows R \<and> rect_rows R2 = rect_rows R
              \<and> rect_cols R1 = rect_cols R div 2 \<and> rect_cols R1 + rect_cols R2 = rect_cols R
          | Vertical \<Rightarrow> rect_cols R1 = rect_cols R \<and> rect_cols R2 = rect_cols R
              \<and> rect_rows R1 = rect_rows R div 2 \<and> rect_rows R1 + rect_rows R2 = rect_rows R"
    using map_of_expand_halves [OF scr R] assms(2,3) gs(2) by (metis set_map)
  have lv: "leaves node' = concat (map (\<lambda>i. if i = t then [t, new] else [i]) (leaves node))"
    by (simp only: node'(2) leaves_subst_leaf leaves_halves)
  have "distinct (concat (map (\<lambda>i. if i = t then [t, new] else [i]) xs))"
    if "distinct xs" "new \<notin> set xs" for xs using that by (induction xs) auto
  then have "distinct (leaves node')" using assms(2,3) by (simp add: lv)
  moreover have "wf_layout node'" using assms(1) by (simp add: node' wf_subst_leaf)
  moreover have "\<exists>R. map_of (expand t (halves o' t new) gs) i = Some R
      \<and> MIN_PANE_ROWS \<le> rect_rows R \<and> MIN_PANE_COLS \<le> rect_cols R" if "i = t \<or> i = new" for i
    using that R12 floor by (auto split: orientation.splits)
  ultimately show ?thesis using lv gs(1) gs' map_of_expand_other [OF scr] by blast
qed


theorem split_success_witness:
  "\<exists>node'. split (Leaf 1) 1 Vertical 2 24 80 = Some (Inr node') \<and> wf_layout node'
     \<and> leaves node' = [1, 2]"
proof -
  have s: "split (Leaf 1) 1 Vertical 2 24 80 =
      Some (Inr (Split Vertical [(Leaf 1, Fin (1 / 2)), (Leaf 2, Fin (1 / 2))]))"
    by code_simp
  show ?thesis using split_success [OF _ _ _ _ _ s] s by simp
qed

lemma split_value:
  assumes "wf_layout node" and "distinct (leaves node)" and "rs \<le> u16_max" and "cs \<le> u16_max"
  shows "split node t o' new rs cs = (if t \<notin> set (leaves node) then Some (Inl (PaneNotFound t))
    else (let R = the (map_of (the (compute_geometry node rs cs)) t);
              h = (case o' of Horizontal \<Rightarrow> rect_rows R | Vertical \<Rightarrow> rect_rows R div 2);
              w = (case o' of Horizontal \<Rightarrow> rect_cols R div 2 | Vertical \<Rightarrow> rect_cols R)
          in if h < 2 \<or> w < 10 then Some (Inl (BelowMinimumSize h w))
             else if o' = Horizontal \<and> h < 20 then Some (Inl (BelowRecommendedSize h))
             else Some (Inr (subst_leaf node t (halves o' t new)))))"
proof (cases "t \<in> set (leaves node)")
  case True
  obtain gs where gs: "compute_geometry node rs cs = Some gs" "map fst gs = leaves node"
    using compute_geometry_Some [OF assms(1,3,4)] by metis
  obtain R where R: "map_of gs t = Some R"
    using True gs(2) by (metis list.set_map map_of_eq_None_iff not_None_eq)
  show ?thesis using True gs R assms(2)
    by (cases o') (simp_all add: split_def find_map_of replace_leaf_subst halves_def
        MIN_PANE_ROWS_def MIN_PANE_COLS_def RECOMMENDED_SPLIT_MIN_ROWS_def)
qed (simp add: split_def)

text \<open>
  On a well-formed tree with distinct leaves \<open>split\<close> never panics, and each answer has exactly
  its documented cause: an unknown target, a half below the hard floor, a horizontal split of a
  pane shorter than the recommended height, or success.
\<close>

theorem split_outcome:
  assumes "wf_layout node" and "distinct (leaves node)" and "rs \<le> u16_max" and "cs \<le> u16_max"
  shows "split node t o' new rs cs = (if t \<notin> set (leaves node) then Some (Inl (PaneNotFound t))
    else (let R = the (map_of (the (compute_geometry node rs cs)) t);
              h = (case o' of Horizontal \<Rightarrow> rect_rows R | Vertical \<Rightarrow> rect_rows R div 2);
              w = (case o' of Horizontal \<Rightarrow> rect_cols R div 2 | Vertical \<Rightarrow> rect_cols R)
          in if h < 2 \<or> w < 10 then Some (Inl (BelowMinimumSize h w))
             else if o' = Horizontal \<and> h < 20 then Some (Inl (BelowRecommendedSize h))
             else Some (Inr (subst_leaf node t (halves o' t new)))))"
  by (rule split_value [OF assms])

theorem split_outcome_witness:
  "split (Leaf 7) 7 Horizontal 8 12 80 = Some (Inl (BelowRecommendedSize 12))"
proof -
  have g: "compute_geometry (Leaf 7) 12 80 =
      Some [(7, \<lparr>rect_row = 0, rect_col = 0, rect_rows = 12, rect_cols = 80\<rparr>)]"
    by (simp add: compute_geometry_def)
  show ?thesis by (subst split_outcome) (simp_all add: g)
qed

text \<open>
  Removing a leaf: the last pane of a window empties it; any other pane disappears from the
  tree, the remaining panes keep their order, and the tree stays well formed; an unknown pane
  changes nothing. The operation never panics on a well-formed tree.
\<close>

theorem remove_spec:
  assumes "wf_layout node" and "distinct (leaves node)"
  shows "if node = Leaf t then remove node t = Some WindowEmpty
    else \<exists>node'. remove node t = Some (Collapsed node') \<and> wf_layout node'
           \<and> leaves node' = filter (\<lambda>i. i \<noteq> t) (leaves node) \<and> (t \<notin> set (leaves node) \<longrightarrow> node' = node)"
proof (cases "node = Leaf t \<or> t \<in> set (leaves node)")
  case True
  then show ?thesis using remove_present [OF assms] by auto
next
  case False
  then have "filter (\<lambda>i. i \<noteq> t) (leaves node) = leaves node" by (auto intro: filter_True)
  then show ?thesis using remove_absent [OF assms(1)] assms(1) False by simp
qed

theorem remove_spec_witness:
  "\<exists>node'. remove (Split Vertical [(Leaf 7, Fin (1 / 2)), (Leaf 8, Fin (1 / 2))]) 7 = Some (Collapsed node')
     \<and> leaves node' = [8]"
  using remove_spec [of "Split Vertical [(Leaf 7, Fin (1 / 2)), (Leaf 8, Fin (1 / 2))]" 7]
  by (simp add: ratio_ok_def)

lemma remove_subst_halves:
  assumes "wf_layout node" and "distinct (leaves node)" and "new \<notin> set (leaves node)"
    and "t \<in> set (leaves node)"
  shows "remove (subst_leaf node t (halves o' t new)) new = Some (Collapsed node)"
  using assms
proof (induction node rule: wf_layout.induct)
  case (1 i)
  then show ?case by (auto simp: halves_def)
next
  case (2 o'' a p b q)
  let ?h = "halves o' t new"
  show ?case
  proof (cases "t \<in> set (leaves a)")
    case True
    then have "subst_leaf b t ?h = b" using 2 by (auto intro: subst_leaf_id)
    moreover have "new \<in> set (leaves (subst_leaf a t ?h))" using True by (auto simp: leaves_subst_leaf)
    moreover have "\<not> is_leaf (subst_leaf a t ?h)" using True by (cases a) (auto simp: halves_def)
    ultimately show ?thesis using 2 True by simp
  next
    case False
    then have "subst_leaf a t ?h = a" by (auto intro: subst_leaf_id)
    moreover have tb: "t \<in> set (leaves b)" using False 2 by auto
    moreover have "new \<in> set (leaves (subst_leaf b t ?h))" using tb by (auto simp: leaves_subst_leaf)
    moreover have "\<not> is_leaf (subst_leaf b t ?h)" using tb by (cases b) (auto simp: halves_def)
    ultimately show ?thesis using 2 False by simp
  qed
qed (simp_all only: wf_layout.simps)

text \<open>Closing the pane a split created restores the tree the split started from.\<close>

theorem split_remove_roundtrip:
  assumes "wf_layout node" and "distinct (leaves node)" and "new \<notin> set (leaves node)"
    and "split node t o' new rs cs = Some (Inr node')"
  shows "remove node' new = Some (Collapsed node)"
  using remove_subst_halves [OF assms(1-3)] split_InrD [OF assms(4,1,2)] by simp

theorem split_remove_roundtrip_witness:
  "\<exists>node'. split (Leaf 1) 1 Vertical 2 24 80 = Some (Inr node')
     \<and> remove node' 2 = Some (Collapsed (Leaf 1))"
proof -
  have s: "split (Leaf 1) 1 Vertical 2 24 80 =
      Some (Inr (Split Vertical [(Leaf 1, Fin (1 / 2)), (Leaf 2, Fin (1 / 2))]))"
    by code_simp
  show ?thesis using split_remove_roundtrip [OF _ _ _ s] s by simp
qed

end
