(* ===== verification/Replay.thy ===== *)
theory Replay
  imports Prelude
begin

text \<open>
  The per-pane replay buffer and its process-wide byte budget
  (\<open>crates/tymux-core/src/replay_buffer.rs\<close>). A sequence number is a \<open>u64\<close>; the buffer is a list of
  numbered chunks, oldest first. The locale \<open>chunk_log\<close> is what a pane relies on: each push keeps a
  non-empty suffix of what was pushed so far.
\<close>

section \<open>Data\<close>

type_synonym chunk = "u64 \<times> bytes"

definition MIN_REPLAY_BUFFER_BYTES :: usize where "MIN_REPLAY_BUFFER_BYTES = 16 * 1024"
definition DEFAULT_REPLAY_BUFFER_BYTES :: usize where "DEFAULT_REPLAY_BUFFER_BYTES = 256 * 1024"
definition GLOBAL_REPLAY_BUFFER_BUDGET_BYTES :: usize where
  "GLOBAL_REPLAY_BUFFER_BUDGET_BYTES = 64 * 1024 * 1024"

datatype replay_outcome =
    InWindow "chunk list" u64
  | GapExceeded "u64 option"

record replay_buffer =
  rb_entries :: "chunk list"
  rb_total_bytes :: usize
  rb_budget_bytes :: usize

section \<open>Operations\<close>

definition rb_new :: "usize \<Rightarrow> replay_buffer" where
  "rb_new budget_bytes = \<lparr>rb_entries = [], rb_total_bytes = 0, rb_budget_bytes = budget_bytes\<rparr>"

text \<open>The eviction loop of \<open>push\<close>; \<open>total_bytes -= evicted.len()\<close> is a checked subtraction.\<close>

fun evict_loop :: "chunk list \<Rightarrow> usize \<Rightarrow> usize \<Rightarrow> (chunk list \<times> usize) option" where
  "evict_loop ((s, d) # e # es) tot budget =
     (if tot > budget
      then (case checked_sub tot (length d) of
              None \<Rightarrow> None
            | Some tot' \<Rightarrow> evict_loop (e # es) tot' budget)
      else Some ((s, d) # e # es, tot))"
| "evict_loop es tot budget = Some (es, tot)"

definition rb_push :: "replay_buffer \<Rightarrow> u64 \<Rightarrow> bytes \<Rightarrow> replay_buffer option" where
  "rb_push b sq dat =
     (case evict_loop (rb_entries b @ [(sq, dat)]) (rb_total_bytes b + length dat) (rb_budget_bytes b) of
        None \<Rightarrow> None
      | Some (es, tot) \<Rightarrow> Some (b\<lparr>rb_entries := es, rb_total_bytes := tot\<rparr>))"

definition oldest_seq :: "replay_buffer \<Rightarrow> u64 option" where
  "oldest_seq b = (case rb_entries b of [] \<Rightarrow> None | (sq, _) # _ \<Rightarrow> Some sq)"

definition replay_since :: "replay_buffer \<Rightarrow> u64 \<Rightarrow> u64 \<Rightarrow> replay_outcome" where
  "replay_since b resume_from_seq latest_seq =
     (if resume_from_seq > latest_seq then GapExceeded (oldest_seq b)
      else let available_from = (case oldest_seq b of None \<Rightarrow> latest_seq | Some s \<Rightarrow> s) in
        if resume_from_seq \<ge> available_from
        then InWindow (filter (\<lambda>(s, _). s > resume_from_seq \<and> s \<le> latest_seq) (rb_entries b)) latest_seq
        else GapExceeded (oldest_seq b))"

section \<open>The global budget\<close>

text \<open>
  \<open>allocate_replay_budget\<close> reads the counter and adds to it in two separate atomic operations:
  \<open>grant_for\<close> is what it computes from the value it read.
\<close>

definition grant_for :: "usize \<Rightarrow> usize" where
  "grant_for used = min DEFAULT_REPLAY_BUFFER_BYTES
     (saturating_sub GLOBAL_REPLAY_BUFFER_BUDGET_BYTES used)"

definition allocate_replay_budget :: "usize \<Rightarrow> usize \<times> usize" where
  "allocate_replay_budget used = (let granted = grant_for used in (granted, used + granted))"

definition release_replay_budget :: "usize \<Rightarrow> usize \<Rightarrow> usize" where
  "release_replay_budget used n = used - n"

text \<open>Threads interleave between the load and the add.\<close>

record budget_state =
  used_bytes :: usize
  loaded :: "nat \<rightharpoonup> usize"

inductive budget_step :: "budget_state \<Rightarrow> budget_state \<Rightarrow> bool" where
  load: "loaded s i = None \<Longrightarrow> budget_step s (s\<lparr>loaded := (loaded s)(i \<mapsto> used_bytes s)\<rparr>)"
| add: "loaded s i = Some v \<Longrightarrow>
     budget_step s (s\<lparr>used_bytes := used_bytes s + grant_for v, loaded := (loaded s)(i := None)\<rparr>)"

section \<open>The buffer keeps a suffix of the output\<close>

definition entry_bytes :: "chunk list \<Rightarrow> nat" where
  "entry_bytes es = sum_list (map (\<lambda>(_, d). length d) es)"

definition rb_inv :: "replay_buffer \<Rightarrow> bool" where
  "rb_inv b \<longleftrightarrow> rb_total_bytes b = entry_bytes (rb_entries b)
     \<and> (rb_total_bytes b \<le> rb_budget_bytes b \<or> length (rb_entries b) = 1)"

lemma entry_bytes_simps [simp]:
  "entry_bytes [] = 0" "entry_bytes ((s, d) # es) = length d + entry_bytes es"
  "entry_bytes (xs @ ys) = entry_bytes xs + entry_bytes ys"
  by (simp_all add: entry_bytes_def)

lemma evict_loop_spec:
  "t = entry_bytes es \<Longrightarrow> \<exists>es' tot. evict_loop es t budget = Some (es', tot) \<and>
     suffix es' es \<and> tot = entry_bytes es' \<and> (es \<noteq> [] \<longrightarrow> es' \<noteq> [])
     \<and> (tot \<le> budget \<or> length es' \<le> 1)"
proof (induction es t budget rule: evict_loop.induct)
  case (1 s d e es t budget)
  show ?case
  proof (cases "budget < t")
    case True
    have "checked_sub t (length d) = Some (entry_bytes (e # es))"
      using 1(2) by (simp add: arith_defs)
    then show ?thesis using True 1(1) [OF True, of "entry_bytes (e # es)"]
      by (auto simp: suffix_Cons)
  qed (use 1 in auto)
qed auto

lemma rb_push_spec:
  assumes "rb_inv b"
  shows "\<exists>b'. rb_push b s d = Some b' \<and> rb_inv b' \<and> rb_budget_bytes b' = rb_budget_bytes b
    \<and> rb_entries b' \<noteq> [] \<and> suffix (rb_entries b') (rb_entries b @ [(s, d)])"
proof -
  let ?es = "rb_entries b @ [(s, d)]"
  have t: "rb_total_bytes b + length d = entry_bytes ?es" using assms by (simp add: rb_inv_def)
  obtain es' tot where e: "evict_loop ?es (rb_total_bytes b + length d) (rb_budget_bytes b) = Some (es', tot)"
      "suffix es' ?es" "tot = entry_bytes es'" "es' \<noteq> []" "tot \<le> rb_budget_bytes b \<or> length es' \<le> 1"
    using evict_loop_spec [OF t, of "rb_budget_bytes b"] by blast
  have "length es' \<le> 1 \<Longrightarrow> length es' = 1" using e(4) by (cases es') auto
  with e show ?thesis by (simp add: rb_push_def rb_inv_def) blast
qed

lemma rb_push_SomeD:
  assumes "rb_inv b" and "rb_push b s d = Some b'"
  shows "rb_inv b'" "rb_budget_bytes b' = rb_budget_bytes b" "rb_entries b' \<noteq> []"
    "suffix (rb_entries b') (rb_entries b @ [(s, d)])"
  using rb_push_spec [OF assms(1), of s d] assms(2) by (force simp del: suffix_snoc)+

locale chunk_log =
  fixes empty :: 'b
    and push :: "'b \<Rightarrow> u64 \<Rightarrow> bytes \<Rightarrow> 'b option"
    and kept :: "'b \<Rightarrow> chunk list"
    and inv :: "'b \<Rightarrow> bool"
  assumes inv_empty: "inv empty"
    and kept_empty: "kept empty = []"
    and push_total: "inv b \<Longrightarrow> \<exists>b'. push b s d = Some b'"
    and push_inv: "inv b \<Longrightarrow> push b s d = Some b' \<Longrightarrow> inv b'"
    and push_suffix: "inv b \<Longrightarrow> push b s d = Some b' \<Longrightarrow> suffix (kept b') (kept b @ [(s, d)])"
    and push_nonempty: "inv b \<Longrightarrow> push b s d = Some b' \<Longrightarrow> kept b' \<noteq> []"
begin

primrec push_all :: "'b \<Rightarrow> chunk list \<Rightarrow> 'b option" where
  "push_all b [] = Some b"
| "push_all b (c # cs) = (case push b (fst c) (snd c) of None \<Rightarrow> None | Some b' \<Rightarrow> push_all b' cs)"

lemma push_all_from:
  assumes "inv b" and "suffix (kept b) hist"
  shows "\<exists>b'. push_all b cs = Some b' \<and> inv b' \<and> suffix (kept b') (hist @ cs)
    \<and> (cs \<noteq> [] \<longrightarrow> kept b' \<noteq> [])"
  using assms
proof (induction cs arbitrary: b hist)
  case (Cons c cs)
  obtain s d where c: "c = (s, d)" by force
  obtain b1 where b1: "push b s d = Some b1" using push_total [OF Cons.prems(1)] by blast
  have "suffix (kept b1) (kept b @ [(s, d)])" by (rule push_suffix [OF Cons.prems(1) b1])
  also have "suffix (kept b @ [(s, d)]) (hist @ [(s, d)])"
    using Cons.prems(2) by (auto simp: suffix_def)
  finally obtain b' where "push_all b1 cs = Some b'" "inv b'" "suffix (kept b') ((hist @ [(s, d)]) @ cs)"
      "cs \<noteq> [] \<longrightarrow> kept b' \<noteq> []"
    using Cons.IH [OF push_inv [OF Cons.prems(1) b1]] by blast
  then show ?case using b1 push_nonempty [OF Cons.prems(1) b1] by (cases cs) (auto simp: c)
qed simp

lemma push_all_suffix:
  "\<exists>b. push_all empty cs = Some b \<and> inv b \<and> suffix (kept b) cs \<and> (cs \<noteq> [] \<longrightarrow> kept b \<noteq> [])"
  using push_all_from [OF inv_empty, of "[]" cs] by (simp add: kept_empty)

end

text \<open>The replay buffer of any budget is such a log.\<close>

fun rb_push_all :: "replay_buffer \<Rightarrow> chunk list \<Rightarrow> replay_buffer option" where
  "rb_push_all b [] = Some b"
| "rb_push_all b ((s, d) # cs) = (case rb_push b s d of None \<Rightarrow> None | Some b' \<Rightarrow> rb_push_all b' cs)"

definition rb_inv_at :: "usize \<Rightarrow> replay_buffer \<Rightarrow> bool" where
  "rb_inv_at budget b \<longleftrightarrow> rb_inv b \<and> rb_budget_bytes b = budget"

interpretation rb: chunk_log "rb_new budget" rb_push rb_entries "rb_inv_at budget" for budget
proof unfold_locales
  show "rb_inv_at budget (rb_new budget)" by (simp add: rb_inv_at_def rb_inv_def rb_new_def)
  show "rb_entries (rb_new budget) = []" by (simp add: rb_new_def)
  show "\<exists>b'. rb_push b s d = Some b'" if "rb_inv_at budget b" for b s d
    using rb_push_spec that by (fastforce simp: rb_inv_at_def)
qed ((unfold rb_inv_at_def)?, blast dest: rb_push_SomeD)+

lemma rb_push_all_eq: "rb.push_all b cs = rb_push_all b cs"
  by (induction cs arbitrary: b) (auto split: option.splits)

lemma rb_push_all_suffix:
  "\<exists>b. rb_push_all (rb_new budget) cs = Some b \<and> rb_inv b \<and> rb_budget_bytes b = budget
     \<and> suffix (rb_entries b) cs \<and> (cs \<noteq> [] \<longrightarrow> rb_entries b \<noteq> [])"
  using rb.push_all_suffix [of budget cs] by (auto simp: rb_push_all_eq rb_inv_at_def)

text \<open>The output of a pane: chunks numbered without a gap from 1.\<close>

definition numbered :: "bytes list \<Rightarrow> chunk list" where
  "numbered ds = List.enumerate 1 ds"

lemma numbered_suffix:
  assumes "suffix es (numbered ds)"
  shows "es = drop (length ds - length es) (numbered ds)" and "length es \<le> length ds"
proof -
  obtain ys where ys: "numbered ds = ys @ es" using assms by (auto simp: suffix_def)
  have "length (numbered ds) = length ds" by (simp add: numbered_def)
  then have l: "length ds = length ys + length es" using ys by (metis length_append)
  then show "length es \<le> length ds" by simp
  show "es = drop (length ds - length es) (numbered ds)" using l by (simp add: ys)
qed

lemma numbered_nth: "n < length ds \<Longrightarrow> numbered ds ! n = (Suc n, ds ! n)"
  by (simp add: numbered_def nth_enumerate_eq)

lemma filter_numbered_suffix:
  assumes "suffix es (numbered ds)" and "es \<noteq> []" and "fst (hd es) \<le> Suc k"
  shows "filter (\<lambda>(s, _). s > k \<and> s \<le> m) es = filter (\<lambda>(s, _). s > k \<and> s \<le> m) (numbered ds)"
proof -
  obtain ys where ys: "numbered ds = ys @ es" using assms by (auto simp: suffix_def)
  have len: "length (numbered ds) = length ds" by (simp add: numbered_def)
  have ly: "length ys < length ds" using ys assms(2) len by (metis length_append length_greater_0_conv less_add_same_cancel1)
  have "hd es = numbered ds ! length ys" using ys assms(2) by (simp add: nth_append hd_conv_nth)
  then have h: "fst (hd es) = Suc (length ys)" using numbered_nth [OF ly] by simp
  have "\<forall>x\<in>set ys. fst x \<le> length ys"
  proof
    fix x assume "x \<in> set ys"
    then obtain n where n: "n < length ys" "x = ys ! n" by (auto simp: in_set_conv_nth)
    then have "x = numbered ds ! n" using ys by (simp add: nth_append)
    then show "fst x \<le> length ys" using n numbered_nth [of n ds] ly by simp
  qed
  then have "filter (\<lambda>(s, _). s > k \<and> s \<le> m) ys = []" using h assms(3) by (fastforce simp: filter_empty_conv)
  then show ?thesis by (simp add: ys)
qed

section \<open>Properties\<close>





text \<open>
  Allocations that run one after another respect the process-wide cap: each pane gets what is
  left of it, at most the default, and the tot in use never passes it.
\<close>

theorem allocate_sequential_cap:
  assumes "used \<le> GLOBAL_REPLAY_BUFFER_BUDGET_BYTES"
  shows "snd (allocate_replay_budget used) \<le> GLOBAL_REPLAY_BUFFER_BUDGET_BYTES
    \<and> fst (allocate_replay_budget used) = min DEFAULT_REPLAY_BUFFER_BYTES (GLOBAL_REPLAY_BUFFER_BUDGET_BYTES - used)
    \<and> release_replay_budget (snd (allocate_replay_budget used)) (fst (allocate_replay_budget used)) = used"
  using assms by (auto simp: allocate_replay_budget_def grant_for_def release_replay_budget_def arith_defs Let_def)

theorem allocate_sequential_cap_witness:
  "allocate_replay_budget (64 * 1024 * 1024) = (0, 64 * 1024 * 1024)"
  using allocate_sequential_cap [of "64 * 1024 * 1024"]
  by (simp add: GLOBAL_REPLAY_BUFFER_BUDGET_BYTES_def prod_eq_iff allocate_replay_budget_def grant_for_def arith_defs)

text \<open>
  Concurrent allocations do not: two threads that both read the counter before either adds to
  it are granted the same remaining bytes, and the tot in use passes the cap.
\<close>

theorem allocate_race_exceeds_cap:
  "\<exists>s. budget_step\<^sup>*\<^sup>* \<lparr>used_bytes = 64 * 1024 * 1024 - 256 * 1024, loaded = Map.empty\<rparr> s
     \<and> used_bytes s > GLOBAL_REPLAY_BUFFER_BUDGET_BYTES"
proof -
  define u :: nat where "u = 64 * 1024 * 1024 - 256 * 1024"
  define g where "g = grant_for u"
  have g: "g = 256 * 1024"
    by (simp add: g_def u_def grant_for_def arith_defs DEFAULT_REPLAY_BUFFER_BYTES_def GLOBAL_REPLAY_BUFFER_BUDGET_BYTES_def)
  let ?s0 = "\<lparr>used_bytes = u, loaded = Map.empty\<rparr>"
  let ?s1 = "\<lparr>used_bytes = u, loaded = [0 \<mapsto> u]\<rparr>"
  let ?s2 = "\<lparr>used_bytes = u, loaded = [0 \<mapsto> u, 1 \<mapsto> u]\<rparr>"
  let ?s3 = "\<lparr>used_bytes = u + g, loaded = (loaded ?s2)(0 := None)\<rparr>"
  let ?s4 = "\<lparr>used_bytes = u + g + g, loaded = (loaded ?s3)(1 := None)\<rparr>"
  have "budget_step ?s0 ?s1" using budget_step.load [of ?s0 0] by simp
  moreover have "budget_step ?s1 ?s2" using budget_step.load [of ?s1 1] by simp
  moreover have "budget_step ?s2 ?s3" using budget_step.add [of ?s2 0 u] by (simp add: g_def)
  moreover have "budget_step ?s3 ?s4" using budget_step.add [of ?s3 1 u] by (simp add: g_def)
  ultimately have "budget_step\<^sup>*\<^sup>* ?s0 ?s4" by (meson converse_rtranclp_into_rtranclp rtranclp.rtrancl_refl)
  moreover have "used_bytes ?s4 > GLOBAL_REPLAY_BUFFER_BUDGET_BYTES"
    by (simp add: g u_def GLOBAL_REPLAY_BUFFER_BUDGET_BYTES_def)
  ultimately show ?thesis unfolding u_def by blast
qed

text \<open>
  A pane granted no budget at all still keeps its newest chunk, and a client that has already
  seen it resumes in the window.
\<close>

theorem zero_budget_keeps_newest:
  assumes "ds \<noteq> []"
  shows "\<exists>b. rb_push_all (rb_new 0) (numbered ds) = Some b
     \<and> last (numbered ds) \<in> set (rb_entries b)
     \<and> replay_since b (length ds) (length ds) = InWindow [] (length ds)"
proof -
  obtain b where b: "rb_push_all (rb_new 0) (numbered ds) = Some b" "suffix (rb_entries b) (numbered ds)"
      "numbered ds \<noteq> [] \<longrightarrow> rb_entries b \<noteq> []"
    using rb_push_all_suffix [of 0 "numbered ds"] by blast
  have n: "length (numbered ds) = length ds" by (simp add: numbered_def)
  then have n': "numbered ds \<noteq> []" using assms by force
  have l: "last (rb_entries b) = last (numbered ds)" using b n' by (auto simp: suffix_def)
  obtain ys where ys: "numbered ds = ys @ rb_entries b" using b(2) by (auto simp: suffix_def)
  have bound: "\<forall>x\<in>set (numbered ds). fst x \<le> length ds"
    by (auto simp: numbered_def in_set_enumerate_eq)
  have "replay_since b (length ds) (length ds) = InWindow [] (length ds)"
  proof (cases "rb_entries b")
    case Nil
    with b n' show ?thesis by simp
  next
    case (Cons e es)
    obtain s d where e: "e = (s, d)" by force
    have "s \<le> length ds" using bound ys Cons e by force
    moreover have "\<forall>x\<in>set (rb_entries b). fst x \<le> length ds" using bound ys by auto
    ultimately show ?thesis using Cons e
      by (auto simp: replay_since_def oldest_seq_def filter_empty_conv not_less)
  qed
  with b n' l show ?thesis by (metis last_in_set)
qed

theorem zero_budget_keeps_newest_witness:
  "\<exists>b. rb_push_all (rb_new 0) (numbered [[65]]) = Some b \<and> rb_entries b \<noteq> []"
  using zero_budget_keeps_newest [of "[[65]]"] by auto

end
