(* ===== verification/Restart.thy ===== *)
theory Restart
  imports Floats
begin

text \<open>
  Restart policy and the per-pane lifecycle state machine (\<open>crates/tymux-core/src/restart.rs\<close>). The
  source is pure: callers pass the time in milliseconds and a jitter sample. \<open>f64::powi\<close>, whose
  precision the standard library leaves unspecified, is an argument \<open>pw\<close> of the operations that
  reach it.
\<close>

section \<open>Data\<close>

datatype restart_mode = Never | OnFailure | Always | UnlessStopped

record restart_policy =
  rp_mode :: restart_mode
  rp_max_restarts :: u32
  rp_window_ms :: u64
  rp_initial_delay_ms :: u64
  rp_multiplier :: fp
  rp_max_delay_ms :: u64
  rp_jitter :: fp
  rp_healthy_after_ms :: u64

definition default_policy :: restart_policy where
  "default_policy = \<lparr>rp_mode = Never, rp_max_restarts = 5, rp_window_ms = 60000,
     rp_initial_delay_ms = 1000, rp_multiplier = Fin 2, rp_max_delay_ms = 30000,
     rp_jitter = fround binary64 (1 / 5), rp_healthy_after_ms = 10000\<rparr>"

text \<open>The error strings of \<open>validate\<close>, by the values they print.\<close>

datatype policy_error = BadMultiplier fp | BadJitter fp | BadDelays u64 u64

definition policy_validate :: "restart_policy \<Rightarrow> policy_error + unit" where
  "policy_validate p =
     (if \<not> is_finite (rp_multiplier p) \<or> flt (rp_multiplier p) (Fin 1)
      then Inl (BadMultiplier (rp_multiplier p))
      else if \<not> is_finite (rp_jitter p) \<or> \<not> (fle (Fin 0) (rp_jitter p) \<and> fle (rp_jitter p) (Fin 1))
      then Inl (BadJitter (rp_jitter p))
      else if rp_max_delay_ms p < rp_initial_delay_ms p
      then Inl (BadDelays (rp_max_delay_ms p) (rp_initial_delay_ms p))
      else Inr ())"

type_synonym powi_fun = "fp \<Rightarrow> nat \<Rightarrow> fp"

definition delay_ms :: "powi_fun \<Rightarrow> restart_policy \<Rightarrow> u32 \<Rightarrow> fp \<Rightarrow> u64" where
  "delay_ms pw p consecutive_failures unit =
     (if rp_initial_delay_ms p = 0 then 0
      else let n = min consecutive_failures 1024;
               base = fmin (fmul binary64 (of_uint binary64 (rp_initial_delay_ms p)) (pw (rp_multiplier p) n))
                           (of_uint binary64 (rp_max_delay_ms p));
               jittered = fmul binary64 base (fadd binary64 (Fin 1)
                 (fmul binary64 (rp_jitter p)
                   (fsub binary64 (fmul binary64 (Fin 2) (fclamp unit (Fin 0) (Fin 1))) (Fin 1))))
           in to_uint u64_max (fround_int (fclamp jittered (Fin 0) (of_uint binary64 (rp_max_delay_ms p)))))"

datatype lifecycle_state = Live | Exited | Backoff | Restarting | Failed | Stopped

definition state_restart_pending :: "lifecycle_state \<Rightarrow> bool" where
  "state_restart_pending st \<longleftrightarrow> st = Backoff \<or> st = Restarting"

record exit_record =
  er_code :: "i32 option"
  er_signal :: "i32 option"
  er_at_ms :: u64

datatype exit_kind =
    NotRestarted
  | Scheduled u64 u64
  | ManualRestart
  | BudgetFailed
  | OperatorStopped

record persisted_restart_state =
  pr_policy :: restart_policy
  pr_state :: lifecycle_state
  pr_restart_count :: u32
  pr_restart_log_ms :: "u64 list"
  pr_consecutive_failures :: u32
  pr_last_exit :: "exit_record option"

record pane_status_view =
  sv_state :: lifecycle_state
  sv_policy :: restart_policy
  sv_restart_count :: u32
  sv_restarts_in_window :: u32
  sv_consecutive_failures :: u32
  sv_last_exit :: "exit_record option"
  sv_next_restart_at_ms :: "u64 option"
  sv_started_at_ms :: "u64 option"

record pane_supervisor =
  ps_policy :: restart_policy
  ps_state :: lifecycle_state
  ps_restart_count :: u32
  ps_restart_log :: "u64 list"
  ps_consecutive_failures :: u32
  ps_started_at_ms :: "u64 option"
  ps_last_exit :: "exit_record option"
  ps_next_restart_at_ms :: "u64 option"
  ps_stop_requested :: bool
  ps_restart_requested :: bool

text \<open>What a client watching a pane is told.\<close>

datatype lifecycle_event_kind = EvExited | EvRestartScheduled | EvRestarted | EvFailed | EvStopped

record lifecycle_event =
  ev_kind :: lifecycle_event_kind
  ev_state :: lifecycle_state
  ev_exit_code :: "i32 option"
  ev_exit_signal :: "i32 option"
  ev_delay_ms :: "u64 option"
  ev_next_restart_at_ms :: "u64 option"
  ev_pid :: "u32 option"
  ev_restart_count :: u32
  ev_at_ms :: u64

section \<open>Operations\<close>

definition sup_new :: "restart_policy \<Rightarrow> pane_supervisor" where
  "sup_new policy = \<lparr>ps_policy = policy, ps_state = Exited, ps_restart_count = 0, ps_restart_log = [],
     ps_consecutive_failures = 0, ps_started_at_ms = None, ps_last_exit = None,
     ps_next_restart_at_ms = None, ps_stop_requested = False, ps_restart_requested = False\<rparr>"

definition sup_restore :: "persisted_restart_state \<Rightarrow> pane_supervisor" where
  "sup_restore p = \<lparr>ps_policy = pr_policy p,
     ps_state = (case pr_state p of Stopped \<Rightarrow> Stopped | Failed \<Rightarrow> Failed | _ \<Rightarrow> Exited),
     ps_restart_count = pr_restart_count p, ps_restart_log = pr_restart_log_ms p,
     ps_consecutive_failures = pr_consecutive_failures p, ps_started_at_ms = None,
     ps_last_exit = pr_last_exit p, ps_next_restart_at_ms = None,
     ps_stop_requested = False, ps_restart_requested = False\<rparr>"

definition sup_persisted :: "pane_supervisor \<Rightarrow> persisted_restart_state" where
  "sup_persisted s = \<lparr>pr_policy = ps_policy s, pr_state = ps_state s,
     pr_restart_count = ps_restart_count s, pr_restart_log_ms = ps_restart_log s,
     pr_consecutive_failures = ps_consecutive_failures s, pr_last_exit = ps_last_exit s\<rparr>"

definition restart_pending :: "pane_supervisor \<Rightarrow> bool" where
  "restart_pending s = state_restart_pending (ps_state s)"

definition window_start :: "pane_supervisor \<Rightarrow> u64 \<Rightarrow> u64" where
  "window_start s now = (if rp_window_ms (ps_policy s) = 0 then 0
     else saturating_sub now (rp_window_ms (ps_policy s)))"

definition restarts_in_window :: "pane_supervisor \<Rightarrow> u64 \<Rightarrow> nat" where
  "restarts_in_window s now = length (filter (\<lambda>t. t > window_start s now) (ps_restart_log s))"

definition sup_status :: "pane_supervisor \<Rightarrow> u64 \<Rightarrow> pane_status_view" where
  "sup_status s now = \<lparr>sv_state = ps_state s, sv_policy = ps_policy s,
     sv_restart_count = ps_restart_count s, sv_restarts_in_window = restarts_in_window s now,
     sv_consecutive_failures = ps_consecutive_failures s, sv_last_exit = ps_last_exit s,
     sv_next_restart_at_ms = ps_next_restart_at_ms s, sv_started_at_ms = ps_started_at_ms s\<rparr>"

definition on_started :: "pane_supervisor \<Rightarrow> u64 \<Rightarrow> pane_supervisor" where
  "on_started s now = s\<lparr>ps_state := Live, ps_started_at_ms := Some now, ps_next_restart_at_ms := None,
     ps_stop_requested := False, ps_restart_requested := False\<rparr>"

definition mode_wants_restart :: "restart_mode \<Rightarrow> i32 option \<Rightarrow> bool" where
  "mode_wants_restart mode code = (case mode of
     Never \<Rightarrow> False | OnFailure \<Rightarrow> code \<noteq> Some 0 | Always \<Rightarrow> True | UnlessStopped \<Rightarrow> True)"

definition after_failure :: "powi_fun \<Rightarrow> pane_supervisor \<Rightarrow> u64 \<Rightarrow> i32 option \<Rightarrow> u64 option \<Rightarrow> fp
    \<Rightarrow> exit_kind \<times> pane_supervisor" where
  "after_failure pw s now code ran_for unit =
     (if \<not> mode_wants_restart (rp_mode (ps_policy s)) code
      then (NotRestarted, s\<lparr>ps_state := Exited\<rparr>)
      else
        let s1 = (if (case ran_for of None \<Rightarrow> False | Some d \<Rightarrow> d \<ge> rp_healthy_after_ms (ps_policy s))
                  then s\<lparr>ps_consecutive_failures := 0\<rparr> else s);
            s2 = s1\<lparr>ps_restart_log := dropWhile (\<lambda>t. t \<le> window_start s1 now) (ps_restart_log s1)\<rparr>
        in if length (ps_restart_log s2) \<ge> rp_max_restarts (ps_policy s2)
           then (BudgetFailed, s2\<lparr>ps_state := Failed\<rparr>)
           else
             let delay = delay_ms pw (ps_policy s2) (ps_consecutive_failures s2) unit;
                 at_ms = saturating_add u64_max now delay
             in (Scheduled delay at_ms,
                 s2\<lparr>ps_consecutive_failures := saturating_add u32_max (ps_consecutive_failures s2) 1,
                    ps_state := Backoff, ps_next_restart_at_ms := Some at_ms\<rparr>))"

definition on_exit :: "powi_fun \<Rightarrow> pane_supervisor \<Rightarrow> u64 \<Rightarrow> i32 option \<Rightarrow> i32 option \<Rightarrow> fp
    \<Rightarrow> exit_kind \<times> pane_supervisor" where
  "on_exit pw s now code sig unit =
     (let ran_for = map_option (\<lambda>t. saturating_sub now t) (ps_started_at_ms s);
          s1 = s\<lparr>ps_last_exit := Some \<lparr>er_code = code, er_signal = sig, er_at_ms = now\<rparr>,
                 ps_started_at_ms := None, ps_next_restart_at_ms := None\<rparr>
      in if ps_stop_requested s1
         then (OperatorStopped, s1\<lparr>ps_stop_requested := False, ps_restart_requested := False, ps_state := Stopped\<rparr>)
         else if ps_restart_requested s1
         then (ManualRestart, s1\<lparr>ps_restart_requested := False, ps_state := Restarting, ps_next_restart_at_ms := Some now\<rparr>)
         else after_failure pw s1 now code ran_for unit)"

definition on_spawn_failed :: "powi_fun \<Rightarrow> pane_supervisor \<Rightarrow> u64 \<Rightarrow> fp \<Rightarrow> exit_kind \<times> pane_supervisor" where
  "on_spawn_failed pw s now unit =
     after_failure pw (s\<lparr>ps_started_at_ms := None, ps_next_restart_at_ms := None\<rparr>) now None None unit"

definition due :: "pane_supervisor \<Rightarrow> u64 \<Rightarrow> bool" where
  "due s now \<longleftrightarrow> restart_pending s
     \<and> (case ps_next_restart_at_ms s of None \<Rightarrow> False | Some t \<Rightarrow> t \<le> now)"

definition begin_restart :: "pane_supervisor \<Rightarrow> u64 \<Rightarrow> bool \<Rightarrow> pane_supervisor" where
  "begin_restart s now automatic =
     (let s1 = s\<lparr>ps_restart_count := saturating_add u32_max (ps_restart_count s) 1\<rparr>;
          s2 = (if automatic then s1\<lparr>ps_restart_log := ps_restart_log s1 @ [now]\<rparr> else s1)
      in s2\<lparr>ps_next_restart_at_ms := None, ps_state := Restarting\<rparr>)"

definition schedule_manual_restart_now :: "pane_supervisor \<Rightarrow> u64 \<Rightarrow> pane_supervisor" where
  "schedule_manual_restart_now s now = s\<lparr>ps_stop_requested := False, ps_restart_requested := False,
     ps_state := Restarting, ps_next_restart_at_ms := Some now\<rparr>"

definition request_stop :: "pane_supervisor \<Rightarrow> bool \<times> pane_supervisor" where
  "request_stop s =
     (let s1 = s\<lparr>ps_restart_requested := False, ps_next_restart_at_ms := None\<rparr>;
          process_running = ((ps_state s1 = Live \<or> ps_state s1 = Restarting) \<and> ps_started_at_ms s1 \<noteq> None
                             \<or> ps_stop_requested s1);
          s2 = (if process_running then s1\<lparr>ps_stop_requested := True\<rparr> else s1)
      in (process_running, s2\<lparr>ps_state := Stopped\<rparr>))"

definition request_restart :: "pane_supervisor \<Rightarrow> bool \<Rightarrow> bool \<times> pane_supervisor" where
  "request_restart s reset_backoff =
     (let s1 = (if reset_backoff then s\<lparr>ps_consecutive_failures := 0, ps_restart_log := []\<rparr> else s);
          s2 = s1\<lparr>ps_stop_requested := False\<rparr>;
          process_running = (ps_started_at_ms s2 \<noteq> None)
      in (process_running,
          if process_running then s2\<lparr>ps_restart_requested := True, ps_state := Restarting\<rparr> else s2))"

definition reset_for_start :: "pane_supervisor \<Rightarrow> pane_supervisor" where
  "reset_for_start s = s\<lparr>ps_consecutive_failures := 0, ps_restart_log := [], ps_stop_requested := False,
     ps_restart_requested := False, ps_next_restart_at_ms := None\<rparr>"

definition reset_budget :: "pane_supervisor \<Rightarrow> pane_supervisor" where
  "reset_budget s =
     (let s1 = s\<lparr>ps_consecutive_failures := 0, ps_restart_log := []\<rparr>
      in if ps_state s1 = Failed then s1\<lparr>ps_state := Exited\<rparr> else s1)"

definition set_policy :: "pane_supervisor \<Rightarrow> restart_policy \<Rightarrow> pane_supervisor" where
  "set_policy s policy =
     (let s1 = s\<lparr>ps_policy := policy\<rparr>
      in if ps_state s1 = Backoff
            \<and> \<not> mode_wants_restart (rp_mode policy) (Option.bind (ps_last_exit s1) er_code)
         then s1\<lparr>ps_state := Exited, ps_next_restart_at_ms := None\<rparr>
         else s1)"

section \<open>The lifecycle as a transition system\<close>

text \<open>
  One rule per thing \<open>supervision.rs\<close> does to a supervisor under its lock. A respawn is one step:
  \<open>do_respawn\<close> begins the restart and then records that the process started or that the spawn
  failed without releasing the lock. The last two rules are the requests that \<open>do_respawn\<close> refuses
  because the entry has no pane.
\<close>

inductive sup_step :: "powi_fun \<Rightarrow> pane_supervisor \<Rightarrow> pane_supervisor \<Rightarrow> bool" for pw where
  exit: "ps_started_at_ms s \<noteq> None \<Longrightarrow> sup_step pw s (snd (on_exit pw s now code sig unit))"
| respawn_ok: "ps_started_at_ms s = None \<Longrightarrow>
     sup_step pw s (on_started (begin_restart s now automatic) now)"
| respawn_failed: "ps_started_at_ms s = None \<Longrightarrow>
     sup_step pw s (snd (on_spawn_failed pw (begin_restart s now automatic) now unit))"
| start_ok: "ps_started_at_ms s = None \<Longrightarrow>
     sup_step pw s (on_started (begin_restart (reset_for_start s) now False) now)"
| start_failed: "ps_started_at_ms s = None \<Longrightarrow>
     sup_step pw s (snd (on_spawn_failed pw (begin_restart (reset_for_start s) now False) now unit))"
| adopt: "ps_started_at_ms s = None \<Longrightarrow> sup_step pw s (on_started (reset_for_start s) now)"
| stop: "sup_step pw s (snd (request_stop s))"
| restart_live: "request_restart s reset = (True, s') \<Longrightarrow> sup_step pw s s'"
| restart_unpublished: "request_restart s reset = (False, s') \<Longrightarrow>
     sup_step pw s (schedule_manual_restart_now s' now)"
| restart_dead: "request_restart s reset = (False, s') \<Longrightarrow>
     sup_step pw s (on_started (begin_restart s' now False) now)"
| restart_dead_failed: "request_restart s reset = (False, s') \<Longrightarrow>
     sup_step pw s (snd (on_spawn_failed pw (begin_restart s' now False) now unit))"
| budget: "sup_step pw s (reset_budget s)"
| policy: "sup_step pw s (set_policy s p)"
| restart_refused: "request_restart s reset = (False, s') \<Longrightarrow> sup_step pw s s'"
| start_refused: "ps_started_at_ms s = None \<Longrightarrow> \<not> restart_pending s \<Longrightarrow> sup_step pw s (reset_for_start s)"

inductive sup_init :: "pane_supervisor \<Rightarrow> bool" where
  fresh: "sup_init (on_started (sup_new p) now)"
| restored: "sup_init (sup_restore q)"
| unstarted: "sup_init (sup_new p)"

section \<open>The lifecycle invariant\<close>

text \<open>How the state, the pending timer, the running process and the request flags fit together.\<close>

definition sup_inv :: "pane_supervisor \<Rightarrow> bool" where
  "sup_inv s \<longleftrightarrow>
     (ps_next_restart_at_ms s \<noteq> None \<longrightarrow> restart_pending s \<and> ps_started_at_ms s = None)
   \<and> (restart_pending s \<longrightarrow> ps_next_restart_at_ms s \<noteq> None \<or> ps_restart_requested s)
   \<and> (ps_state s = Backoff \<longrightarrow> ps_next_restart_at_ms s \<noteq> None)
   \<and> (ps_state s = Live \<longrightarrow> ps_started_at_ms s \<noteq> None)
   \<and> (ps_started_at_ms s \<noteq> None \<longrightarrow> ps_state s \<in> {Live, Restarting, Stopped})
   \<and> (ps_stop_requested s \<longleftrightarrow> ps_started_at_ms s \<noteq> None \<and> ps_state s = Stopped)
   \<and> (ps_restart_requested s \<longleftrightarrow> ps_started_at_ms s \<noteq> None \<and> ps_state s = Restarting)"

lemmas sup_op_defs = on_started_def begin_restart_def schedule_manual_restart_now_def request_stop_def
  request_restart_def reset_for_start_def reset_budget_def set_policy_def sup_new_def sup_restore_def

lemma after_failure_cases:
  "after_failure pw s now code ran_for unit = (k, s') \<Longrightarrow>
     (k = NotRestarted \<and> s' = s\<lparr>ps_state := Exited\<rparr>)
   \<or> (\<exists>f l. k = BudgetFailed \<and> s' = s\<lparr>ps_consecutive_failures := f, ps_restart_log := l, ps_state := Failed\<rparr>)
   \<or> (\<exists>f l d t. k = Scheduled d t \<and> s' = s\<lparr>ps_consecutive_failures := f, ps_restart_log := l,
        ps_state := Backoff, ps_next_restart_at_ms := Some t\<rparr>)"
  by (cases s) (fastforce simp: after_failure_def Let_def split: if_splits)

lemma after_failure_inv:
  assumes "ps_started_at_ms s = None" and "ps_next_restart_at_ms s = None"
    and "\<not> ps_stop_requested s" and "\<not> ps_restart_requested s"
  shows "sup_inv (snd (after_failure pw s now code ran_for unit))"
proof -
  obtain k s' where r: "after_failure pw s now code ran_for unit = (k, s')" by force
  from after_failure_cases [OF r] show ?thesis
    using assms by (auto simp: r sup_inv_def restart_pending_def state_restart_pending_def)
qed

lemma on_exit_inv: "sup_inv s \<Longrightarrow> sup_inv (snd (on_exit pw s now code sig unit))"
  by (auto simp: on_exit_def Let_def intro!: after_failure_inv)
     (auto simp: sup_inv_def restart_pending_def state_restart_pending_def)

lemma on_spawn_failed_inv:
  "\<not> ps_stop_requested s \<Longrightarrow> \<not> ps_restart_requested s \<Longrightarrow> sup_inv (snd (on_spawn_failed pw s now unit))"
  by (simp add: on_spawn_failed_def after_failure_inv)

lemma sup_inv_dead:
  "sup_inv s \<Longrightarrow> ps_started_at_ms s = None \<Longrightarrow> \<not> ps_stop_requested s \<and> \<not> ps_restart_requested s"
  by (simp add: sup_inv_def)

lemma begin_restart_flags [simp]:
  "ps_stop_requested (begin_restart s now a) = ps_stop_requested s"
  "ps_restart_requested (begin_restart s now a) = ps_restart_requested s"
  "ps_started_at_ms (begin_restart s now a) = ps_started_at_ms s"
  by (simp_all add: begin_restart_def Let_def)

lemma request_restart_False:
  "request_restart s reset = (False, s') \<Longrightarrow> sup_inv s \<Longrightarrow>
     ps_started_at_ms s' = None \<and> \<not> ps_stop_requested s' \<and> \<not> ps_restart_requested s'"
  by (auto simp: request_restart_def sup_inv_def Let_def split: if_splits)

lemma sup_step_inv: "sup_inv s \<Longrightarrow> sup_step pw s t \<Longrightarrow> sup_inv t"
proof (erule sup_step.cases, goal_cases)
  case (1 s now code sig unit)
  then show ?case by (simp add: on_exit_inv)
next
  case (3 s now automatic unit)
  then show ?case by (simp add: on_spawn_failed_inv sup_inv_dead)
next
  case (5 s now unit)
  then show ?case by (simp add: on_spawn_failed_inv reset_for_start_def)
next
  case (11 s reset s' now unit)
  then show ?case by (simp add: on_spawn_failed_inv request_restart_False)
qed (auto simp: sup_inv_def sup_op_defs restart_pending_def state_restart_pending_def Let_def split: if_splits)

interpretation lifecycle: invariant_system sup_init "sup_step pw" sup_inv for pw
proof unfold_locales
  show "sup_inv s" if "sup_init s" for s
    using that
    by (cases rule: sup_init.cases)
       (auto simp: sup_inv_def sup_op_defs restart_pending_def state_restart_pending_def split: lifecycle_state.splits)
qed (rule sup_step_inv)


section \<open>Delays\<close>

lemma fclamp_between:
  assumes "0 \<le> hi"
  shows "fclamp a (Fin 0) (Fin hi) = NaN \<or> (\<exists>x. fclamp a (Fin 0) (Fin hi) = Fin x \<and> 0 \<le> x \<and> x \<le> hi)"
  using assms by (cases a) (auto simp: fclamp_def)

lemma to_uint_round_le:
  assumes "0 \<le> x" and "x \<le> of_nat n"
  shows "to_uint mx (fround_int (Fin x)) \<le> n"
proof -
  have "x + 1 / 2 < of_int (int n + 1)" using assms by simp
  then have "\<lfloor>x + 1 / 2\<rfloor> < int n + 1" by (simp only: floor_less_iff)
  then have "\<lfloor>x + 1 / 2\<rfloor> \<le> int n" by simp
  then have "(of_int \<lfloor>x + 1 / 2\<rfloor> :: rat) \<le> of_int (int n)" by (simp only: of_int_le_iff)
  then have "(of_int \<lfloor>x + 1 / 2\<rfloor> :: rat) \<le> of_nat n" by simp
  then show ?thesis using assms(1) by (simp add: to_uint_mono_bound del: to_uint.simps)
qed

lemma delay_ms_le_max:
  assumes "rp_max_delay_ms p < 2 ^ 53"
  shows "delay_ms pw p n unit \<le> rp_max_delay_ms p"
proof -
  define m where "m = rp_max_delay_ms p"
  have m: "of_uint binary64 m = Fin (of_nat m)" using assms by (intro of_uint_exact) (auto simp: m_def)
  have "to_uint u64_max (fround_int (fclamp a (Fin 0) (Fin (of_nat m)))) \<le> m" for a
    using fclamp_between [of "of_nat m" a] to_uint_round_le by fastforce
  then show ?thesis by (simp add: delay_ms_def Let_def m_def [symmetric] m)
qed

lemma delay_ms_no_jitter:
  assumes "rp_multiplier p = Fin 2" and "pw (Fin 2) n = Fin (2 ^ n)" and "n \<le> 1024"
    and "rp_initial_delay_ms p * 2 ^ n < 2 ^ 53" and "rp_max_delay_ms p < 2 ^ 53"
    and "rp_jitter p = Fin j"
  shows "delay_ms pw p n (Fin (1 / 2)) = min (rp_initial_delay_ms p * 2 ^ n) (rp_max_delay_ms p)"
proof -
  define i m where "i = rp_initial_delay_ms p" and "m = rp_max_delay_ms p"
  have exact: "fround binary64 (of_nat k) = Fin (of_nat k)" if "k < 2 ^ 53" for k
    using of_uint_exact [of binary64 k] that by (simp add: of_uint_def)
  have "i \<le> i * 2 ^ n" by simp
  also have "\<dots> < 2 ^ 53" using assms(4) by (simp only: i_def)
  finally have i: "i < 2 ^ 53" .
  have oi: "of_uint binary64 i = Fin (of_nat i)" and om: "of_uint binary64 m = Fin (of_nat m)"
    using exact i assms(5) by (simp_all add: of_uint_def m_def)
  have "fmul binary64 (Fin (of_nat i)) (Fin (2 ^ n)) = fround binary64 (of_nat (i * 2 ^ n))" by simp
  also have "\<dots> = Fin (of_nat (i * 2 ^ n))" using exact assms(4) by (simp only: i_def)
  finally have base: "fmin (fmul binary64 (Fin (of_nat i)) (Fin (2 ^ n))) (Fin (of_nat m))
      = Fin (of_nat (min (i * 2 ^ n) m))"
    by (simp only: fmin.simps fp.case flt.simps of_nat_less_iff) (auto simp: min_def)
  define k where "k = min (i * 2 ^ n) m"
  have k: "k \<le> m" "k < 2 ^ 53" using assms(5) by (auto simp: k_def m_def)
  have half: "fsub binary64 (fmul binary64 (Fin 2) (fclamp (Fin (1 / 2)) (Fin 0) (Fin 1))) (Fin 1) = Fin 0"
    by code_simp
  have one: "fadd binary64 (Fin 1) (Fin 0) = Fin 1" by code_simp
  have jit: "fmul binary64 (Fin (of_nat k)) (fadd binary64 (Fin 1) (fmul binary64 (Fin j) (Fin 0))) = Fin (of_nat k)"
  proof -
    have "fmul binary64 (Fin j) (Fin 0) = Fin 0" by (simp add: fround_def)
    then show ?thesis using exact [OF k(2)] one by (simp del: fadd.simps)
  qed
  have "\<lfloor>(of_nat k :: rat) + 1 / 2\<rfloor> = int k" by (simp add: floor_eq_iff)
  moreover have "k \<le> u64_max" using k by simp
  ultimately have fin: "to_uint u64_max (fround_int (fclamp (Fin (of_nat k)) (Fin 0) (Fin (of_nat m)))) = k"
    using k by (simp add: fclamp_def)
  have "i = 0 \<Longrightarrow> k = 0" by (simp add: k_def)
  then show ?thesis
    using assms(3) jit fin
    by (simp add: delay_ms_def Let_def i_def [symmetric] m_def [symmetric] oi om assms(1,2,6) base k_def [symmetric]
        half min_absorb1 del: fmul.simps fadd.simps to_uint.simps fround_int.simps of_nat_mult of_nat_power)
qed


section \<open>The restart budget\<close>

lemma after_failure_budget:
  assumes "sorted (ps_restart_log s)" and "mode_wants_restart (rp_mode (ps_policy s)) code"
  shows "(fst (after_failure pw s now code ran_for unit) = BudgetFailed)
      \<longleftrightarrow> rp_max_restarts (ps_policy s) \<le> restarts_in_window s now"
proof -
  have "dropWhile (\<lambda>t. t \<le> w) (ps_restart_log s) = filter (\<lambda>t. t > w) (ps_restart_log s)" for w
    using dropWhile_filter_sorted [OF assms(1), of "\<lambda>t. t \<le> w"] by (simp add: not_le)
  then show ?thesis using assms(2)
    by (auto simp: after_failure_def restarts_in_window_def window_start_def Let_def)
qed

text \<open>
  A crash loop: each element of the list is one run that ends at time \<open>t\<close>; when the exit schedules
  a restart, the restart is begun (charged to the budget) and the next run starts, at the same
  instant. The result lists what each exit did.
\<close>

fun crash_loop :: "powi_fun \<Rightarrow> pane_supervisor \<Rightarrow> (u64 \<times> i32 option \<times> fp) list \<Rightarrow> exit_kind list \<times> pane_supervisor" where
  "crash_loop pw s [] = ([], s)"
| "crash_loop pw s ((t, code, unit) # runs) =
     (case on_exit pw s t code None unit of
        (Scheduled d at_ms, s') \<Rightarrow>
          (case crash_loop pw (on_started (begin_restart s' t True) t) runs of
             (ks, s'') \<Rightarrow> (Scheduled d at_ms # ks, s''))
      | (k, s') \<Rightarrow> ([k], s'))"

lemma after_failure_started [simp]:
  "ps_started_at_ms (snd (after_failure pw s now code ran_for unit)) = ps_started_at_ms s"
  by (simp add: after_failure_def Let_def)

lemma on_exit_dead: "ps_started_at_ms (snd (on_exit pw s now code sig unit)) = None"
  by (simp add: on_exit_def Let_def)

lemma on_exit_crash:
  assumes "sup_inv s" and "ps_state s = Live" and "mode_wants_restart (rp_mode (ps_policy s)) code"
    and "\<forall>u\<in>set (ps_restart_log s). window_start s t < u"
  shows "if length (ps_restart_log s) < rp_max_restarts (ps_policy s)
    then \<exists>d a s'. on_exit pw s t code sig unit = (Scheduled d a, s') \<and> ps_restart_log s' = ps_restart_log s
       \<and> ps_policy s' = ps_policy s
    else \<exists>s'. on_exit pw s t code sig unit = (BudgetFailed, s') \<and> ps_state s' = Failed"
proof -
  have f: "\<not> ps_stop_requested s" "\<not> ps_restart_requested s"
    using assms(1,2) by (auto simp: sup_inv_def)
  have "dropWhile (\<lambda>u. u \<le> window_start s t) (ps_restart_log s) = ps_restart_log s"
    using assms(4) by (cases "ps_restart_log s") auto
  then show ?thesis using f assms(3)
    by (auto simp: on_exit_def after_failure_def window_start_def Let_def)
qed

lemma crash_loop_ends:
  assumes "sup_inv s" and "ps_state s = Live"
    and "length runs = Suc (rp_max_restarts (ps_policy s) - length (ps_restart_log s))"
    and "length (ps_restart_log s) \<le> rp_max_restarts (ps_policy s)"
    and "\<forall>(t, code, u) \<in> set runs. mode_wants_restart (rp_mode (ps_policy s)) code
           \<and> (\<forall>x \<in> set (ps_restart_log s) \<union> fst ` set runs. window_start s t < x)"
  shows "\<exists>ks s'. crash_loop pw s runs = (ks @ [BudgetFailed], s') \<and> ps_state s' = Failed
           \<and> length ks = rp_max_restarts (ps_policy s) - length (ps_restart_log s)
           \<and> (\<forall>k\<in>set ks. \<exists>d a. k = Scheduled d a)"
  using assms
proof (induction runs arbitrary: s)
  case (Cons r runs)
  obtain t code u where r: "r = (t, code, u)" by (cases r)
  note ex = on_exit_crash [OF Cons.prems(1,2), of code t pw None u]
  show ?case
  proof (cases "length (ps_restart_log s) < rp_max_restarts (ps_policy s)")
    case True
    then obtain d a s1 where s1: "on_exit pw s t code None u = (Scheduled d a, s1)"
        "ps_restart_log s1 = ps_restart_log s" "ps_policy s1 = ps_policy s"
      using ex Cons.prems(5) by (auto simp: r)
    define s2 where "s2 = on_started (begin_restart s1 t True) t"
    have i1: "sup_inv s1" using on_exit_inv [OF Cons.prems(1), of pw t code None u] s1 by simp
    have "ps_started_at_ms s1 = None"
    proof -
      have "ps_started_at_ms (snd (on_exit pw s t code None u)) = None"
        by (rule on_exit_dead)
      then show ?thesis using s1 by simp
    qed
    then have i2: "sup_inv s2"
      using sup_step_inv [OF i1 sup_step.respawn_ok [of s1 pw t True]] by (simp add: s2_def)
    have s2: "ps_state s2 = Live" "ps_restart_log s2 = ps_restart_log s @ [t]" "ps_policy s2 = ps_policy s"
      by (simp_all add: s2_def on_started_def begin_restart_def Let_def s1)
    have w: "window_start s2 = window_start s" by (rule ext) (simp add: window_start_def s2)
    have len: "length runs = Suc (rp_max_restarts (ps_policy s2) - length (ps_restart_log s2))"
      using Cons.prems(3) True by (simp add: s2)
    have le: "length (ps_restart_log s2) \<le> rp_max_restarts (ps_policy s2)" using True by (simp add: s2)
    have times: "\<forall>(t, code, u) \<in> set runs. mode_wants_restart (rp_mode (ps_policy s2)) code
           \<and> (\<forall>x \<in> set (ps_restart_log s2) \<union> fst ` set runs. window_start s2 t < x)"
      using Cons.prems(5) unfolding s2 w r by auto
    from Cons.IH [OF i2 s2(1) len le times]
    obtain ks s' where ks: "crash_loop pw s2 runs = (ks @ [BudgetFailed], s')" "ps_state s' = Failed"
        "length ks = rp_max_restarts (ps_policy s2) - length (ps_restart_log s2)"
        "\<forall>k\<in>set ks. \<exists>d a. k = Scheduled d a" by blast
    have "crash_loop pw s (r # runs) = ((Scheduled d a # ks) @ [BudgetFailed], s')"
      using ks(1) by (simp add: r s1(1) s2_def)
    moreover have "length (Scheduled d a # ks) = rp_max_restarts (ps_policy s) - length (ps_restart_log s)"
      using ks(3) True by (simp add: s2)
    moreover have "\<forall>k\<in>set (Scheduled d a # ks). \<exists>d a. k = Scheduled d a" using ks(4) by simp
    ultimately show ?thesis using ks(2) by blast
  next
    case False
    then have "runs = []" using Cons.prems(3,4) by simp
    moreover obtain s1 where "on_exit pw s t code None u = (BudgetFailed, s1)" "ps_state s1 = Failed"
      using ex False Cons.prems(5) by (auto simp: r)
    ultimately show ?thesis using False Cons.prems(4) by (auto simp: r)
  qed
qed simp


lemma reach_fresh: "reachable sup_init (sup_step pw) (on_started (sup_new p) now)"
  by (rule reachable.reach_init) (rule sup_init.fresh)

section \<open>Properties\<close>

text \<open>
  C6. A pane is never stuck: in every state the supervisor can reach, a pending restart either has a
  timer that comes due, or waits for the death of a running process that was asked to restart; a
  timer is only ever armed while no process runs; and a pane is LIVE only while one does.
\<close>

theorem lifecycle_never_stuck:
  assumes "reachable sup_init (sup_step pw) s"
  shows "(restart_pending s \<longrightarrow> (\<exists>t. due s t) \<or> (ps_started_at_ms s \<noteq> None \<and> ps_restart_requested s))
    \<and> (\<forall>t. due s t \<longrightarrow> ps_started_at_ms s = None)
    \<and> (ps_state s = Live \<longrightarrow> ps_started_at_ms s \<noteq> None)
    \<and> (ps_state s \<in> {Exited, Failed, Backoff} \<longrightarrow> ps_started_at_ms s = None)"
proof -
  have "sup_inv s" by (rule lifecycle.reachable_inv [OF assms])
  then show ?thesis by (fastforce simp: sup_inv_def due_def split: option.splits)
qed

definition backoff_example :: pane_supervisor where
  "backoff_example = snd (on_exit (\<lambda>x n. x) (on_started (sup_new (default_policy\<lparr>rp_mode := Always\<rparr>)) 0)
     5 (Some 1) None (Fin (1 / 2)))"

theorem lifecycle_never_stuck_witness:
  "reachable sup_init (sup_step (\<lambda>x n. x)) backoff_example \<and> restart_pending backoff_example
   \<and> (\<exists>t. due backoff_example t)"
proof -
  have r: "reachable sup_init (sup_step (\<lambda>x n. x)) backoff_example"
    unfolding backoff_example_def
    by (rule reachable.reach_step [OF reach_fresh]) (rule sup_step.exit, simp add: on_started_def)
  have p: "restart_pending backoff_example" "\<not> ps_restart_requested backoff_example"
    by (simp_all add: backoff_example_def on_exit_def on_started_def sup_new_def default_policy_def after_failure_def
        mode_wants_restart_def restart_pending_def state_restart_pending_def Let_def window_start_def)
  show ?thesis using lifecycle_never_stuck [OF r] r p by blast
qed

text \<open>
  C26. An operator stop wins: after \<open>request_stop\<close> the pane is STOPPED, no restart is or becomes due,
  the caller is told to signal a process exactly when one runs, and the exit of that process, with
  whatever code, under whatever policy, leaves the pane STOPPED.
\<close>

theorem stop_wins:
  assumes "reachable sup_init (sup_step pw) s" and "request_stop s = (running, s')"
  shows "ps_state s' = Stopped \<and> (\<forall>t. \<not> due s' t) \<and> (running \<longleftrightarrow> ps_started_at_ms s \<noteq> None)
    \<and> (running \<longrightarrow> (\<exists>s''. on_exit pw s' now code sig unit = (OperatorStopped, s'')
                        \<and> ps_state s'' = Stopped \<and> (\<forall>t. \<not> due s'' t)))"
proof -
  have i: "sup_inv s" by (rule lifecycle.reachable_inv [OF assms(1)])
  have run: "running \<longleftrightarrow> ps_started_at_ms s \<noteq> None"
    using assms(2) i by (auto simp: request_stop_def sup_inv_def Let_def)
  have s': "ps_state s' = Stopped" "running \<Longrightarrow> ps_stop_requested s'"
    using assms(2) by (auto simp: request_stop_def Let_def)
  have nd: "\<not> due x t" if "ps_state x = Stopped" for x t
    using that by (simp add: due_def restart_pending_def state_restart_pending_def)
  have "\<exists>s''. on_exit pw s' now code sig unit = (OperatorStopped, s'') \<and> ps_state s'' = Stopped" if running
    using s'(2) [OF that] by (simp add: on_exit_def Let_def)
  with run s'(1) nd show ?thesis by blast
qed

theorem stop_wins_witness:
  "\<exists>s'. request_stop (on_started (sup_new default_policy) 0) = (True, s') \<and> ps_state s' = Stopped"
proof -
  have r: "reachable sup_init (sup_step (\<lambda>x n. x)) (on_started (sup_new default_policy) 0)"
    by (rule reach_fresh)
  obtain b s' where q: "request_stop (on_started (sup_new default_policy) 0) = (b, s')" by force
  then show ?thesis using stop_wins [OF r q] by (simp add: on_started_def)
qed



text \<open>
  The budget is counted over the sliding window: with a log in time order, an exit that wants a
  restart is refused exactly when the restarts inside the window already reach the maximum.
\<close>

theorem budget_decision:
  assumes "sorted (ps_restart_log s)" and "\<not> ps_stop_requested s" and "\<not> ps_restart_requested s"
    and "mode_wants_restart (rp_mode (ps_policy s)) code"
  shows "fst (on_exit pw s now code sig unit) = BudgetFailed \<longleftrightarrow>
    rp_max_restarts (ps_policy s) \<le> sv_restarts_in_window (sup_status s now)"
  using after_failure_budget [of "s\<lparr>ps_last_exit := Some \<lparr>er_code = code, er_signal = sig, er_at_ms = now\<rparr>,
      ps_started_at_ms := None, ps_next_restart_at_ms := None\<rparr>" code pw now] assms
  by (simp add: on_exit_def sup_status_def Let_def restarts_in_window_def window_start_def)

theorem budget_decision_witness:
  "fst (on_exit (\<lambda>x n. x) ((sup_new (default_policy\<lparr>rp_mode := Always, rp_max_restarts := 1\<rparr>))\<lparr>ps_restart_log := [100]\<rparr>)
      200 None None (Fin 0)) = BudgetFailed"
  by (subst budget_decision)
     (simp_all add: sup_new_def default_policy_def mode_wants_restart_def sup_status_def restarts_in_window_def
       window_start_def arith_defs)

text \<open>
  A scheduled delay never exceeds the policy's maximum, whatever the multiplier, the number of
  failures, the jitter and its sample are, and however \<open>powi\<close> rounds; for maxima below \<open>2 ^ 53\<close> ms,
  which \<open>f64\<close> represents exactly.
\<close>

theorem delay_bounded:
  assumes "rp_max_delay_ms p < 2 ^ 53"
  shows "delay_ms pw p n unit \<le> rp_max_delay_ms p"
  by (rule delay_ms_le_max [OF assms])

theorem delay_bounded_witness: "delay_ms (\<lambda>x n. Inf False) default_policy 7 NaN \<le> 30000"
  using delay_bounded [of default_policy "\<lambda>x n. Inf False" 7 NaN] by (simp add: default_policy_def)

text \<open>
  Exponential backoff: with the default multiplier 2 and the neutral jitter sample, the delay
  before restart \<open>n + 1\<close> is the initial delay doubled \<open>n\<close> times, capped at the maximum (given that
  \<open>powi\<close> computes this power of two exactly and the doubled delay stays below \<open>2 ^ 53\<close>).
\<close>

theorem delay_doubles:
  assumes "rp_multiplier p = Fin 2" and "rp_jitter p = Fin j" and "pw (Fin 2) n = Fin (2 ^ n)" and "n \<le> 1024"
    and "rp_initial_delay_ms p * 2 ^ n < 2 ^ 53" and "rp_max_delay_ms p < 2 ^ 53"
  shows "delay_ms pw p n (Fin (1 / 2)) = min (rp_initial_delay_ms p * 2 ^ n) (rp_max_delay_ms p)"
  using assms by (intro delay_ms_no_jitter)

theorem delay_doubles_witness: "delay_ms (\<lambda>x n. Fin (2 ^ n)) default_policy 3 (Fin (1 / 2)) = 8000"
proof -
  obtain j where "rp_jitter default_policy = Fin j" 
    using fround_le_int [of binary64 0 "1 / 5" 1] by (auto simp: default_policy_def)
  then show ?thesis using delay_doubles [of default_policy j "\<lambda>x n. Fin (2 ^ n)" 3] by (simp add: default_policy_def)
qed

text \<open>
  A daemon restart keeps what the operator and the budget decided and nothing in flight: the
  restored supervisor has the same policy, counters, log and last exit, STOPPED and FAILED survive,
  every other state comes back EXITED with no timer, no process and no pending request, and saving
  it again changes nothing but that demotion.
\<close>

theorem restore_persisted:
  "sup_persisted (sup_restore (sup_persisted s)) = (sup_persisted s)\<lparr>pr_state :=
      (if ps_state s \<in> {Stopped, Failed} then ps_state s else Exited)\<rparr>
   \<and> sup_inv (sup_restore (sup_persisted s))
   \<and> \<not> restart_pending (sup_restore (sup_persisted s))
   \<and> ps_started_at_ms (sup_restore (sup_persisted s)) = None
   \<and> (\<forall>t. \<not> due (sup_restore (sup_persisted s)) t)"
  using lifecycle.init_inv [OF sup_init.restored [of "sup_persisted s"]]
  by (auto simp: sup_persisted_def sup_restore_def due_def restart_pending_def state_restart_pending_def
      split: lifecycle_state.splits)

end
