(* ===== verification/Pane_Process.thy ===== *)
theory Pane_Process
  imports Restart
begin

text \<open>
  The process side of a pane (\<open>crates/tymux-core/src/pane.rs\<close>): the flags the reader thread, the
  supervisor and the clients share, the reader thread's path from the end of the pty to the
  published exit, respawning, retiring and signalling. What the operating system answers (the
  result of starting a process, of \<open>kill\<close> and of \<open>wait\<close>) is an argument.

  The markers and banners a pane injects into its output are kept as values of \<open>injected\<close>, by
  what they print.
\<close>

section \<open>Data\<close>

text \<open>Where the reader thread of the current process generation stands.\<close>

datatype reader_phase =
    Reading
  | Reaped            \<comment> \<open>the exit code is stored and the pid cleared\<close>
  | HookTaken bool    \<comment> \<open>the exit was checked; the flag tells whether a hook was found\<close>
  | HookDone          \<comment> \<open>the hook has returned\<close>
  | ReaderDone        \<comment> \<open>\<open>exited\<close> is published\<close>

datatype injected =
    RestartBanner "u32 option" u32
  | ExitMarker "i32 option" "i32 option" exit_kind u32 u64
  | FailedSpawnMarker string exit_kind
  | PolicyCancelMarker
  | StoppedMarker bool

record pane_proc =
  pn_id :: uuid
  pn_exited :: bool
  pn_exit_checked :: bool
  pn_exit_code :: "i32 option"
  pn_pid :: u32
  pn_last_signal :: i32
  pn_generation :: u64
  pn_retired :: bool
  pn_restart_pending :: bool
  pn_hook :: bool
  pn_phase :: reader_phase
  pn_events :: "lifecycle_event list"
  pn_injected :: "injected list"

definition pane_new :: "uuid \<Rightarrow> u32 option \<Rightarrow> pane_proc" where
  "pane_new i pid = \<lparr>pn_id = i, pn_exited = False, pn_exit_checked = False, pn_exit_code = None,
     pn_pid = (case pid of None \<Rightarrow> 0 | Some p \<Rightarrow> p), pn_last_signal = 0, pn_generation = 0,
     pn_retired = False, pn_restart_pending = False, pn_hook = False, pn_phase = Reading,
     pn_events = [], pn_injected = []\<rparr>"

section \<open>Operations\<close>

definition pane_pid :: "pane_proc \<Rightarrow> u32 option" where
  "pane_pid p = (if pn_pid p = 0 then None else Some (pn_pid p))"

definition signal_sent :: "pane_proc \<Rightarrow> i32 option" where
  "signal_sent p = (if pn_last_signal p = 0 then None else Some (pn_last_signal p))"

definition set_restart_pending :: "bool \<Rightarrow> pane_proc \<Rightarrow> pane_proc" where
  "set_restart_pending b p = p\<lparr>pn_restart_pending := b\<rparr>"

definition emit_lifecycle :: "lifecycle_event \<Rightarrow> pane_proc \<Rightarrow> pane_proc" where
  "emit_lifecycle e p = p\<lparr>pn_events := pn_events p @ [e]\<rparr>"

definition inject_output :: "injected \<Rightarrow> pane_proc \<Rightarrow> pane_proc" where
  "inject_output m p = p\<lparr>pn_injected := pn_injected p @ [m]\<rparr>"

definition retire :: "pane_proc \<Rightarrow> pane_proc" where
  "retire p = p\<lparr>pn_retired := True, pn_restart_pending := False\<rparr>"

definition set_exit_hook :: "pane_proc \<Rightarrow> bool \<times> pane_proc" where
  "set_exit_hook p = (pn_exit_checked p, p\<lparr>pn_hook := True\<rparr>)"

text \<open>
  \<open>start_process\<close> is the operating system's part of a respawn: an error message, or the new
  process with its pid when the platform gives one.
\<close>

type_synonym start_result = "string + u32 option"

definition respawn_with :: "start_result \<Rightarrow> (u32 option \<Rightarrow> injected option) \<Rightarrow> pane_proc
    \<Rightarrow> (string + u32 option) \<times> pane_proc" where
  "respawn_with start_process banner p =
     (if pn_retired p then (Inl ''pane was closed'', p)
      else if \<not> pn_exited p then (Inl ''pane process is still running'', p)
      else case start_process of
        Inl e \<Rightarrow> (Inl e, p)
      | Inr pid \<Rightarrow>
          let p1 = p\<lparr>pn_pid := (case pid of None \<Rightarrow> 0 | Some i \<Rightarrow> i),
                     pn_generation := pn_generation p + 1, pn_last_signal := 0,
                     pn_exit_code := None, pn_exit_checked := False, pn_exited := False\<rparr>;
              p2 = (case banner pid of None \<Rightarrow> p1 | Some b \<Rightarrow> inject_output b p1)
          in (Inr pid, p2\<lparr>pn_phase := Reading\<rparr>))"

text \<open>
  \<open>signal_then_kill\<close> with \<open>kill_errno\<close> the error number of \<open>kill(2)\<close>, or none when it succeeds. The
  SIGKILL escalation is a thread of its own; it fires under the test \<open>escalation_fires\<close>.
\<close>

definition ESRCH :: i32 where "ESRCH = 3"
definition SIGTERM :: i32 where "SIGTERM = 15"
definition SIGHUP :: i32 where "SIGHUP = 1"

definition signal_then_kill :: "i32 option \<Rightarrow> i32 \<Rightarrow> pane_proc \<Rightarrow> (i32 + unit) \<times> pane_proc" where
  "signal_then_kill kill_errno signal p =
     (if pn_pid p = 0 then (Inr (), p)
      else let p1 = p\<lparr>pn_last_signal := signal\<rparr>
           in case kill_errno of
                Some e \<Rightarrow> if e = ESRCH then (Inr (), p1) else (Inl e, p1)
              | None \<Rightarrow> (Inr (), p1))"

definition escalation_fires :: "pane_proc \<Rightarrow> pane_proc \<Rightarrow> bool" where
  "escalation_fires p now \<longleftrightarrow> \<not> pn_exited now \<and> pn_generation now = pn_generation p \<and> pn_pid now = pn_pid p"

definition terminate :: "i32 option \<Rightarrow> pane_proc \<Rightarrow> (i32 + unit) \<times> pane_proc" where
  "terminate kill_errno p = signal_then_kill kill_errno SIGTERM p"

definition kill :: "i32 option \<Rightarrow> pane_proc \<Rightarrow> (i32 + unit) \<times> pane_proc" where
  "kill kill_errno p = signal_then_kill kill_errno SIGHUP p"

text \<open>The reader thread after the end of the pty, one definition per point another thread can see.\<close>

definition reader_reap :: "i32 option \<Rightarrow> pane_proc \<Rightarrow> pane_proc" where
  "reader_reap code p = p\<lparr>pn_exit_code := code, pn_pid := 0, pn_phase := Reaped\<rparr>"

definition reader_check_hook :: "pane_proc \<Rightarrow> pane_proc" where
  "reader_check_hook p = p\<lparr>pn_exit_checked := True, pn_phase := HookTaken (pn_hook p)\<rparr>"

definition reader_hook_done :: "pane_proc \<Rightarrow> pane_proc" where
  "reader_hook_done p = p\<lparr>pn_phase := HookDone\<rparr>"

definition reader_publish :: "pane_proc \<Rightarrow> pane_proc" where
  "reader_publish p = p\<lparr>pn_exited := True, pn_phase := ReaderDone\<rparr>"

text \<open>A client waiting for the pane's final exit is released exactly here.\<close>

definition final_exit :: "pane_proc \<Rightarrow> bool" where
  "final_exit p \<longleftrightarrow> pn_exited p \<and> \<not> pn_restart_pending p"

end
