(* ===== verification/Supervision.thy ===== *)
theory Supervision
  imports Pane_Process
begin

text \<open>
  The supervisor that drives the lifecycle state machine of Restart from real pane exits, timers
  and operator requests (\<open>crates/tymux-core/src/supervision.rs\<close>).

  The panes are objects shared between the supervisor, the reader threads and the engine, so they
  live in a store \<open>sn_heap\<close> and an entry refers to its pane by address: \<open>Weak::upgrade\<close> is a lookup.
  The store keeps every pane ever created, so an address names one pane for good; the engine drops
  a pane only after \<open>forget\<close>, when no entry refers to it.
  Every operation runs under the supervision lock and is one step; the reader threads of the panes
  interleave with them between the points defined in Pane_Process. Time, jitter samples and the
  answers of the operating system are arguments. The iteration order of the hash map is an argument
  of \<open>run_due\<close>.
\<close>

section \<open>Data\<close>

datatype start_message = SpawnFailed string | SignalFailed i32

datatype engine_error =
    PaneNotFound uuid
  | SessionNotFound uuid
  | EngineBelowMinimumSize u16 u16
  | EngineBelowRecommendedSize u16
  | ReviveLaunch uuid string
  | PaneRunning uuid
  | PaneStopped uuid
  | PaneFailed uuid
  | InvalidRestartPolicy policy_error
  | PaneStart uuid start_message

datatype signal_outcome = Signaled | Immediate

record entry =
  en_sup :: pane_supervisor
  en_pane :: "nat option"

record supervision =
  sn_entries :: "uuid \<Rightarrow> entry option"
  sn_dirty :: "uuid set"
  sn_heap :: "nat \<Rightarrow> pane_proc option"

record pane_status =
  st_pane_id :: uuid
  st_view :: pane_status_view
  st_pid :: "u32 option"
  st_now_ms :: u64

definition upgrade :: "supervision \<Rightarrow> entry \<Rightarrow> pane_proc option" where
  "upgrade w e = Option.bind (en_pane e) (sn_heap w)"

definition running_pane :: "supervision \<Rightarrow> entry \<Rightarrow> pane_proc option" where
  "running_pane w e = (case upgrade w e of None \<Rightarrow> None
     | Some p \<Rightarrow> if pn_exited p then None else Some p)"

text \<open>Writes an entry back, and its pane when the caller changed one.\<close>

definition put :: "supervision \<Rightarrow> uuid \<Rightarrow> entry \<Rightarrow> pane_proc option \<Rightarrow> supervision" where
  "put w i e po = w\<lparr>sn_entries := (sn_entries w)(i \<mapsto> e),
     sn_heap := (case (en_pane e, po) of (Some r, Some p) \<Rightarrow> (sn_heap w)(r \<mapsto> p) | _ \<Rightarrow> sn_heap w)\<rparr>"

definition mark_dirty :: "uuid \<Rightarrow> supervision \<Rightarrow> supervision" where
  "mark_dirty i w = w\<lparr>sn_dirty := insert i (sn_dirty w)\<rparr>"

section \<open>Events and markers\<close>

definition event :: "lifecycle_event_kind \<Rightarrow> pane_supervisor \<Rightarrow> u64 \<Rightarrow> lifecycle_event" where
  "event kind sp now = \<lparr>ev_kind = kind, ev_state = ps_state sp,
     ev_exit_code = Option.bind (ps_last_exit sp) er_code,
     ev_exit_signal = Option.bind (ps_last_exit sp) er_signal, ev_delay_ms = None,
     ev_next_restart_at_ms = ps_next_restart_at_ms sp, ev_pid = None,
     ev_restart_count = ps_restart_count sp, ev_at_ms = now\<rparr>"

definition scheduled_event :: "pane_supervisor \<Rightarrow> u64 \<Rightarrow> u64 \<Rightarrow> u64 \<Rightarrow> lifecycle_event" where
  "scheduled_event sp now delay at_ms = (event EvRestartScheduled sp now)
     \<lparr>ev_delay_ms := Some delay, ev_next_restart_at_ms := Some at_ms\<rparr>"

definition announce_exit :: "pane_supervisor \<Rightarrow> exit_kind \<Rightarrow> i32 option \<Rightarrow> i32 option \<Rightarrow> u64 \<Rightarrow> pane_proc \<Rightarrow> pane_proc" where
  "announce_exit sp kind code sig now p =
     (let p1 = emit_lifecycle (event EvExited sp now) p;
          pol = ps_policy sp;
          marked = inject_output (ExitMarker code sig kind (rp_max_restarts pol) (rp_window_ms pol)) p1
      in case kind of
           NotRestarted \<Rightarrow> if rp_mode pol \<noteq> Never then marked else p1
         | Scheduled delay at_ms \<Rightarrow> emit_lifecycle (scheduled_event sp now delay at_ms) marked
         | ManualRestart \<Rightarrow> marked
         | BudgetFailed \<Rightarrow> emit_lifecycle (event EvFailed sp now) marked
         | OperatorStopped \<Rightarrow> emit_lifecycle (event EvStopped sp now) marked)"

definition announce_failed_spawn :: "pane_supervisor \<Rightarrow> exit_kind \<Rightarrow> string \<Rightarrow> u64 \<Rightarrow> pane_proc \<Rightarrow> pane_proc" where
  "announce_failed_spawn sp kind err now p =
     (let marked = inject_output (FailedSpawnMarker err kind) p
      in case kind of
           Scheduled delay at_ms \<Rightarrow> emit_lifecycle (scheduled_event sp now delay at_ms) marked
         | BudgetFailed \<Rightarrow> emit_lifecycle (event EvFailed sp now) marked
         | _ \<Rightarrow> marked)"

section \<open>Registration and exits\<close>

definition account_exit :: "powi_fun \<Rightarrow> u64 \<Rightarrow> fp \<Rightarrow> supervision \<Rightarrow> nat \<Rightarrow> i32 option \<Rightarrow> bool \<times> supervision" where
  "account_exit pw now unit w r code =
     (case sn_heap w r of None \<Rightarrow> (False, w) | Some p \<Rightarrow>
      (case sn_entries w (pn_id p) of None \<Rightarrow> (False, w) | Some e \<Rightarrow>
         if en_pane e \<noteq> Some r then (False, w)
         else let sig = signal_sent p;
                  (kind, sp) = on_exit pw (en_sup e) now code sig unit;
                  p1 = announce_exit sp kind code sig now p;
                  pending = restart_pending sp
              in (pending, mark_dirty (pn_id p)
                   (put w (pn_id p) (e\<lparr>en_sup := sp\<rparr>) (Some (set_restart_pending pending p1))))))"

definition handle_exit :: "powi_fun \<Rightarrow> u64 \<Rightarrow> fp \<Rightarrow> supervision \<Rightarrow> nat \<Rightarrow> i32 option \<Rightarrow> bool \<times> supervision" where
  "handle_exit pw now unit w r code = account_exit pw now unit w r code"

definition install_hook :: "powi_fun \<Rightarrow> u64 \<Rightarrow> fp \<Rightarrow> supervision \<Rightarrow> nat \<Rightarrow> supervision" where
  "install_hook pw now unit w r =
     (case sn_heap w r of None \<Rightarrow> w | Some p \<Rightarrow>
        let (exited_before_hook, p1) = set_exit_hook p;
            w1 = w\<lparr>sn_heap := (sn_heap w)(r \<mapsto> p1)\<rparr>
        in if exited_before_hook then snd (account_exit pw now unit w1 r (pn_exit_code p1)) else w1)"

definition register_live :: "powi_fun \<Rightarrow> u64 \<Rightarrow> fp \<Rightarrow> supervision \<Rightarrow> nat \<Rightarrow> uuid \<Rightarrow> restart_policy \<Rightarrow> supervision" where
  "register_live pw now unit w r i policy =
     install_hook pw now unit
       (mark_dirty i (put w i \<lparr>en_sup = on_started (sup_new policy) now, en_pane = Some r\<rparr> None)) r"

definition register_restored :: "supervision \<Rightarrow> uuid \<Rightarrow> persisted_restart_state option \<Rightarrow> restart_policy \<Rightarrow> supervision" where
  "register_restored w i persisted policy =
     put w i \<lparr>en_sup = (case persisted of Some p \<Rightarrow> sup_restore p | None \<Rightarrow> sup_new policy), en_pane = None\<rparr> None"

definition adopt_started :: "powi_fun \<Rightarrow> u64 \<Rightarrow> fp \<Rightarrow> supervision \<Rightarrow> nat \<Rightarrow> uuid \<Rightarrow> restart_policy \<Rightarrow> supervision" where
  "adopt_started pw now unit w r i fallback =
     (let sp = (case sn_entries w i of Some e \<Rightarrow> en_sup e | None \<Rightarrow> sup_new fallback)
      in install_hook pw now unit
           (mark_dirty i (put w i \<lparr>en_sup = on_started (reset_for_start sp) now, en_pane = Some r\<rparr> None)) r)"

definition forget :: "supervision \<Rightarrow> uuid \<Rightarrow> supervision" where
  "forget w i =
     (let w1 = (case sn_entries w i of None \<Rightarrow> w | Some e \<Rightarrow>
            w\<lparr>sn_entries := (sn_entries w)(i := None),
              sn_heap := (case (en_pane e, upgrade w e) of
                            (Some r, Some p) \<Rightarrow> (sn_heap w)(r \<mapsto> retire p) | _ \<Rightarrow> sn_heap w)\<rparr>)
      in w1\<lparr>sn_dirty := sn_dirty w1 - {i}\<rparr>)"

section \<open>Respawning\<close>

text \<open>What one call of \<open>do_respawn\<close> draws from its surroundings.\<close>

record respawn_env =
  re_now :: u64
  re_unit :: fp
  re_start :: start_result

definition nil_uuid :: uuid where "nil_uuid = 0"

definition do_respawn :: "powi_fun \<Rightarrow> respawn_env \<Rightarrow> supervision \<Rightarrow> uuid \<Rightarrow> entry \<Rightarrow> bool
    \<Rightarrow> (engine_error + u32 option) \<times> supervision" where
  "do_respawn pw env w i e automatic =
     (case upgrade w e of
        None \<Rightarrow> (Inl (PaneNotFound nil_uuid), put w i e None)
      | Some p \<Rightarrow>
        if pn_retired p then (Inl (PaneNotFound (pn_id p)), put w i e None)
        else let now = re_now env;
                 sup1 = begin_restart (en_sup e) now automatic;
                 (res, p1) = respawn_with (re_start env) (\<lambda>pid. Some (RestartBanner pid (ps_restart_count sup1))) p
             in case res of
                  Inr pid \<Rightarrow>
                    let sup2 = on_started sup1 now
                    in (Inr pid, put w i (e\<lparr>en_sup := sup2\<rparr>) (Some
                         (emit_lifecycle ((event EvRestarted sup2 now)\<lparr>ev_pid := pid\<rparr>) (set_restart_pending False p1))))
                | Inl msg \<Rightarrow>
                    let (kind, sup2) = on_spawn_failed pw sup1 now (re_unit env);
                        p2 = (if pn_retired p1 then p1 else announce_failed_spawn sup2 kind msg now p1)
                    in (Inl (PaneStart (pn_id p) (SpawnFailed msg)), put w i (e\<lparr>en_sup := sup2\<rparr>)
                         (Some (set_restart_pending (restart_pending sup2) p2))))"

definition due_now :: "u64 \<Rightarrow> supervision \<Rightarrow> uuid \<Rightarrow> bool" where
  "due_now now w i = (case sn_entries w i of None \<Rightarrow> False
     | Some e \<Rightarrow> due (en_sup e) now \<and> (case upgrade w e of None \<Rightarrow> False | Some p \<Rightarrow> pn_exited p))"

definition respawn_due :: "powi_fun \<Rightarrow> (uuid \<Rightarrow> respawn_env) \<Rightarrow> uuid \<Rightarrow> supervision \<Rightarrow> supervision" where
  "respawn_due pw env i w = (case sn_entries w i of None \<Rightarrow> w
     | Some e \<Rightarrow> mark_dirty i (snd (do_respawn pw (env i) w i e (ps_state (en_sup e) = Backoff))))"

definition pending_times :: "supervision \<Rightarrow> uuid list \<Rightarrow> u64 list" where
  "pending_times w order = List.map_filter (\<lambda>i. case sn_entries w i of None \<Rightarrow> None
     | Some e \<Rightarrow> if restart_pending (en_sup e) then ps_next_restart_at_ms (en_sup e) else None) order"

definition run_due :: "powi_fun \<Rightarrow> uuid list \<Rightarrow> u64 \<Rightarrow> (uuid \<Rightarrow> respawn_env) \<Rightarrow> supervision
    \<Rightarrow> (u64 option \<times> supervision) option" where
  "run_due pw order now env w =
     (let w1 = fold (respawn_due pw env) (filter (due_now now w) order) w;
          times = pending_times w1 order
      in if times = [] then Some (None, w1)
         else do {
           soonest \<leftarrow> checked_add u64_max now 1;
           Some (Some (min_list (map (\<lambda>t. max t soonest) times)), w1)
         })"

section \<open>Operator requests\<close>

definition sn_status :: "supervision \<Rightarrow> uuid \<Rightarrow> u64 \<Rightarrow> pane_status option" where
  "sn_status w i now = (case sn_entries w i of None \<Rightarrow> None
     | Some e \<Rightarrow> Some \<lparr>st_pane_id = i, st_view = sup_status (en_sup e) now,
         st_pid = Option.bind (running_pane w e) pane_pid, st_now_ms = now\<rparr>)"

definition take_dirty :: "supervision \<Rightarrow> uuid set \<times> supervision" where
  "take_dirty w = (sn_dirty w, w\<lparr>sn_dirty := {}\<rparr>)"

definition state_of :: "supervision \<Rightarrow> uuid \<Rightarrow> lifecycle_state option" where
  "state_of w i = map_option (\<lambda>e. ps_state (en_sup e)) (sn_entries w i)"

definition persisted_for :: "supervision \<Rightarrow> uuid list \<Rightarrow> (uuid \<times> persisted_restart_state) list" where
  "persisted_for w ids = List.map_filter (\<lambda>i. map_option (\<lambda>e. (i, sup_persisted (en_sup e))) (sn_entries w i)) ids"

definition sn_set_policy :: "supervision \<Rightarrow> uuid \<Rightarrow> restart_policy \<Rightarrow> u64 \<Rightarrow> (engine_error + unit) \<times> supervision" where
  "sn_set_policy w i policy now =
     (case policy_validate policy of Inl why \<Rightarrow> (Inl (InvalidRestartPolicy why), w) | Inr _ \<Rightarrow>
      (case sn_entries w i of None \<Rightarrow> (Inl (PaneNotFound i), w) | Some e \<Rightarrow>
        let was_backoff = (ps_state (en_sup e) = Backoff);
            sp = set_policy (en_sup e) policy;
            touch = (\<lambda>p. let p1 = set_restart_pending (restart_pending sp) p
                         in if was_backoff \<and> ps_state sp = Exited
                            then emit_lifecycle (event EvExited sp now) (inject_output PolicyCancelMarker p1)
                            else p1)
        in (Inr (), mark_dirty i (put w i (e\<lparr>en_sup := sp\<rparr>) (map_option touch (upgrade w e))))))"

definition stop :: "supervision \<Rightarrow> uuid \<Rightarrow> u64 \<Rightarrow> i32 option \<Rightarrow> (engine_error + signal_outcome) \<times> supervision" where
  "stop w i now kill_errno =
     (case sn_entries w i of None \<Rightarrow> (Inl (PaneNotFound i), w) | Some e \<Rightarrow>
        let before = en_sup e;
            (needs_signal, sp) = request_stop before;
            e1 = e\<lparr>en_sup := sp\<rparr>;
            pane = map_option (set_restart_pending False) (upgrade w e)
        in if needs_signal
           then (case pane of
                   None \<Rightarrow> (Inr Signaled, mark_dirty i (put w i e1 None))
                 | Some p \<Rightarrow>
                     if pn_exited p then (Inr Signaled, mark_dirty i (put w i e1 (Some p)))
                     else (case terminate kill_errno p of
                             (Inl er, p1) \<Rightarrow> (Inl (PaneStart i (SignalFailed er)),
                                put w i e (Some (set_restart_pending (restart_pending before) p1)))
                           | (Inr _, p1) \<Rightarrow> (Inr Signaled, mark_dirty i (put w i e1 (Some p1)))))
           else let already_stopped = (ps_state before = Stopped);
                    tell = (\<lambda>p. if already_stopped then p
                       else emit_lifecycle (event EvStopped sp now)
                              (inject_output (StoppedMarker (ps_state before = Backoff)) p))
                in (Inr Immediate, mark_dirty i (put w i e1 (map_option tell pane))))"

definition sn_restart :: "powi_fun \<Rightarrow> respawn_env \<Rightarrow> supervision \<Rightarrow> uuid \<Rightarrow> bool \<Rightarrow> i32 option
    \<Rightarrow> (engine_error + signal_outcome) \<times> supervision" where
  "sn_restart pw env w i reset_backoff kill_errno =
     (case sn_entries w i of None \<Rightarrow> (Inl (PaneNotFound i), w) | Some e \<Rightarrow>
        let (signaled, sp) = request_restart (en_sup e) reset_backoff;
            e1 = e\<lparr>en_sup := sp\<rparr>;
            w1 = mark_dirty i w
        in if signaled
           then (case running_pane w e of
                   None \<Rightarrow> (Inr Signaled, put w1 i e1 None)
                 | Some p \<Rightarrow> (case terminate kill_errno p of
                       (Inl er, p1) \<Rightarrow> (Inl (PaneStart i (SignalFailed er)), put w1 i e (Some p1))
                     | (Inr _, p1) \<Rightarrow> (Inr Signaled, put w1 i e1 (Some p1))))
           else (case running_pane w e of
                   Some p \<Rightarrow> (Inr Signaled, put w1 i (e\<lparr>en_sup := schedule_manual_restart_now sp (re_now env)\<rparr>)
                                (Some (set_restart_pending True p)))
                 | None \<Rightarrow> (case do_respawn pw env w1 i e1 False of
                       (Inl er, w2) \<Rightarrow> (Inl er, w2)
                     | (Inr _, w2) \<Rightarrow> (Inr Immediate, w2))))"

definition start :: "powi_fun \<Rightarrow> respawn_env \<Rightarrow> supervision \<Rightarrow> uuid \<Rightarrow> (engine_error + unit) \<times> supervision" where
  "start pw env w i =
     (case sn_entries w i of None \<Rightarrow> (Inl (PaneNotFound i), w) | Some e \<Rightarrow>
        if running_pane w e \<noteq> None then (Inl (PaneRunning i), w)
        else (case do_respawn pw env (mark_dirty i w) i (e\<lparr>en_sup := reset_for_start (en_sup e)\<rparr>) False of
                (Inl er, w2) \<Rightarrow> (Inl er, w2)
              | (Inr _, w2) \<Rightarrow> (Inr (), w2)))"

definition sn_reset_budget :: "supervision \<Rightarrow> uuid \<Rightarrow> (engine_error + unit) \<times> supervision" where
  "sn_reset_budget w i =
     (case sn_entries w i of None \<Rightarrow> (Inl (PaneNotFound i), w) | Some e \<Rightarrow>
        (Inr (), mark_dirty i (put w i (e\<lparr>en_sup := reset_budget (en_sup e)\<rparr>) None)))"

section \<open>The supervisor and the reader threads together\<close>

inductive world_step :: "powi_fun \<Rightarrow> supervision \<Rightarrow> supervision \<Rightarrow> bool" for pw where
  spawn: "sn_heap w r = None \<Longrightarrow> world_step pw w (w\<lparr>sn_heap := (sn_heap w)(r \<mapsto> pane_new i pid)\<rparr>)"
| reap: "sn_heap w r = Some p \<Longrightarrow> pn_phase p = Reading \<Longrightarrow>
     world_step pw w (w\<lparr>sn_heap := (sn_heap w)(r \<mapsto> reader_reap code p)\<rparr>)"
| check: "sn_heap w r = Some p \<Longrightarrow> pn_phase p = Reaped \<Longrightarrow>
     world_step pw w (w\<lparr>sn_heap := (sn_heap w)(r \<mapsto> reader_check_hook p)\<rparr>)"
| hook: "sn_heap w r = Some p \<Longrightarrow> pn_phase p = HookTaken True \<Longrightarrow>
     handle_exit pw now unit w r (pn_exit_code p) = (b, w') \<Longrightarrow> sn_heap w' r = Some p' \<Longrightarrow>
     world_step pw w (w'\<lparr>sn_heap := (sn_heap w')(r \<mapsto> reader_hook_done p')\<rparr>)"
| publish: "sn_heap w r = Some p \<Longrightarrow> pn_phase p \<in> {HookDone, HookTaken False} \<Longrightarrow>
     world_step pw w (w\<lparr>sn_heap := (sn_heap w)(r \<mapsto> reader_publish p)\<rparr>)"
| live: "sn_heap w r = Some p \<Longrightarrow> \<not> pn_hook p \<Longrightarrow> \<not> pn_retired p \<Longrightarrow> sn_entries w (pn_id p) = None \<Longrightarrow>
     world_step pw w (register_live pw now unit w r (pn_id p) policy)"
| restored: "sn_entries w i = None \<Longrightarrow> world_step pw w (register_restored w i persisted policy)"
| adopt: "sn_heap w r = Some p \<Longrightarrow> \<not> pn_hook p \<Longrightarrow> \<not> pn_retired p \<Longrightarrow>
     (case sn_entries w (pn_id p) of None \<Rightarrow> True | Some e \<Rightarrow> en_pane e = None) \<Longrightarrow>
     world_step pw w (adopt_started pw now unit w r (pn_id p) policy)"
| forget: "world_step pw w (Supervision.forget w i)"
| run: "distinct order \<Longrightarrow> set order = dom (sn_entries w) \<Longrightarrow> run_due pw order now env w = Some (d, w') \<Longrightarrow>
     world_step pw w w'"
| policy: "world_step pw w (snd (sn_set_policy w i pol now))"
| stop: "world_step pw w (snd (Supervision.stop w i now kill_errno))"
| restart: "world_step pw w (snd (sn_restart pw env w i reset kill_errno))"
| start: "world_step pw w (snd (Supervision.start pw env w i))"
| budget: "world_step pw w (snd (sn_reset_budget w i))"
| drained: "world_step pw w (snd (take_dirty w))"
| killed: "sn_heap w r = Some p \<Longrightarrow> world_step pw w (w\<lparr>sn_heap := (sn_heap w)(r \<mapsto> snd (kill kill_errno p))\<rparr>)"

inductive world_init :: "supervision \<Rightarrow> bool" where
  "world_init \<lparr>sn_entries = (\<lambda>_. None), sn_dirty = {}, sn_heap = (\<lambda>_. None)\<rparr>"

section \<open>Invariants of panes and entries\<close>

definition running_phase :: "pane_proc \<Rightarrow> bool" where
  "running_phase p \<longleftrightarrow> pn_phase p \<in> {Reading, Reaped, HookTaken True}"

definition pane_inv :: "pane_proc \<Rightarrow> bool" where
  "pane_inv p \<longleftrightarrow> (pn_exited p \<longleftrightarrow> pn_phase p = ReaderDone)
     \<and> (pn_exit_checked p \<longleftrightarrow> pn_phase p \<notin> {Reading, Reaped})
     \<and> (\<not> pn_hook p \<longrightarrow> pn_phase p \<notin> {HookTaken True, HookDone})"

text \<open>
  How an entry and its pane agree: the supervisor believes a process runs exactly until that
  process's exit is accounted for, and from then on the pane's flag says whether a restart follows.
\<close>

definition linked :: "uuid \<Rightarrow> pane_supervisor \<Rightarrow> pane_proc \<Rightarrow> bool" where
  "linked i s p \<longleftrightarrow> pn_id p = i \<and> \<not> pn_retired p \<and> pn_hook p
     \<and> (ps_started_at_ms s \<noteq> None \<longleftrightarrow> running_phase p)
     \<and> (\<not> running_phase p \<longrightarrow> pn_restart_pending p = restart_pending s)"

definition entry_ok :: "powi_fun \<Rightarrow> (nat \<Rightarrow> pane_proc option) \<Rightarrow> uuid \<Rightarrow> entry \<Rightarrow> bool" where
  "entry_ok pw h i e \<longleftrightarrow> reachable sup_init (sup_step pw) (en_sup e)
     \<and> (en_pane e = None \<longrightarrow> ps_started_at_ms (en_sup e) = None \<and> \<not> restart_pending (en_sup e))
     \<and> (\<forall>r. en_pane e = Some r \<longrightarrow> (\<exists>p. h r = Some p \<and> linked i (en_sup e) p))"

definition store_inv :: "powi_fun \<Rightarrow> (uuid \<Rightarrow> entry option) \<Rightarrow> (nat \<Rightarrow> pane_proc option) \<Rightarrow> bool" where
  "store_inv pw en h \<longleftrightarrow> (\<forall>r p. h r = Some p \<longrightarrow> pane_inv p) \<and> (\<forall>i e. en i = Some e \<longrightarrow> entry_ok pw h i e)"

definition world_inv :: "powi_fun \<Rightarrow> supervision \<Rightarrow> bool" where
  "world_inv pw w \<longleftrightarrow> store_inv pw (sn_entries w) (sn_heap w)"

lemma world_inv_pane: "world_inv pw w \<Longrightarrow> sn_heap w r = Some p \<Longrightarrow> pane_inv p"
  by (simp add: world_inv_def store_inv_def)

lemma world_inv_entry: "world_inv pw w \<Longrightarrow> sn_entries w i = Some e \<Longrightarrow> entry_ok pw (sn_heap w) i e"
  by (simp add: world_inv_def store_inv_def)

lemma entry_ok_reach: "entry_ok pw h i e \<Longrightarrow> reachable sup_init (sup_step pw) (en_sup e)"
  by (simp add: entry_ok_def)

lemma entry_ok_sup_inv: "entry_ok pw h i e \<Longrightarrow> sup_inv (en_sup e)"
  by (rule lifecycle.reachable_inv [OF entry_ok_reach])

lemma mark_dirty_simps [simp]:
  "sn_entries (mark_dirty i w) = sn_entries w" "sn_heap (mark_dirty i w) = sn_heap w"
  "upgrade (mark_dirty i w) e = upgrade w e" "running_pane (mark_dirty i w) e = running_pane w e"
  by (simp_all add: mark_dirty_def upgrade_def running_pane_def)

lemma world_inv_dirty [simp]: "world_inv pw (mark_dirty i w) = world_inv pw w"
  by (simp add: world_inv_def)

text \<open>
  The frame: changing one pane and at most its own entry keeps the invariant when the new pair
  agrees. Other entries cannot refer to the changed pane because it carries its entry's id.
\<close>

lemma store_inv_entry:
  "store_inv pw en h \<Longrightarrow> entry_ok pw h i e \<Longrightarrow> store_inv pw (en(i \<mapsto> e)) h"
  by (simp add: store_inv_def)

lemma store_inv_pane:
  assumes "store_inv pw en h" and "h r = Some p" and "pane_inv p'"
    and "\<And>e. en (pn_id p) = Some e \<Longrightarrow> en_pane e = Some r \<Longrightarrow> linked (pn_id p) (en_sup e) p \<Longrightarrow>
           linked (pn_id p) (en_sup e) p'"
  shows "store_inv pw en (h(r \<mapsto> p'))"
proof -
  have "entry_ok pw (h(r \<mapsto> p')) j e" if "en j = Some e" for j e
  proof -
    have ok: "entry_ok pw h j e" using that assms(1) by (simp add: store_inv_def)
    then have "linked j (en_sup e) p'" if "en_pane e = Some r"
      using that \<open>en j = Some e\<close> assms(2,4) by (auto simp: entry_ok_def linked_def)
    with ok show ?thesis by (auto simp: entry_ok_def)
  qed
  with assms(1,3) show ?thesis by (simp add: store_inv_def)
qed

lemma store_inv_both:
  assumes "store_inv pw en h" and "h r = Some p" and "pn_id p = i" and "pane_inv p'" and "en_pane e = Some r"
    and "reachable sup_init (sup_step pw) (en_sup e)" and "linked i (en_sup e) p'"
  shows "store_inv pw (en(i \<mapsto> e)) (h(r \<mapsto> p'))"
proof -
  have "entry_ok pw (h(r \<mapsto> p')) j f" if "en j = Some f" "j \<noteq> i" for j f
  proof -
    have ok: "entry_ok pw h j f" using that assms(1) by (simp add: store_inv_def)
    then have "en_pane f \<noteq> Some r" using assms(2,3) that(2) by (auto simp: entry_ok_def linked_def)
    with ok show ?thesis by (auto simp: entry_ok_def)
  qed
  with assms show ?thesis by (simp add: store_inv_def entry_ok_def)
qed

lemma put_inv:
  assumes "world_inv pw w" and "sn_entries w i = Some e0" and "en_pane e = en_pane e0"
    and "reachable sup_init (sup_step pw) (en_sup e)"
    and "en_pane e0 = None \<Longrightarrow> ps_started_at_ms (en_sup e) = None \<and> \<not> restart_pending (en_sup e)"
    and "\<And>p. upgrade w e0 = Some p \<Longrightarrow> pane_inv p \<Longrightarrow> linked i (en_sup e0) p \<Longrightarrow>
      (case po of None \<Rightarrow> linked i (en_sup e) p | Some p' \<Rightarrow> pane_inv p' \<and> linked i (en_sup e) p')"
  shows "world_inv pw (put w i e po)"
proof (cases "en_pane e0")
  case None
  then show ?thesis using assms
    by (auto simp: put_def world_inv_def entry_ok_def split: option.splits intro!: store_inv_entry)
next
  case (Some r)
  obtain p where p: "sn_heap w r = Some p" "linked i (en_sup e0) p"
    using world_inv_entry [OF assms(1,2)] Some by (auto simp: entry_ok_def)
  have pi: "pane_inv p" using assms(1) p(1) by (rule world_inv_pane)
  have u: "upgrade w e0 = Some p" using Some p by (simp add: upgrade_def)
  note ok = assms(6) [OF u pi p(2)]
  show ?thesis
  proof (cases po)
    case None
    then show ?thesis using assms(1,3,4) Some p ok
      by (auto simp: put_def world_inv_def entry_ok_def intro!: store_inv_entry)
  next
    case (Some p')
    then show ?thesis using assms(1,3,4) \<open>en_pane e0 = Some r\<close> p ok
      by (auto simp: put_def world_inv_def linked_def intro!: store_inv_both [where p = p])
  qed
qed

section \<open>Pane operations and the invariant\<close>

text \<open>The fields of a pane the invariant reads, less the restart flag.\<close>

definition pane_core :: "pane_proc \<Rightarrow> uuid \<times> bool \<times> bool \<times> bool \<times> bool \<times> reader_phase \<times> u64" where
  "pane_core p = (pn_id p, pn_exited p, pn_exit_checked p, pn_retired p, pn_hook p, pn_phase p, pn_generation p)"

lemma pane_core_ops [simp]:
  "pane_core (set_restart_pending b p) = pane_core p"
  "pane_core (emit_lifecycle e p) = pane_core p"
  "pane_core (inject_output m p) = pane_core p"
  by (simp_all add: pane_core_def set_restart_pending_def emit_lifecycle_def inject_output_def)

lemma pane_core_announce [simp]:
  "pane_core (announce_exit s k code sig now p) = pane_core p"
  "pane_core (announce_failed_spawn s k err now p) = pane_core p"
  by (simp_all add: announce_exit_def announce_failed_spawn_def Let_def split: exit_kind.splits)

lemma pane_core_terminate: "terminate er p = (res, p') \<Longrightarrow> pane_core p' = pane_core p"
  by (auto simp: terminate_def signal_then_kill_def pane_core_def Let_def split: if_splits option.splits)

lemma pane_core_kill: "kill er p = (res, p') \<Longrightarrow> pane_core p' = pane_core p"
  by (auto simp: kill_def signal_then_kill_def pane_core_def Let_def split: if_splits option.splits)

lemma pane_core_inv: "pane_core p' = pane_core p \<Longrightarrow> pane_inv p' = pane_inv p"
  by (simp add: pane_core_def pane_inv_def)

lemma pane_core_running: "pane_core p' = pane_core p \<Longrightarrow> running_phase p' = running_phase p"
  by (simp add: pane_core_def running_phase_def)

lemma pane_core_linked:
  "pane_core p' = pane_core p \<Longrightarrow> linked i s p' \<longleftrightarrow> pn_id p = i \<and> \<not> pn_retired p \<and> pn_hook p
     \<and> (ps_started_at_ms s \<noteq> None \<longleftrightarrow> running_phase p) \<and> (\<not> running_phase p \<longrightarrow> pn_restart_pending p' = restart_pending s)"
  by (simp add: pane_core_def linked_def running_phase_def)

lemma flag_set [simp]:
  "pn_restart_pending (set_restart_pending b p) = b"
  "pn_restart_pending (emit_lifecycle e p) = pn_restart_pending p"
  "pn_restart_pending (inject_output m p) = pn_restart_pending p"
  by (simp_all add: set_restart_pending_def emit_lifecycle_def inject_output_def)

lemma exited_not_running: "pane_inv p \<Longrightarrow> pn_exited p \<Longrightarrow> \<not> running_phase p"
  by (simp add: pane_inv_def running_phase_def)

section \<open>Exits\<close>

lemma reach_exit:
  "reachable sup_init (sup_step pw) s \<Longrightarrow> ps_started_at_ms s \<noteq> None \<Longrightarrow>
     on_exit pw s now code sig unit = (k, s') \<Longrightarrow> reachable sup_init (sup_step pw) s'"
  by (metis reach_step sup_step.exit snd_conv)

lemma on_exit_started: "on_exit pw s now code sig unit = (k, s') \<Longrightarrow> ps_started_at_ms s' = None"
  by (auto simp: on_exit_def after_failure_def Let_def split: if_splits)

text \<open>
  Accounting an exit while the entry still believes in the process, together with the reader (or
  the hook installer) moving past that point.
\<close>

lemma account_exit_inv:
  assumes "world_inv pw w" and "sn_heap w r = Some p" and "account_exit pw now unit w r code = (b, w')"
    and "\<And>p'. pane_core p' = pane_core p \<Longrightarrow> pane_inv (f p') \<and> \<not> running_phase (f p')
           \<and> pn_id (f p') = pn_id p \<and> (pn_hook p \<longrightarrow> pn_hook (f p')) \<and> pn_retired (f p') = pn_retired p
           \<and> pn_restart_pending (f p') = pn_restart_pending p'"
    and "running_phase p"
  shows "\<exists>p'. sn_heap w' r = Some p' \<and> world_inv pw (w'\<lparr>sn_heap := (sn_heap w')(r \<mapsto> f p')\<rparr>)"
proof -
  let ?i = "pn_id p"
  consider (skip) "w' = w" "\<And>e. sn_entries w ?i = Some e \<Longrightarrow> en_pane e \<noteq> Some r"
    | (acc) e k sp p1 where "sn_entries w ?i = Some e" "en_pane e = Some r"
        "on_exit pw (en_sup e) now code (signal_sent p) unit = (k, sp)"
        "p1 = set_restart_pending (restart_pending sp) (announce_exit sp k code (signal_sent p) now p)"
        "w' = mark_dirty ?i (put w ?i (e\<lparr>en_sup := sp\<rparr>) (Some p1))"
    using assms(2,3) by (auto simp: account_exit_def Let_def split: option.splits prod.splits if_splits)
  then show ?thesis
  proof cases
    case skip
    then show ?thesis using assms(1,2) assms(4) [of p]
      by (auto simp: world_inv_def intro!: store_inv_pane)
  next
    case acc
    have ok: "entry_ok pw (sn_heap w) ?i e" using assms(1) acc(1) by (rule world_inv_entry)
    then have l: "linked ?i (en_sup e) p" using acc(2) assms(2) by (simp add: entry_ok_def)
    have st: "ps_started_at_ms (en_sup e) \<noteq> None" using l assms(5) by (auto simp: linked_def)
    have re: "reachable sup_init (sup_step pw) sp" using reach_exit [OF entry_ok_reach [OF ok] st acc(3)] .
    have p1: "pane_core p1 = pane_core p" using acc(4) by simp
    have "store_inv pw ((sn_entries w)(?i \<mapsto> e\<lparr>en_sup := sp\<rparr>)) ((sn_heap w)(r \<mapsto> f p1))"
      using assms(1,2) re acc(2,4) assms(4) [OF p1] l on_exit_started [OF acc(3)]
      by (intro store_inv_both [where p = p]) (auto simp: world_inv_def linked_def)
    then show ?thesis using acc(2,5) by (simp add: put_def world_inv_def)
  qed
qed

lemma install_hook_inv:
  assumes "world_inv pw (w\<lparr>sn_entries := (sn_entries w)(i := None)\<rparr>)" and "sn_heap w r = Some p" and "\<not> pn_hook p" and "\<not> pn_retired p"
    and "pn_id p = i" and "sn_entries w i = Some e" and "en_pane e = Some r"
    and "reachable sup_init (sup_step pw) (en_sup e)" and "ps_started_at_ms (en_sup e) \<noteq> None"
  shows "world_inv pw (install_hook pw now unit w r)"
proof -
  have si: "store_inv pw ((sn_entries w)(i := None)) (sn_heap w)" using assms(1) by (simp add: world_inv_def)
  then have pi: "pane_inv p" using assms(2) by (simp add: store_inv_def)
  have ext: "store_inv pw ((sn_entries w)(i \<mapsto> f)) ((sn_heap w)(r \<mapsto> p'))"
    if "pane_inv p'" "en_pane f = Some r" "reachable sup_init (sup_step pw) (en_sup f)" "linked i (en_sup f) p'" for f p'
    using store_inv_both [OF si assms(2,5) that] by simp
  have hook: "pane_inv (p\<lparr>pn_hook := True\<rparr>)" using pi by (simp add: pane_inv_def)
  show ?thesis
  proof (cases "pn_exit_checked p")
    case False
    then have "running_phase p" using pi by (auto simp: pane_inv_def running_phase_def)
    then have "linked i (en_sup e) (p\<lparr>pn_hook := True\<rparr>)"
      using assms by (simp add: linked_def running_phase_def)
    from ext [OF hook assms(7,8) this] show ?thesis using False assms(2,6)
      by (simp add: install_hook_def set_exit_hook_def world_inv_def fun_upd_idem)
  next
    case True
    then have nr: "\<not> running_phase p" using pi assms(3) by (auto simp: pane_inv_def running_phase_def)
    let ?p = "p\<lparr>pn_hook := True\<rparr>"
    obtain k sp where x: "on_exit pw (en_sup e) now (pn_exit_code p) (signal_sent ?p) unit = (k, sp)" by force
    let ?q = "set_restart_pending (restart_pending sp) (announce_exit sp k (pn_exit_code p) (signal_sent ?p) now ?p)"
    have c: "pane_core ?q = pane_core ?p" by simp
    have "linked i sp ?q" unfolding pane_core_linked [OF c]
      using assms(4,5) on_exit_started [OF x] nr by (simp add: running_phase_def)
    moreover have "pane_inv ?q" using hook pane_core_inv [OF c] by simp
    ultimately have "store_inv pw ((sn_entries w)(i \<mapsto> e\<lparr>en_sup := sp\<rparr>)) ((sn_heap w)(r \<mapsto> ?q))"
      using reach_exit [OF assms(8,9) x] assms(7) by (intro ext) simp_all
    moreover have "sn_entries (install_hook pw now unit w r) = (sn_entries w)(i \<mapsto> e\<lparr>en_sup := sp\<rparr>)"
      and "sn_heap (install_hook pw now unit w r) = (sn_heap w)(r \<mapsto> ?q)"
      using True assms(2,5,6,7) x
      by (simp_all add: install_hook_def set_exit_hook_def account_exit_def put_def Let_def)
    ultimately show ?thesis by (simp add: world_inv_def)
  qed
qed

section \<open>Respawns and requests\<close>

lemma on_spawn_failed_started: "on_spawn_failed pw s now unit = (k, s') \<Longrightarrow> ps_started_at_ms s' = None"
  by (auto simp: on_spawn_failed_def after_failure_def Let_def split: if_splits)

lemma on_started_simps [simp]:
  "ps_started_at_ms (on_started s now) = Some now" "restart_pending (on_started s now) = False"
  by (simp_all add: on_started_def restart_pending_def state_restart_pending_def)

lemma entry_pane:
  assumes "world_inv pw w" and "sn_entries w i = Some e"
  obtains "en_pane e = None" "upgrade w e = None" "ps_started_at_ms (en_sup e) = None" "\<not> restart_pending (en_sup e)"
    | r p where "en_pane e = Some r" "sn_heap w r = Some p" "upgrade w e = Some p" "pane_inv p" "linked i (en_sup e) p"
  using world_inv_entry [OF assms] world_inv_pane [OF assms(1)]
  by (cases "en_pane e") (auto simp: entry_ok_def upgrade_def)

lemma dead_entry:
  assumes "world_inv pw w" and "sn_entries w i = Some e" and "running_pane w e = None"
  shows "ps_started_at_ms (en_sup e) = None"
  by (rule entry_pane [OF assms(1,2)])
     (use assms(3) in \<open>auto simp: running_pane_def linked_def exited_not_running split: if_splits\<close>)

lemma respawn_with_core:
  assumes "respawn_with st (\<lambda>pid. Some (b pid)) p = (res, p')"
  shows "(\<exists>m. res = Inl m \<and> p' = p) \<or> (\<exists>pid. res = Inr pid \<and> pn_id p' = pn_id p \<and> pn_hook p' = pn_hook p
     \<and> \<not> pn_retired p' \<and> pn_phase p' = Reading \<and> \<not> pn_exited p' \<and> \<not> pn_exit_checked p'
     \<and> pn_generation p' = pn_generation p + 1 \<and> pn_exited p \<and> \<not> pn_retired p)"
  using assms by (auto simp: respawn_with_def inject_output_def Let_def split: if_splits sum.splits)

lemma do_respawn_inv:
  assumes "world_inv pw w" and "sn_entries w i = Some e" and "running_pane w e = None"
    and "ps_started_at_ms s = None"
    and "en_pane e = None \<Longrightarrow> reachable sup_init (sup_step pw) s \<and> \<not> restart_pending s"
    and "reachable sup_init (sup_step pw) (on_started (begin_restart s (re_now env) a) (re_now env))"
    and "reachable sup_init (sup_step pw) (snd (on_spawn_failed pw (begin_restart s (re_now env) a) (re_now env) (re_unit env)))"
  shows "world_inv pw (snd (do_respawn pw env w i (e\<lparr>en_sup := s\<rparr>) a))"
proof (rule entry_pane [OF assms(1,2)])
  assume n: "en_pane e = None" "upgrade w e = None"
  then have "world_inv pw (put w i (e\<lparr>en_sup := s\<rparr>) None)"
    using assms by (intro put_inv [OF assms(1,2)]) auto
  then show ?thesis using n by (simp add: do_respawn_def upgrade_def)
next
  fix r p
  assume e: "en_pane e = Some r" and h: "sn_heap w r = Some p" and u: "upgrade w e = Some p"
    and pi: "pane_inv p" and l: "linked i (en_sup e) p"
  have nret: "\<not> pn_retired p" using l by (simp add: linked_def)
  have nrun: "\<not> running_phase p" using assms(3) u pi by (simp add: running_pane_def exited_not_running split: if_splits)
  let ?s1 = "begin_restart s (re_now env) a"
  obtain res p1 where rw: "respawn_with (re_start env) (\<lambda>pid. Some (RestartBanner pid (ps_restart_count ?s1))) p = (res, p1)"
    by force
  have u': "upgrade w (e\<lparr>en_sup := s\<rparr>) = Some p" using u by (simp add: upgrade_def)
  show ?thesis
  proof (cases res)
    case (Inr pid)
    let ?s2 = "on_started ?s1 (re_now env)"
    let ?q = "emit_lifecycle ((event EvRestarted ?s2 (re_now env))\<lparr>ev_pid := pid\<rparr>) (set_restart_pending False p1)"
    have c: "pane_core ?q = pane_core p1" by simp
    have q: "pane_inv ?q" "linked i ?s2 ?q" unfolding pane_core_inv [OF c] pane_core_linked [OF c]
      using respawn_with_core [OF rw] Inr l by (auto simp: pane_inv_def running_phase_def linked_def)
    have "world_inv pw (put w i (e\<lparr>en_sup := ?s2\<rparr>) (Some ?q))"
      using q assms(6) e by (intro put_inv [OF assms(1,2)]) auto
    then show ?thesis using Inr rw nret by (simp add: do_respawn_def u' Let_def)
  next
    case (Inl msg)
    then have p1: "p1 = p" using respawn_with_core [OF rw] by auto
    obtain k s2 where f: "on_spawn_failed pw ?s1 (re_now env) (re_unit env) = (k, s2)" by force
    let ?q = "set_restart_pending (restart_pending s2) (announce_failed_spawn s2 k msg (re_now env) p)"
    have c: "pane_core ?q = pane_core p" by simp
    have q: "pane_inv ?q" "linked i s2 ?q" unfolding pane_core_inv [OF c] pane_core_linked [OF c]
      using pi l nrun on_spawn_failed_started [OF f] by (auto simp: linked_def)
    have "world_inv pw (put w i (e\<lparr>en_sup := s2\<rparr>) (Some ?q))"
      using q assms(7) e f by (intro put_inv [OF assms(1,2)]) auto
    then show ?thesis using Inl rw nret p1 f by (simp add: do_respawn_def u' Let_def)
  qed
qed

lemma respawn_due_inv:
  assumes "world_inv pw w" and "\<And>e. sn_entries w i = Some e \<Longrightarrow> running_pane w e = None"
  shows "world_inv pw (respawn_due pw env i w)"
proof (cases "sn_entries w i")
  case (Some e)
  have r: "reachable sup_init (sup_step pw) (en_sup e)"
    using entry_ok_reach [OF world_inv_entry [OF assms(1) Some]] .
  have d: "ps_started_at_ms (en_sup e) = None" using dead_entry [OF assms(1) Some assms(2) [OF Some]] .
  have "world_inv pw (snd (do_respawn pw (env i) w i (e\<lparr>en_sup := en_sup e\<rparr>) a))" for a
  proof (rule do_respawn_inv [OF assms(1) Some assms(2) [OF Some] d])
    show "en_pane e = None \<Longrightarrow> reachable sup_init (sup_step pw) (en_sup e) \<and> \<not> restart_pending (en_sup e)"
      using world_inv_entry [OF assms(1) Some] by (simp add: entry_ok_def)
  qed (rule reach_step [OF r]; intro sup_step.respawn_ok sup_step.respawn_failed d)+
  then show ?thesis using Some by (simp add: respawn_due_def)
qed (use assms in \<open>simp add: respawn_due_def\<close>)

lemma entries_apart:
  assumes "world_inv pw w" and "sn_entries w i = Some e" and "sn_entries w j = Some f" and "j \<noteq> i" and "en_pane f = Some r"
  shows "en_pane e \<noteq> Some r"
  using world_inv_entry [OF assms(1,2)] world_inv_entry [OF assms(1,3)] assms(4,5)
  by (auto simp: entry_ok_def linked_def)

lemma do_respawn_other_entry: "j \<noteq> i \<Longrightarrow> sn_entries (snd (do_respawn pw env w i e a)) j = sn_entries w j"
  by (simp add: do_respawn_def put_def Let_def split: option.splits sum.splits prod.splits)

lemma do_respawn_other_pane:
  "en_pane e \<noteq> Some r \<Longrightarrow> sn_heap (snd (do_respawn pw env w i e a)) r = sn_heap w r"
  by (auto simp: do_respawn_def put_def Let_def split: option.splits sum.splits prod.splits)

lemma respawn_due_other:
  assumes "world_inv pw w" and "j \<noteq> i"
  shows "sn_entries (respawn_due pw env i w) j = sn_entries w j"
    and "sn_entries w j = Some f \<Longrightarrow> upgrade (respawn_due pw env i w) f = upgrade w f"
proof -
  show "sn_entries (respawn_due pw env i w) j = sn_entries w j"
    using assms(2) by (simp add: respawn_due_def do_respawn_other_entry split: option.splits)
  show "upgrade (respawn_due pw env i w) f = upgrade w f" if "sn_entries w j = Some f"
    using entries_apart [OF assms(1) _ that assms(2)]
    by (cases "en_pane f") (auto simp: respawn_due_def upgrade_def do_respawn_other_pane split: option.splits)
qed

lemma fold_respawn_inv:
  assumes "world_inv pw w" and "distinct ids" and "\<And>i e. i \<in> set ids \<Longrightarrow> sn_entries w i = Some e \<Longrightarrow> running_pane w e = None"
  shows "world_inv pw (fold (respawn_due pw env) ids w)"
  using assms
proof (induction ids arbitrary: w)
  case (Cons i ids)
  have "running_pane (respawn_due pw env i w) e = None"
    if "j \<in> set ids" "sn_entries (respawn_due pw env i w) j = Some e" for j e
  proof -
    have ne: "j \<noteq> i" using that(1) Cons.prems(2) by auto
    then show ?thesis using that Cons.prems(3) [of j e] respawn_due_other [OF Cons.prems(1) ne]
      by (simp add: running_pane_def)
  qed
  then show ?case using Cons.prems by (auto intro!: Cons.IH respawn_due_inv)
qed simp

lemma run_due_inv:
  assumes "world_inv pw w" and "distinct order" and "run_due pw order now env w = Some (d, w')"
  shows "world_inv pw w'"
proof -
  have "world_inv pw (fold (respawn_due pw env) (filter (due_now now w) order) w)"
    using assms(1,2)
    by (intro fold_respawn_inv) (auto simp: due_now_def running_pane_def split: option.splits)
  then show ?thesis using assms(3) by (auto simp: run_due_def Let_def bind_Some_conv split: if_splits)
qed

lemma request_stop_simps:
  "request_stop s = (b, s') \<Longrightarrow> ps_started_at_ms s' = ps_started_at_ms s \<and> \<not> restart_pending s'"
  by (auto simp: request_stop_def restart_pending_def state_restart_pending_def Let_def split: if_splits)

lemma request_stop_running: "request_stop s = (True, s') \<Longrightarrow> sup_inv s \<Longrightarrow> ps_started_at_ms s \<noteq> None"
  by (auto simp: request_stop_def sup_inv_def Let_def)

lemma stop_inv:
  assumes "world_inv pw w"
  shows "world_inv pw (snd (Supervision.stop w i now er))"
proof (cases "sn_entries w i")
  case (Some e)
  obtain b s' where q: "request_stop (en_sup e) = (b, s')" by force
  have ok: "entry_ok pw (sn_heap w) i e" by (rule world_inv_entry [OF assms Some])
  have r: "reachable sup_init (sup_step pw) s'"
    using reach_step [OF entry_ok_reach [OF ok] sup_step.stop] q by simp
  have b: "b \<Longrightarrow> ps_started_at_ms (en_sup e) \<noteq> None"
    using q entry_ok_sup_inv [OF ok] request_stop_running by simp
  have put: "world_inv pw (put w i (e\<lparr>en_sup := s'\<rparr>) po)"
    if po: "\<And>p. upgrade w e = Some p \<Longrightarrow> \<exists>p'. po = Some p' \<and> pane_core p' = pane_core p \<and> \<not> pn_restart_pending p'" for po
  proof (rule put_inv [OF assms Some])
    fix p assume u: "upgrade w e = Some p" and pi: "pane_inv p" and l: "linked i (en_sup e) p"
    obtain p' where p': "po = Some p'" "pane_core p' = pane_core p" "\<not> pn_restart_pending p'"
      using po [OF u] by blast
    show "case po of None \<Rightarrow> linked i (en_sup (e\<lparr>en_sup := s'\<rparr>)) p
        | Some p' \<Rightarrow> pane_inv p' \<and> linked i (en_sup (e\<lparr>en_sup := s'\<rparr>)) p'"
      using p' pi l request_stop_simps [OF q]
      by (simp add: pane_core_inv [OF p'(2)] pane_core_linked [OF p'(2)]) (simp add: linked_def)
  qed (use request_stop_simps [OF q] r ok in \<open>simp_all add: entry_ok_def\<close>)
  show ?thesis
  proof (rule entry_pane [OF assms Some])
    assume "upgrade w e = None"
    then show ?thesis using Some q put by (simp add: Supervision.stop_def Let_def)
  next
    fix rr p
    assume u: "upgrade w e = Some p" and pi: "pane_inv p" and l: "linked i (en_sup e) p"
    obtain res p1 where t: "terminate er (set_restart_pending False p) = (res, p1)" by force
    have c: "pane_core p1 = pane_core p" using pane_core_terminate [OF t] by simp
    have f: "\<not> pn_restart_pending p1"
      using t by (auto simp: terminate_def signal_then_kill_def set_restart_pending_def Let_def split: if_splits option.splits)
    have kept: "world_inv pw (put w i e (Some (set_restart_pending x p1)))" if bb: "b" for x
    proof (rule put_inv [OF assms Some])
      have c': "pane_core (set_restart_pending x p1) = pane_core p" using c by simp
      fix p' assume "upgrade w e = Some p'"
      then show "case Some (set_restart_pending x p1) of None \<Rightarrow> linked i (en_sup e) p'
          | Some p'a \<Rightarrow> pane_inv p'a \<and> linked i (en_sup e) p'a"
        using b [OF bb] u l c' pi
        by (simp add: pane_core_inv [OF c'] pane_core_linked [OF c']) (simp add: linked_def)
    qed (use ok in \<open>auto simp: entry_ok_def\<close>)
    have tell: "world_inv pw (put w i (e\<lparr>en_sup := s'\<rparr>) (Some q))"
      if "pane_core q = pane_core p" "\<not> pn_restart_pending q" for q
      using that u by (intro put) auto
    show ?thesis
    proof (cases b)
      case False
      let ?p = "set_restart_pending False p"
      let ?q = "if ps_state (en_sup e) = Stopped then ?p else emit_lifecycle (event EvStopped s' now)
                  (inject_output (StoppedMarker (ps_state (en_sup e) = Backoff)) ?p)"
      have "snd (Supervision.stop w i now er) = mark_dirty i (put w i (e\<lparr>en_sup := s'\<rparr>) (Some ?q))"
        using False Some q u by (simp add: Supervision.stop_def Let_def)
      moreover have "pane_core ?q = pane_core p" "\<not> pn_restart_pending ?q" by simp_all
      ultimately show ?thesis using tell by simp
    next
      case True
      then show ?thesis using Some q t u tell [OF c f] kept [OF True] tell [of "set_restart_pending False p"]
        by (cases res) (simp_all add: Supervision.stop_def Let_def)
    qed
  qed
qed (use assms in \<open>simp add: Supervision.stop_def\<close>)

lemma policy_inv:
  assumes "world_inv pw w"
  shows "world_inv pw (snd (sn_set_policy w i pol now))"
proof (cases "sn_entries w i")
  case (Some e)
  let ?s = "set_policy (en_sup e) pol"
  have ok: "entry_ok pw (sn_heap w) i e" by (rule world_inv_entry [OF assms Some])
  have r: "reachable sup_init (sup_step pw) ?s"
    by (rule reach_step [OF entry_ok_reach [OF ok] sup_step.policy])
  have st: "ps_started_at_ms ?s = ps_started_at_ms (en_sup e)" "restart_pending ?s \<Longrightarrow> restart_pending (en_sup e)"
    by (auto simp: set_policy_def restart_pending_def state_restart_pending_def Let_def split: if_splits)
  define touch where "touch p = (let p1 = set_restart_pending (restart_pending ?s) p
     in if ps_state (en_sup e) = Backoff \<and> ps_state ?s = Exited
        then emit_lifecycle (event EvExited ?s now) (inject_output PolicyCancelMarker p1) else p1)" for p
  have c: "pane_core (touch p) = pane_core p" "pn_restart_pending (touch p) = restart_pending ?s" for p
    by (simp_all add: touch_def Let_def)
  have "world_inv pw (put w i (e\<lparr>en_sup := ?s\<rparr>) (map_option touch (upgrade w e)))"
  proof (rule put_inv [OF assms Some])
    fix p assume "upgrade w e = Some p" "pane_inv p" "linked i (en_sup e) p"
    then show "case map_option touch (upgrade w e) of None \<Rightarrow> linked i (en_sup (e\<lparr>en_sup := ?s\<rparr>)) p
        | Some p' \<Rightarrow> pane_inv p' \<and> linked i (en_sup (e\<lparr>en_sup := ?s\<rparr>)) p'"
      by (simp add: pane_core_inv [OF c(1)] pane_core_linked [OF c(1)] c(2) st) (simp add: linked_def)
  qed (use ok r st in \<open>auto simp: entry_ok_def\<close>)
  then show ?thesis using assms Some
    by (auto simp: sn_set_policy_def touch_def [abs_def] Let_def split: sum.splits)
qed (use assms in \<open>simp add: sn_set_policy_def split: sum.splits\<close>)

lemma budget_inv:
  assumes "world_inv pw w"
  shows "world_inv pw (snd (sn_reset_budget w i))"
proof (cases "sn_entries w i")
  case (Some e)
  let ?s = "reset_budget (en_sup e)"
  have ok: "entry_ok pw (sn_heap w) i e" by (rule world_inv_entry [OF assms Some])
  have r: "reachable sup_init (sup_step pw) ?s"
    by (rule reach_step [OF entry_ok_reach [OF ok] sup_step.budget])
  have st: "ps_started_at_ms ?s = ps_started_at_ms (en_sup e)" "restart_pending ?s = restart_pending (en_sup e)"
    by (simp_all add: reset_budget_def restart_pending_def state_restart_pending_def Let_def)
  have "world_inv pw (put w i (e\<lparr>en_sup := ?s\<rparr>) None)"
    by (rule put_inv [OF assms Some]) (use ok r st in \<open>auto simp: entry_ok_def linked_def\<close>)
  then show ?thesis using Some by (simp add: sn_reset_budget_def)
qed (use assms in \<open>simp add: sn_reset_budget_def\<close>)

lemma start_inv:
  assumes "world_inv pw w"
  shows "world_inv pw (snd (Supervision.start pw env w i))"
proof (cases "sn_entries w i")
  case (Some e)
  let ?s = "reset_for_start (en_sup e)"
  have ok: "entry_ok pw (sn_heap w) i e" by (rule world_inv_entry [OF assms Some])
  note r = entry_ok_reach [OF ok]
  have "world_inv pw (snd (do_respawn pw env (mark_dirty i w) i (e\<lparr>en_sup := ?s\<rparr>) False))"
    if n: "running_pane w e = None"
  proof (rule do_respawn_inv)
    have d: "ps_started_at_ms (en_sup e) = None" using dead_entry [OF assms Some n] .
    then show "ps_started_at_ms ?s = None" by (simp add: reset_for_start_def)
    show "reachable sup_init (sup_step pw) ?s \<and> \<not> restart_pending ?s" if "en_pane e = None"
    proof -
      have "\<not> restart_pending (en_sup e)" using ok that by (simp add: entry_ok_def)
      then show ?thesis using reach_step [OF r sup_step.start_refused [OF d]]
        by (simp add: reset_for_start_def restart_pending_def)
    qed
    show "reachable sup_init (sup_step pw) (on_started (begin_restart ?s (re_now env) False) (re_now env))"
      by (rule reach_step [OF r sup_step.start_ok [OF d]])
    show "reachable sup_init (sup_step pw)
        (snd (on_spawn_failed pw (begin_restart ?s (re_now env) False) (re_now env) (re_unit env)))"
      by (rule reach_step [OF r sup_step.start_failed [OF d]])
  qed (use assms Some n in simp_all)
  then show ?thesis using Some assms by (fastforce simp: Supervision.start_def split: sum.splits prod.splits)
qed (use assms in \<open>simp add: Supervision.start_def\<close>)

lemma request_restart_started: "request_restart s reset = (b, s') \<Longrightarrow> ps_started_at_ms s' = ps_started_at_ms s"
  by (auto simp: request_restart_def Let_def split: if_splits)

lemma request_restart_pending:
  "request_restart s reset = (False, s') \<Longrightarrow> restart_pending s' = restart_pending s"
  by (auto simp: request_restart_def restart_pending_def state_restart_pending_def Let_def split: if_splits)

lemma restart_signaled_inv:
  assumes "world_inv pw w" and "sn_entries w i = Some e" and "request_restart (en_sup e) reset = (True, s')"
    and "pane_core p1 = pane_core p" and "running_pane w e = Some p"
  shows "world_inv pw (put w i (e\<lparr>en_sup := s'\<rparr>) (Some p1))" and "world_inv pw (put w i e (Some p1))"
proof -
  have ok: "entry_ok pw (sn_heap w) i e" by (rule world_inv_entry [OF assms(1,2)])
  have st: "ps_started_at_ms (en_sup e) \<noteq> None"
    using assms(3) by (auto simp: request_restart_def Let_def split: if_splits)
  have u: "upgrade w e = Some p" using assms(5) by (auto simp: running_pane_def split: option.splits if_splits)
  have l: "pane_inv p1 \<and> linked i s p1"
    if "ps_started_at_ms s = ps_started_at_ms (en_sup e)" "pane_inv p" "linked i (en_sup e) p" for s
    using that st by (simp add: pane_core_inv [OF assms(4)] pane_core_linked [OF assms(4)]) (simp add: linked_def)
  note st' = request_restart_started [OF assms(3)]
  show "world_inv pw (put w i (e\<lparr>en_sup := s'\<rparr>) (Some p1))"
    using reach_step [OF entry_ok_reach [OF ok] sup_step.restart_live [OF assms(3)]] st' u l ok st
    by (intro put_inv [OF assms(1,2)]) (simp_all add: entry_ok_def)
  show "world_inv pw (put w i e (Some p1))"
    using entry_ok_reach [OF ok] u l ok by (intro put_inv [OF assms(1,2)]) (simp_all add: entry_ok_def)
qed

lemma restart_waiting_inv:
  assumes "world_inv pw w" and "sn_entries w i = Some e" and "request_restart (en_sup e) reset = (False, s')"
    and "running_pane w e = Some p"
  shows "world_inv pw (put w i (e\<lparr>en_sup := schedule_manual_restart_now s' now\<rparr>) (Some (set_restart_pending True p)))"
proof -
  let ?s = "schedule_manual_restart_now s' now"
  have ok: "entry_ok pw (sn_heap w) i e" by (rule world_inv_entry [OF assms(1,2)])
  have st: "ps_started_at_ms (en_sup e) = None"
    using assms(3) by (auto simp: request_restart_def Let_def split: if_splits)
  have u: "upgrade w e = Some p" using assms(4) by (auto simp: running_pane_def split: option.splits if_splits)
  then have en: "en_pane e \<noteq> None" by (cases "en_pane e") (auto simp: upgrade_def)
  have s: "ps_started_at_ms ?s = None" "restart_pending ?s"
    using st request_restart_started [OF assms(3)]
    by (simp_all add: schedule_manual_restart_now_def restart_pending_def state_restart_pending_def)
  have c: "pane_core (set_restart_pending True p) = pane_core p" by simp
  show ?thesis
  proof (rule put_inv [OF assms(1,2)])
    show "reachable sup_init (sup_step pw) (en_sup (e\<lparr>en_sup := ?s\<rparr>))"
      using reach_step [OF entry_ok_reach [OF ok] sup_step.restart_unpublished [OF assms(3)]] by simp
    fix q assume "upgrade w e = Some q" "pane_inv q" "linked i (en_sup e) q"
    then have "pane_inv p" "linked i (en_sup e) p" using u by simp_all
    then show "case Some (set_restart_pending True p) of None \<Rightarrow> linked i (en_sup (e\<lparr>en_sup := ?s\<rparr>)) q
        | Some p' \<Rightarrow> pane_inv p' \<and> linked i (en_sup (e\<lparr>en_sup := ?s\<rparr>)) p'"
      using s st by (simp add: pane_core_inv [OF c] pane_core_linked [OF c]) (simp add: linked_def)
  qed (use en in simp_all)
qed

lemma restart_inv:
  assumes "world_inv pw w"
  shows "world_inv pw (snd (sn_restart pw env w i reset er))"
proof (cases "sn_entries w i")
  case (Some e)
  let ?w = "mark_dirty i w"
  have w: "world_inv pw ?w" "sn_entries ?w i = Some e" using assms Some by simp_all
  have ok: "entry_ok pw (sn_heap w) i e" by (rule world_inv_entry [OF assms Some])
  note r = entry_ok_reach [OF ok]
  obtain b s' where q: "request_restart (en_sup e) reset = (b, s')" by force
  show ?thesis
  proof (cases b)
    case True
    then have q: "request_restart (en_sup e) reset = (True, s')" using q by simp
    have st: "ps_started_at_ms (en_sup e) \<noteq> None"
      using q by (auto simp: request_restart_def Let_def split: if_splits)
    then obtain p where p: "running_pane w e = Some p" using dead_entry [OF assms Some] by (cases "running_pane w e") auto
    obtain res p1 where t: "terminate er p = (res, p1)" by force
    show ?thesis using Some q p t restart_signaled_inv [OF w q pane_core_terminate [OF t]]
      by (cases res) (simp_all add: sn_restart_def)
  next
    case False
    then have q: "request_restart (en_sup e) reset = (False, s')" using q by simp
    show ?thesis
    proof (cases "running_pane w e")
      case (Some p)
      then show ?thesis using restart_waiting_inv [OF w q] \<open>sn_entries w i = Some e\<close> q by (simp add: sn_restart_def)
    next
      case None
      have d: "ps_started_at_ms (en_sup e) = None" by (rule dead_entry [OF assms Some None])
      have "world_inv pw (snd (do_respawn pw env ?w i (e\<lparr>en_sup := s'\<rparr>) False))"
      proof (rule do_respawn_inv [OF w])
        show "reachable sup_init (sup_step pw) s' \<and> \<not> restart_pending s'" if "en_pane e = None"
          using reach_step [OF r sup_step.restart_refused [OF q]] request_restart_pending [OF q] ok that
          by (simp add: entry_ok_def)
        show "reachable sup_init (sup_step pw) (on_started (begin_restart s' (re_now env) False) (re_now env))"
          by (rule reach_step [OF r sup_step.restart_dead [OF q]])
        show "reachable sup_init (sup_step pw)
            (snd (on_spawn_failed pw (begin_restart s' (re_now env) False) (re_now env) (re_unit env)))"
          by (rule reach_step [OF r sup_step.restart_dead_failed [OF q]])
      qed (use None d request_restart_started [OF q] in simp_all)
      then show ?thesis using None Some q by (fastforce simp: sn_restart_def split: sum.splits prod.splits)
    qed
  qed
qed (use assms in \<open>simp add: sn_restart_def\<close>)

lemma register_inv:
  assumes "world_inv pw w" and "sn_heap w r = Some p" and "\<not> pn_hook p" and "\<not> pn_retired p"
    and "reachable sup_init (sup_step pw) s" and "ps_started_at_ms s \<noteq> None"
  shows "world_inv pw (install_hook pw now unit (mark_dirty (pn_id p) (put w (pn_id p) \<lparr>en_sup = s, en_pane = Some r\<rparr> None)) r)"
proof (rule install_hook_inv [where e = "\<lparr>en_sup = s, en_pane = Some r\<rparr>" and p = p and i = "pn_id p"])
  have "store_inv pw ((sn_entries w)(pn_id p := None)) (sn_heap w)"
    using assms(1) by (simp add: world_inv_def store_inv_def)
  then show "world_inv pw ((mark_dirty (pn_id p) (put w (pn_id p) \<lparr>en_sup = s, en_pane = Some r\<rparr> None))
      \<lparr>sn_entries := (sn_entries (mark_dirty (pn_id p) (put w (pn_id p) \<lparr>en_sup = s, en_pane = Some r\<rparr> None)))(pn_id p := None)\<rparr>)"
    by (simp add: world_inv_def put_def mark_dirty_def)
qed (use assms in \<open>simp_all add: put_def\<close>)

lemma adopt_inv:
  assumes "world_inv pw w" and "sn_heap w r = Some p" and "\<not> pn_hook p" and "\<not> pn_retired p"
    and "case sn_entries w (pn_id p) of None \<Rightarrow> True | Some e \<Rightarrow> en_pane e = None"
  shows "world_inv pw (adopt_started pw now unit w r (pn_id p) policy)"
proof -
  define s where "s = (case sn_entries w (pn_id p) of Some e \<Rightarrow> en_sup e | None \<Rightarrow> sup_new policy)"
  have s: "reachable sup_init (sup_step pw) s \<and> ps_started_at_ms s = None"
  proof (cases "sn_entries w (pn_id p)")
    case None
    then show ?thesis by (simp add: s_def reach_init sup_init.unstarted) (simp add: sup_new_def)
  next
    case (Some e)
    then show ?thesis using world_inv_entry [OF assms(1) Some] assms(5) by (simp add: s_def entry_ok_def)
  qed
  have "reachable sup_init (sup_step pw) (on_started (reset_for_start s) now)"
    using s by (intro reach_step [where s = s and t = "on_started (reset_for_start s) now"] sup_step.adopt) simp_all
  moreover have "adopt_started pw now unit w r (pn_id p) policy = install_hook pw now unit
      (mark_dirty (pn_id p) (put w (pn_id p) \<lparr>en_sup = on_started (reset_for_start s) now, en_pane = Some r\<rparr> None)) r"
    by (simp only: adopt_started_def s_def Let_def)
  ultimately show ?thesis using register_inv [OF assms(1-4)] by simp
qed

lemma forget_inv:
  assumes "world_inv pw w"
  shows "world_inv pw (Supervision.forget w i)"
proof (cases "sn_entries w i")
  case (Some e)
  have s: "store_inv pw ((sn_entries w)(i := None)) (sn_heap w)" using assms by (simp add: world_inv_def store_inv_def)
  show ?thesis
  proof (rule entry_pane [OF assms Some])
    assume "en_pane e = None"
    then show ?thesis using Some s by (simp add: Supervision.forget_def world_inv_def)
  next
    fix r p assume h: "en_pane e = Some r" "sn_heap w r = Some p" "upgrade w e = Some p" "pane_inv p" "linked i (en_sup e) p"
    have "store_inv pw ((sn_entries w)(i := None)) ((sn_heap w)(r \<mapsto> retire p))"
      using s h by (intro store_inv_pane) (auto simp: pane_inv_def linked_def retire_def)
    then show ?thesis using Some h by (simp add: Supervision.forget_def world_inv_def)
  qed
qed (use assms in \<open>simp add: Supervision.forget_def world_inv_def\<close>)

lemma reader_inv:
  assumes "world_inv pw w" and "sn_heap w r = Some p" and "pane_inv p'" and "pn_id p' = pn_id p" and "pn_retired p' = pn_retired p"
    and "pn_hook p' = pn_hook p" and "pn_restart_pending p' = pn_restart_pending p" and "pn_hook p \<longrightarrow> running_phase p' = running_phase p"
  shows "world_inv pw (w\<lparr>sn_heap := (sn_heap w)(r \<mapsto> p')\<rparr>)"
  using assms by (auto simp: world_inv_def linked_def intro!: store_inv_pane)

lemma world_step_inv: "world_inv pw w \<Longrightarrow> world_step pw w w' \<Longrightarrow> world_inv pw w'"
proof (erule world_step.cases, goal_cases)
  case (1 v r i pid)
  then have "en_pane e \<noteq> Some r" if "sn_entries v j = Some e" for j e
    using world_inv_entry [OF _ that, of pw] by (auto simp: entry_ok_def)
  with 1 show ?case
    by (auto simp: world_inv_def store_inv_def entry_ok_def pane_inv_def pane_new_def)
next
  case (2 v r p code)
  then show ?case using world_inv_pane [of pw v r p]
    by (auto intro!: reader_inv simp: pane_inv_def reader_reap_def running_phase_def)
next
  case (3 v r p)
  then show ?case using world_inv_pane [of pw v r p]
    by (auto intro!: reader_inv simp: pane_inv_def reader_check_hook_def running_phase_def)
next
  case (4 v r p now unit b v' p')
  then have pi: "pane_inv p" using world_inv_pane by blast
  have "\<exists>p'. sn_heap v' r = Some p' \<and> world_inv pw (v'\<lparr>sn_heap := (sn_heap v')(r \<mapsto> reader_hook_done p')\<rparr>)"
    by (rule account_exit_inv [where p = p])
       (use 4 pi in \<open>auto simp: handle_exit_def pane_core_def pane_inv_def running_phase_def reader_hook_done_def\<close>)
  then show ?case using 4 by auto
next
  case (5 v r p)
  then show ?case using world_inv_pane [of pw v r p]
    by (auto intro!: reader_inv simp: pane_inv_def reader_publish_def running_phase_def)
next
  case (6 v r p now unit policy)
  then show ?case by (auto simp: register_live_def intro!: register_inv reach_init sup_init.fresh)
next
  case (7 v i persisted policy)
  have "reachable sup_init (sup_step pw) (case persisted of Some p \<Rightarrow> sup_restore p | None \<Rightarrow> sup_new policy)"
    by (auto intro: reach_init sup_init.intros split: option.splits)
  with 7 show ?case
    by (auto simp: register_restored_def put_def world_inv_def entry_ok_def sup_new_def sup_restore_def
        restart_pending_def state_restart_pending_def intro!: store_inv_entry split: option.splits lifecycle_state.splits)
next
  case (8 v r p now unit policy)
  then show ?case by (auto intro!: adopt_inv)
next
  case (16 v)
  then show ?case by (simp add: take_dirty_def world_inv_def)
next
  case (17 v r p er)
  obtain res p' where k: "kill er p = (res, p')" by force
  have c: "pane_core p' = pane_core p" by (rule pane_core_kill [OF k])
  have "world_inv pw (v\<lparr>sn_heap := (sn_heap v)(r \<mapsto> p')\<rparr>)"
  proof (rule reader_inv)
    show "pane_inv p'" unfolding pane_core_inv [OF c] using 17 world_inv_pane by blast
    show "pn_restart_pending p' = pn_restart_pending p"
      using k by (auto simp: kill_def signal_then_kill_def Let_def split: if_splits option.splits)
  qed (use 17 c pane_core_running [OF c] in \<open>auto simp: pane_core_def\<close>)
  then show ?case using 17 k by simp
qed (auto intro: forget_inv run_due_inv policy_inv stop_inv restart_inv start_inv budget_inv)

interpretation supervisor: invariant_system world_init "world_step pw" "world_inv pw" for pw
proof unfold_locales
  show "world_inv pw w" if "world_init w" for w
    using that by (cases rule: world_init.cases) (simp add: world_inv_def store_inv_def)
qed (rule world_step_inv)

section \<open>Retired panes\<close>

text \<open>A retired pane is never respawned: no step un-retires it or starts a new generation.\<close>

definition keeps_retired :: "pane_proc \<Rightarrow> pane_proc \<Rightarrow> bool" where
  "keeps_retired p p' \<longleftrightarrow> (pn_retired p \<longrightarrow> pn_retired p' \<and> pn_generation p' = pn_generation p)"

definition heap_le :: "supervision \<Rightarrow> supervision \<Rightarrow> bool" where
  "heap_le w w' \<longleftrightarrow> (\<forall>r p. sn_heap w r = Some p \<longrightarrow> (\<exists>p'. sn_heap w' r = Some p' \<and> keeps_retired p p'))"

lemma heap_le_same: "sn_heap w' = sn_heap w \<Longrightarrow> heap_le w w'"
  by (simp add: heap_le_def keeps_retired_def)

lemma heap_le_refl [simp]: "heap_le w w" by (rule heap_le_same) simp

lemma heap_le_trans: "heap_le u v \<Longrightarrow> heap_le v w \<Longrightarrow> heap_le u w"
  unfolding heap_le_def keeps_retired_def by metis

lemma heap_le_dirty [simp]: "heap_le w (mark_dirty i w') = heap_le w w'" "heap_le (mark_dirty i w) w' = heap_le w w'"
  by (simp_all add: heap_le_def)

lemma heap_le_upd: "sn_heap w r = Some p \<Longrightarrow> keeps_retired p p' \<Longrightarrow> sn_heap w' = (sn_heap w)(r \<mapsto> p') \<Longrightarrow> heap_le w w'"
  by (simp add: heap_le_def keeps_retired_def)

lemma heap_le_put:
  "(\<And>p p'. upgrade w e = Some p \<Longrightarrow> po = Some p' \<Longrightarrow> keeps_retired p p') \<Longrightarrow>
     (upgrade w e = None \<Longrightarrow> po = None) \<Longrightarrow> heap_le w (put w i e po)"
proof -
  assume k: "\<And>p p'. upgrade w e = Some p \<Longrightarrow> po = Some p' \<Longrightarrow> keeps_retired p p'"
    and n: "upgrade w e = None \<Longrightarrow> po = None"
  consider (same) "sn_heap (put w i e po) = sn_heap w"
    | (upd) r p p' where "en_pane e = Some r" "sn_heap w r = Some p" "po = Some p'"
    using n by (cases "en_pane e"; cases po) (auto simp: put_def upgrade_def)
  then show ?thesis
  proof cases
    case upd
    with k [of p p'] show ?thesis by (intro heap_le_upd [of w r p p']) (simp_all add: put_def upgrade_def)
  qed (rule heap_le_same)
qed

lemma heap_le_put_entry [simp]: "heap_le w (put w i e None)"
  by (rule heap_le_put) simp_all

lemma core_keeps: "pane_core p' = pane_core p \<Longrightarrow> keeps_retired p p'"
  by (simp add: keeps_retired_def pane_core_def)

lemma account_exit_le: "heap_le w (snd (account_exit pw now unit w r code))"
  by (auto simp: account_exit_def upgrade_def Let_def intro!: heap_le_put core_keeps split: option.splits prod.splits)

lemma install_hook_le: "heap_le w (install_hook pw now unit w r)"
proof (cases "sn_heap w r")
  case (Some p)
  let ?w = "w\<lparr>sn_heap := (sn_heap w)(r \<mapsto> p\<lparr>pn_hook := True\<rparr>)\<rparr>"
  have "heap_le w ?w" using Some by (rule heap_le_upd) (simp_all add: keeps_retired_def)
  then show ?thesis using Some heap_le_trans [OF _ account_exit_le]
    by (simp add: install_hook_def set_exit_hook_def Let_def)
qed (simp add: install_hook_def)

lemma respawn_keeps: "respawn_with st (\<lambda>pid. Some (b pid)) p = (res, p') \<Longrightarrow> keeps_retired p p'"
  using respawn_with_core by (fastforce simp: keeps_retired_def)

lemma do_respawn_le: "heap_le w (snd (do_respawn pw env w i e a))"
proof (cases "upgrade w e")
  case (Some p)
  let ?s1 = "begin_restart (en_sup e) (re_now env) a"
  obtain res p1 where rw: "respawn_with (re_start env) (\<lambda>pid. Some (RestartBanner pid (ps_restart_count ?s1))) p = (res, p1)"
    by force
  have k: "pane_core p2 = pane_core p1 \<Longrightarrow> keeps_retired p p2" for p2
    using respawn_keeps [OF rw] by (simp add: keeps_retired_def pane_core_def)
  have u: "upgrade w (e\<lparr>en_sup := s\<rparr>) = Some p" for s using Some by (simp add: upgrade_def)
  show ?thesis using Some rw
    by (cases res) (auto simp: do_respawn_def Let_def u intro!: heap_le_put k split: prod.splits)
qed (auto simp: do_respawn_def intro!: heap_le_put)

lemma fold_respawn_le: "heap_le w (fold (respawn_due pw env) ids w)"
proof (induction ids arbitrary: w)
  case (Cons i ids)
  have "heap_le w (respawn_due pw env i w)"
    by (auto simp: respawn_due_def do_respawn_le split: option.splits)
  then show ?case using Cons.IH by (auto intro: heap_le_trans)
qed auto

lemma stop_le: "heap_le w (snd (Supervision.stop w i now er))"
proof (cases "sn_entries w i")
  case (Some e)
  have u: "upgrade w (e\<lparr>en_sup := s\<rparr>) = upgrade w e" for s by (simp add: upgrade_def)
  have t: "terminate er (set_restart_pending False p) = (res, p1) \<Longrightarrow> pane_core p1 = pane_core p" for p res p1
    using pane_core_terminate by fastforce
  show ?thesis using Some
    by (auto simp: Supervision.stop_def Let_def u t intro!: heap_le_put core_keeps
        split: prod.splits option.splits sum.splits)
qed (auto simp: Supervision.stop_def)

lemma running_upgrade: "running_pane w e = Some p \<Longrightarrow> upgrade w e = Some p"
  by (auto simp: running_pane_def split: option.splits if_splits)

lemma restart_le: "heap_le w (snd (sn_restart pw env w i reset er))"
proof (cases "sn_entries w i")
  case (Some e)
  have put: "heap_le w (put (mark_dirty i w) i f po)"
    if "upgrade w f = upgrade w e" "\<And>p p'. upgrade w e = Some p \<Longrightarrow> po = Some p' \<Longrightarrow> keeps_retired p p'"
      "upgrade w e = None \<Longrightarrow> po = None" for f po
    using heap_le_put [of "mark_dirty i w" f po i] that by simp
  have d: "heap_le w (snd (do_respawn pw env (mark_dirty i w) i f a))" for f a
    using do_respawn_le [of "mark_dirty i w"] by simp
  obtain b s' where q: "request_restart (en_sup e) reset = (b, s')" by force
  have u: "upgrade w (e\<lparr>en_sup := s\<rparr>) = upgrade w e" for s by (simp add: upgrade_def)
  show ?thesis
  proof (cases "running_pane w e")
    case None
    have "heap_le w x" if "do_respawn pw env (mark_dirty i w) i f a = (res, x)" for f a res x
      using d [of f a] that by simp
    then show ?thesis using Some None q
      by (auto simp: sn_restart_def u Let_def intro!: put split: prod.splits sum.splits)
  next
    case (Some p)
    obtain res p1 where t: "terminate er p = (res, p1)" by force
    show ?thesis using Some \<open>sn_entries w i = Some e\<close> q t running_upgrade [OF Some] pane_core_terminate [OF t]
      by (cases res) (auto simp: sn_restart_def u Let_def intro!: put core_keeps)
  qed
qed (simp add: sn_restart_def)

lemma start_le: "heap_le w (snd (Supervision.start pw env w i))"
proof -
  have "heap_le w x" if "do_respawn pw env (mark_dirty i w) i f a = (res, x)" for f a res x
    using do_respawn_le [of "mark_dirty i w" pw env i f a] that by simp
  then show ?thesis by (auto simp: Supervision.start_def split: option.splits prod.splits sum.splits)
qed

lemma policy_le: "heap_le w (snd (sn_set_policy w i pol now))"
  by (auto simp: sn_set_policy_def upgrade_def Let_def intro!: heap_le_put core_keeps split: option.splits sum.splits)

lemma forget_le: "heap_le w (Supervision.forget w i)"
  by (auto simp: Supervision.forget_def upgrade_def heap_le_def keeps_retired_def retire_def Let_def
      split: option.splits)

lemma world_step_le: "world_step pw w w' \<Longrightarrow> heap_le w w'"
proof (erule world_step.cases, goal_cases)
  case (4 v r p now unit b v' p')
  then have "heap_le v v'" using account_exit_le [of v pw now unit r "pn_exit_code p"] by (simp add: handle_exit_def)
  moreover have "heap_le v' w'" using 4(4,6)
    by (intro heap_le_upd [of v' r p' "reader_hook_done p'"]) (simp_all add: 4 keeps_retired_def reader_hook_done_def)
  ultimately show ?case using 4 heap_le_trans by blast
next
  case (6 v r p now unit policy)
  have "heap_le v (mark_dirty (pn_id p) (put v (pn_id p) e None))" for e by simp
  then show ?case using 6 heap_le_trans [OF _ install_hook_le] by (simp add: register_live_def)
next
  case (8 v r p now unit policy)
  have "heap_le v (mark_dirty (pn_id p) (put v (pn_id p) e None))" for e by simp
  then show ?case using 8 heap_le_trans [OF _ install_hook_le] by (simp add: adopt_started_def Let_def)
next
  case (10 order v now env d v')
  then show ?case using fold_respawn_le
    by (auto simp: run_due_def Let_def bind_Some_conv split: if_splits)
next
  case (17 v r p er)
  obtain res p' where k: "kill er p = (res, p')" by force
  have "heap_le v (v\<lparr>sn_heap := (sn_heap v)(r \<mapsto> p')\<rparr>)"
    using 17 by (intro heap_le_upd [of v r p p'] core_keeps pane_core_kill [OF k]) simp_all
  then show ?case using 17 k by simp
qed (auto simp: stop_le restart_le start_le policy_le forget_le heap_le_put sn_reset_budget_def register_restored_def
      take_dirty_def keeps_retired_def reader_reap_def reader_check_hook_def reader_publish_def heap_le_same
      split: option.splits intro: heap_le_upd, auto simp: heap_le_def keeps_retired_def)

lemma world_steps_le: "(world_step pw)\<^sup>*\<^sup>* w w' \<Longrightarrow> heap_le w w'"
  by (induction rule: rtranclp_induct) (auto intro: heap_le_trans world_step_le)

section \<open>Deadlines\<close>

lemma pending_times_set:
  "set (pending_times w order) = {t. \<exists>i \<in> set order. \<exists>e. sn_entries w i = Some e
     \<and> restart_pending (en_sup e) \<and> ps_next_restart_at_ms (en_sup e) = Some t}"
  by (auto simp: pending_times_def List.map_filter_def split: option.splits) force+

lemma fold_respawn_dom: "dom (sn_entries (fold (respawn_due pw env) ids w)) = dom (sn_entries w)"
proof (induction ids arbitrary: w)
  case (Cons i ids)
  have "dom (sn_entries (respawn_due pw env i w)) = dom (sn_entries w)"
    by (auto simp: respawn_due_def do_respawn_def put_def mark_dirty_def Let_def
        split: option.splits prod.splits sum.splits if_splits)
  with Cons show ?case by simp
qed simp

lemma run_due_returns:
  assumes "set order = dom (sn_entries w)" and "now < u64_max"
  obtains d w' where "run_due pw order now env w = Some (d, w')" and "dom (sn_entries w') = set order"
    and "d = (if pending_times w' order = [] then None
              else Some (Min ((\<lambda>t. max t (now + 1)) ` set (pending_times w' order))))"
proof -
  define w1 where "w1 = fold (respawn_due pw env) (filter (due_now now w) order) w"
  have "run_due pw order now env w = Some (if pending_times w1 order = [] then None
      else Some (Min ((\<lambda>t. max t (now + 1)) ` set (pending_times w1 order))), w1)"
    using assms(2) by (simp add: run_due_def Let_def checked_add_def min_list_Min w1_def)
  moreover have "dom (sn_entries w1) = set order" using assms(1) by (simp add: w1_def fold_respawn_dom)
  ultimately show ?thesis using that by blast
qed

section \<open>Properties\<close>

text \<open>Two small worlds: a running pane under supervision, and one that exited before it was registered.\<close>

definition pane_world :: "pane_proc \<Rightarrow> supervision" where
  "pane_world p = \<lparr>sn_entries = (\<lambda>_. None), sn_dirty = {}, sn_heap = [2 \<mapsto> p]\<rparr>"

definition example_pane :: pane_proc where "example_pane = pane_new 7 (Some 1234)"

definition example_exited :: pane_proc where
  "example_exited = reader_publish (reader_check_hook (reader_reap (Some 0) example_pane))"

definition example_world :: "pane_proc \<Rightarrow> supervision" where
  "example_world p = register_live (\<lambda>x n. x) 5 (Fin 0) (pane_world p) 2 7 default_policy"

lemma pane_world_step:
  "reachable world_init (world_step pw) (pane_world p) \<Longrightarrow>
   world_step pw (pane_world p) ((pane_world p)\<lparr>sn_heap := (sn_heap (pane_world p))(2 \<mapsto> q)\<rparr>) \<Longrightarrow>
   reachable world_init (world_step pw) (pane_world q)"
  by (drule (1) reach_step) (simp add: pane_world_def)

lemma pane_world_reachable:
  "reachable world_init (world_step pw) (pane_world example_pane)"
  "reachable world_init (world_step pw) (pane_world example_exited)"
proof -
  let ?w0 = "\<lparr>sn_entries = (\<lambda>_. None), sn_dirty = {}, sn_heap = (\<lambda>_. None)\<rparr> :: supervision"
  have "reachable world_init (world_step pw) ?w0" by (intro reach_init world_init.intros)
  then have "reachable world_init (world_step pw) (?w0\<lparr>sn_heap := (sn_heap ?w0)(2 \<mapsto> example_pane)\<rparr>)"
    unfolding example_pane_def by (rule reach_step) (rule world_step.spawn, simp)
  then show w1: "reachable world_init (world_step pw) (pane_world example_pane)" by (simp add: pane_world_def)
  have "reachable world_init (world_step pw) (pane_world (reader_reap (Some 0) example_pane))"
    by (rule pane_world_step [OF w1], rule world_step.reap) (simp_all add: pane_world_def example_pane_def pane_new_def)
  then have "reachable world_init (world_step pw) (pane_world (reader_check_hook (reader_reap (Some 0) example_pane)))"
    by (rule pane_world_step, intro world_step.check) (simp_all add: pane_world_def reader_reap_def)
  then show "reachable world_init (world_step pw) (pane_world example_exited)" unfolding example_exited_def
    by (rule pane_world_step, intro world_step.publish)
       (simp_all add: pane_world_def reader_reap_def reader_check_hook_def example_pane_def pane_new_def)
qed

lemma example_world_reachable:
  assumes "reachable world_init (world_step (\<lambda>x n. x)) (pane_world p)" and "pn_id p = 7" and "\<not> pn_hook p" and "\<not> pn_retired p"
  shows "reachable world_init (world_step (\<lambda>x n. x)) (example_world p)"
  using reach_step [OF assms(1) world_step.live [of _ 2 p "\<lambda>x n. x" 5 "Fin 0" default_policy]] assms
  by (simp add: example_world_def) (simp add: pane_world_def)

lemma example_pane_simps [simp]:
  "pn_id example_pane = 7" "\<not> pn_hook example_pane" "\<not> pn_retired example_pane" "\<not> pn_exit_checked example_pane"
  "pn_id example_exited = 7" "\<not> pn_hook example_exited" "\<not> pn_retired example_exited" "pn_exit_checked example_exited"
  "pn_exited example_exited"
  by (simp_all add: example_exited_def example_pane_def pane_new_def reader_publish_def reader_check_hook_def reader_reap_def)

lemmas example_reachable =
  example_world_reachable [OF pane_world_reachable(1), simplified]
  example_world_reachable [OF pane_world_reachable(2), simplified]

lemma example_world_simps:
  "sn_entries (example_world example_pane) = [7 \<mapsto> \<lparr>en_sup = on_started (sup_new default_policy) 5, en_pane = Some 2\<rparr>]"
  "sn_heap (example_world example_pane) = [2 \<mapsto> example_pane\<lparr>pn_hook := True\<rparr>]"
  by (simp_all add: example_world_def pane_world_def register_live_def install_hook_def set_exit_hook_def put_def mark_dirty_def)

lemma example_world_exited:
  "\<exists>e p. sn_entries (example_world example_exited) 7 = Some e \<and> upgrade (example_world example_exited) e = Some p \<and> pn_exited p"
proof -
  obtain k s where x: "on_exit (\<lambda>x n. x) (on_started (sup_new default_policy) 5) 5 (pn_exit_code example_exited)
      (signal_sent (example_exited\<lparr>pn_hook := True\<rparr>)) (Fin 0) = (k, s)" by force
  have "pane_core (announce_exit s k c g 5 (example_exited\<lparr>pn_hook := True\<rparr>)) = pane_core (example_exited\<lparr>pn_hook := True\<rparr>)" for c g
    by simp
  then have "pn_exited (announce_exit s k c g 5 (example_exited\<lparr>pn_hook := True\<rparr>))" for c g
    by (simp add: pane_core_def)
  then show ?thesis
    by (simp add: example_world_def pane_world_def register_live_def install_hook_def set_exit_hook_def put_def
        mark_dirty_def account_exit_def upgrade_def x Let_def set_restart_pending_def)
qed

text \<open>
  C3. The supervisor refines the lifecycle machine: however the operator requests, the timer, the
  registrations and the reader threads' exits interleave, the supervision state of every registered
  pane is one the pure state machine of Restart reaches. In particular each process's exit is
  accounted at most once, whichever of the reader thread and the hook installer sees it first.
\<close>

theorem supervision_refines_lifecycle:
  assumes "reachable world_init (world_step pw) w" and "sn_entries w i = Some e"
  shows "reachable sup_init (sup_step pw) (en_sup e)"
  using entry_ok_reach [OF world_inv_entry [OF supervisor.reachable_inv [OF assms(1)] assms(2)]] .

theorem supervision_refines_lifecycle_witness:
  "reachable sup_init (sup_step (\<lambda>x n. x)) (en_sup (the (sn_entries (example_world example_pane) 7)))"
  by (rule supervision_refines_lifecycle [OF example_reachable(1), of 7]) (simp add: example_world_simps)

text \<open>
  C40. What clients see of an exit is what the supervisor decided: once a supervised pane shows as
  exited, the supervisor has accounted for that exit, and a client waiting for the final exit is
  released exactly when no restart is pending.
\<close>

theorem exited_pane_agrees:
  assumes "reachable world_init (world_step pw) w" and "sn_entries w i = Some e" and "upgrade w e = Some p" and "pn_exited p"
  shows "ps_started_at_ms (en_sup e) = None \<and> (final_exit p \<longleftrightarrow> \<not> restart_pending (en_sup e)) \<and> \<not> pn_retired p"
proof -
  note inv = supervisor.reachable_inv [OF assms(1)]
  show ?thesis
    by (rule entry_pane [OF inv assms(2)])
       (use assms(3,4) in \<open>auto simp: linked_def final_exit_def exited_not_running\<close>)
qed

theorem exited_pane_agrees_witness:
  "\<exists>e p. sn_entries (example_world example_exited) 7 = Some e \<and> upgrade (example_world example_exited) e = Some p
     \<and> pn_exited p \<and> (final_exit p \<longleftrightarrow> \<not> restart_pending (en_sup e))"
proof -
  obtain e p where "sn_entries (example_world example_exited) 7 = Some e" "upgrade (example_world example_exited) e = Some p"
    "pn_exited p" using example_world_exited by blast
  with exited_pane_agrees [OF example_reachable(2) this] show ?thesis by blast
qed

text \<open>
  C14. Forgetting a pane is final: it is retired, no restart that was pending or in flight is
  carried out, and whatever happens later its process is never replaced.
\<close>

theorem forget_final:
  assumes "reachable world_init (world_step pw) w" and "sn_entries w i = Some e" and "en_pane e = Some r"
    and "(world_step pw)\<^sup>*\<^sup>* (Supervision.forget w i) w'"
  shows "sn_entries (Supervision.forget w i) i = None
    \<and> (\<exists>p p'. sn_heap w r = Some p \<and> sn_heap w' r = Some p' \<and> pn_retired p' \<and> pn_generation p' = pn_generation p)"
proof -
  obtain p where p: "sn_heap w r = Some p"
    using world_inv_entry [OF supervisor.reachable_inv [OF assms(1)] assms(2)] assms(3) by (auto simp: entry_ok_def)
  then have "sn_heap (Supervision.forget w i) r = Some (retire p)" "sn_entries (Supervision.forget w i) i = None"
    using assms(2,3) by (simp_all add: Supervision.forget_def upgrade_def)
  moreover from this(1) obtain p' where "sn_heap w' r = Some p'" "keeps_retired (retire p) p'"
    using world_steps_le [OF assms(4)] by (auto simp: heap_le_def)
  ultimately show ?thesis using p by (simp add: keeps_retired_def retire_def)
qed

theorem forget_final_witness:
  "\<exists>p. sn_heap (Supervision.forget (example_world example_pane) 7) 2 = Some p \<and> pn_retired p"
  using forget_final [OF example_reachable(1), of 7 _ 2 "Supervision.forget (example_world example_pane) 7"]
  by (auto simp: example_world_simps)

text \<open>
  C24. The supervisor task never loses a restart: \<open>run_due\<close> returns (for clocks short of the last
  millisecond of \<open>u64\<close>), and every restart still pending afterwards either is not later than the
  deadline it returns, which lies in the future, or waits for a process that has yet to exit.
\<close>

theorem run_due_deadline:
  assumes "reachable world_init (world_step pw) w" and "distinct order" and "set order = dom (sn_entries w)"
    and "now < u64_max"
  shows "\<exists>d w'. run_due pw order now env w = Some (d, w')
    \<and> (\<forall>x. d = Some x \<longrightarrow> now < x)
    \<and> (\<forall>i e. sn_entries w' i = Some e \<longrightarrow> restart_pending (en_sup e) \<longrightarrow>
          (case ps_next_restart_at_ms (en_sup e) of
             Some t \<Rightarrow> (\<exists>x. d = Some x \<and> x \<le> max t (now + 1))
           | None \<Rightarrow> running_pane w' e \<noteq> None))"
proof -
  obtain d w' where r: "run_due pw order now env w = Some (d, w')" and dm: "dom (sn_entries w') = set order"
    and d: "d = (if pending_times w' order = [] then None
              else Some (Min ((\<lambda>t. max t (now + 1)) ` set (pending_times w' order))))"
    using run_due_returns [OF assms(3,4)] by metis
  have inv: "world_inv pw w'" by (rule run_due_inv [OF supervisor.reachable_inv [OF assms(1)] assms(2) r])
  have fut: "now < x" if "d = Some x" for x
  proof -
    have "x \<in> (\<lambda>t. max t (now + 1)) ` set (pending_times w' order)"
      using that d by (auto split: if_splits intro!: Min_in)
    then show ?thesis by auto
  qed
  have soon: "\<exists>x. d = Some x \<and> x \<le> max t (now + 1)"
    if "sn_entries w' i = Some e" "restart_pending (en_sup e)" "ps_next_restart_at_ms (en_sup e) = Some t" for i e t
  proof -
    have "t \<in> set (pending_times w' order)" using that dm by (fastforce simp: pending_times_set)
    then show ?thesis using d by (auto intro!: Min_le)
  qed
  have wait: "running_pane w' e \<noteq> None"
    if e: "sn_entries w' i = Some e" and "restart_pending (en_sup e)" "ps_next_restart_at_ms (en_sup e) = None" for i e
  proof -
    have "ps_started_at_ms (en_sup e) \<noteq> None"
      using that entry_ok_sup_inv [OF world_inv_entry [OF inv e]] by (auto simp: sup_inv_def)
    then show "running_pane w' e \<noteq> None" using dead_entry [OF inv e] by (rule contrapos_nn)
  qed
  show ?thesis using r fut soon wait by (intro exI [of _ d] exI [of _ w']) (auto split: option.splits)
qed

theorem run_due_deadline_witness:
  "\<exists>d w'. run_due (\<lambda>x n. x) [7] 9 (\<lambda>_. \<lparr>re_now = 9, re_unit = Fin 0, re_start = Inr None\<rparr>)
      (example_world example_pane) = Some (d, w')"
proof -
  have "set [7] = dom (sn_entries (example_world example_pane))" by (simp add: example_world_simps)
  from run_due_deadline [OF example_reachable(1) _ this, of 9
      "\<lambda>_. \<lparr>re_now = 9, re_unit = Fin 0, re_start = Inr None\<rparr>"] show ?thesis by force
qed

end
