(* ===== verification/Query_Scanner.thy ===== *)
theory Query_Scanner
  imports Prelude
begin

text \<open>
  Recognising terminal queries in a pane's output and taking them out of what clients see
  (\<open>crates/tymux-core/src/terminal_query.rs\<close>, \<open>terminal_query/scanner.rs\<close>).

  The tokenizer is the \<open>vte\<close> crate, so it is an argument: its state and a function that consumes
  one byte and gives the callbacks it makes, in order. \<open>well_tokenized\<close> is what the scanner relies
  on: a byte causes at most one dispatch, a CSI is dispatched only by its final byte and an OSC only
  by its terminators BEL, ESC, CAN and SUB. Slices that would panic are \<open>None\<close>.
\<close>

section \<open>Queries\<close>

datatype query =
    Da1
  | Da2
  | StatusReport
  | CursorPosition
  | DecCursorPosition
  | XtVersion
  | ModeReport bool u16
  | SizeReport u16

definition classify_csi :: "u8 option \<Rightarrow> u8 option \<Rightarrow> u16 \<Rightarrow> u8 \<Rightarrow> query option" where
  "classify_csi i1 i2 p0 fin =
     (if i1 = None \<and> i2 = None \<and> fin = 0x63 \<and> p0 = 0 then Some Da1
      else if i1 = Some 0x3e \<and> i2 = None \<and> fin = 0x63 \<and> p0 = 0 then Some Da2
      else if i1 = None \<and> i2 = None \<and> fin = 0x6e \<and> p0 = 5 then Some StatusReport
      else if i1 = None \<and> i2 = None \<and> fin = 0x6e \<and> p0 = 6 then Some CursorPosition
      else if i1 = Some 0x3f \<and> i2 = None \<and> fin = 0x6e \<and> p0 = 6 then Some DecCursorPosition
      else if i1 = Some 0x3e \<and> i2 = None \<and> fin = 0x71 \<and> p0 = 0 then Some XtVersion
      else if i1 = Some 0x24 \<and> i2 = None \<and> fin = 0x70 then Some (ModeReport False p0)
      else if i1 = Some 0x3f \<and> i2 = Some 0x24 \<and> fin = 0x70 then Some (ModeReport True p0)
      else if i1 = None \<and> i2 = None \<and> fin = 0x74 \<and> (p0 = 18 \<or> p0 = 19) then Some (SizeReport p0)
      else None)"

datatype osc_item = Dynamic u8 | Palette u8

definition VTE_MAX_OSC_PARAMS :: nat where "VTE_MAX_OSC_PARAMS = 16"

text \<open>\<open>str::parse::<u8>\<close>: an optional plus sign, then one or more decimal digits, in range.\<close>

fun parse_digits :: "nat \<Rightarrow> bytes \<Rightarrow> u8 option" where
  "parse_digits acc [] = Some acc"
| "parse_digits acc (b # bs) =
     (if 0x30 \<le> b \<and> b \<le> 0x39 \<and> acc * 10 + (b - 0x30) \<le> 255 then parse_digits (acc * 10 + (b - 0x30)) bs else None)"

definition parse_u8 :: "bytes \<Rightarrow> u8 option" where
  "parse_u8 s = (let digits = (case s of b # bs \<Rightarrow> if b = 0x2b then bs else s | [] \<Rightarrow> [])
                 in if digits = [] then None else parse_digits 0 digits)"

fun palette_pairs :: "bytes list \<Rightarrow> osc_item list option" where
  "palette_pairs (i # q # rest) =
     do { index \<leftarrow> parse_u8 i;
          item \<leftarrow> (if q = [0x3f] then Some (Palette index) else None);
          items \<leftarrow> palette_pairs rest;
          Some (item # items) }"
| "palette_pairs _ = Some []"

definition osc_query :: "bytes list \<Rightarrow> osc_item list option" where
  "osc_query params = (case params of
     [] \<Rightarrow> None
   | first # rest \<Rightarrow>
       if first = [0x34]
       then let truncated = (length params \<ge> VTE_MAX_OSC_PARAMS);
                rest = (if truncated \<and> odd (length rest) then butlast rest else rest)
            in if rest = [] \<or> odd (length rest) then None else palette_pairs rest
       else if first \<in> {[0x31, 0x30], [0x31, 0x31], [0x31, 0x32]}
       then if rest = [] \<or> (\<exists>p \<in> set rest. p \<noteq> [0x3f]) then None
            else let base = 10 + (first ! 1 - 0x30)
                 in Some (map (\<lambda>(ident, _). Dynamic ident) (zip [base..<13] rest))
       else None)"

section \<open>The tracker\<close>

text \<open>The callbacks of \<open>vte::Perform\<close> the tracker implements.\<close>

datatype vte_event =
    Print nat
  | Execute u8
  | CsiDispatch "u16 list list" bytes nat
  | OscDispatch "bytes list" bool
  | EscDispatch
  | Hook
  | Unhook

type_synonym 'p vte = "'p \<Rightarrow> u8 \<Rightarrow> vte_event list \<times> 'p"

record tracker =
  seq_start :: "usize option"
  non_ground :: bool
  tr_index :: usize
  tr_byte :: u8
  embedded_c0 :: bytes
  removals :: "(usize \<times> usize \<times> bytes) list"

definition tracker_default :: tracker where
  "tracker_default = \<lparr>seq_start = None, non_ground = False, tr_index = 0, tr_byte = 0, embedded_c0 = [], removals = []\<rparr>"

definition tr_remove :: "usize \<Rightarrow> usize \<Rightarrow> tracker \<Rightarrow> tracker" where
  "tr_remove s e t = t\<lparr>removals := removals t @ [(s, e, embedded_c0 t)], embedded_c0 := []\<rparr>"

definition tr_close :: "tracker \<Rightarrow> tracker" where
  "tr_close t = t\<lparr>seq_start := None, non_ground := False, embedded_c0 := []\<rparr>"

fun tr_event :: "vte_event \<Rightarrow> tracker \<Rightarrow> tracker" where
  "tr_event (Print _) t = tr_close t"
| "tr_event (Execute b) t =
     (if seq_start t \<noteq> None \<and> b \<noteq> 0x18 \<and> b \<noteq> 0x1a then t\<lparr>embedded_c0 := embedded_c0 t @ [b]\<rparr> else t)"
| "tr_event (CsiDispatch params im c) t =
     (let p0 = (case params of (p # _) # _ \<Rightarrow> p | _ \<Rightarrow> 0);
          i1 = (case im of i # _ \<Rightarrow> Some i | [] \<Rightarrow> None);
          i2 = (case im of _ # i # _ \<Rightarrow> Some i | _ \<Rightarrow> None)
      in tr_close (case seq_start t of
           None \<Rightarrow> t
         | Some s \<Rightarrow> if c < 256 \<and> classify_csi i1 i2 p0 c \<noteq> None then tr_remove s (tr_index t + 1) t else t))"
| "tr_event (OscDispatch params _) t =
     (let t1 = (case seq_start t of
            None \<Rightarrow> t
          | Some s \<Rightarrow> if osc_query params \<noteq> None
                      then tr_remove s (if tr_byte t = 0x07 then tr_index t + 1 else tr_index t) t else t)
      in if tr_byte t1 = 0x07 then tr_close t1 else t1)"
| "tr_event EscDispatch t = tr_close t"
| "tr_event Hook t = t\<lparr>seq_start := None\<rparr>"
| "tr_event Unhook t = tr_close t"

section \<open>Scanning\<close>

definition may_be_query_final :: "u8 \<Rightarrow> bool" where
  "may_be_query_final b \<longleftrightarrow> b \<in> {0x63, 0x6e, 0x71, 0x70, 0x74}"

fun byte_position :: "(u8 \<Rightarrow> bool) \<Rightarrow> bytes \<Rightarrow> usize option" where
  "byte_position P [] = None"
| "byte_position P (b # bs) = (if P b then Some 0 else map_option Suc (byte_position P bs))"

definition find_esc :: "bytes \<Rightarrow> usize option" where
  "find_esc s = (case byte_position (\<lambda>b. b = 0x1b) (take (min (length s) 24) s) of
     Some p \<Rightarrow> Some p
   | None \<Rightarrow> if length s > 24 then map_option (\<lambda>p. p + 24) (byte_position (\<lambda>b. b = 0x1b) (drop 24 s)) else None)"

definition complete_other_csi :: "bytes \<Rightarrow> usize option" where
  "complete_other_csi s =
     (if length s < 3 \<or> s ! 0 \<noteq> 0x1b \<or> s ! 1 \<noteq> 0x5b then None
      else let params = length (takeWhile (\<lambda>b. 0x20 \<le> b \<and> b \<le> 0x3f) (drop 2 s))
           in if 2 + params < length s
              then let fin = s ! (2 + params)
                   in if 0x40 \<le> fin \<and> fin \<le> 0x7e \<and> \<not> may_be_query_final fin then Some (params + 3) else None
              else None)"

text \<open>What the loop does with one byte it hands to the tokenizer.\<close>

definition after_byte :: "bytes \<Rightarrow> usize \<Rightarrow> u8 \<Rightarrow> tracker \<Rightarrow> tracker" where
  "after_byte buf i b t =
     (if b = 0x1b then t\<lparr>seq_start := Some i, embedded_c0 := [], non_ground := True\<rparr>
      else if b = 0x18 \<or> b = 0x1a then tr_close t
      else if 0x40 \<le> b \<and> b \<le> 0x7e
      then (case seq_start t of None \<Rightarrow> t
            | Some s \<Rightarrow> if i > s + 1 \<and> buf ! (s + 1) = 0x5b then tr_close t else t)
      else t)"

definition feed_byte :: "'p vte \<Rightarrow> bytes \<Rightarrow> usize \<Rightarrow> 'p \<times> tracker \<Rightarrow> 'p \<times> tracker" where
  "feed_byte adv buf i = (\<lambda>(p, t).
     let b = buf ! i;
         t1 = t\<lparr>tr_index := i, tr_byte := b\<rparr>;
         (evs, p1) = adv p b
     in (p1, after_byte buf i b (fold tr_event evs t1)))"

function scan :: "'p vte \<Rightarrow> bytes \<Rightarrow> usize \<Rightarrow> 'p \<times> tracker \<Rightarrow> 'p \<times> tracker" where
  "scan adv buf i (p, t) =
     (if i < length buf then
        if \<not> non_ground t then
          (case find_esc (drop i buf) of
             None \<Rightarrow> (p, t)
           | Some k \<Rightarrow>
              (case complete_other_csi (drop (i + k) buf) of
                 Some n \<Rightarrow> scan adv buf (i + k + n) (p, t)
               | None \<Rightarrow> scan adv buf (i + k + 1) (feed_byte adv buf (i + k) (p, t))))
        else scan adv buf (i + 1) (feed_byte adv buf i (p, t))
      else (p, t))"
  by pat_completeness auto

lemma complete_other_csi_pos: "complete_other_csi s = Some n \<Longrightarrow> 0 < n"
  by (auto simp: complete_other_csi_def Let_def split: if_splits)

termination scan
  by (relation "measure (\<lambda>(adv, buf, i, _). length buf - i)") (auto dest: complete_other_csi_pos)

declare scan.simps [simp del]

section \<open>Feeding chunks\<close>

record 'p query_scanner =
  qs_parser :: 'p
  qs_tracker :: tracker
  qs_held :: bytes

definition scanner_new :: "'p \<Rightarrow> 'p query_scanner" where
  "scanner_new p = \<lparr>qs_parser = p, qs_tracker = tracker_default, qs_held = []\<rparr>"

definition MAX_HELD :: usize where "MAX_HELD = 65536"

record scanned =
  sc_raw :: bytes
  sc_removed :: "bytes option"

definition stripped :: "scanned \<Rightarrow> bytes" where
  "stripped s = (case sc_removed s of Some r \<Rightarrow> r | None \<Rightarrow> sc_raw s)"

definition slice :: "bytes \<Rightarrow> usize \<Rightarrow> usize \<Rightarrow> bytes option" where
  "slice xs a b = (if a \<le> b \<and> b \<le> length xs then Some (take (b - a) (drop a xs)) else None)"

fun splice_out :: "bytes \<Rightarrow> usize \<Rightarrow> (usize \<times> usize \<times> bytes) list \<Rightarrow> bytes option" where
  "splice_out emit at0 [] = slice emit at0 (length emit)"
| "splice_out emit at0 ((s, e, c0) # rs) =
     do { kept \<leftarrow> slice emit at0 s;
          out \<leftarrow> splice_out emit e rs;
          Some (kept @ c0 @ out) }"

definition hold_from :: "bytes \<Rightarrow> tracker \<Rightarrow> usize" where
  "hold_from buf t = (case seq_start t of
     Some s \<Rightarrow> if length buf - s \<le> MAX_HELD then s else length buf
   | None \<Rightarrow> length buf)"

text \<open>The end of \<open>feed\<close>: what is held back, what goes out, and the view without queries.\<close>

definition release :: "bytes \<Rightarrow> 'p \<Rightarrow> tracker \<Rightarrow> (scanned \<times> 'p query_scanner) option" where
  "release buf p t =
     (let hf = hold_from buf t;
          raw = take hf buf;
          t1 = (if hf \<ge> length buf \<and> seq_start t \<noteq> None then t\<lparr>seq_start := None, embedded_c0 := []\<rparr> else t)
      in do {
           removed \<leftarrow> (if removals t = [] then Some None else map_option Some (splice_out raw 0 (removals t)));
           Some (\<lparr>sc_raw = raw, sc_removed = removed\<rparr>, \<lparr>qs_parser = p, qs_tracker = t1, qs_held = drop hf buf\<rparr>)
         })"

definition feed :: "'p vte \<Rightarrow> 'p query_scanner \<Rightarrow> bytes \<Rightarrow> (scanned \<times> 'p query_scanner) option" where
  "feed adv q chunk =
     (if qs_held q = [] \<and> \<not> non_ground (qs_tracker q) \<and> 0x1b \<notin> set chunk
      then Some (\<lparr>sc_raw = chunk, sc_removed = None\<rparr>, q)
      else
        let held_len = length (qs_held q);
            buf = qs_held q @ chunk;
            t0 = (qs_tracker q)\<lparr>removals := [], seq_start := (if held_len > 0 then Some 0 else None)\<rparr>;
            (p1, t1) = scan adv buf held_len (qs_parser q, t0)
        in release buf p1 t1)"

definition take_held :: "'p query_scanner \<Rightarrow> bytes \<times> 'p query_scanner" where
  "take_held q = (qs_held q, q\<lparr>qs_tracker := (qs_tracker q)\<lparr>seq_start := None\<rparr>, qs_held := []\<rparr>)"

fun feed_all :: "'p vte \<Rightarrow> 'p query_scanner \<Rightarrow> bytes list \<Rightarrow> (scanned list \<times> 'p query_scanner) option" where
  "feed_all adv q [] = Some ([], q)"
| "feed_all adv q (c # cs) =
     do { (s, q1) \<leftarrow> feed adv q c;
          (ss, q2) \<leftarrow> feed_all adv q1 cs;
          Some (s # ss, q2) }"

text \<open>What the scanner relies on of the tokenizer.\<close>

fun is_dispatch :: "vte_event \<Rightarrow> bool" where
  "is_dispatch (CsiDispatch _ _ _) = True"
| "is_dispatch (OscDispatch _ _) = True"
| "is_dispatch _ = False"

fun is_osc :: "vte_event \<Rightarrow> bool" where
  "is_osc (OscDispatch _ _) = True"
| "is_osc _ = False"

definition well_tokenized :: "'p vte \<Rightarrow> bool" where
  "well_tokenized adv \<longleftrightarrow> (\<forall>p b. length (filter is_dispatch (fst (adv p b))) \<le> 1
     \<and> (\<forall>e \<in> set (fst (adv p b)). is_dispatch e \<longrightarrow>
          (if is_osc e then b \<in> {0x07, 0x18, 0x1a, 0x1b} else 0x40 \<le> b \<and> b \<le> 0x7e)))"

section \<open>Removals stay in order\<close>

fun ordered_removals :: "usize \<Rightarrow> (usize \<times> usize \<times> bytes) list \<Rightarrow> usize \<Rightarrow> bool" where
  "ordered_removals a [] b \<longleftrightarrow> a \<le> b"
| "ordered_removals a ((s, e, c) # rs) b \<longleftrightarrow> a \<le> s \<and> s \<le> e \<and> ordered_removals e rs b"

lemma ordered_removals_mono: "ordered_removals a rs b \<Longrightarrow> b \<le> b' \<Longrightarrow> ordered_removals a rs b'"
  by (induction a rs b rule: ordered_removals.induct) auto

lemma ordered_removals_append:
  "ordered_removals a rs s \<Longrightarrow> s \<le> e \<Longrightarrow> ordered_removals a (rs @ [(s, e, c)]) e"
  by (induction a rs s rule: ordered_removals.induct) auto

lemma ordered_removals_le: "ordered_removals a rs b \<Longrightarrow> a \<le> b"
  by (induction a rs b rule: ordered_removals.induct) auto

lemma splice_out_ordered: "ordered_removals a rs (length emit) \<Longrightarrow> \<exists>out. splice_out emit a rs = Some out"
proof (induction emit a rs rule: splice_out.induct)
  case (2 emit a s e c0 rs)
  then have "s \<le> length emit" using ordered_removals_le by fastforce
  with 2 show ?case by (auto simp: slice_def)
qed (simp add: slice_def)

text \<open>
  The tracker between bytes: every removal so far lies before the open sequence, if there is one,
  and before the position the scan has reached.
\<close>

definition tr_inv :: "usize \<Rightarrow> tracker \<Rightarrow> bool" where
  "tr_inv i t \<longleftrightarrow> ordered_removals 0 (removals t) i
     \<and> (\<forall>s. seq_start t = Some s \<longrightarrow> s \<le> i \<and> ordered_removals 0 (removals t) s)"

lemma tr_inv_mono: "tr_inv i t \<Longrightarrow> i \<le> j \<Longrightarrow> tr_inv j t"
  by (auto simp: tr_inv_def intro: ordered_removals_mono)

lemma tr_inv_close [simp]: "seq_start (tr_close t) = None" "removals (tr_close t) = removals t" "tr_byte (tr_close t) = tr_byte t" "tr_index (tr_close t) = tr_index t"
  by (simp_all add: tr_close_def)

lemma tr_remove_simps [simp]: "seq_start (tr_remove s e t) = seq_start t" "removals (tr_remove s e t) = removals t @ [(s, e, embedded_c0 t)]"
  "tr_byte (tr_remove s e t) = tr_byte t" "tr_index (tr_remove s e t) = tr_index t"
  by (simp_all add: tr_remove_def)

lemma tr_event_fixed [simp]: "tr_byte (tr_event e t) = tr_byte t" "tr_index (tr_event e t) = tr_index t"
  by (cases e; simp add: Let_def split: option.splits)+

lemma fold_fixed [simp]: "tr_byte (fold tr_event evs t) = tr_byte t" "tr_index (fold tr_event evs t) = tr_index t"
  by (induction evs arbitrary: t) simp_all

lemma tr_event_quiet:
  "\<not> is_dispatch e \<Longrightarrow> removals (tr_event e t) = removals t \<and> (seq_start (tr_event e t) = seq_start t \<or> seq_start (tr_event e t) = None)"
  by (cases e) simp_all

lemma fold_quiet:
  "filter is_dispatch evs = [] \<Longrightarrow> removals (fold tr_event evs t) = removals t
     \<and> (seq_start (fold tr_event evs t) = seq_start t \<or> seq_start (fold tr_event evs t) = None)"
proof (induction evs arbitrary: t)
  case (Cons e evs)
  then have "\<not> is_dispatch e" "filter is_dispatch evs = []" by (auto split: if_splits)
  with Cons.IH [of "tr_event e t"] tr_event_quiet [of e t] show ?case by auto
qed simp

lemma tr_event_dispatch:
  assumes "ordered_removals 0 (removals t) (tr_index t)" and "\<And>s. seq_start t = Some s \<Longrightarrow> s \<le> tr_index t \<and> ordered_removals 0 (removals t) s"
  shows "ordered_removals 0 (removals (tr_event e t)) (if is_osc e \<and> tr_byte t \<noteq> 0x07 then tr_index t else tr_index t + 1)
    \<and> (is_dispatch e \<longrightarrow> (is_osc e \<and> tr_byte t \<noteq> 0x07) \<or> seq_start (tr_event e t) = None)"
  using assms
  by (cases e) (auto simp: Let_def intro: ordered_removals_append ordered_removals_mono split: option.splits)

lemma fold_events_inv:
  assumes "length (filter is_dispatch evs) \<le> 1"
    and "\<And>e. e \<in> set evs \<Longrightarrow> is_dispatch e \<Longrightarrow> if is_osc e then tr_byte t \<in> {0x07, 0x18, 0x1a, 0x1b} else tr_byte t \<noteq> 0x1b"
    and "tr_inv (tr_index t) t"
  defines "t' \<equiv> fold tr_event evs t"
  shows "ordered_removals 0 (removals t') (tr_index t + 1)
    \<and> (tr_byte t = 0x1b \<longrightarrow> ordered_removals 0 (removals t') (tr_index t))
    \<and> (tr_byte t \<notin> {0x18, 0x1a, 0x1b} \<longrightarrow> (\<forall>s. seq_start t' = Some s \<longrightarrow> s \<le> tr_index t \<and> ordered_removals 0 (removals t') s))"
proof (cases "filter is_dispatch evs")
  case Nil
  have ii: "ordered_removals 0 (removals t) (tr_index t)" "ordered_removals 0 (removals t) (tr_index t + 1)"
    using assms(3) ordered_removals_mono by (auto simp: tr_inv_def)
  from fold_quiet [OF Nil, of t] show ?thesis using assms(3) ii by (auto simp: t'_def tr_inv_def)
next
  case (Cons d ds)
  then have one: "filter is_dispatch evs = [d]" using assms(1) by simp
  then obtain xs ys where evs: "evs = xs @ d # ys" "filter is_dispatch xs = []" "filter is_dispatch ys = []" "is_dispatch d"
    unfolding filter_eq_Cons_iff by (metis filter_False)
  define u where "u = fold tr_event xs t"
  have u: "removals u = removals t" "seq_start u = seq_start t \<or> seq_start u = None" "tr_byte u = tr_byte t" "tr_index u = tr_index t"
    using fold_quiet [OF evs(2), of t] by (auto simp: u_def)
  define v where "v = tr_event d u"
  have t': "t' = fold tr_event ys v" by (simp add: t'_def evs(1) u_def v_def)
  have q: "removals t' = removals v" "seq_start t' = seq_start v \<or> seq_start t' = None"
    using fold_quiet [OF evs(3), of v] by (simp_all add: t')
  have v: "ordered_removals 0 (removals v) (if is_osc d \<and> tr_byte t \<noteq> 0x07 then tr_index t else tr_index t + 1)"
      "(is_osc d \<and> tr_byte t \<noteq> 0x07) \<or> seq_start v = None"
    using tr_event_dispatch [of u d] assms(3) u evs(4) by (auto simp: v_def tr_inv_def)
  have d: "if is_osc d then tr_byte t \<in> {0x07, 0x18, 0x1a, 0x1b} else tr_byte t \<noteq> 0x1b"
    using assms(2) [OF _ evs(4)] evs(1) by simp
  have "ordered_removals 0 (removals v) (tr_index t + 1)"
    using v(1) ordered_removals_mono by (fastforce split: if_splits)
  then show ?thesis using v d q by (auto split: if_splits)
qed

lemma feed_byte_inv:
  assumes "well_tokenized adv" and "tr_inv i t" and "feed_byte adv buf i (p, t) = (p', t')"
  shows "tr_inv (i + 1) t'"
proof -
  obtain evs p1 where a: "adv p (buf ! i) = (evs, p1)" by force
  let ?t = "t\<lparr>tr_index := i, tr_byte := buf ! i\<rparr>"
  have w: "length (filter is_dispatch (fst (adv p (buf ! i)))) \<le> 1"
      "\<And>e. e \<in> set (fst (adv p (buf ! i))) \<Longrightarrow> is_dispatch e \<Longrightarrow>
         if is_osc e then buf ! i \<in> {0x07, 0x18, 0x1a, 0x1b} else 0x40 \<le> buf ! i \<and> buf ! i \<le> 0x7e"
    using assms(1) unfolding well_tokenized_def by blast+
  have inv: "tr_inv (tr_index ?t) ?t" using assms(2) by (simp add: tr_inv_def)
  have "ordered_removals 0 (removals (fold tr_event evs ?t)) (i + 1)
    \<and> (buf ! i = 0x1b \<longrightarrow> ordered_removals 0 (removals (fold tr_event evs ?t)) i)
    \<and> (buf ! i \<notin> {0x18, 0x1a, 0x1b} \<longrightarrow> (\<forall>s. seq_start (fold tr_event evs ?t) = Some s \<longrightarrow>
          s \<le> i \<and> ordered_removals 0 (removals (fold tr_event evs ?t)) s))"
    using fold_events_inv [OF _ _ inv, of evs] w a by (fastforce split: if_splits)
  moreover have "t' = after_byte buf i (buf ! i) (fold tr_event evs ?t)"
    using assms(3) a by (simp add: feed_byte_def Let_def)
  ultimately show ?thesis by (auto simp: after_byte_def tr_inv_def split: option.splits if_splits)
qed

lemma find_esc_bound: "find_esc s = Some k \<Longrightarrow> k < length s"
proof -
  have p: "byte_position P xs = Some k \<Longrightarrow> k < length xs" for P xs k by (induction xs arbitrary: k) (auto split: if_splits)
  show "find_esc s = Some k \<Longrightarrow> k < length s"
    by (auto simp: find_esc_def split: option.splits if_splits dest!: p)
qed

lemma complete_other_csi_bound: "complete_other_csi s = Some n \<Longrightarrow> n \<le> length s"
  by (auto simp: complete_other_csi_def Let_def split: if_splits)

lemma scan_inv:
  assumes "well_tokenized adv" and "i \<le> length buf" and "tr_inv i t" and "scan adv buf i (p, t) = (p', t')"
  shows "tr_inv (length buf) t'"
  using assms
proof (induction adv buf i "(p, t)" arbitrary: p t rule: scan.induct)
  case (1 adv buf i p t)
  show ?case
  proof (cases "i < length buf")
    case False
    with 1 show ?thesis by (simp add: scan.simps)
  next
    case True
    show ?thesis
    proof (cases "non_ground t")
      case ng: True
      obtain p1 t1 where f: "feed_byte adv buf i (p, t) = (p1, t1)" by force
      have "tr_inv (Suc i) t1" using feed_byte_inv [OF 1(4,6) f] by simp
      then show ?thesis using 1(3) [OF True _ f] 1(4-) True ng f by (simp add: scan.simps [of _ _ i])
    next
      case g: False
      show ?thesis
      proof (cases "find_esc (drop i buf)")
        case None
        then show ?thesis using 1(4-) True g by (auto simp: scan.simps [of _ _ i] intro: tr_inv_mono)
      next
        case (Some k)
        then have k: "i + k < length buf" using find_esc_bound by fastforce
        have ik: "tr_inv (i + k) t" using 1(6) by (rule tr_inv_mono) simp
        show ?thesis
        proof (cases "complete_other_csi (drop (i + k) buf)")
          case n: (Some n)
          have le: "i + k + n \<le> length buf" using complete_other_csi_bound [OF n] k by simp
          have "tr_inv (i + k + n) t" using ik by (rule tr_inv_mono) simp
          then show ?thesis using 1(2) [OF True] 1(4-) True g Some n le by (simp add: scan.simps [of _ _ i])
        next
          case n: None
          obtain p1 t1 where f: "feed_byte adv buf (i + k) (p, t) = (p1, t1)" by force
          have "tr_inv (Suc (i + k)) t1" using feed_byte_inv [OF 1(4) ik f] by simp
          then show ?thesis using 1(1) [OF True _ Some n f] 1(4-) True g k Some n f
            by (simp add: scan.simps [of _ _ i])
        qed
      qed
    qed
  qed
qed

section \<open>Feeding is lossless\<close>

lemma release_lossless:
  assumes "release buf p t = Some (s, q')"
  shows "sc_raw s @ qs_held q' = buf \<and> length (qs_held q') \<le> MAX_HELD"
proof -
  have "length (drop (hold_from buf t) buf) \<le> MAX_HELD"
    by (simp add: hold_from_def split: option.splits)
  with assms show ?thesis by (auto simp: release_def Let_def bind_Some_conv)
qed

lemma release_total:
  assumes "tr_inv (length buf) t"
  shows "\<exists>s q'. release buf p t = Some (s, q')"
proof -
  have hf: "ordered_removals 0 (removals t) (hold_from buf t)" "hold_from buf t \<le> length buf"
    using assms by (auto simp: hold_from_def tr_inv_def split: option.splits)
  then have "ordered_removals 0 (removals t) (length (take (hold_from buf t) buf))" by (simp add: min_absorb2)
  from splice_out_ordered [OF this] show ?thesis by (auto simp: release_def Let_def)
qed

lemma feed_lossless:
  assumes "feed adv q chunk = Some (s, q')" and "length (qs_held q) \<le> MAX_HELD"
  shows "sc_raw s @ qs_held q' = qs_held q @ chunk \<and> length (qs_held q') \<le> MAX_HELD"
proof (cases "qs_held q = [] \<and> \<not> non_ground (qs_tracker q) \<and> 0x1b \<notin> set chunk")
  case False
  then obtain p1 t1 where "release (qs_held q @ chunk) p1 t1 = Some (s, q')"
    using assms(1) unfolding feed_def Let_def by (simp only: if_False split: prod.splits)
  then show ?thesis by (rule release_lossless)
qed (use assms in \<open>auto simp: feed_def\<close>)

lemma feed_total:
  assumes "well_tokenized adv"
  shows "\<exists>s q'. feed adv q chunk = Some (s, q')"
proof -
  let ?h = "length (qs_held q)"
  let ?t = "(qs_tracker q)\<lparr>removals := [], seq_start := (if ?h > 0 then Some 0 else None)\<rparr>"
  obtain p1 t1 where sc: "scan adv (qs_held q @ chunk) ?h (qs_parser q, ?t) = (p1, t1)" by force
  have "tr_inv ?h ?t" by (simp add: tr_inv_def)
  then have "tr_inv (length (qs_held q @ chunk)) t1" using scan_inv [OF assms _ _ sc] by simp
  from release_total [OF this, of p1] show ?thesis unfolding feed_def Let_def sc by simp
qed

lemma feed_all_lossless:
  assumes "feed_all adv q chunks = Some (ss, q')" and "length (qs_held q) \<le> MAX_HELD"
  shows "concat (map sc_raw ss) @ qs_held q' = qs_held q @ concat chunks \<and> length (qs_held q') \<le> MAX_HELD"
  using assms
proof (induction chunks arbitrary: q ss)
  case (Cons c cs)
  then obtain s q1 ss1 where f: "feed adv q c = Some (s, q1)" "feed_all adv q1 cs = Some (ss1, q')" "ss = s # ss1"
    by (auto simp: bind_Some_conv)
  note l = feed_lossless [OF f(1) Cons.prems(2)]
  have "concat (map sc_raw ss1) @ qs_held q' = qs_held q1 @ concat cs \<and> length (qs_held q') \<le> MAX_HELD"
    using Cons.IH [OF f(2)] l by blast
  then have "sc_raw s @ concat (map sc_raw ss1) @ qs_held q' = (sc_raw s @ qs_held q1) @ concat cs"
      "length (qs_held q') \<le> MAX_HELD" by simp_all
  then show ?case using l f(3) by simp
qed simp

lemma feed_all_total: "well_tokenized adv \<Longrightarrow> \<exists>ss q'. feed_all adv q chunks = Some (ss, q')"
proof (induction chunks arbitrary: q)
  case (Cons c cs)
  obtain s q1 where "feed adv q c = Some (s, q1)" using feed_total [OF Cons.prems] by blast
  moreover obtain ss q' where "feed_all adv q1 cs = Some (ss, q')" using Cons by blast
  ultimately show ?case by simp
qed simp

section \<open>What counts as a query\<close>

lemma palette_pairs_pure:
  "palette_pairs xs = Some items \<Longrightarrow> even (length xs) \<Longrightarrow> \<forall>k < length xs. odd k \<longrightarrow> xs ! k = [0x3f]"
proof (induction xs arbitrary: items rule: palette_pairs.induct)
  case (1 i q rest)
  then obtain idx items' where r: "parse_u8 i = Some idx" "q = [0x3f]" "palette_pairs rest = Some items'"
    by (auto simp: bind_Some_conv split: if_splits)
  have "\<forall>k < length rest. odd k \<longrightarrow> rest ! k = [0x3f]"
    using 1(1) [OF r(1), of "Palette idx" items'] r 1(3) by simp
  with r(2) show ?case by (auto simp: nth_Cons split: nat.splits)
qed auto

lemma palette_pairs_length: "palette_pairs xs = Some items \<Longrightarrow> length items = length xs div 2"
  by (induction xs arbitrary: items rule: palette_pairs.induct) (fastforce simp: bind_Some_conv split: if_splits)+

lemma find_esc_position: "find_esc s = byte_position (\<lambda>b. b = 0x1b) s"
proof -
  have "byte_position P (xs @ ys) = (case byte_position P xs of Some k \<Rightarrow> Some k | None \<Rightarrow> map_option (\<lambda>k. k + length xs) (byte_position P ys))"
    for P xs ys
    by (induction xs) (auto simp: option.map_comp comp_def option.map_ident split: option.splits)
  from this [of _ "take 24 s" "drop 24 s"] show ?thesis
    by (cases "length s > 24") (auto simp: find_esc_def min_def split: option.splits)
qed

definition csi_shape :: "bytes \<Rightarrow> bool" where
  "csi_shape s \<longleftrightarrow> length s \<ge> 3 \<and> s ! 0 = 0x1b \<and> s ! 1 = 0x5b
     \<and> (\<forall>k. 2 \<le> k \<longrightarrow> k < length s - 1 \<longrightarrow> 0x20 \<le> s ! k \<and> s ! k \<le> 0x3f) \<and> 0x40 \<le> last s \<and> last s \<le> 0x7e"

lemma complete_other_csi_shape:
  assumes "complete_other_csi s = Some n"
  shows "n \<le> length s \<and> csi_shape (take n s) \<and> \<not> may_be_query_final (last (take n s))"
proof -
  let ?P = "\<lambda>b::nat. 0x20 \<le> b \<and> b \<le> 0x3f"
  define m where "m = length (takeWhile ?P (drop 2 s))"
  have s: "3 \<le> length s" "s ! 0 = 0x1b" "s ! 1 = 0x5b" "2 + m < length s" "n = m + 3"
      "0x40 \<le> s ! (2 + m)" "s ! (2 + m) \<le> 0x7e" "\<not> may_be_query_final (s ! (2 + m))"
    using assms by (auto simp: complete_other_csi_def m_def Let_def split: if_splits)
  have len: "length (take n s) = m + 3" using s(4,5) by simp
  then have "take n s \<noteq> []" by auto
  from last_conv_nth [OF this] have "last (take n s) = take n s ! (2 + m)" unfolding len by simp
  also have "\<dots> = s ! (2 + m)" by (rule nth_take) (simp add: s(5))
  finally have l: "last (take n s) = s ! (2 + m)" .
  have "?P (s ! k)" if "2 \<le> k" "k < n - 1" for k
  proof -
    have k: "k - 2 < m" using that s(5) by simp
    then have "takeWhile ?P (drop 2 s) ! (k - 2) \<in> set (takeWhile ?P (drop 2 s))" by (simp add: m_def)
    from set_takeWhileD [OF this] have "?P (takeWhile ?P (drop 2 s) ! (k - 2))" by blast
    moreover have "takeWhile ?P (drop 2 s) ! (k - 2) = drop 2 s ! (k - 2)" using k unfolding m_def by (rule takeWhile_nth)
    moreover have "drop 2 s ! (k - 2) = s ! k" using that(1) s(1) by (subst nth_drop) (simp_all only: le_add_diff_inverse)
    ultimately show ?thesis by simp
  qed
  moreover have "take n s ! k = s ! k" if "k < n" for k using that by simp
  ultimately show ?thesis using s l unfolding csi_shape_def len by auto
qed

section \<open>Properties\<close>

text \<open>A tokenizer for the witnesses: it knows BEL-terminated OSC and nothing else.\<close>

definition osc_only :: "bytes vte" where
  "osc_only p b = (if b = 0x07 then ([OscDispatch [drop 2 p] True], []) else ([], p @ [b]))"

lemma osc_only_well_tokenized: "well_tokenized osc_only"
  by (simp add: well_tokenized_def osc_only_def)

text \<open>
  C31. The scanner loses nothing and never panics: over any sequence of chunks, what it lets
  through followed by what it still holds is exactly the pane's output, and it never holds back
  more than \<open>MAX_HELD\<close> bytes, whatever the tokenizer makes of the bytes.
\<close>

theorem scanner_lossless:
  assumes "well_tokenized adv"
  shows "\<exists>ss q. feed_all adv (scanner_new p) chunks = Some (ss, q)
    \<and> concat (map sc_raw ss) @ fst (take_held q) = concat chunks \<and> length (qs_held q) \<le> MAX_HELD"
proof -
  obtain ss q where f: "feed_all adv (scanner_new p) chunks = Some (ss, q)" using feed_all_total [OF assms] by blast
  from feed_all_lossless [OF this] show ?thesis using f by (simp add: scanner_new_def take_held_def)
qed

theorem scanner_lossless_witness:
  "\<exists>ss q. feed_all osc_only (scanner_new []) [[0x61, 0x1b, 0x5d], [0x31, 0x30, 0x07, 0x62]] = Some (ss, q)
    \<and> concat (map sc_raw ss) @ fst (take_held q) = [0x61, 0x1b, 0x5d, 0x31, 0x30, 0x07, 0x62]"
  using scanner_lossless [OF osc_only_well_tokenized, of "[]" "[[0x61, 0x1b, 0x5d], [0x31, 0x30, 0x07, 0x62]]"] by auto

text \<open>
  The scanner's shortcuts agree with the tokenizer's job: the two-stage ESC search finds the
  first ESC, and a control sequence it skips is a complete well-formed CSI whose final byte makes
  none of its readings a query.
\<close>

theorem scan_skips_safely:
  "find_esc s = byte_position (\<lambda>b. b = 0x1b) s
   \<and> (complete_other_csi s = Some n \<longrightarrow>
        n \<le> length s \<and> csi_shape (take n s) \<and> (\<forall>i1 i2 p0. classify_csi i1 i2 p0 (last (take n s)) = None))"
proof -
  have "classify_csi i1 i2 p0 f = None" if "\<not> may_be_query_final f" for i1 i2 p0 f
    using that by (simp add: classify_csi_def may_be_query_final_def)
  with find_esc_position complete_other_csi_shape show ?thesis by blast
qed

theorem scan_skips_safely_witness:
  "complete_other_csi [0x1b, 0x5b, 0x31, 0x6d, 0x41] = Some 4 \<and> csi_shape [0x1b, 0x5b, 0x31, 0x6d]"
proof -
  have "complete_other_csi [0x1b, 0x5b, 0x31, 0x6d, 0x41] = Some 4" by code_simp
  with scan_skips_safely [of "[0x1b, 0x5b, 0x31, 0x6d, 0x41]" 4] show ?thesis by simp
qed

text \<open>
  Only pure colour queries are taken out of the stream: if an OSC counts as a query then every
  value position of it is a question mark, so no colour it sets is lost, up to the half pair that
  the tokenizer's limit of 16 parameters may have cut.
\<close>

theorem osc_query_pure:
  assumes "osc_query params = Some items"
  shows "\<exists>first rest. params = first # rest \<and> items \<noteq> []
    \<and> (if first = [0x34]
       then length items = length rest div 2 \<and> (\<forall>k < 2 * length items. odd k \<longrightarrow> rest ! k = [0x3f])
            \<and> (odd (length rest) \<longrightarrow> VTE_MAX_OSC_PARAMS \<le> length params)
       else \<forall>p \<in> set rest. p = [0x3f])"
proof (cases params)
  case (Cons first rest)
  show ?thesis
  proof (cases "first = [0x34]")
    case True
    define r where "r = (if length params \<ge> VTE_MAX_OSC_PARAMS \<and> odd (length rest) then butlast rest else rest)"
    have q: "palette_pairs r = Some items" "r \<noteq> []" "even (length r)"
      using assms Cons True by (auto simp: osc_query_def r_def Let_def split: if_splits)
    have l: "length items = length r div 2" by (rule palette_pairs_length [OF q(1)])
    have r: "length r div 2 = length rest div 2" "k < length r \<Longrightarrow> r ! k = rest ! k" for k
      by (auto simp: r_def nth_butlast elim!: oddE)
    have "2 * length items = length r" using l q(3) by simp
    moreover from this q(2) have "items \<noteq> []" by auto
    ultimately show ?thesis using palette_pairs_pure [OF q(1,3)] q l r Cons True
      by (auto simp: r_def split: if_splits)
  next
    case False
    then show ?thesis using assms Cons by (auto simp: osc_query_def Let_def upt_rec split: if_splits)
  qed
qed (use assms in \<open>simp add: osc_query_def\<close>)

theorem osc_query_pure_witness: "\<exists>items. osc_query [[0x34], [0x31], [0x3f]] = Some items \<and> items \<noteq> []"
proof -
  have "osc_query [[0x34], [0x31], [0x3f]] = Some [Palette 1]" by code_simp
  with osc_query_pure [OF this] show ?thesis by blast
qed

end
