(* ===== verification/Terminal_Query.thy ===== *)
theory Terminal_Query
  imports Query_Scanner Floats
begin

text \<open>
  Answering terminal queries (\<open>crates/tymux-core/src/terminal_query.rs\<close>): the reply to each query,
  the colours, which attached clients will answer themselves (\<open>terminal_query/clients.rs\<close>) and the
  bounded, rate-limited queue of replies (\<open>terminal_query/outbox.rs\<close>).

  An \<open>Instant\<close> is its distance in nanoseconds from a fixed origin. The crate version is an argument.
\<close>

section \<open>Text\<close>

definition str :: "string \<Rightarrow> bytes" where "str s = map of_char s"

fun dec :: "nat \<Rightarrow> bytes" where
  "dec n = (if n < 10 then [0x30 + n] else dec (n div 10) @ [0x30 + n mod 10])"

declare dec.simps [simp del]

definition hex_digit :: "nat \<Rightarrow> u8" where
  "hex_digit d = (if d < 10 then 0x30 + d else 0x61 + (d - 10))"

definition hex2 :: "u8 \<Rightarrow> bytes" where
  "hex2 b = [hex_digit (b div 16), hex_digit (b mod 16)]"

abbreviation esc :: bytes where "esc \<equiv> [0x1b]"

section \<open>Replies\<close>

datatype mouse_mode = MouseNone | MousePress | MousePressRelease | MouseButtonMotion | MouseAnyMotion
datatype mouse_encoding = EncDefault | EncUtf8 | EncSgr

text \<open>What the replies read of the emulator's screen.\<close>

record screen_view =
  vw_size :: "u16 \<times> u16"
  vw_cursor :: "u16 \<times> u16"
  vw_scroll_region :: "u16 \<times> u16"
  vw_mouse_mode :: mouse_mode
  vw_mouse_encoding :: mouse_encoding
  vw_insert_mode :: bool
  vw_newline_mode :: bool
  vw_application_cursor :: bool
  vw_origin_mode :: bool
  vw_autowrap :: bool
  vw_hide_cursor :: bool
  vw_alternate_screen :: bool
  vw_application_keypad :: bool
  vw_focus_events :: bool
  vw_bracketed_paste :: bool

definition NOT_RECOGNIZED :: u8 where "NOT_RECOGNIZED = 0"
definition MODE_SET :: u8 where "MODE_SET = 1"
definition MODE_RESET :: u8 where "MODE_RESET = 2"
definition PERMANENTLY_SET :: u8 where "PERMANENTLY_SET = 3"
definition PERMANENTLY_RESET :: u8 where "PERMANENTLY_RESET = 4"

definition flag :: "bool \<Rightarrow> u8" where
  "flag on = (if on then MODE_SET else MODE_RESET)"

definition mode_status :: "screen_view \<Rightarrow> bool \<Rightarrow> u16 \<Rightarrow> u8" where
  "mode_status sc private mode =
     (if \<not> private then
        if mode = 2 then PERMANENTLY_RESET
        else if mode = 4 then flag (vw_insert_mode sc)
        else if mode = 12 then PERMANENTLY_SET
        else if mode = 20 then flag (vw_newline_mode sc)
        else NOT_RECOGNIZED
      else if mode = 1 then flag (vw_application_cursor sc)
      else if mode = 6 then flag (vw_origin_mode sc)
      else if mode = 7 then flag (vw_autowrap sc)
      else if mode = 8 then PERMANENTLY_SET
      else if mode = 9 then flag (vw_mouse_mode sc = MousePress)
      else if mode = 25 then flag (\<not> vw_hide_cursor sc)
      else if mode = 47 \<or> mode = 1047 \<or> mode = 1049 then flag (vw_alternate_screen sc)
      else if mode = 66 then flag (vw_application_keypad sc)
      else if mode = 67 \<or> mode = 1005 \<or> mode = 1015 then PERMANENTLY_RESET
      else if mode = 1000 then flag (vw_mouse_mode sc = MousePressRelease)
      else if mode = 1002 then flag (vw_mouse_mode sc = MouseButtonMotion)
      else if mode = 1003 then flag (vw_mouse_mode sc = MouseAnyMotion)
      else if mode = 1004 then flag (vw_focus_events sc)
      else if mode = 1006 then flag (vw_mouse_encoding sc = EncSgr)
      else if mode = 1048 then MODE_SET
      else if mode = 2004 then flag (vw_bracketed_paste sc)
      else NOT_RECOGNIZED)"

definition cursor_report :: "screen_view \<Rightarrow> u32 \<times> u32" where
  "cursor_report sc =
     (let (row, col) = vw_cursor sc;
          (rows, cols) = vw_size sc;
          row = (if vw_origin_mode sc then saturating_sub row (saturating_sub (fst (vw_scroll_region sc)) 1) else row)
      in (min (saturating_add u16_max row 1) rows, min (saturating_add u16_max col 1) cols))"

definition reply_for :: "bytes \<Rightarrow> query \<Rightarrow> screen_view \<Rightarrow> bytes" where
  "reply_for version q sc = (case q of
     Da1 \<Rightarrow> esc @ str ''[?1;2c''
   | Da2 \<Rightarrow> esc @ str ''[>0;276;0c''
   | StatusReport \<Rightarrow> esc @ str ''[0n''
   | CursorPosition \<Rightarrow> (let (r, c) = cursor_report sc in esc @ str ''['' @ dec r @ str '';'' @ dec c @ str ''R'')
   | DecCursorPosition \<Rightarrow> (let (r, c) = cursor_report sc in esc @ str ''[?'' @ dec r @ str '';'' @ dec c @ str '';1R'')
   | XtVersion \<Rightarrow> esc @ str ''P>|tymux '' @ version @ esc @ [0x5c]
   | ModeReport private mode \<Rightarrow>
       esc @ str ''['' @ (if private then str ''?'' else []) @ dec mode @ str '';'' @ dec (mode_status sc private mode) @ str ''$y''
   | SizeReport kind \<Rightarrow>
       (let (rows, cols) = vw_size sc
        in esc @ str ''['' @ dec (if kind = 18 then 8 else 9) @ str '';'' @ dec rows @ str '';'' @ dec cols @ str ''t''))"

type_synonym rgb = "u8 \<times> u8 \<times> u8"

record colors =
  co_fg :: rgb
  co_bg :: rgb
  co_cursor :: rgb

definition default_colors :: colors where
  "default_colors = \<lparr>co_fg = (0xff, 0xff, 0xff), co_bg = (0, 0, 0), co_cursor = (0xff, 0xff, 0xff)\<rparr>"

definition hex_value :: "u8 \<Rightarrow> nat option" where
  "hex_value b = (if 0x30 \<le> b \<and> b \<le> 0x39 then Some (b - 0x30)
     else if 0x61 \<le> b \<and> b \<le> 0x66 then Some (b - 0x61 + 10)
     else if 0x41 \<le> b \<and> b \<le> 0x46 then Some (b - 0x41 + 10) else None)"

text \<open>\<open>u8::from_str_radix(_, 16)\<close> on two bytes: a leading plus sign is accepted.\<close>

definition hex_byte :: "u8 \<Rightarrow> u8 \<Rightarrow> u8 option" where
  "hex_byte a b = (if a = 0x2b then hex_value b
     else do { x \<leftarrow> hex_value a; y \<leftarrow> hex_value b; Some (x * 16 + y) })"

definition parse_hex_color :: "bytes \<Rightarrow> rgb option" where
  "parse_hex_color s = (case s of
     [] \<Rightarrow> None
   | h # hex \<Rightarrow>
       if h \<noteq> 0x23 then None
       else if length hex \<noteq> 6 \<or> (\<exists>b \<in> set hex. 128 \<le> b) then None
       else do { r \<leftarrow> hex_byte (hex ! 0) (hex ! 1);
                 g \<leftarrow> hex_byte (hex ! 2) (hex ! 3);
                 b \<leftarrow> hex_byte (hex ! 4) (hex ! 5);
                 Some (r, g, b) })"

definition colors_from_lookup :: "(string \<Rightarrow> bytes option) \<Rightarrow> colors" where
  "colors_from_lookup get =
     (let pick = (\<lambda>key dflt. case Option.bind (get key) parse_hex_color of Some c \<Rightarrow> c | None \<Rightarrow> dflt)
      in \<lparr>co_fg = pick ''TYMUXD_QUERY_FG'' (co_fg default_colors),
          co_bg = pick ''TYMUXD_QUERY_BG'' (co_bg default_colors),
          co_cursor = pick ''TYMUXD_QUERY_CURSOR'' (co_cursor default_colors)\<rparr>)"

definition ANSI16 :: "rgb list" where
  "ANSI16 = [(0x2e, 0x34, 0x36), (0xcc, 0x00, 0x00), (0x4e, 0x9a, 0x06), (0xc4, 0xa0, 0x00),
     (0x34, 0x65, 0xa4), (0x75, 0x50, 0x7b), (0x06, 0x98, 0x9a), (0xd3, 0xd7, 0xcf),
     (0x55, 0x57, 0x53), (0xef, 0x29, 0x29), (0x8a, 0xe2, 0x34), (0xfc, 0xe9, 0x4f),
     (0x72, 0x9f, 0xcf), (0xad, 0x7f, 0xa8), (0x34, 0xe2, 0xe2), (0xee, 0xee, 0xec)]"

definition LEVELS :: "u8 list" where "LEVELS = [0x00, 0x5f, 0x87, 0xaf, 0xd7, 0xff]"

definition index_opt :: "'a list \<Rightarrow> nat \<Rightarrow> 'a option" where
  "index_opt xs i = (if i < length xs then Some (xs ! i) else None)"

definition palette :: "u8 \<Rightarrow> rgb option" where
  "palette index =
     (if index \<le> 15 then index_opt ANSI16 index
      else if index \<le> 231
      then do { i \<leftarrow> checked_sub index 16;
                r \<leftarrow> index_opt LEVELS (i div 36);
                g \<leftarrow> index_opt LEVELS (i div 6 mod 6);
                b \<leftarrow> index_opt LEVELS (i mod 6);
                Some (r, g, b) }
      else do { d \<leftarrow> checked_sub index 232;
                v \<leftarrow> (if 10 * d \<le> 255 then checked_add 255 8 (10 * d) else None);
                Some (v, v, v) })"

definition osc_color :: "bytes \<Rightarrow> rgb \<Rightarrow> bool \<Rightarrow> bytes" where
  "osc_color ident c bel =
     (let (r, g, b) = c
      in esc @ str '']'' @ ident @ str '';rgb:'' @ hex2 r @ hex2 r @ str ''/'' @ hex2 g @ hex2 g @ str ''/''
         @ hex2 b @ hex2 b @ (if bel then [0x07] else esc @ [0x5c]))"

definition osc_reply :: "bool \<Rightarrow> colors \<Rightarrow> osc_item \<Rightarrow> bytes option" where
  "osc_reply bel cs item = (case item of
     Palette i \<Rightarrow> map_option (\<lambda>c. osc_color (str ''4;'' @ dec i) c bel) (palette i)
   | Dynamic ident \<Rightarrow> Some (osc_color (dec ident)
       (if ident = 10 then co_fg cs else if ident = 11 then co_bg cs else co_cursor cs) bel))"

definition osc_replies :: "bytes list \<Rightarrow> bool \<Rightarrow> colors \<Rightarrow> bytes list option" where
  "osc_replies params bel cs =
     those (map (osc_reply bel cs) (case osc_query params of Some items \<Rightarrow> items | None \<Rightarrow> []))"

definition csi_reply :: "bytes \<Rightarrow> screen_view \<Rightarrow> u8 option \<Rightarrow> u8 option \<Rightarrow> u16 list list \<Rightarrow> nat \<Rightarrow> bytes option" where
  "csi_reply version sc i1 i2 params c =
     (let p0 = (case params of (p # _) # _ \<Rightarrow> p | _ \<Rightarrow> 0)
      in if c < 256 then map_option (\<lambda>q. reply_for version q sc) (classify_csi i1 i2 p0 c) else None)"

section \<open>Clients that answer themselves\<close>

record client_slot =
  sl_live_from :: u64
  sl_answering :: bool

text \<open>A registered slot is \<open>None\<close> once its client is dropped.\<close>

type_synonym client_registry = "client_slot option list"

definition register_client :: "client_registry \<Rightarrow> client_registry" where
  "register_client slots = filter (\<lambda>s. s \<noteq> None) slots @ [Some \<lparr>sl_live_from = u64_max, sl_answering = True\<rparr>]"

definition go_live_after :: "u64 \<Rightarrow> client_slot \<Rightarrow> client_slot" where
  "go_live_after seq s = s\<lparr>sl_live_from := seq\<rparr>"

definition set_lagged :: "bool \<Rightarrow> client_slot \<Rightarrow> client_slot" where
  "set_lagged lagged s = s\<lparr>sl_answering := \<not> lagged\<rparr>"

definition has_answerer :: "client_registry \<Rightarrow> u64 \<Rightarrow> bool" where
  "has_answerer slots seq = list_ex (\<lambda>s. case s of None \<Rightarrow> False
     | Some c \<Rightarrow> sl_answering c \<and> sl_live_from c < seq) slots"

section \<open>The outbox\<close>

definition RATE_BURST :: fp where "RATE_BURST = Fin 16"
definition RATE_REFILL_PER_SEC :: fp where "RATE_REFILL_PER_SEC = Fin 8"
definition MAX_PENDING :: usize where "MAX_PENDING = 32"

record outbox =
  ob_queue :: "bytes list"
  ob_tokens :: fp
  ob_last :: nat
  ob_closed :: bool
  ob_writer :: bool
  ob_generation :: u64
  ob_accepted :: u64

definition outbox_new :: "nat \<Rightarrow> outbox" where
  "outbox_new now = \<lparr>ob_queue = [], ob_tokens = RATE_BURST, ob_last = now, ob_closed = False,
     ob_writer = True, ob_generation = 0, ob_accepted = 0\<rparr>"

text \<open>\<open>Duration::as_secs_f64\<close>: whole seconds plus the fraction of the nanoseconds.\<close>

definition as_secs_f64 :: "nat \<Rightarrow> fp" where
  "as_secs_f64 d = fadd binary64 (of_uint binary64 (d div 1000000000))
     (fround binary64 (of_nat (d mod 1000000000) / 1000000000))"

definition refill :: "outbox \<Rightarrow> nat \<Rightarrow> fp" where
  "refill st now =
     fmin (fadd binary64 (ob_tokens st) (fmul binary64 (as_secs_f64 (saturating_sub now (ob_last st))) RATE_REFILL_PER_SEC))
          RATE_BURST"

text \<open>\<open>spawn_ok\<close> tells whether the operating system starts the writer thread.\<close>

definition offer :: "bool \<Rightarrow> nat \<Rightarrow> bytes \<Rightarrow> outbox \<Rightarrow> outbox" where
  "offer spawn_ok now reply st =
     (if ob_closed st \<or> reply \<in> set (ob_queue st) then st
      else
        let st1 = st\<lparr>ob_last := now, ob_tokens := refill st now\<rparr>
        in if flt (ob_tokens st1) (Fin 1) then st1
           else
             let q = (if length (ob_queue st1) \<ge> MAX_PENDING then tl (ob_queue st1) else ob_queue st1);
                 st2 = st1\<lparr>ob_tokens := fsub binary64 (ob_tokens st1) (Fin 1), ob_queue := q @ [reply],
                           ob_accepted := ob_accepted st1 + 1, ob_writer := False\<rparr>
             in if ob_writer st1 \<and> \<not> spawn_ok then st2\<lparr>ob_closed := True\<rparr> else st2)"

definition rearm :: "nat \<Rightarrow> outbox \<Rightarrow> outbox" where
  "rearm now st = st\<lparr>ob_generation := ob_generation st + 1, ob_closed := False, ob_queue := [],
     ob_tokens := RATE_BURST, ob_last := now, ob_writer := True\<rparr>"

definition ob_close :: "outbox \<Rightarrow> outbox" where
  "ob_close st = st\<lparr>ob_closed := True\<rparr>"

text \<open>One wake-up of a writer thread: it ends, waits (no reply), or takes the oldest reply.\<close>

datatype drained = DrainExit | DrainWait | DrainWrite bytes

definition drain :: "u64 \<Rightarrow> outbox \<Rightarrow> drained \<times> outbox" where
  "drain gen st =
     (if ob_closed st \<or> ob_generation st \<noteq> gen then (DrainExit, st)
      else case ob_queue st of
        [] \<Rightarrow> (DrainWait, st)
      | r # rs \<Rightarrow> (DrainWrite r, st\<lparr>ob_queue := rs\<rparr>))"

inductive outbox_step :: "outbox \<Rightarrow> outbox \<Rightarrow> bool" where
  offered: "outbox_step st (offer ok now reply st)"
| rearmed: "outbox_step st (rearm now st)"
| closed: "outbox_step st (ob_close st)"
| drained: "outbox_step st (snd (drain gen st))"

inductive outbox_init :: "outbox \<Rightarrow> bool" where
  "outbox_init (outbox_new now)"

section \<open>Deciding who answers\<close>

text \<open>
  The reader thread's decision for one chunk (\<open>Pane::start_reader\<close>): whether the daemon answers, and
  which view of the chunk clients are sent.
\<close>

record query_replies =
  qr_daemon_answers :: bool
  qr_colors :: colors
  qr_outbox :: outbox

definition set_daemon_answers :: "bool \<Rightarrow> query_replies \<Rightarrow> query_replies" where
  "set_daemon_answers on qr = qr\<lparr>qr_daemon_answers := on\<rparr>"

definition qr_offer :: "bool \<Rightarrow> nat \<Rightarrow> bytes \<Rightarrow> query_replies \<Rightarrow> query_replies" where
  "qr_offer ok now reply qr = (if qr_daemon_answers qr then qr\<lparr>qr_outbox := offer ok now reply (qr_outbox qr)\<rparr> else qr)"

definition chunk_payload :: "client_registry \<Rightarrow> u64 \<Rightarrow> scanned \<Rightarrow> bool \<times> bytes" where
  "chunk_payload slots seq s =
     (let daemon_answers = (\<not> has_answerer slots seq)
      in (daemon_answers, if daemon_answers then stripped s else sc_raw s))"

section \<open>Token arithmetic\<close>

lemma fround_nonneg: "0 \<le> x \<Longrightarrow> (\<exists>r. fround F x = Fin r \<and> 0 \<le> r) \<or> fround F x = Inf False"
proof -
  assume x: "0 \<le> x"
  have "0 \<le> round_half_even (x / ulp F x)"
    by (rule round_half_even_ge) (use x in \<open>simp add: ulp_def zero_le_divide_iff less_imp_le\<close>)
  then have "0 \<le> of_int (round_half_even (x / ulp F x)) * ulp F x" by (simp add: ulp_def less_imp_le)
  then show ?thesis using x by (auto simp: fround_def Let_def)
qed

definition fnonneg :: "fp \<Rightarrow> bool" where
  "fnonneg a \<longleftrightarrow> (\<exists>x. a = Fin x \<and> 0 \<le> x) \<or> a = Inf False"

lemma fround_fnonneg: "0 \<le> x \<Longrightarrow> fnonneg (fround F x)"
  using fround_nonneg by (auto simp: fnonneg_def)

lemma fadd_fnonneg: "fnonneg a \<Longrightarrow> fnonneg b \<Longrightarrow> fnonneg (fadd F a b)"
  by (cases a; cases b) (auto simp: fnonneg_def intro!: fround_nonneg)

lemma fmul_fnonneg: "fnonneg a \<Longrightarrow> 0 < y \<Longrightarrow> fnonneg (fmul F a (Fin y))"
  by (cases a) (auto simp: fnonneg_def intro!: fround_nonneg)

lemma as_secs_fnonneg: "fnonneg (as_secs_f64 d)"
  by (simp add: as_secs_f64_def of_uint_def fadd_fnonneg fround_fnonneg)

text \<open>Tokens stay between nothing and the burst; \<open>k\<close> bounds how many are left.\<close>

definition tokens_le :: "int \<Rightarrow> fp \<Rightarrow> bool" where
  "tokens_le k a \<longleftrightarrow> (\<exists>x. a = Fin x \<and> 0 \<le> x \<and> x \<le> of_int k)"

lemma refill_le: "tokens_le k (ob_tokens st) \<Longrightarrow> tokens_le 16 (refill st now)"
proof -
  assume "tokens_le k (ob_tokens st)"
  then have "fnonneg (ob_tokens st)" by (auto simp: tokens_le_def fnonneg_def)
  then have "fnonneg (fadd binary64 (ob_tokens st)
      (fmul binary64 (as_secs_f64 (saturating_sub now (ob_last st))) RATE_REFILL_PER_SEC))"
    by (auto simp: RATE_REFILL_PER_SEC_def intro!: fadd_fnonneg fmul_fnonneg as_secs_fnonneg)
  then show ?thesis by (auto simp: refill_def RATE_BURST_def tokens_le_def fnonneg_def)
qed

lemma refill_same_instant:
  assumes "tokens_le k (ob_tokens st)" and "k \<le> 16" and "ob_last st = now"
  shows "tokens_le k (refill st now)"
proof -
  obtain x where x: "ob_tokens st = Fin x" "0 \<le> x" "x \<le> of_int k" using assms(1) by (auto simp: tokens_le_def)
  have z: "fmul binary64 (as_secs_f64 0) (Fin 8) = Fin 0"
    by (simp add: as_secs_f64_def of_uint_def fround_def)
  obtain r where r: "fround binary64 x = Fin r" "0 \<le> r" "r \<le> of_int k"
    using fround_le_int [of binary64 0 x k] x assms(2) by auto
  have "of_int k \<le> (16 :: rat)" using assms(2) by simp
  then have "r \<le> 16" using r(3) by linarith
  then have "refill st now = Fin r"
    using x r assms(3) z by (simp add: refill_def RATE_REFILL_PER_SEC_def RATE_BURST_def saturating_sub_def)
  with r show ?thesis by (simp add: tokens_le_def)
qed

lemma spend_le:
  assumes "tokens_le k a" and "\<not> flt a (Fin 1)" and "k \<le> 16"
  shows "1 \<le> k \<and> tokens_le (k - 1) (fsub binary64 a (Fin 1))"
proof -
  obtain x where x: "a = Fin x" "1 \<le> x" "x \<le> of_int k" using assms(1,2) by (auto simp: tokens_le_def)
  then have "(1 :: rat) \<le> of_int k" by linarith
  then have k: "1 \<le> k" by simp
  have "x - 1 \<le> of_int (k - 1)" "of_int 0 \<le> x - 1" using x by simp_all
  then obtain r where "fround binary64 (x - 1) = Fin r" "0 \<le> r" "r \<le> of_int (k - 1)"
    using fround_le_int [of binary64 0 "x - 1" "k - 1"] k assms(3) by auto
  with x k show ?thesis by (simp add: tokens_le_def fsub_def)
qed

section \<open>The outbox invariant\<close>

definition outbox_inv :: "outbox \<Rightarrow> bool" where
  "outbox_inv st \<longleftrightarrow> length (ob_queue st) \<le> MAX_PENDING \<and> distinct (ob_queue st) \<and> tokens_le 16 (ob_tokens st)"

lemma offer_inv: "outbox_inv st \<Longrightarrow> outbox_inv (offer ok now reply st)"
proof -
  assume i: "outbox_inv st"
  have r: "tokens_le 16 (refill st now)" using i refill_le by (auto simp: outbox_inv_def)
  have s: "tokens_le 16 (fsub binary64 (refill st now) (Fin 1))" if "\<not> flt (refill st now) (Fin 1)"
    using spend_le [OF r that] by (fastforce simp: tokens_le_def)
  have in_set_tl: "x \<in> set (tl xs) \<Longrightarrow> x \<in> set xs" for x :: bytes and xs by (cases xs) auto
  show ?thesis using i r s
    by (auto simp: offer_def outbox_inv_def Let_def MAX_PENDING_def distinct_tl dest: in_set_tl split: if_splits)
qed

interpretation reply_queue: invariant_system outbox_init outbox_step outbox_inv
proof unfold_locales
  show "outbox_inv s" if "outbox_init s" for s
    using that by (cases rule: outbox_init.cases)
      (auto simp: outbox_inv_def outbox_new_def tokens_le_def RATE_BURST_def)
  show "outbox_inv t" if "outbox_inv s" "outbox_step s t" for s t
    using that(2,1)
  proof cases
    case (drained gen)
    then show ?thesis using that(1) by (auto simp: drain_def outbox_inv_def split: list.splits)
  next
    case (offered ok now reply)
    then show ?thesis using that(1) by (simp add: offer_inv)
  qed (auto simp: rearm_def ob_close_def outbox_inv_def tokens_le_def RATE_BURST_def)
qed

lemma offers_bound:
  assumes "tokens_le k (ob_tokens st)" and "k \<le> 16" and "ob_last st = now \<or> k = 16"
  shows "int (ob_accepted (fold (offer ok now) replies st)) \<le> int (ob_accepted st) + k"
  using assms
proof (induction replies arbitrary: st k)
  case Nil
  then obtain x where "0 \<le> x" "x \<le> (of_int k :: rat)" by (auto simp: tokens_le_def)
  then have "(0 :: rat) \<le> of_int k" by linarith
  then show ?case by simp
next
  case (Cons r rs)
  have rf: "tokens_le k (refill st now)"
    using Cons.prems refill_same_instant refill_le by auto
  let ?st = "offer ok now r st"
  consider (same) "?st = st" | (poor) "?st = st\<lparr>ob_last := now, ob_tokens := refill st now\<rparr>"
    | (spent) "\<not> flt (refill st now) (Fin 1)" "ob_tokens ?st = fsub binary64 (refill st now) (Fin 1)" "ob_last ?st = now"
        "ob_accepted ?st = ob_accepted st + 1"
    unfolding offer_def Let_def by (cases "ob_closed st \<or> r \<in> set (ob_queue st)"; cases "flt (refill st now) (Fin 1)") auto
  then show ?case
  proof cases
    case same
    with Cons show ?thesis by simp
  next
    case poor
    with Cons.IH [of k ?st] rf Cons.prems show ?thesis by simp
  next
    case spent
    with spend_le [OF rf spent(1) Cons.prems(2)] Cons.IH [of "k - 1" ?st] Cons.prems show ?thesis by simp
  qed
qed

section \<open>Replies exist\<close>

lemma palette_total: "i \<le> 255 \<Longrightarrow> palette i \<noteq> None"
proof -
  have l: "length ANSI16 = 16" "length LEVELS = 6" by (simp_all add: ANSI16_def LEVELS_def)
  have "(i - 16) div 36 < 6" if "i \<le> 231" using that by simp
  moreover have "10 * (i - 232) \<le> 247" if "i \<le> 255" using that by simp
  ultimately show "i \<le> 255 \<Longrightarrow> palette i \<noteq> None"
    by (simp add: palette_def index_opt_def arith_defs l del: not_None_eq)
qed

lemma parse_digits_le: "parse_digits acc bs = Some n \<Longrightarrow> acc \<le> 255 \<Longrightarrow> n \<le> 255"
  by (induction acc bs rule: parse_digits.induct) (auto split: if_splits)

lemma palette_pairs_le: "palette_pairs xs = Some items \<Longrightarrow> Palette i \<in> set items \<Longrightarrow> i \<le> 255"
proof (induction xs arbitrary: items rule: palette_pairs.induct)
  case (1 p q rest)
  then show ?case
    by (auto simp: bind_Some_conv parse_u8_def Let_def dest: parse_digits_le split: if_splits)
qed auto

lemma osc_query_le: "osc_query params = Some items \<Longrightarrow> Palette i \<in> set items \<Longrightarrow> i \<le> 255"
  by (auto simp: osc_query_def Let_def dest: palette_pairs_le split: list.splits if_splits)

lemma those_total: "(\<And>x. x \<in> set xs \<Longrightarrow> f x \<noteq> None) \<Longrightarrow> \<exists>ys. those (map f xs) = Some ys \<and> length ys = length xs"
  by (induction xs) (auto split: option.splits)

section \<open>Properties\<close>

text \<open>
  The queue of replies stays small: after any sequence of offers, restarts of the pane, closes
  and writer wake-ups it holds at most 32 replies, all different, and the rate limiter's tokens lie
  between 0 and the burst of 16, rounding included.
\<close>

theorem outbox_bounded:
  assumes "reachable outbox_init outbox_step st"
  shows "length (ob_queue st) \<le> MAX_PENDING \<and> distinct (ob_queue st)
    \<and> (\<exists>x. ob_tokens st = Fin x \<and> 0 \<le> x \<and> x \<le> 16)"
  using reply_queue.reachable_inv [OF assms] by (simp add: outbox_inv_def tokens_le_def)

theorem outbox_bounded_witness:
  "\<exists>x. ob_tokens (offer True 7 [0x1b] (outbox_new 7)) = Fin x \<and> 0 \<le> x \<and> x \<le> 16"
proof -
  have "reachable outbox_init outbox_step (offer True 7 [0x1b] (outbox_new 7))"
    by (rule reach_step [OF reach_init]) (rule outbox_init.intros, rule outbox_step.offered)
  from outbox_bounded [OF this] show ?thesis by blast
qed

text \<open>
  A flood of queries costs a bounded number of writes: whatever is offered within one instant,
  at most 16 replies are accepted.
\<close>

theorem outbox_burst:
  assumes "reachable outbox_init outbox_step st"
  shows "ob_accepted (fold (offer ok now) replies st) \<le> ob_accepted st + 16"
proof -
  have "tokens_le 16 (ob_tokens st)" using reply_queue.reachable_inv [OF assms] by (simp add: outbox_inv_def)
  from offers_bound [OF this, of now ok replies] show ?thesis by simp
qed

theorem outbox_burst_witness:
  "ob_accepted (fold (offer True 7) (map (\<lambda>k. [k]) [0..<100]) (outbox_new 7)) \<le> 16"
proof -
  have "reachable outbox_init outbox_step (outbox_new 7)" by (intro reach_init outbox_init.intros)
  from outbox_burst [OF this] show ?thesis by (simp add: outbox_new_def)
qed

text \<open>
  Every OSC colour query the scanner strips is answered in full: composing the replies never
  panics and gives one reply per colour asked for.
\<close>

theorem osc_replies_total:
  "\<exists>rs. osc_replies params bel cs = Some rs
     \<and> length rs = (case osc_query params of Some items \<Rightarrow> length items | None \<Rightarrow> 0)"
proof (cases "osc_query params")
  case (Some items)
  have "osc_reply bel cs item \<noteq> None" if "item \<in> set items" for item
  proof (cases item)
    case (Palette i)
    then show ?thesis using palette_total [OF osc_query_le [OF Some]] that by (simp add: osc_reply_def)
  qed (simp add: osc_reply_def)
  from those_total [OF this] Some show ?thesis by (simp add: osc_replies_def)
qed (simp add: osc_replies_def)

end
