(* ===== verification/Persistence.thy ===== *)
theory Persistence
  imports Layout Supervision
begin

text \<open>
  Session records on disk (\<open>crates/tymux-core/src/persistence.rs\<close>) and the in-memory session state
  they snapshot (the data types of \<open>engine.rs\<close>). JSON encoding is serde's; a file that fails to read
  or parse is a file without a record.

  A live pane is referred to by its address in the store of Supervision; \<open>pane_meta\<close> holds what a
  record keeps of it besides its process state.
\<close>

section \<open>Data\<close>

datatype arg_spec = Literal string | FileContents string

record launch =
  la_args :: "string list"
  la_env :: "(string \<times> string) list"
  la_arg_specs :: "arg_spec list"
  la_stderr_path :: "string option"
  la_stdin_path :: "string option"
  la_stdin_stream :: bool

definition default_launch :: launch where
  "default_launch = \<lparr>la_args = [], la_env = [], la_arg_specs = [], la_stderr_path = None,
     la_stdin_path = None, la_stdin_stream = False\<rparr>"

record persisted_pane_record =
  pp_pane_id :: uuid
  pp_command :: string
  pp_cwd :: string
  pp_rows :: u16
  pp_cols :: u16
  pp_exit_code :: "i32 option"
  pp_launch :: launch
  pp_restart :: "persisted_restart_state option"

datatype persisted_layout_node =
    PLeaf persisted_pane_record
  | PSplit orientation "(persisted_layout_node \<times> fp) list"

record persisted_window_record =
  pw_id :: uuid
  pw_name :: string
  pw_layout :: persisted_layout_node

record persisted_session_record =
  pq_schema_version :: u32
  pq_session_id :: uuid
  pq_name :: string
  pq_windows :: "persisted_window_record list"
  pq_active_window_id :: uuid
  pq_default_restart_policy :: "restart_policy option"

record window_state =
  wd_id :: uuid
  wd_name :: string
  wd_layout :: layout_node
  wd_rows :: u16
  wd_cols :: u16

record session_state =
  ss_id :: uuid
  ss_name :: string
  ss_windows :: "window_state list"
  ss_active_window_id :: uuid
  ss_default_restart_policy :: restart_policy

datatype pane_entry = LivePane nat | DeadPane persisted_pane_record

record pane_meta =
  pm_command :: string
  pm_cwd :: string
  pm_launch :: launch
  pm_rows :: u32
  pm_cols :: u32

definition CURRENT_SCHEMA_VERSION :: u32 where "CURRENT_SCHEMA_VERSION = 1"

section \<open>Validation\<close>

datatype record_error = BadChildren nat | BadRatios fp | BadVersion u32

definition ratio_sum :: "('a \<times> fp) list \<Rightarrow> fp" where
  "ratio_sum children = foldl (\<lambda>acc (_, r). fadd binary32 acc r) (Fin 0) children"

fun validate_structure :: "persisted_layout_node \<Rightarrow> record_error + unit"
  and validate_children :: "(persisted_layout_node \<times> fp) list \<Rightarrow> record_error + unit" where
  "validate_structure (PLeaf _) = Inr ()"
| "validate_structure (PSplit _ children) =
     (if length children \<noteq> 2 then Inl (BadChildren (length children))
      else let s = ratio_sum children
           in if flt (fround binary32 (1 / 100)) (fabs (fsub binary32 s (Fin 1))) then Inl (BadRatios s)
              else validate_children children)"
| "validate_children [] = Inr ()"
| "validate_children ((c, _) # cs) =
     (case validate_structure c of Inl e \<Rightarrow> Inl e | Inr _ \<Rightarrow> validate_children cs)"

fun validate_windows :: "persisted_window_record list \<Rightarrow> record_error + unit" where
  "validate_windows [] = Inr ()"
| "validate_windows (w # ws) =
     (case validate_structure (pw_layout w) of Inl e \<Rightarrow> Inl e | Inr _ \<Rightarrow> validate_windows ws)"

definition record_validate :: "persisted_session_record \<Rightarrow> record_error + unit" where
  "record_validate r = (if pq_schema_version r \<noteq> CURRENT_SCHEMA_VERSION then Inl (BadVersion (pq_schema_version r))
     else validate_windows (pq_windows r))"

section \<open>Between live and persisted trees\<close>

record pane_store =
  po_panes :: "uuid \<Rightarrow> pane_entry option"
  po_meta :: "nat \<Rightarrow> pane_meta"
  po_exit_code :: "nat \<Rightarrow> i32 option"
  po_restart :: "uuid \<Rightarrow> persisted_restart_state option"

definition leaf_record :: "pane_store \<Rightarrow> uuid \<Rightarrow> persisted_pane_record" where
  "leaf_record st i =
     (let rec = (case po_panes st i of
          Some (LivePane r) \<Rightarrow>
            (let m = po_meta st r
             in \<lparr>pp_pane_id = i, pp_command = pm_command m, pp_cwd = pm_cwd m,
                 pp_rows = pm_rows m mod 65536, pp_cols = pm_cols m mod 65536,
                 pp_exit_code = po_exit_code st r, pp_launch = pm_launch m, pp_restart = None\<rparr>)
        | Some (DeadPane d) \<Rightarrow> d
        | None \<Rightarrow> \<lparr>pp_pane_id = i, pp_command = '''', pp_cwd = '''', pp_rows = 0, pp_cols = 0,
                   pp_exit_code = None, pp_launch = default_launch, pp_restart = None\<rparr>)
      in rec\<lparr>pp_restart := (case po_restart st i of Some p \<Rightarrow> Some p | None \<Rightarrow> pp_restart rec)\<rparr>)"

fun from_live :: "pane_store \<Rightarrow> layout_node \<Rightarrow> persisted_layout_node" where
  "from_live st (Leaf i) = PLeaf (leaf_record st i)"
| "from_live st (Split o' children) = PSplit o' (map (\<lambda>(c, r). (from_live st c, r)) children)"

fun to_live_tree :: "persisted_layout_node \<Rightarrow> layout_node" where
  "to_live_tree (PLeaf p) = Leaf (pp_pane_id p)"
| "to_live_tree (PSplit o' children) = Split o' (map (\<lambda>(c, r). (to_live_tree c, r)) children)"

fun leaf_records :: "persisted_layout_node \<Rightarrow> persisted_pane_record list" where
  "leaf_records (PLeaf p) = [p]"
| "leaf_records (PSplit _ children) = concat (map (\<lambda>(c, _). leaf_records c) children)"

definition insert_dead :: "persisted_pane_record \<Rightarrow> (uuid \<Rightarrow> pane_entry option) \<Rightarrow> (uuid \<Rightarrow> pane_entry option)" where
  "insert_dead p panes = panes(pp_pane_id p \<mapsto> DeadPane p)"

text \<open>The tree walk that rebuilds a live tree and inserts a dead entry per leaf, in leaf order.\<close>

definition persisted_layout_to_live ::
  "persisted_layout_node \<Rightarrow> (uuid \<Rightarrow> pane_entry option) \<Rightarrow> layout_node \<times> (uuid \<Rightarrow> pane_entry option)" where
  "persisted_layout_to_live node panes = (to_live_tree node, fold insert_dead (leaf_records node) panes)"

definition from_session_state :: "pane_store \<Rightarrow> session_state \<Rightarrow> persisted_session_record" where
  "from_session_state st s = \<lparr>pq_schema_version = CURRENT_SCHEMA_VERSION, pq_session_id = ss_id s, pq_name = ss_name s,
     pq_windows = map (\<lambda>w. \<lparr>pw_id = wd_id w, pw_name = wd_name w, pw_layout = from_live st (wd_layout w)\<rparr>) (ss_windows s),
     pq_active_window_id = ss_active_window_id s,
     pq_default_restart_policy = (if ss_default_restart_policy s \<noteq> default_policy
                                  then Some (ss_default_restart_policy s) else None)\<rparr>"

section \<open>The sessions directory\<close>

record session_file =
  sf_json :: bool
  sf_record :: "persisted_session_record option"
  sf_modified :: "u64 option"
  sf_removable :: bool

definition load_all :: "session_file list option \<Rightarrow> persisted_session_record list" where
  "load_all entries = (case entries of None \<Rightarrow> []
     | Some fs \<Rightarrow> List.map_filter (\<lambda>f.
         if \<not> sf_json f then None
         else case sf_record f of None \<Rightarrow> None
              | Some r \<Rightarrow> (case record_validate r of Inl _ \<Rightarrow> None | Inr _ \<Rightarrow> Some r)) fs)"

definition STALE_SESSION_MAX_AGE :: u64 where "STALE_SESSION_MAX_AGE = 30 * 24 * 60 * 60"

fun prune_stale_at :: "u64 \<Rightarrow> u64 \<Rightarrow> session_file list \<Rightarrow> nat \<times> session_file list" where
  "prune_stale_at max_age now [] = (0, [])"
| "prune_stale_at max_age now (f # fs) =
     (let (n, kept) = prune_stale_at max_age now fs
      in if \<not> sf_json f then (n, f # kept)
         else case sf_modified f of
                None \<Rightarrow> (n, f # kept)
              | Some m \<Rightarrow> if now < m \<or> now - m \<le> max_age then (n, f # kept)
                          else if sf_removable f then (n + 1, kept) else (n, f # kept))"

section \<open>Round trips\<close>

text \<open>Trees that only splits and removals have built: every split is two halves.\<close>

fun halved :: "layout_node \<Rightarrow> bool" where
  "halved (Leaf _) = True"
| "halved (Split _ [(a, p), (b, q)]) = (p = Fin (1 / 2) \<and> q = Fin (1 / 2) \<and> halved a \<and> halved b)"
| "halved (Split _ _) = False"

definition consistent_store :: "pane_store \<Rightarrow> bool" where
  "consistent_store st \<longleftrightarrow> (\<forall>i d. po_panes st i = Some (DeadPane d) \<longrightarrow> pp_pane_id d = i)"

lemma leaf_record_id: "consistent_store st \<Longrightarrow> pp_pane_id (leaf_record st i) = i"
  by (auto simp: leaf_record_def consistent_store_def Let_def split: option.splits pane_entry.splits)

lemma to_live_from_live: "consistent_store st \<Longrightarrow> to_live_tree (from_live st node) = node"
  by (induction node) (auto simp: leaf_record_id intro!: map_idI)

lemma leaf_records_from_live: "leaf_records (from_live st node) = map (leaf_record st) (leaves node)"
  by (induction node) (auto simp: map_concat comp_def case_prod_beta intro!: arg_cong [where f = concat])

lemma fold_insert_dead:
  assumes "distinct (map pp_pane_id ps)"
  shows "fold insert_dead ps panes i = (case find (\<lambda>p. pp_pane_id p = i) ps of Some p \<Rightarrow> Some (DeadPane p) | None \<Rightarrow> panes i)"
  using assms
proof (induction ps arbitrary: panes)
  case (Cons p ps)
  have "find (\<lambda>q. pp_pane_id q = pp_pane_id p) ps = None"
  proof -
    have "pp_pane_id p \<notin> pp_pane_id ` set ps" using Cons.prems by simp
    then show ?thesis unfolding find_None_iff by (metis imageI)
  qed
  with Cons show ?case by (auto simp: insert_dead_def split: option.splits)
qed simp

lemma half_sum: "fabs (fsub binary32 (ratio_sum [(a, Fin (1 / 2)), (b, Fin (1 / 2))]) (Fin 1)) = Fin 0"
  by (simp add: ratio_sum_def) code_simp

lemma validate_halved: "halved node \<Longrightarrow> validate_structure (from_live st node) = Inr ()"
proof (induction node rule: halved.induct)
  case (2 o' a p b q)
  have "\<not> flt (fround binary32 (1 / 100)) (Fin 0)" by code_simp
  with 2 half_sum [of "from_live st a" "from_live st b"] show ?case by simp
qed auto

lemma find_leaf_record:
  assumes "consistent_store st"
  shows "find (\<lambda>p. pp_pane_id p = i) (map (leaf_record st) xs) = (if i \<in> set xs then Some (leaf_record st i) else None)"
  by (induction xs) (auto simp: leaf_record_id [OF assms])

section \<open>Properties\<close>

definition empty_store :: pane_store where
  "empty_store = \<lparr>po_panes = (\<lambda>_. None), po_meta = (\<lambda>_. \<lparr>pm_command = [], pm_cwd = [], pm_launch = default_launch,
     pm_rows = 24, pm_cols = 80\<rparr>), po_exit_code = (\<lambda>_. None), po_restart = (\<lambda>_. None)\<rparr>"



text \<open>
  The validation of records on load is too weak for the geometry computation: a split with
  the ratios 3/2 and -1/2 sums to 1 and is accepted, and computing the geometry of the tree it
  loads to subtracts a larger extent from a smaller one.
\<close>

theorem validate_accepts_bad_ratios:
  "validate_structure (PSplit Vertical [(PLeaf p, Fin (3 / 2)), (PLeaf q, Fin (- 1 / 2))]) = Inr ()
   \<and> compute_geometry (to_live_tree (PSplit Vertical [(PLeaf p, Fin (3 / 2)), (PLeaf q, Fin (- 1 / 2))])) 24 80 = None"
proof -
  have "\<not> flt (fround binary32 (1 / 100)) (fabs (fsub binary32 (fadd binary32 (fadd binary32 (Fin 0) (Fin (3 / 2))) (Fin (- 1 / 2))) (Fin 1)))"
    by code_simp
  moreover have "split_extent 24 (Fin (3 / 2)) = 36"
  proof -
    have "of_uint binary32 24 = Fin 24" using of_uint_exact [of binary32 24] by simp
    moreover have "fround binary32 36 = Fin 36" using fround_int_exact [of binary32 36] by simp
    ultimately show ?thesis by (simp add: split_extent_def)
  qed
  ultimately show ?thesis by (simp add: ratio_sum_def compute_geometry_def checked_sub_def del: fadd.simps)
qed

end
