(* ===== verification/Engine_Ops.thy ===== *)
theory Engine_Ops
  imports Persistence
begin

text \<open>
  The session engine (\<open>crates/tymux-core/src/engine.rs\<close>): sessions with their windows, the map of
  panes, the reverse index from panes to windows to sessions, the viewports clients report, the
  persisted records and the supervisor.

  The engine guards these with separate locks. An operation is the composition of its critical
  sections, and a section that another operation can come between is a definition of its own
  (\<open>create_insert_session\<close>, \<open>split_layout\<close>, \<open>split_finish\<close>, \<dots>). Indexing a missing session is \<open>None\<close>.
  Fresh ids, spawn results and the answers of the operating system are arguments.
\<close>

section \<open>Data\<close>

definition DEFAULT_ROWS :: u16 where "DEFAULT_ROWS = 24"
definition DEFAULT_COLS :: u16 where "DEFAULT_COLS = 80"
definition MAX_PANE_ROWS :: u16 where "MAX_PANE_ROWS = 500"
definition MAX_PANE_COLS :: u16 where "MAX_PANE_COLS = 1000"

record engine =
  eg_sessions :: "uuid \<Rightarrow> session_state option"
  eg_panes :: "uuid \<Rightarrow> pane_entry option"
  eg_viewports :: "uuid \<Rightarrow> (u64 \<times> u16 \<times> u16) list option"
  eg_next_client :: u64
  eg_pane_window :: "uuid \<Rightarrow> uuid option"
  eg_window_session :: "uuid \<Rightarrow> uuid option"
  eg_saved :: "uuid \<Rightarrow> persisted_session_record option"
  eg_sup :: supervision
  eg_meta :: "nat \<Rightarrow> pane_meta"

definition no_meta :: pane_meta where
  "no_meta = \<lparr>pm_command = [], pm_cwd = [], pm_launch = default_launch, pm_rows = 0, pm_cols = 0\<rparr>"

definition engine_new :: engine where
  "engine_new = \<lparr>eg_sessions = (\<lambda>_. None), eg_panes = (\<lambda>_. None), eg_viewports = (\<lambda>_. None), eg_next_client = 1,
     eg_pane_window = (\<lambda>_. None), eg_window_session = (\<lambda>_. None), eg_saved = (\<lambda>_. None),
     eg_sup = \<lparr>sn_entries = (\<lambda>_. None), sn_dirty = {}, sn_heap = (\<lambda>_. None)\<rparr>, eg_meta = (\<lambda>_. no_meta)\<rparr>"

text \<open>What an operation draws from its surroundings.\<close>

record op_env =
  oe_now :: u64
  oe_unit :: fp
  oe_save_ok :: bool
  oe_kill :: "uuid \<Rightarrow> i32 option"
  oe_resize_ok :: "uuid \<Rightarrow> bool"
  oe_start :: "uuid \<Rightarrow> start_result"

text \<open>A process the operating system started: where its pane lives, the pane's id and the pid.\<close>

record spawned =
  sw_addr :: nat
  sw_id :: uuid
  sw_pid :: "u32 option"

definition add_spawned :: "spawned \<Rightarrow> pane_meta \<Rightarrow> engine \<Rightarrow> engine" where
  "add_spawned sp m g = g\<lparr>eg_sup := (eg_sup g)\<lparr>sn_heap := (sn_heap (eg_sup g))(sw_addr sp \<mapsto> pane_new (sw_id sp) (sw_pid sp))\<rparr>,
     eg_meta := (eg_meta g)(sw_addr sp := m)\<rparr>"

definition clamp_viewport :: "u16 \<Rightarrow> u16 \<Rightarrow> u16 \<times> u16" where
  "clamp_viewport rows cols = (max MIN_PANE_ROWS (min rows MAX_PANE_ROWS), max MIN_PANE_COLS (min cols MAX_PANE_COLS))"

definition session_panes :: "session_state \<Rightarrow> uuid list" where
  "session_panes s = concat (map (\<lambda>w. leaves (wd_layout w)) (ss_windows s))"

definition pane_at :: "engine \<Rightarrow> nat \<Rightarrow> pane_proc option" where
  "pane_at g r = sn_heap (eg_sup g) r"

definition live_exited :: "engine \<Rightarrow> nat \<Rightarrow> bool" where
  "live_exited g r = (case pane_at g r of None \<Rightarrow> True | Some p \<Rightarrow> pn_exited p)"

section \<open>The reverse index\<close>

definition insert_pane :: "uuid \<Rightarrow> uuid \<Rightarrow> engine \<Rightarrow> engine" where
  "insert_pane p w g = g\<lparr>eg_pane_window := (eg_pane_window g)(p \<mapsto> w)\<rparr>"

definition insert_window :: "uuid \<Rightarrow> uuid \<Rightarrow> engine \<Rightarrow> engine" where
  "insert_window w s g = g\<lparr>eg_window_session := (eg_window_session g)(w \<mapsto> s)\<rparr>"

definition remove_pane :: "uuid \<Rightarrow> engine \<Rightarrow> engine" where
  "remove_pane p g = g\<lparr>eg_pane_window := (eg_pane_window g)(p := None)\<rparr>"

definition remove_window :: "uuid \<Rightarrow> engine \<Rightarrow> engine" where
  "remove_window w g = g\<lparr>eg_window_session := (eg_window_session g)(w := None)\<rparr>"

definition window_and_session_for_pane :: "engine \<Rightarrow> uuid \<Rightarrow> engine_error + uuid \<times> uuid" where
  "window_and_session_for_pane g p =
     (case eg_pane_window g p of None \<Rightarrow> Inl (Supervision.PaneNotFound p)
      | Some w \<Rightarrow> (case eg_window_session g w of None \<Rightarrow> Inl (Supervision.PaneNotFound p)
                   | Some s \<Rightarrow> Inr (w, s)))"

section \<open>Persisting\<close>

definition store_of :: "engine \<Rightarrow> uuid list \<Rightarrow> pane_store" where
  "store_of g ids = \<lparr>po_panes = eg_panes g, po_meta = eg_meta g,
     po_exit_code = (\<lambda>r. Option.bind (pane_at g r) pn_exit_code),
     po_restart = map_of (persisted_for (eg_sup g) ids)\<rparr>"

definition snapshot_persisted_record :: "engine \<Rightarrow> uuid \<Rightarrow> persisted_session_record option" where
  "snapshot_persisted_record g i =
     map_option (\<lambda>s. from_session_state (store_of g (session_panes s)) s) (eg_sessions g i)"

definition save_persisted :: "bool \<Rightarrow> persisted_session_record option \<Rightarrow> engine \<Rightarrow> engine" where
  "save_persisted ok rec g = (case rec of None \<Rightarrow> g
     | Some r \<Rightarrow> if ok then g\<lparr>eg_saved := (eg_saved g)(pq_session_id r \<mapsto> r)\<rparr> else g)"

definition persist_session :: "op_env \<Rightarrow> uuid \<Rightarrow> engine \<Rightarrow> engine" where
  "persist_session env i g = save_persisted (oe_save_ok env) (snapshot_persisted_record g i) g"

definition delete_record :: "uuid \<Rightarrow> engine \<Rightarrow> engine" where
  "delete_record i g = g\<lparr>eg_saved := (eg_saved g)(i := None)\<rparr>"

section \<open>Snapshots\<close>

record pane_info =
  pi_id :: uuid
  pi_rows :: u32
  pi_cols :: u32
  pi_live :: bool
  pi_cwd :: string
  pi_state :: lifecycle_state

datatype layout_snapshot =
    SLeaf pane_info
  | SSplit orientation "(layout_snapshot \<times> fp) list"

record window_snapshot =
  ws_id :: uuid
  ws_name :: string
  ws_layout :: layout_snapshot

record session_snapshot =
  sx_id :: uuid
  sx_name :: string
  sx_windows :: "window_snapshot list"
  sx_live :: bool

definition pane_state :: "supervision \<Rightarrow> uuid \<Rightarrow> bool \<Rightarrow> lifecycle_state" where
  "pane_state sn i live = (case state_of sn i of Some st \<Rightarrow> st | None \<Rightarrow> if live then Live else Exited)"

datatype pane_handle = HandleLive nat | HandleDead persisted_pane_record | HandleMissing

datatype layout_handle =
    HLeaf uuid pane_handle
  | HSplit orientation "(layout_handle \<times> fp) list"

definition handle_of :: "engine \<Rightarrow> uuid \<Rightarrow> pane_handle" where
  "handle_of g i = (case eg_panes g i of Some (LivePane r) \<Rightarrow> HandleLive r | Some (DeadPane d) \<Rightarrow> HandleDead d
     | None \<Rightarrow> HandleMissing)"

fun layout_to_handle :: "engine \<Rightarrow> layout_node \<Rightarrow> layout_handle" where
  "layout_to_handle g (Leaf i) = HLeaf i (handle_of g i)"
| "layout_to_handle g (Split o' cs) = HSplit o' (map (\<lambda>(c, r). (layout_to_handle g c, r)) cs)"

definition handle_info :: "engine \<Rightarrow> uuid \<Rightarrow> pane_handle \<Rightarrow> pane_info" where
  "handle_info g i h =
     (let (rows, cols, live, cwd) = (case h of
            HandleLive r \<Rightarrow> (pm_rows (eg_meta g r), pm_cols (eg_meta g r), \<not> live_exited g r, pm_cwd (eg_meta g r))
          | HandleDead d \<Rightarrow> (pp_rows d, pp_cols d, False, pp_cwd d)
          | HandleMissing \<Rightarrow> (0, 0, False, []))
      in \<lparr>pi_id = i, pi_rows = rows, pi_cols = cols, pi_live = live, pi_cwd = cwd, pi_state = pane_state (eg_sup g) i live\<rparr>)"

fun handle_to_layout_snapshot :: "engine \<Rightarrow> layout_handle \<Rightarrow> layout_snapshot" where
  "handle_to_layout_snapshot g (HLeaf i h) = SLeaf (handle_info g i h)"
| "handle_to_layout_snapshot g (HSplit o' cs) = SSplit o' (map (\<lambda>(c, r). (handle_to_layout_snapshot g c, r)) cs)"

definition leaf_info :: "engine \<Rightarrow> uuid \<Rightarrow> pane_info" where
  "leaf_info g i =
     (let (rows, cols, live, cwd) = (case eg_panes g i of
            Some (LivePane r) \<Rightarrow> (pm_rows (eg_meta g r), pm_cols (eg_meta g r), \<not> live_exited g r, pm_cwd (eg_meta g r))
          | Some (DeadPane d) \<Rightarrow> (pp_rows d, pp_cols d, False, pp_cwd d)
          | None \<Rightarrow> (0, 0, False, []))
      in \<lparr>pi_id = i, pi_rows = rows, pi_cols = cols, pi_live = live, pi_cwd = cwd, pi_state = pane_state (eg_sup g) i live\<rparr>)"

fun layout_to_snapshot :: "engine \<Rightarrow> layout_node \<Rightarrow> layout_snapshot" where
  "layout_to_snapshot g (Leaf i) = SLeaf (leaf_info g i)"
| "layout_to_snapshot g (Split o' cs) = SSplit o' (map (\<lambda>(c, r). (layout_to_snapshot g c, r)) cs)"

fun window_has_live_pane :: "layout_snapshot \<Rightarrow> bool" where
  "window_has_live_pane (SLeaf i) = pi_live i"
| "window_has_live_pane (SSplit _ cs) = list_ex (\<lambda>(c, _). window_has_live_pane c) cs"

definition session_to_snapshot :: "engine \<Rightarrow> session_state \<Rightarrow> session_snapshot" where
  "session_to_snapshot g s =
     (let ws = map (\<lambda>w. \<lparr>ws_id = wd_id w, ws_name = wd_name w, ws_layout = layout_to_snapshot g (wd_layout w)\<rparr>) (ss_windows s)
      in \<lparr>sx_id = ss_id s, sx_name = ss_name s, sx_windows = ws,
          sx_live = list_ex (\<lambda>w. window_has_live_pane (ws_layout w)) ws\<rparr>)"

text \<open>
  \<open>list_sessions\<close> resolves the handles of all sessions under the locks (state \<open>g\<close>) and reads the
  panes afterwards (state \<open>g'\<close>); \<open>order\<close> is the iteration order of the session map.
\<close>

definition list_sessions :: "engine \<Rightarrow> engine \<Rightarrow> uuid list \<Rightarrow> session_snapshot list" where
  "list_sessions g g' order = map (\<lambda>s.
     let ws = map (\<lambda>w. \<lparr>ws_id = wd_id w, ws_name = wd_name w,
                         ws_layout = handle_to_layout_snapshot g' (layout_to_handle g (wd_layout w))\<rparr>) (ss_windows s)
     in \<lparr>sx_id = ss_id s, sx_name = ss_name s, sx_windows = ws,
         sx_live = list_ex (\<lambda>w. window_has_live_pane (ws_layout w)) ws\<rparr>)
     (List.map_filter (eg_sessions g) order)"

definition get_session_snapshot :: "engine \<Rightarrow> uuid \<Rightarrow> session_snapshot option" where
  "get_session_snapshot g i = map_option (session_to_snapshot g) (eg_sessions g i)"

datatype pane_lookup = LookupLive nat | LookupDead | LookupUnknown

definition lookup_pane :: "engine \<Rightarrow> uuid \<Rightarrow> pane_lookup" where
  "lookup_pane g i = (case eg_panes g i of
     None \<Rightarrow> LookupUnknown
   | Some (DeadPane _) \<Rightarrow> LookupDead
   | Some (LivePane r) \<Rightarrow> if live_exited g r then LookupDead else LookupLive r)"

definition exited_pane :: "engine \<Rightarrow> uuid \<Rightarrow> nat option" where
  "exited_pane g i = (case eg_panes g i of Some (LivePane r) \<Rightarrow> if live_exited g r then Some r else None | _ \<Rightarrow> None)"

definition dead_pane_exit_code :: "engine \<Rightarrow> uuid \<Rightarrow> i32 option option" where
  "dead_pane_exit_code g i = (case eg_panes g i of
     Some (DeadPane d) \<Rightarrow> Some (pp_exit_code d)
   | Some (LivePane r) \<Rightarrow> if live_exited g r then Some (Option.bind (pane_at g r) pn_exit_code) else None
   | None \<Rightarrow> None)"

definition held_pane :: "engine \<Rightarrow> uuid \<Rightarrow> nat option" where
  "held_pane g i = (case eg_panes g i of Some (LivePane r) \<Rightarrow> Some r | _ \<Rightarrow> None)"

section \<open>Creating sessions and windows\<close>

definition on_sup :: "(supervision \<Rightarrow> supervision) \<Rightarrow> engine \<Rightarrow> engine" where
  "on_sup f g = g\<lparr>eg_sup := f (eg_sup g)\<rparr>"

definition new_window :: "uuid \<Rightarrow> string \<Rightarrow> uuid \<Rightarrow> window_state" where
  "new_window w name p = \<lparr>wd_id = w, wd_name = name, wd_layout = Leaf p, wd_rows = DEFAULT_ROWS, wd_cols = DEFAULT_COLS\<rparr>"

definition put_session :: "uuid \<Rightarrow> session_state \<Rightarrow> engine \<Rightarrow> engine" where
  "put_session i s g = g\<lparr>eg_sessions := (eg_sessions g)(i \<mapsto> s)\<rparr>"

definition put_pane :: "uuid \<Rightarrow> pane_entry \<Rightarrow> engine \<Rightarrow> engine" where
  "put_pane i e g = g\<lparr>eg_panes := (eg_panes g)(i \<mapsto> e)\<rparr>"

datatype create_error = CreatePolicy policy_error | CreateSpawn string

definition create_insert_session :: "uuid \<Rightarrow> uuid \<Rightarrow> string \<Rightarrow> restart_policy \<Rightarrow> uuid \<Rightarrow> engine \<Rightarrow> engine" where
  "create_insert_session sid wid name policy p g =
     put_session sid \<lparr>ss_id = sid, ss_name = name, ss_windows = [new_window wid ''0'' p], ss_active_window_id = wid,
       ss_default_restart_policy = policy\<rparr> g"

definition create_index :: "uuid \<Rightarrow> uuid \<Rightarrow> uuid \<Rightarrow> engine \<Rightarrow> engine" where
  "create_index sid wid p g = insert_pane p wid (insert_window wid sid g)"

definition register_spawned :: "powi_fun \<Rightarrow> op_env \<Rightarrow> spawned \<Rightarrow> restart_policy \<Rightarrow> engine \<Rightarrow> engine" where
  "register_spawned pw env sp policy = on_sup (\<lambda>sn. register_live pw (oe_now env) (oe_unit env) sn (sw_addr sp) (sw_id sp) policy)"

definition create_session_supervised :: "powi_fun \<Rightarrow> op_env \<Rightarrow> uuid \<Rightarrow> uuid \<Rightarrow> string \<Rightarrow> restart_policy \<Rightarrow> pane_meta
    \<Rightarrow> string + spawned \<Rightarrow> engine \<Rightarrow> (create_error + uuid) \<times> engine" where
  "create_session_supervised pw env sid wid name policy m spawn g =
     (case policy_validate policy of Inl e \<Rightarrow> (Inl (CreatePolicy e), g) | Inr _ \<Rightarrow>
      (case spawn of Inl e \<Rightarrow> (Inl (CreateSpawn e), g) | Inr sp \<Rightarrow>
        let g1 = add_spawned sp (m\<lparr>pm_rows := DEFAULT_ROWS, pm_cols := DEFAULT_COLS\<rparr>) g;
            g2 = create_insert_session sid wid name policy (sw_id sp) g1;
            g3 = put_pane (sw_id sp) (LivePane (sw_addr sp)) g2;
            g4 = register_spawned pw env sp policy g3;
            g5 = create_index sid wid (sw_id sp) g4
        in (Inr sid, persist_session env sid g5)))"

text \<open>The decimal name of a window: \<open>session.windows.len().to_string()\<close>.\<close>

definition digit_char :: "nat \<Rightarrow> char" where "digit_char d = char_of (48 + d)"

fun decimal :: "nat \<Rightarrow> string" where
  "decimal n = (if n < 10 then [digit_char n] else decimal (n div 10) @ [digit_char (n mod 10)])"

declare decimal.simps [simp del]

definition create_window :: "powi_fun \<Rightarrow> op_env \<Rightarrow> uuid \<Rightarrow> uuid \<Rightarrow> pane_meta \<Rightarrow> string + spawned \<Rightarrow> engine
    \<Rightarrow> (engine_error + session_snapshot) \<times> engine" where
  "create_window pw env sid wid m spawn g =
     (case spawn of Inl _ \<Rightarrow> (Inl (SessionNotFound sid), g) | Inr sp \<Rightarrow>
        let g1 = add_spawned sp (m\<lparr>pm_rows := DEFAULT_ROWS, pm_cols := DEFAULT_COLS\<rparr>) g
        in case eg_sessions g1 sid of None \<Rightarrow> (Inl (SessionNotFound sid), g1) | Some s \<Rightarrow>
          let s' = s\<lparr>ss_windows := ss_windows s @ [new_window wid (decimal (length (ss_windows s))) (sw_id sp)],
                     ss_active_window_id := wid\<rparr>;
              g2 = put_session sid s' g1;
              g3 = put_pane (sw_id sp) (LivePane (sw_addr sp)) g2;
              g4 = register_spawned pw env sp (ss_default_restart_policy s) g3;
              g5 = create_index sid wid (sw_id sp) g4
          in (Inr (session_to_snapshot g5 s'), persist_session env sid g5))"

section \<open>Splitting\<close>

text \<open>The first element that satisfies a condition, changed in place or taken out.\<close>

fun update_first :: "('a \<Rightarrow> bool) \<Rightarrow> ('a \<Rightarrow> 'a) \<Rightarrow> 'a list \<Rightarrow> 'a list" where
  "update_first P f [] = []"
| "update_first P f (x # xs) = (if P x then f x # xs else x # update_first P f xs)"

fun remove_first :: "('a \<Rightarrow> bool) \<Rightarrow> 'a list \<Rightarrow> 'a list" where
  "remove_first P [] = []"
| "remove_first P (x # xs) = (if P x then xs else x # remove_first P xs)"

definition map_window :: "uuid \<Rightarrow> (window_state \<Rightarrow> window_state) \<Rightarrow> session_state \<Rightarrow> session_state" where
  "map_window w f s = s\<lparr>ss_windows := update_first (\<lambda>x. wd_id x = w) f (ss_windows s)\<rparr>"

fun engine_of_layout_error :: "layout_error \<Rightarrow> engine_error" where
  "engine_of_layout_error (BelowMinimumSize r c) = EngineBelowMinimumSize r c"
| "engine_of_layout_error (BelowRecommendedSize r) = EngineBelowRecommendedSize r"
| "engine_of_layout_error (Layout.PaneNotFound p) = Supervision.PaneNotFound p"

text \<open>
  The part of \<open>split_pane\<close> under the sessions lock.
\<close>

definition split_layout :: "uuid \<Rightarrow> orientation \<Rightarrow> uuid \<Rightarrow> uuid \<Rightarrow> uuid \<Rightarrow> engine
    \<Rightarrow> ((engine_error + restart_policy) \<times> engine) option" where
  "split_layout p o' new wid sid g =
     (case eg_sessions g sid of None \<Rightarrow> Some (Inl (Supervision.PaneNotFound p), g) | Some s \<Rightarrow>
      (case find (\<lambda>w. wd_id w = wid) (ss_windows s) of None \<Rightarrow> Some (Inl (Supervision.PaneNotFound p), g) | Some w \<Rightarrow>
       (case split (wd_layout w) p o' new (wd_rows w) (wd_cols w) of
          None \<Rightarrow> None
        | Some (Inl e) \<Rightarrow> Some (Inl (engine_of_layout_error e), g)
        | Some (Inr layout) \<Rightarrow>
            Some (Inr (ss_default_restart_policy s), put_session sid (map_window wid (\<lambda>x. x\<lparr>wd_layout := layout\<rparr>) s) g))))"

definition split_finish :: "powi_fun \<Rightarrow> op_env \<Rightarrow> spawned \<Rightarrow> restart_policy \<Rightarrow> uuid \<Rightarrow> uuid \<Rightarrow> engine
    \<Rightarrow> (session_snapshot \<times> engine) option" where
  "split_finish pw env sp policy wid sid g =
     (let g1 = put_pane (sw_id sp) (LivePane (sw_addr sp)) g;
          g2 = register_spawned pw env sp policy g1;
          g3 = insert_pane (sw_id sp) wid g2
      in do { s \<leftarrow> eg_sessions g3 sid;
              Some (session_to_snapshot g3 s, persist_session env sid g3) })"

definition split_pane :: "powi_fun \<Rightarrow> op_env \<Rightarrow> uuid \<Rightarrow> orientation \<Rightarrow> pane_meta \<Rightarrow> string + spawned \<Rightarrow> engine
    \<Rightarrow> ((engine_error + session_snapshot) \<times> engine) option" where
  "split_pane pw env p o' m spawn g =
     (case spawn of Inl _ \<Rightarrow> Some (Inl (Supervision.PaneNotFound p), g) | Inr sp \<Rightarrow>
        let g1 = add_spawned sp (m\<lparr>pm_rows := DEFAULT_ROWS, pm_cols := DEFAULT_COLS\<rparr>) g
        in case window_and_session_for_pane g1 p of
             Inl e \<Rightarrow> Some (Inl e, g1)
           | Inr (wid, sid) \<Rightarrow>
              (case split_layout p o' (sw_id sp) wid sid g1 of
                 None \<Rightarrow> None
               | Some (Inl e, g2) \<Rightarrow> Some (Inl e, g2)
               | Some (Inr policy, g2) \<Rightarrow>
                   map_option (\<lambda>(snap, g3). (Inr snap, g3)) (split_finish pw env sp policy wid sid g2)))"

section \<open>Closing and killing\<close>

text \<open>Forgets a pane, takes it out of the map and kills its process if one runs.\<close>

definition drop_pane :: "op_env \<Rightarrow> uuid \<Rightarrow> engine \<Rightarrow> engine" where
  "drop_pane env p g =
     (let g1 = on_sup (\<lambda>sn. forget sn p) g;
          g2 = g1\<lparr>eg_panes := (eg_panes g1)(p := None)\<rparr>
      in case eg_panes g1 p of
           Some (LivePane r) \<Rightarrow>
             (case pane_at g2 r of
                None \<Rightarrow> g2
              | Some pp \<Rightarrow> if pn_exited pp then g2
                           else on_sup (\<lambda>sn. sn\<lparr>sn_heap := (sn_heap sn)(r \<mapsto> snd (kill (oe_kill env p) pp))\<rparr>) g2)
         | _ \<Rightarrow> g2)"

record close_pane_outcome =
  cp_window_closed :: "(uuid \<times> string) option"
  cp_session_closed :: "(uuid \<times> string) option"
  cp_session :: "session_snapshot option"

text \<open>The part of \<open>close_pane\<close> under the sessions lock.\<close>

definition close_layout :: "uuid \<Rightarrow> uuid \<Rightarrow> uuid \<Rightarrow> engine \<Rightarrow> ((engine_error + close_pane_outcome) \<times> engine) option" where
  "close_layout p wid sid g =
     (case eg_sessions g sid of None \<Rightarrow> Some (Inl (Supervision.PaneNotFound p), g) | Some s \<Rightarrow>
      (case find (\<lambda>w. wd_id w = wid) (ss_windows s) of None \<Rightarrow> Some (Inl (Supervision.PaneNotFound p), g) | Some w \<Rightarrow>
       (case remove (wd_layout w) p of
          None \<Rightarrow> None
        | Some out \<Rightarrow>
            let s1 = (case out of
                   Collapsed layout \<Rightarrow> map_window wid (\<lambda>x. x\<lparr>wd_layout := layout\<rparr>) s
                 | WindowEmpty \<Rightarrow> s\<lparr>ss_windows := remove_first (\<lambda>x. wd_id x = wid) (ss_windows s)\<rparr>);
                window_closed = (case out of Collapsed _ \<Rightarrow> None | WindowEmpty \<Rightarrow> Some (wd_id w, wd_name w));
                session_closed = (if ss_windows s1 = [] then Some (ss_id s1, ss_name s1) else None);
                s2 = (case ss_windows s1 of
                        w' # _ \<Rightarrow> if window_closed \<noteq> None then s1\<lparr>ss_active_window_id := wd_id w'\<rparr> else s1
                      | [] \<Rightarrow> s1);
                g1 = (if session_closed \<noteq> None then g\<lparr>eg_sessions := (eg_sessions g)(sid := None)\<rparr>
                      else put_session sid s2 g)
            in Some (Inr \<lparr>cp_window_closed = window_closed, cp_session_closed = session_closed,
                          cp_session = (if session_closed \<noteq> None then None else Some (session_to_snapshot g1 s2))\<rparr>, g1))))"

text \<open>
  The window of the closed pane is removed from the list and put back at its place. When the
  session closes, that window was its last, so no other pane goes with it.
\<close>

definition close_pane :: "op_env \<Rightarrow> uuid \<Rightarrow> engine \<Rightarrow> ((engine_error + close_pane_outcome) \<times> engine) option" where
  "close_pane env p g =
     (case window_and_session_for_pane g p of
        Inl e \<Rightarrow> Some (Inl e, g)
      | Inr (wid, sid) \<Rightarrow>
          (case close_layout p wid sid g of
             None \<Rightarrow> None
           | Some (Inl e, g1) \<Rightarrow> Some (Inl e, g1)
           | Some (Inr out, g1) \<Rightarrow>
               let g2 = (if cp_session_closed out \<noteq> None then delete_record sid g1 else persist_session env sid g1);
                   g3 = remove_pane p g2;
                   g4 = (case cp_window_closed out of Some (w, _) \<Rightarrow> remove_window w g3 | None \<Rightarrow> g3)
               in Some (Inr out, drop_pane env p g4)))"

definition kill_index :: "session_state \<Rightarrow> engine \<Rightarrow> engine" where
  "kill_index s g = fold remove_pane (session_panes s) (fold remove_window (map wd_id (ss_windows s)) g)"

definition kill_session :: "op_env \<Rightarrow> uuid \<Rightarrow> engine \<Rightarrow> (engine_error + unit) \<times> engine" where
  "kill_session env sid g =
     (case eg_sessions g sid of None \<Rightarrow> (Inl (SessionNotFound sid), g) | Some s \<Rightarrow>
        let g1 = g\<lparr>eg_sessions := (eg_sessions g)(sid := None)\<rparr>;
            g2 = kill_index s g1;
            g3 = fold (drop_pane env) (session_panes s) g2
        in (Inr (), delete_record sid g3))"

section \<open>Loading, reviving and starting\<close>

definition load_window :: "uuid \<Rightarrow> restart_policy \<Rightarrow> persisted_window_record \<Rightarrow> engine \<Rightarrow> window_state \<times> engine" where
  "load_window sid policy pw g =
     (let (layout, panes) = persisted_layout_to_live (pw_layout pw) (eg_panes g);
          win = \<lparr>wd_id = pw_id pw, wd_name = pw_name pw, wd_layout = layout, wd_rows = DEFAULT_ROWS, wd_cols = DEFAULT_COLS\<rparr>;
          g1 = insert_window (pw_id pw) sid (g\<lparr>eg_panes := panes\<rparr>);
          restored = (\<lambda>p. case panes p of Some (DeadPane r) \<Rightarrow> pp_restart r | _ \<Rightarrow> None)
      in (win, fold (\<lambda>p h. on_sup (\<lambda>sn. register_restored sn p (restored p) policy) (insert_pane p (pw_id pw) h)) (leaves layout) g1))"

fun load_windows :: "uuid \<Rightarrow> restart_policy \<Rightarrow> persisted_window_record list \<Rightarrow> engine \<Rightarrow> window_state list \<times> engine" where
  "load_windows sid policy [] g = ([], g)"
| "load_windows sid policy (w # ws) g =
     (let (win, g1) = load_window sid policy w g; (wins, g2) = load_windows sid policy ws g1 in (win # wins, g2))"

definition load_record :: "persisted_session_record \<Rightarrow> engine \<Rightarrow> engine" where
  "load_record r g =
     (let policy = (case pq_default_restart_policy r of Some p \<Rightarrow> p | None \<Rightarrow> default_policy);
          (wins, g1) = load_windows (pq_session_id r) policy (pq_windows r) g
      in put_session (pq_session_id r) \<lparr>ss_id = pq_session_id r, ss_name = pq_name r, ss_windows = wins,
           ss_active_window_id = pq_active_window_id r, ss_default_restart_policy = policy\<rparr> g1)"

definition load_persisted :: "persisted_session_record list \<Rightarrow> engine \<Rightarrow> engine" where
  "load_persisted records g = fold load_record records g"

text \<open>
  \<open>start_pane_inner\<close>; \<open>spawn\<close> is what the operating system answers when a restored record is
  spawned, \<open>oe_start\<close> when the supervisor respawns.
\<close>

definition start_pane_inner :: "powi_fun \<Rightarrow> op_env \<Rightarrow> uuid \<Rightarrow> restart_policy \<Rightarrow> string + spawned \<Rightarrow> engine
    \<Rightarrow> (engine_error + unit) \<times> engine" where
  "start_pane_inner pw env p fallback spawn g =
     (case eg_panes g p of
        None \<Rightarrow> (Inl (Supervision.PaneNotFound p), g)
      | Some (LivePane r) \<Rightarrow>
          if \<not> live_exited g r then (Inl (PaneRunning p), g)
          else (let (res, sn) = start pw \<lparr>re_now = oe_now env, re_unit = oe_unit env, re_start = oe_start env p\<rparr> (eg_sup g) p
                in (res, g\<lparr>eg_sup := sn\<rparr>))
      | Some (DeadPane d) \<Rightarrow>
          (case spawn of
             Inl e \<Rightarrow> (Inl (PaneStart p (SpawnFailed e)), g)
           | Inr sp \<Rightarrow>
               let g1 = add_spawned sp \<lparr>pm_command = pp_command d, pm_cwd = pp_cwd d, pm_launch = pp_launch d,
                          pm_rows = max (pp_rows d) MIN_PANE_ROWS, pm_cols = max (pp_cols d) MIN_PANE_COLS\<rparr> g;
                   g2 = put_pane p (LivePane (sw_addr sp)) g1
               in (Inr (), on_sup (\<lambda>sn. adopt_started pw (oe_now env) (oe_unit env) sn (sw_addr sp) p fallback) g2)))"

datatype revive_outcome = Revived usize | AlreadyLive

fun start_all :: "powi_fun \<Rightarrow> op_env \<Rightarrow> restart_policy \<Rightarrow> (uuid \<Rightarrow> string + spawned) \<Rightarrow> uuid list \<Rightarrow> engine \<Rightarrow> nat \<times> engine" where
  "start_all pw env fallback spawn [] g = (0, g)"
| "start_all pw env fallback spawn (p # ps) g =
     (let (res, g1) = start_pane_inner pw env p fallback (spawn p) g;
          (n, g2) = start_all pw env fallback spawn ps g1
      in (case res of Inr _ \<Rightarrow> (n + 1, g2) | Inl _ \<Rightarrow> (n, g2)))"

text \<open>\<open>prepare\<close> is the check of a pane's argument files and stderr path (\<open>Launch::prepare\<close>).\<close>

definition launch_of :: "engine \<Rightarrow> uuid \<Rightarrow> launch option" where
  "launch_of g p = (case eg_panes g p of Some (DeadPane d) \<Rightarrow> Some (pp_launch d)
     | Some (LivePane r) \<Rightarrow> Some (pm_launch (eg_meta g r)) | None \<Rightarrow> None)"

definition held :: "engine \<Rightarrow> uuid \<Rightarrow> bool" where
  "held g p \<longleftrightarrow> state_of (eg_sup g) p \<in> {Some Stopped, Some Failed}"

definition revive_session :: "powi_fun \<Rightarrow> op_env \<Rightarrow> (launch \<Rightarrow> string option) \<Rightarrow> (uuid \<Rightarrow> string + spawned) \<Rightarrow> uuid \<Rightarrow> engine
    \<Rightarrow> (engine_error + revive_outcome) \<times> engine" where
  "revive_session pw env prepare spawn sid g =
     (case eg_sessions g sid of None \<Rightarrow> (Inl (SessionNotFound sid), g) | Some s \<Rightarrow>
        if list_ex (\<lambda>p. case eg_panes g p of Some (LivePane r) \<Rightarrow> \<not> live_exited g r | _ \<Rightarrow> False) (session_panes s)
        then (Inr AlreadyLive, g)
        else
          let kept = filter (held g) (session_panes s);
              ids = filter (\<lambda>p. \<not> held g p) (session_panes s)
          in if ids = [] \<and> kept \<noteq> []
             then (Inl (if state_of (eg_sup g) (hd kept) = Some Stopped then PaneStopped (hd kept) else PaneFailed (hd kept)), g)
             else case find (\<lambda>p. Option.bind (launch_of g p) prepare \<noteq> None) ids of
                    Some p \<Rightarrow> (Inl (ReviveLaunch p (the (Option.bind (launch_of g p) prepare))), g)
                  | None \<Rightarrow> let (n, g1) = start_all pw env (ss_default_restart_policy s) spawn ids g
                            in (Inr (Revived n), persist_session env sid g1))"

section \<open>Operator requests\<close>

definition session_of_pane :: "engine \<Rightarrow> uuid \<Rightarrow> engine_error + uuid" where
  "session_of_pane g p = (case window_and_session_for_pane g p of Inl e \<Rightarrow> Inl e | Inr (_, s) \<Rightarrow> Inr s)"

text \<open>The common shape: find the session, do it, persist when it succeeded.\<close>

definition supervised_op :: "op_env \<Rightarrow> uuid \<Rightarrow> (supervision \<Rightarrow> (engine_error + 'a) \<times> supervision) \<Rightarrow> engine
    \<Rightarrow> (engine_error + 'a) \<times> engine" where
  "supervised_op env p f g =
     (case session_of_pane g p of Inl e \<Rightarrow> (Inl e, g) | Inr sid \<Rightarrow>
        let (res, sn) = f (eg_sup g); g1 = g\<lparr>eg_sup := sn\<rparr>
        in (case res of Inl e \<Rightarrow> (Inl e, g1) | Inr x \<Rightarrow> (Inr x, persist_session env sid g1)))"

definition stop_pane :: "op_env \<Rightarrow> uuid \<Rightarrow> engine \<Rightarrow> (engine_error + signal_outcome) \<times> engine" where
  "stop_pane env p = supervised_op env p (\<lambda>sn. stop sn p (oe_now env) (oe_kill env p))"

definition reset_restart_budget :: "op_env \<Rightarrow> uuid \<Rightarrow> engine \<Rightarrow> (engine_error + unit) \<times> engine" where
  "reset_restart_budget env p = supervised_op env p (\<lambda>sn. sn_reset_budget sn p)"

definition set_restart_policy :: "op_env \<Rightarrow> uuid \<Rightarrow> restart_policy \<Rightarrow> engine \<Rightarrow> (engine_error + pane_status) \<times> engine" where
  "set_restart_policy env p policy g =
     (case supervised_op env p (\<lambda>sn. sn_set_policy sn p policy (oe_now env)) g of
        (Inl e, g1) \<Rightarrow> (Inl e, g1)
      | (Inr _, g1) \<Rightarrow> (case sn_status (eg_sup g1) p (oe_now env) of
            Some st \<Rightarrow> (Inr st, g1) | None \<Rightarrow> (Inl (Supervision.PaneNotFound p), g1)))"

definition start_pane :: "powi_fun \<Rightarrow> op_env \<Rightarrow> uuid \<Rightarrow> string + spawned \<Rightarrow> engine \<Rightarrow> (engine_error + unit) \<times> engine" where
  "start_pane pw env p spawn g =
     (case session_of_pane g p of Inl e \<Rightarrow> (Inl e, g) | Inr sid \<Rightarrow>
        (case start_pane_inner pw env p default_policy spawn g of
           (Inl e, g1) \<Rightarrow> (Inl e, g1)
         | (Inr _, g1) \<Rightarrow> (Inr (), persist_session env sid g1)))"

definition restart_pane :: "powi_fun \<Rightarrow> op_env \<Rightarrow> uuid \<Rightarrow> bool \<Rightarrow> string + spawned \<Rightarrow> engine
    \<Rightarrow> (engine_error + signal_outcome) \<times> engine" where
  "restart_pane pw env p reset_backoff spawn g =
     (case session_of_pane g p of Inl e \<Rightarrow> (Inl e, g) | Inr sid \<Rightarrow>
        (case (case eg_panes g p of
                 Some (DeadPane _) \<Rightarrow> (case start_pane_inner pw env p default_policy spawn g of
                     (Inl e, g1) \<Rightarrow> (Inl e, g1) | (Inr _, g1) \<Rightarrow> (Inr Immediate, g1))
               | _ \<Rightarrow> (let (res, sn) = sn_restart pw \<lparr>re_now = oe_now env, re_unit = oe_unit env, re_start = oe_start env p\<rparr>
                                        (eg_sup g) p reset_backoff (oe_kill env p)
                       in (res, g\<lparr>eg_sup := sn\<rparr>))) of
           (Inl e, g1) \<Rightarrow> (Inl e, g1)
         | (Inr out, g1) \<Rightarrow> (Inr out, persist_session env sid g1)))"

fun set_policies :: "u64 \<Rightarrow> restart_policy \<Rightarrow> uuid list \<Rightarrow> supervision \<Rightarrow> (engine_error + unit) \<times> supervision" where
  "set_policies now policy [] sn = (Inr (), sn)"
| "set_policies now policy (p # ps) sn =
     (case sn_set_policy sn p policy now of (Inl e, sn1) \<Rightarrow> (Inl e, sn1) | (Inr _, sn1) \<Rightarrow> set_policies now policy ps sn1)"

definition set_session_restart_policy :: "op_env \<Rightarrow> uuid \<Rightarrow> restart_policy \<Rightarrow> bool \<Rightarrow> engine \<Rightarrow> (engine_error + unit) \<times> engine" where
  "set_session_restart_policy env sid policy apply_to_existing g =
     (case policy_validate policy of Inl why \<Rightarrow> (Inl (InvalidRestartPolicy why), g) | Inr _ \<Rightarrow>
      (case eg_sessions g sid of None \<Rightarrow> (Inl (SessionNotFound sid), g) | Some s \<Rightarrow>
        let g1 = put_session sid (s\<lparr>ss_default_restart_policy := policy\<rparr>) g;
            (res, sn) = (if apply_to_existing then set_policies (oe_now env) policy (session_panes s) (eg_sup g1)
                         else (Inr (), eg_sup g1));
            g2 = g1\<lparr>eg_sup := sn\<rparr>
        in (case res of Inl e \<Rightarrow> (Inl e, g2) | Inr _ \<Rightarrow> (Inr (), persist_session env sid g2))))"

text \<open>\<open>supervise_tick\<close>: run what is due, then persist the sessions of the panes that changed.\<close>

definition persist_dirty :: "op_env \<Rightarrow> uuid list \<Rightarrow> engine \<Rightarrow> engine" where
  "persist_dirty env dirty_order g =
     (let sids = List.map_filter (\<lambda>p. case session_of_pane g p of Inr s \<Rightarrow> Some s | Inl _ \<Rightarrow> None) dirty_order
      in fold (persist_session env) (remdups sids) (on_sup (\<lambda>sn. snd (take_dirty sn)) g))"

definition supervise_tick :: "powi_fun \<Rightarrow> op_env \<Rightarrow> uuid list \<Rightarrow> uuid list \<Rightarrow> engine \<Rightarrow> (u64 option \<times> engine) option" where
  "supervise_tick pw env order dirty_order g =
     (case run_due pw order (oe_now env)
             (\<lambda>p. \<lparr>re_now = oe_now env, re_unit = oe_unit env, re_start = oe_start env p\<rparr>) (eg_sup g) of
        None \<Rightarrow> None
      | Some (d, sn) \<Rightarrow> Some (d, persist_dirty env dirty_order (g\<lparr>eg_sup := sn\<rparr>)))"

section \<open>Viewports\<close>

definition resize_pane :: "bool \<Rightarrow> u16 \<Rightarrow> u16 \<Rightarrow> pane_meta \<Rightarrow> pane_meta" where
  "resize_pane ok rows cols m =
     (let rows = min rows MAX_PANE_ROWS; cols = min cols MAX_PANE_COLS
      in if pm_rows m = rows \<and> pm_cols m = cols then m
         else if ok then m\<lparr>pm_rows := rows, pm_cols := cols\<rparr> else m)"

definition window_size :: "engine \<Rightarrow> uuid \<Rightarrow> u16 \<times> u16" where
  "window_size g wid = (case eg_viewports g wid of
     Some (c # cs) \<Rightarrow> (min_list (map (\<lambda>(_, r, _). r) (c # cs)), min_list (map (\<lambda>(_, _, c). c) (c # cs)))
   | _ \<Rightarrow> (DEFAULT_ROWS, DEFAULT_COLS))"

definition resize_leaf :: "op_env \<Rightarrow> uuid \<times> pty_rect \<Rightarrow> engine \<Rightarrow> engine" where
  "resize_leaf env = (\<lambda>(p, rect) g. case eg_panes g p of
     Some (LivePane r) \<Rightarrow> g\<lparr>eg_meta := (eg_meta g)(r := resize_pane (oe_resize_ok env p) (rect_rows rect) (rect_cols rect) (eg_meta g r))\<rparr>
   | _ \<Rightarrow> g)"

definition recompute_window_geometry :: "op_env \<Rightarrow> uuid \<Rightarrow> engine \<Rightarrow> ((u16 \<times> u16) option \<times> engine) option" where
  "recompute_window_geometry env wid g =
     (let (rows, cols) = window_size g wid
      in case eg_window_session g wid of None \<Rightarrow> Some (None, g) | Some sid \<Rightarrow>
         (case eg_sessions g sid of None \<Rightarrow> Some (None, g) | Some s \<Rightarrow>
          (case find (\<lambda>w. wd_id w = wid) (ss_windows s) of None \<Rightarrow> Some (None, g) | Some w \<Rightarrow>
             let g1 = put_session sid (map_window wid (\<lambda>x. x\<lparr>wd_rows := rows, wd_cols := cols\<rparr>) s) g
             in do { rects \<leftarrow> compute_geometry (wd_layout w) rows cols;
                     Some (Some (rows, cols), persist_session env sid (fold (resize_leaf env) rects g1)) })))"

fun assoc_put :: "'k \<Rightarrow> 'v \<Rightarrow> ('k \<times> 'v) list \<Rightarrow> ('k \<times> 'v) list" where
  "assoc_put k v [] = [(k, v)]"
| "assoc_put k v ((k', v') # xs) = (if k' = k then (k, v) # xs else (k', v') # assoc_put k v xs)"

definition report_viewport :: "uuid \<Rightarrow> u64 \<Rightarrow> u16 \<Rightarrow> u16 \<Rightarrow> engine \<Rightarrow> engine" where
  "report_viewport wid client rows cols g =
     g\<lparr>eg_viewports := (eg_viewports g)(wid \<mapsto> assoc_put client (clamp_viewport rows cols)
          (case eg_viewports g wid of Some cs \<Rightarrow> cs | None \<Rightarrow> []))\<rparr>"

definition report_viewport_and_recompute :: "op_env \<Rightarrow> uuid \<Rightarrow> u64 \<Rightarrow> u16 \<Rightarrow> u16 \<Rightarrow> engine
    \<Rightarrow> ((u16 \<times> u16) option \<times> engine) option" where
  "report_viewport_and_recompute env wid client rows cols g =
     recompute_window_geometry env wid (report_viewport wid client rows cols g)"

definition unregister_viewport :: "uuid \<Rightarrow> u64 \<Rightarrow> engine \<Rightarrow> engine" where
  "unregister_viewport wid client g = (case eg_viewports g wid of None \<Rightarrow> g
     | Some cs \<Rightarrow> g\<lparr>eg_viewports := (eg_viewports g)(wid \<mapsto> filter (\<lambda>(c, _). c \<noteq> client) cs)\<rparr>)"

definition new_client_id :: "engine \<Rightarrow> u64 \<times> engine" where
  "new_client_id g = (eg_next_client g, g\<lparr>eg_next_client := (eg_next_client g + 1) mod 2 ^ 64\<rparr>)"

definition attached_client_count :: "engine \<Rightarrow> uuid \<Rightarrow> u32" where
  "attached_client_count g wid = (case eg_viewports g wid of Some cs \<Rightarrow> length cs mod 2 ^ 32 | None \<Rightarrow> 0)"

end
