(* ===== verification/Engine_Invariant.thy ===== *)
theory Engine_Invariant
  imports Engine_Ops
begin

text \<open>
  The invariant that ties the engine's maps together, and how it follows the changes the
  operations make to them.

  \<^item> \<open>links\<close>: which pane every supervised id refers to, and that the supervisor's operations keep it;
    the interface \<open>pane_registry\<close> is what the engine relies on.
  \<^item> \<open>core_ok\<close>: sessions are well formed and the reverse index is exactly their content.
    \<open>core_replace\<close> is the one lemma about replacing a session; creating, splitting, closing, killing
    and loading are instances of it.
  \<^item> \<open>panes_ok\<close>: the pane map has the indexed panes, each entry in the form the supervisor expects.
  \<^item> \<open>engine_keeps\<close>: the obligation every operation has.
\<close>

section \<open>What the supervisor remembers of panes\<close>

definition links :: "supervision \<Rightarrow> uuid \<Rightarrow> nat option option" where
  "links sn i = map_option en_pane (sn_entries sn i)"

lemma links_mark_dirty [simp]: "links (mark_dirty i sn) = links sn"
  by (simp add: links_def fun_eq_iff)

lemma links_put: "links (put sn i e po) = (links sn)(i \<mapsto> en_pane e)"
  by (simp add: links_def put_def fun_eq_iff)

lemma links_put_same: "sn_entries sn i = Some e0 \<Longrightarrow> en_pane e = en_pane e0 \<Longrightarrow> links (put sn i e po) = links sn"
  by (simp add: links_put links_def fun_eq_iff)

lemma links_account_exit [simp]: "links (snd (account_exit pw now unit sn r code)) = links sn"
  by (auto simp: account_exit_def Let_def links_put_same split: option.splits prod.splits)

lemma links_install_hook [simp]: "links (install_hook pw now unit sn r) = links sn"
proof (cases "sn_heap sn r")
  case (Some p)
  have "links (sn\<lparr>sn_heap := h\<rparr>) = links sn" for h by (simp add: links_def fun_eq_iff)
  then show ?thesis using Some by (simp add: install_hook_def set_exit_hook_def Let_def)
qed (simp add: install_hook_def)

lemma links_do_respawn:
  "sn_entries sn i = Some e0 \<Longrightarrow> en_pane e = en_pane e0 \<Longrightarrow> links (snd (do_respawn pw env sn i e a)) = links sn"
  by (simp add: do_respawn_def Let_def links_put_same split: option.splits prod.splits sum.splits)

lemma links_registration [simp]:
  "links (register_live pw now unit sn r i pol) = (links sn)(i \<mapsto> Some r)"
  "links (register_restored sn i per pol) = (links sn)(i \<mapsto> None)"
  "links (adopt_started pw now unit sn r i pol) = (links sn)(i \<mapsto> Some r)"
  "links (forget sn i) = (links sn)(i := None)"
proof -
  show "links (forget sn i) = (links sn)(i := None)"
    by (auto simp: Supervision.forget_def links_def fun_eq_iff Let_def split: option.splits)
qed (simp_all add: register_live_def register_restored_def adopt_started_def links_put Let_def)

lemma links_requests [simp]:
  "links (snd (stop sn i now er)) = links sn"
  "links (snd (sn_set_policy sn i pol now)) = links sn"
  "links (snd (sn_reset_budget sn i)) = links sn"
  "links (snd (take_dirty sn)) = links sn"
  by (auto simp: Supervision.stop_def sn_set_policy_def sn_reset_budget_def take_dirty_def Let_def links_put_same links_def
      fun_eq_iff put_def mark_dirty_def split: option.splits prod.splits sum.splits)

lemma links_restart [simp]: "links (snd (sn_restart pw env sn i reset er)) = links sn"
proof (cases "sn_entries sn i")
  case (Some e)
  have d: "links x = links sn" if "do_respawn pw env (mark_dirty i sn) i (e\<lparr>en_sup := s\<rparr>) a = (res, x)" for s a res x
    using links_do_respawn [of "mark_dirty i sn" i e "e\<lparr>en_sup := s\<rparr>" pw env a] that Some by simp
  have p: "links (put (mark_dirty i sn) i (e\<lparr>en_sup := s\<rparr>) po) = links sn" "links (put (mark_dirty i sn) i e po) = links sn" for s po
    using Some by (simp_all add: links_put_same [where ?e0.0 = e])
  obtain b s' where q: "request_restart (en_sup e) reset = (b, s')" by force
  show ?thesis
  proof (cases "running_pane sn e")
    case None
    with Some q d p show ?thesis by (auto simp: sn_restart_def Let_def split: prod.splits sum.splits)
  next
    case (Some pp)
    obtain res p1 where t: "terminate er pp = (res, p1)" by force
    show ?thesis using Some \<open>sn_entries sn i = Some e\<close> q t p by (cases res) (auto simp: sn_restart_def Let_def)
  qed
qed (simp add: sn_restart_def)

lemma links_start [simp]: "links (snd (start pw env sn i)) = links sn"
proof (cases "sn_entries sn i")
  case (Some e)
  have d: "links x = links sn" if "do_respawn pw env (mark_dirty i sn) i (e\<lparr>en_sup := s\<rparr>) a = (res, x)" for s a res x
    using links_do_respawn [of "mark_dirty i sn" i e "e\<lparr>en_sup := s\<rparr>" pw env a] that Some by simp
  with Some show ?thesis by (auto simp: Supervision.start_def split: prod.splits sum.splits)
qed (simp add: Supervision.start_def)

lemma links_fold_respawn: "links (fold (respawn_due pw env) ids sn) = links sn"
proof (induction ids arbitrary: sn)
  case (Cons i ids)
  have "links (respawn_due pw env i sn) = links sn"
    by (simp add: respawn_due_def links_do_respawn split: option.splits)
  with Cons show ?case by simp
qed simp

lemma links_run_due: "run_due pw order now env sn = Some (d, sn') \<Longrightarrow> links sn' = links sn"
  by (auto simp: run_due_def Let_def bind_Some_conv links_fold_respawn split: if_splits)

text \<open>
  The registry the engine relies on: registering a pane under an id makes the id refer to it,
  forgetting the id removes it, and neither touches other ids.
\<close>

locale pane_registry =
  fixes look :: "'s \<Rightarrow> uuid \<Rightarrow> nat option option" and reg :: "nat \<Rightarrow> uuid \<Rightarrow> 's \<Rightarrow> 's"
    and res :: "uuid \<Rightarrow> 's \<Rightarrow> 's" and del :: "uuid \<Rightarrow> 's \<Rightarrow> 's"
  assumes look_reg: "look (reg r i s) = (look s)(i \<mapsto> Some r)"
    and look_res: "look (res i s) = (look s)(i \<mapsto> None)"
    and look_del: "look (del i s) = (look s)(i := None)"
begin

lemma look_del_all: "look (fold del is s) i = (if i \<in> set is then None else look s i)"
  by (induction "is" arbitrary: s) (auto simp: look_del)

lemma look_res_all: "look (fold res is s) i = (if i \<in> set is then Some None else look s i)"
  by (induction "is" arbitrary: s) (auto simp: look_res)

lemma reg_del: "look (del i (reg r i s)) = (look s)(i := None)"
  by (simp add: look_reg look_del)

end

interpretation registry: pane_registry links "\<lambda>r i sn. register_live pw now unit sn r i pol"
  "\<lambda>i sn. register_restored sn i per pol" "\<lambda>i sn. forget sn i" for pw now unit pol per
  by unfold_locales simp_all


section \<open>The engine's own invariant\<close>

text \<open>Pane \<open>p\<close> is a leaf of window \<open>w\<close> of the session.\<close>

definition contrib :: "session_state \<Rightarrow> uuid \<Rightarrow> uuid \<Rightarrow> bool" where
  "contrib s p w \<longleftrightarrow> (\<exists>x\<in>set (ss_windows s). wd_id x = w \<and> p \<in> set (leaves (wd_layout x)))"

definition win_ids :: "session_state \<Rightarrow> uuid set" where
  "win_ids s = wd_id ` set (ss_windows s)"

definition window_ok :: "window_state \<Rightarrow> bool" where
  "window_ok x \<longleftrightarrow> wf_layout (wd_layout x) \<and> distinct (leaves (wd_layout x)) \<and> wd_rows x \<le> u16_max \<and> wd_cols x \<le> u16_max"

definition session_ok :: "uuid \<Rightarrow> session_state \<Rightarrow> bool" where
  "session_ok sid s \<longleftrightarrow> ss_id s = sid \<and> ss_windows s \<noteq> [] \<and> distinct (map wd_id (ss_windows s))
     \<and> ss_active_window_id s \<in> win_ids s \<and> list_all window_ok (ss_windows s)"

definition link_of :: "(uuid \<Rightarrow> pane_entry option) \<Rightarrow> uuid \<Rightarrow> nat option option" where
  "link_of panes p = map_option (\<lambda>e. case e of LivePane r \<Rightarrow> Some r | DeadPane _ \<Rightarrow> None) (panes p)"

definition panes_ok :: "(uuid \<Rightarrow> pane_entry option) \<Rightarrow> (uuid \<Rightarrow> uuid option) \<Rightarrow> (uuid \<Rightarrow> nat option option) \<Rightarrow> bool" where
  "panes_ok panes pwi lk \<longleftrightarrow> dom panes = dom pwi \<and> lk = link_of panes
     \<and> (\<forall>p d. panes p = Some (DeadPane d) \<longrightarrow> pp_pane_id d = p)"

definition index_ok :: "(uuid \<Rightarrow> session_state option) \<Rightarrow> (uuid \<Rightarrow> uuid option) \<Rightarrow> (uuid \<Rightarrow> uuid option) \<Rightarrow> bool" where
  "index_ok sess pwi wsi \<longleftrightarrow>
     (\<forall>w sid. wsi w = Some sid \<longleftrightarrow> (\<exists>s. sess sid = Some s \<and> w \<in> win_ids s))
   \<and> (\<forall>p w. pwi p = Some w \<longleftrightarrow> (\<exists>sid s. sess sid = Some s \<and> contrib s p w))"

definition core_ok :: "(uuid \<Rightarrow> session_state option) \<Rightarrow> (uuid \<Rightarrow> uuid option) \<Rightarrow> (uuid \<Rightarrow> uuid option) \<Rightarrow> bool" where
  "core_ok sess pwi wsi \<longleftrightarrow> (\<forall>sid s. sess sid = Some s \<longrightarrow> session_ok sid s) \<and> index_ok sess pwi wsi"

definition viewports_ok :: "(uuid \<Rightarrow> (u64 \<times> u16 \<times> u16) list option) \<Rightarrow> bool" where
  "viewports_ok vs \<longleftrightarrow> (\<forall>w cs c r k. vs w = Some cs \<longrightarrow> (c, r, k) \<in> set cs
     \<longrightarrow> MIN_PANE_ROWS \<le> r \<and> r \<le> MAX_PANE_ROWS \<and> MIN_PANE_COLS \<le> k \<and> k \<le> MAX_PANE_COLS)"

definition engine_ok :: "engine \<Rightarrow> bool" where
  "engine_ok g \<longleftrightarrow> core_ok (eg_sessions g) (eg_pane_window g) (eg_window_session g)
     \<and> panes_ok (eg_panes g) (eg_pane_window g) (links (eg_sup g)) \<and> viewports_ok (eg_viewports g)"

lemma contrib_win: "contrib s p w \<Longrightarrow> w \<in> win_ids s"
  by (auto simp: contrib_def win_ids_def)

lemma contrib_uniq:
  assumes "core_ok sess pwi wsi" and "sess sid = Some s" and "contrib s p w" and "sess sid' = Some s'" and "contrib s' p w'"
  shows "sid = sid' \<and> w = w'"
proof -
  have "pwi p = Some w" "pwi p = Some w'" using assms by (auto simp: core_ok_def index_ok_def)
  then have "w = w'" by simp
  moreover have "wsi w = Some sid" "wsi w' = Some sid'" using assms contrib_win by (auto simp: core_ok_def index_ok_def)
  ultimately show ?thesis by simp
qed

lemma core_session: "core_ok sess pwi wsi \<Longrightarrow> sess sid = Some s \<Longrightarrow> session_ok sid s"
  by (simp add: core_ok_def)

lemma core_wsi: "core_ok sess pwi wsi \<Longrightarrow> sess sid = Some s \<Longrightarrow> wsi w = Some sid \<longleftrightarrow> w \<in> win_ids s"
  by (simp add: core_ok_def index_ok_def)

lemma core_at: "core_ok sess pwi wsi \<Longrightarrow> sess sid = Some s \<Longrightarrow> contrib s p w \<Longrightarrow> pwi p = Some w \<and> wsi w = Some sid"
  by (auto simp: core_ok_def index_ok_def dest: contrib_win)

lemma core_pwi_E:
  assumes "core_ok sess pwi wsi" and "pwi p = Some w"
  obtains sid s where "sess sid = Some s" "contrib s p w" "wsi w = Some sid"
proof -
  have "\<exists>sid s. sess sid = Some s \<and> contrib s p w" using assms unfolding core_ok_def index_ok_def by blast
  then show ?thesis using that core_at [OF assms(1)] by blast
qed

lemma core_pwi:
  assumes "core_ok sess pwi wsi" and "sess sid = Some s" and "wsi w = Some sid"
  shows "pwi p = Some w \<longleftrightarrow> contrib s p w"
proof
  assume "pwi p = Some w"
  with assms show "contrib s p w" by (auto elim!: core_pwi_E [OF assms(1)])
qed (use core_at [OF assms(1,2)] in simp)

text \<open>Replacing one session, with the index brought up to date, keeps the invariant.\<close>

lemma core_replace:
  assumes c: "core_ok sess pwi wsi"
    and t: "\<And>s. t = Some s \<Longrightarrow> session_ok sid s \<and> (\<forall>w\<in>win_ids s. wsi w \<in> {None, Some sid})"
    and w: "\<And>w. wsi' w = (if \<exists>s. t = Some s \<and> w \<in> win_ids s then Some sid else if wsi w = Some sid then None else wsi w)"
    and p: "\<And>p w. pwi' p = Some w \<longleftrightarrow> (\<exists>s. t = Some s \<and> contrib s p w) \<or> pwi p = Some w \<and> wsi w \<noteq> Some sid"
  shows "core_ok (sess(sid := t)) pwi' wsi'"
proof -
  have "wsi' x = Some sid' \<longleftrightarrow> (\<exists>s. (sess(sid := t)) sid' = Some s \<and> x \<in> win_ids s)" for x sid'
  proof (cases "sid' = sid")
    case True
    then show ?thesis by (auto simp: w)
  next
    case False
    have "wsi x = Some sid' \<longleftrightarrow> (\<exists>s. sess sid' = Some s \<and> x \<in> win_ids s)" using c by (simp add: core_ok_def index_ok_def)
    moreover have "wsi x \<noteq> Some sid'" if "t = Some s" "x \<in> win_ids s" for s using False t [OF that(1)] that(2) by auto
    ultimately show ?thesis using False unfolding w by (auto simp del: not_None_eq)
  qed
  moreover have "pwi' q = Some x \<longleftrightarrow> (\<exists>sid' s. (sess(sid := t)) sid' = Some s \<and> contrib s q x)" (is "?l = ?r") for q x
  proof
    assume ?l
    then consider s where "t = Some s" "contrib s q x" | "pwi q = Some x" "wsi x \<noteq> Some sid" using p by blast
    then show ?r
    proof cases
      case 1
      then show ?thesis by (intro exI [of _ sid] exI [of _ s]) simp
    next
      case 2
      obtain sid' s where "sess sid' = Some s" "contrib s q x" "wsi x = Some sid'" by (rule core_pwi_E [OF c 2(1)])
      with 2 show ?thesis by (intro exI [of _ sid'] exI [of _ s]) auto
    qed
  next
    assume ?r
    then obtain sid' s where s: "(sess(sid := t)) sid' = Some s" "contrib s q x" by blast
    then show ?l using core_at [OF c, of sid' s q x] p by (cases "sid' = sid") auto
  qed
  moreover have "session_ok sid' s" if "(sess(sid := t)) sid' = Some s" for sid' s
    using that t core_session [OF c] by (cases "sid' = sid") auto
  ultimately show ?thesis unfolding core_ok_def index_ok_def by blast
qed

text \<open>The special case that neither windows nor leaves change.\<close>

lemma core_same_shape:
  assumes c: "core_ok sess pwi wsi" and s: "sess sid = Some s" and ok: "session_ok sid s'"
    and w: "win_ids s' = win_ids s" and p: "\<And>p w. contrib s' p w = contrib s p w"
  shows "core_ok (sess(sid \<mapsto> s')) pwi wsi"
proof (rule core_replace [OF c])
  show "wsi x = (if \<exists>s. Some s' = Some s \<and> x \<in> win_ids s then Some sid else if wsi x = Some sid then None else wsi x)" for x
    using core_wsi [OF c s] w by auto
  show "pwi q = Some x \<longleftrightarrow> (\<exists>s. Some s' = Some s \<and> contrib s q x) \<or> pwi q = Some x \<and> wsi x \<noteq> Some sid" for q x
    using core_pwi [OF c s] core_wsi [OF c s] contrib_win [of s q x] p by auto
  show "session_ok sid u \<and> (\<forall>w\<in>win_ids u. wsi w \<in> {None, Some sid})" if "Some s' = Some u" for u
    using that ok w core_wsi [OF c s] by auto
qed


section \<open>How sessions change\<close>

lemma windows_other:
  assumes "distinct (map wd_id ws)" and "x \<in> set ws" and "y \<in> set ws" and "wd_id x = wd_id y"
  shows "x = y"
  using assms by (auto simp: distinct_map inj_on_def)

lemma find_window:
  assumes "find (\<lambda>x. wd_id x = wid) ws = Some w"
  shows "w \<in> set ws" "wd_id w = wid"
  using assms by (auto simp: find_Some_iff)

lemma find_window_ex: "wid \<in> win_ids s \<Longrightarrow> \<exists>w. find (\<lambda>x. wd_id x = wid) (ss_windows s) = Some w"
  by (cases "find (\<lambda>x. wd_id x = wid) (ss_windows s)") (auto simp: find_None_iff win_ids_def)

lemma set_update_first:
  assumes "distinct (map wd_id ws)" and "find (\<lambda>x. wd_id x = wid) ws = Some w"
  shows "set (update_first (\<lambda>x. wd_id x = wid) f ws) = insert (f w) (set ws - {w})"
  using assms
proof (induction ws)
  case (Cons x ws)
  show ?case
  proof (cases "wd_id x = wid")
    case False
    with Cons find_window [of wid ws w] show ?thesis by auto
  qed (use Cons in auto)
qed simp

lemma set_remove_first:
  assumes "distinct (map wd_id ws)" and "find (\<lambda>x. wd_id x = wid) ws = Some w"
  shows "set (remove_first (\<lambda>x. wd_id x = wid) ws) = set ws - {w}"
  using assms
proof (induction ws)
  case (Cons x ws)
  show ?case
  proof (cases "wd_id x = wid")
    case False
    with Cons find_window [of wid ws w] show ?thesis by auto
  qed (use Cons in auto)
qed simp

lemma ids_update_first: "(\<And>x. wd_id (f x) = wd_id x) \<Longrightarrow> map wd_id (update_first P f ws) = map wd_id ws"
  by (induction ws) auto

lemma distinct_remove_first: "distinct (map wd_id ws) \<Longrightarrow> distinct (map wd_id (remove_first P ws))"
proof (induction ws)
  case (Cons x ws)
  have "set (remove_first P ws) \<subseteq> set ws" by (induction ws) auto
  with Cons show ?case by auto
qed simp

lemma map_window_simps [simp]:
  "ss_id (map_window wid f s) = ss_id s" "ss_active_window_id (map_window wid f s) = ss_active_window_id s"
  "ss_default_restart_policy (map_window wid f s) = ss_default_restart_policy s"
  "ss_name (map_window wid f s) = ss_name s"
  by (simp_all add: map_window_def)

lemma contrib_found:
  assumes "session_ok sid s" and found: "find (\<lambda>x. wd_id x = wid) (ss_windows s) = Some w"
  shows "contrib s q wid \<longleftrightarrow> q \<in> set (leaves (wd_layout w))"
proof -
  have d: "distinct (map wd_id (ss_windows s))" using assms by (simp add: session_ok_def)
  show ?thesis using find_window [OF found] windows_other [OF d, of _ w] unfolding contrib_def by metis
qed

lemma map_window_ids:
  assumes "\<And>x. wd_id (f x) = wd_id x"
  shows "win_ids (map_window wid f s) = win_ids s"
  using arg_cong [OF ids_update_first [of f "\<lambda>x. wd_id x = wid" "ss_windows s", OF assms], of set]
  by (simp add: win_ids_def map_window_def)

lemma map_window_contrib:
  assumes "session_ok sid s" and found: "find (\<lambda>x. wd_id x = wid) (ss_windows s) = Some w" and id: "\<And>x. wd_id (f x) = wd_id x"
  shows "contrib (map_window wid f s) p v \<longleftrightarrow> (if v = wid then p \<in> set (leaves (wd_layout (f w))) else contrib s p v)"
proof -
  have d: "distinct (map wd_id (ss_windows s))" using assms by (simp add: session_ok_def)
  show ?thesis using find_window [OF found] windows_other [OF d]
    by (auto simp: contrib_def map_window_def set_update_first [OF d found] id)
qed

lemma map_window_ok:
  assumes ok: "session_ok sid s" and found: "find (\<lambda>x. wd_id x = wid) (ss_windows s) = Some w"
    and id: "\<And>x. wd_id (f x) = wd_id x" and "window_ok (f w)"
  shows "session_ok sid (map_window wid f s)"
proof -
  have d: "distinct (map wd_id (ss_windows s))" using ok by (simp add: session_ok_def)
  have m: "map wd_id (ss_windows (map_window wid f s)) = map wd_id (ss_windows s)"
    by (simp add: map_window_def ids_update_first id)
  moreover have "ss_windows (map_window wid f s) \<noteq> []"
  proof
    assume "ss_windows (map_window wid f s) = []"
    with m ok show False by (simp add: session_ok_def)
  qed
  moreover have "list_all window_ok (ss_windows (map_window wid f s))"
    using ok assms(4) by (auto simp: session_ok_def list_all_iff map_window_def set_update_first [OF d found])
  ultimately show ?thesis using ok map_window_ids [OF id] by (auto simp: session_ok_def)
qed

text \<open>A new window, a split, and the three ways of closing a pane, on sessions and index together.\<close>

lemma window_ok_new [simp]: "window_ok (new_window wid name p)"
  by (simp add: window_ok_def new_window_def DEFAULT_ROWS_def DEFAULT_COLS_def)

lemma new_window_simps [simp]: "wd_id (new_window wid name p) = wid" "wd_layout (new_window wid name p) = Leaf p"
  by (simp_all add: new_window_def)

lemma core_no_session: "core_ok sess pwi wsi \<Longrightarrow> sess sid = None \<Longrightarrow> wsi w \<noteq> Some sid"
  by (auto simp: core_ok_def index_ok_def)

lemma core_create:
  assumes c: "core_ok sess pwi wsi" and "sess sid = None" and "wsi wid = None" and "pwi p = None"
  shows "core_ok (sess(sid \<mapsto> \<lparr>ss_id = sid, ss_name = n, ss_windows = [new_window wid n' p], ss_active_window_id = wid,
     ss_default_restart_policy = pol\<rparr>)) (pwi(p \<mapsto> wid)) (wsi(wid \<mapsto> sid))"
  by (rule core_replace [OF c])
    (use assms core_no_session [OF c assms(2)] in \<open>auto simp: session_ok_def win_ids_def contrib_def split: if_splits\<close>)

lemma core_add_window:
  assumes c: "core_ok sess pwi wsi" and s: "sess sid = Some s" and "wsi wid = None" and "pwi p = None"
  shows "core_ok (sess(sid \<mapsto> s\<lparr>ss_windows := ss_windows s @ [new_window wid n p], ss_active_window_id := wid\<rparr>))
     (pwi(p \<mapsto> wid)) (wsi(wid \<mapsto> sid))"
proof (rule core_replace [OF c])
  let ?s = "s\<lparr>ss_windows := ss_windows s @ [new_window wid n p], ss_active_window_id := wid\<rparr>"
  have w: "win_ids ?s = insert wid (win_ids s)" by (auto simp: win_ids_def)
  have new: "wid \<notin> win_ids s" using core_wsi [OF c s, of wid] assms(3) by simp
  show "session_ok sid u \<and> (\<forall>w\<in>win_ids u. wsi w \<in> {None, Some sid})" if "Some ?s = Some u" for u
    using that core_session [OF c s] core_wsi [OF c s] assms(3) w new by (auto simp: session_ok_def win_ids_def)
  show "(wsi(wid \<mapsto> sid)) x = (if \<exists>u. Some ?s = Some u \<and> x \<in> win_ids u then Some sid else if wsi x = Some sid then None else wsi x)" for x
    using w core_wsi [OF c s] by auto
  have k: "contrib ?s q x \<longleftrightarrow> contrib s q x \<or> q = p \<and> x = wid" for q x by (auto simp: contrib_def)
  show "(pwi(p \<mapsto> wid)) q = Some x \<longleftrightarrow> (\<exists>u. Some ?s = Some u \<and> contrib u q x) \<or> pwi q = Some x \<and> wsi x \<noteq> Some sid" for q x
    using k core_pwi [OF c s] core_at [OF c s] assms(3,4) by (cases "wsi x = Some sid") auto
qed

text \<open>One window changes its leaves: \<open>pwi'\<close> is the index with the window's old leaves replaced.\<close>

lemma core_relayout:
  assumes c: "core_ok sess pwi wsi" and s: "sess sid = Some s"
    and found: "find (\<lambda>x. wd_id x = wid) (ss_windows s) = Some w"
    and ok: "window_ok (w\<lparr>wd_layout := l\<rparr>)"
    and p: "\<And>q. pwi' q = (if q \<in> set (leaves l) then Some wid else if pwi q = Some wid then None else pwi q)"
    and free: "\<And>q. q \<in> set (leaves l) \<Longrightarrow> pwi q \<in> {None, Some wid}"
  shows "core_ok (sess(sid \<mapsto> map_window wid (\<lambda>x. x\<lparr>wd_layout := l\<rparr>) s)) pwi' wsi"
proof (rule core_replace [OF c])
  let ?s = "map_window wid (\<lambda>x. x\<lparr>wd_layout := l\<rparr>) s"
  have sok: "session_ok sid s" by (rule core_session [OF c s])
  have w: "win_ids ?s = win_ids s" by (rule map_window_ids) simp
  show "session_ok sid u \<and> (\<forall>w\<in>win_ids u. wsi w \<in> {None, Some sid})" if "Some ?s = Some u" for u
    using that map_window_ok [OF sok found, of "\<lambda>x. x\<lparr>wd_layout := l\<rparr>"] ok w core_wsi [OF c s] by auto
  show "wsi x = (if \<exists>u. Some ?s = Some u \<and> x \<in> win_ids u then Some sid else if wsi x = Some sid then None else wsi x)" for x
    using w core_wsi [OF c s] by auto
  have wid: "wsi wid = Some sid" using find_window [OF found] core_wsi [OF c s] by (auto simp: win_ids_def)
  have k: "contrib ?s q x \<longleftrightarrow> (if x = wid then q \<in> set (leaves l) else contrib s q x)" for q x
    using map_window_contrib [OF sok found, of "\<lambda>x. x\<lparr>wd_layout := l\<rparr>"] by simp
  show "pwi' q = Some x \<longleftrightarrow> (\<exists>u. Some ?s = Some u \<and> contrib u q x) \<or> pwi q = Some x \<and> wsi x \<noteq> Some sid" for q x
    using k [of q x] core_pwi [OF c s, of x q] core_at [OF c s, of q x] wid p [of q] free [of q]
    by (cases "wsi x = Some sid") (auto split: if_splits)
qed

lemma core_drop_window:
  assumes c: "core_ok sess pwi wsi" and s: "sess sid = Some s"
    and found: "find (\<lambda>x. wd_id x = wid) (ss_windows s) = Some w" and leaf: "wd_layout w = Leaf p"
    and rest: "remove_first (\<lambda>x. wd_id x = wid) (ss_windows s) = v # vs"
  shows "core_ok (sess(sid \<mapsto> s\<lparr>ss_windows := v # vs, ss_active_window_id := wd_id v\<rparr>)) (pwi(p := None)) (wsi(wid := None))"
proof (rule core_replace [OF c])
  let ?s = "s\<lparr>ss_windows := v # vs, ss_active_window_id := wd_id v\<rparr>"
  have sok: "session_ok sid s" by (rule core_session [OF c s])
  then have d: "distinct (map wd_id (ss_windows s))" by (simp add: session_ok_def)
  have set: "set (v # vs) = set (ss_windows s) - {w}" using set_remove_first [OF d found] rest by simp
  have w: "win_ids ?s = win_ids s - {wid}" using find_window [OF found] windows_other [OF d] set
    by (auto simp: win_ids_def)
  have "distinct (map wd_id (v # vs))" using distinct_remove_first [OF d] rest by metis
  moreover have "\<forall>x\<in>set (v # vs). window_ok x" unfolding set using sok by (auto simp: session_ok_def list_all_iff)
  ultimately have "session_ok sid ?s" using sok by (auto simp: session_ok_def list_all_iff win_ids_def)
  then show "session_ok sid u \<and> (\<forall>w\<in>win_ids u. wsi w \<in> {None, Some sid})" if "Some ?s = Some u" for u
    using that w core_wsi [OF c s] by auto
  show "(wsi(wid := None)) x = (if \<exists>u. Some ?s = Some u \<and> x \<in> win_ids u then Some sid else if wsi x = Some sid then None else wsi x)" for x
    using w core_wsi [OF c s] find_window [OF found] by (auto simp: win_ids_def)
  have k: "contrib ?s q x \<longleftrightarrow> contrib s q x \<and> x \<noteq> wid" for q x
    using find_window [OF found] windows_other [OF d] set unfolding contrib_def by auto
  have own: "contrib s q wid \<longleftrightarrow> q = p" for q using contrib_found [OF sok found] leaf by simp
  have wid: "wsi wid = Some sid" using find_window [OF found] core_wsi [OF c s] by (auto simp: win_ids_def)
  show "(pwi(p := None)) q = Some x \<longleftrightarrow> (\<exists>u. Some ?s = Some u \<and> contrib u q x) \<or> pwi q = Some x \<and> wsi x \<noteq> Some sid" for q x
    using k [of q x] own [of p] own [of q] core_pwi [OF c s, of x q] core_at [OF c s, of p wid] core_at [OF c s, of q x] wid
    by (cases "wsi x = Some sid") auto
qed

lemma core_remove:
  assumes c: "core_ok sess pwi wsi" and s: "sess sid = Some s"
  shows "core_ok (sess(sid := None)) (\<lambda>p. if p \<in> set (session_panes s) then None else pwi p)
     (\<lambda>w. if w \<in> win_ids s then None else wsi w)"
proof (rule core_replace [OF c])
  have k: "p \<in> set (session_panes s) \<longleftrightarrow> (\<exists>w. contrib s p w)" for p by (auto simp: session_panes_def contrib_def)
  show "(if q \<in> set (session_panes s) then None else pwi q) = Some x
      \<longleftrightarrow> (\<exists>u. None = Some u \<and> contrib u q x) \<or> pwi q = Some x \<and> wsi x \<noteq> Some sid" for q x
    using k core_pwi [OF c s] core_at [OF c s] by (cases "wsi x = Some sid") auto
qed (use core_wsi [OF c s] in auto)


section \<open>Panes and the supervisor's view of them\<close>

lemma panes_ok_live: "panes_ok panes pwi lk \<Longrightarrow> panes_ok (panes(p \<mapsto> LivePane r)) (pwi(p \<mapsto> w)) (lk(p \<mapsto> Some r))"
  by (auto simp: panes_ok_def link_of_def fun_eq_iff)

lemma panes_ok_adopt: "panes_ok panes pwi lk \<Longrightarrow> panes p \<noteq> None \<Longrightarrow> panes_ok (panes(p \<mapsto> LivePane r)) pwi (lk(p \<mapsto> Some r))"
  by (auto simp: panes_ok_def link_of_def fun_eq_iff)

lemma panes_ok_del: "panes_ok panes pwi lk \<Longrightarrow> panes_ok (panes(p := None)) (pwi(p := None)) (lk(p := None))"
  by (auto simp: panes_ok_def link_of_def fun_eq_iff)

lemma panes_ok_None: "panes_ok panes pwi lk \<Longrightarrow> panes p = None \<longleftrightarrow> pwi p = None"
  by (metis panes_ok_def domIff)

lemma panes_ok_link: "panes_ok panes pwi lk \<Longrightarrow> lk p = link_of panes p"
  by (simp add: panes_ok_def)

lemma links_heap [simp]: "links (sn\<lparr>sn_heap := h\<rparr>) = links sn"
  by (simp add: links_def fun_eq_iff)

lemma engine_okD:
  assumes "engine_ok g"
  shows "core_ok (eg_sessions g) (eg_pane_window g) (eg_window_session g)"
    "panes_ok (eg_panes g) (eg_pane_window g) (links (eg_sup g))" "viewports_ok (eg_viewports g)"
  using assms by (auto simp: engine_ok_def)

text \<open>What persisting does not touch.\<close>

lemma persist_simps [simp]:
  "eg_sessions (persist_session env i g) = eg_sessions g" "eg_panes (persist_session env i g) = eg_panes g"
  "eg_pane_window (persist_session env i g) = eg_pane_window g" "eg_window_session (persist_session env i g) = eg_window_session g"
  "eg_sup (persist_session env i g) = eg_sup g" "eg_viewports (persist_session env i g) = eg_viewports g"
  "eg_meta (persist_session env i g) = eg_meta g" "engine_ok (persist_session env i g) = engine_ok g"
  by (auto simp: persist_session_def save_persisted_def engine_ok_def split: option.splits)

lemma delete_record_simps [simp]:
  "eg_sessions (delete_record i g) = eg_sessions g" "eg_panes (delete_record i g) = eg_panes g"
  "eg_pane_window (delete_record i g) = eg_pane_window g" "eg_window_session (delete_record i g) = eg_window_session g"
  "eg_sup (delete_record i g) = eg_sup g" "eg_viewports (delete_record i g) = eg_viewports g"
  "engine_ok (delete_record i g) = engine_ok g"
  by (auto simp: delete_record_def engine_ok_def)

lemmas engine_parts = add_spawned_def create_insert_session_def put_session_def put_pane_def register_spawned_def on_sup_def
  create_index_def insert_pane_def insert_window_def remove_pane_def remove_window_def

text \<open>A process the operating system just started: a free address and an id no pane has.\<close>

definition fresh_spawn :: "engine \<Rightarrow> spawned \<Rightarrow> bool" where
  "fresh_spawn g sp \<longleftrightarrow> sn_heap (eg_sup g) (sw_addr sp) = None \<and> eg_panes g (sw_id sp) = None"

abbreviation sup_path :: "powi_fun \<Rightarrow> engine \<Rightarrow> engine \<Rightarrow> bool" where
  "sup_path pw g g' \<equiv> (world_step pw)\<^sup>*\<^sup>* (eg_sup g) (eg_sup g')"

text \<open>What an operation owes: it keeps the invariant and acts on the supervisor by its steps only.\<close>

definition engine_keeps :: "powi_fun \<Rightarrow> engine \<Rightarrow> engine \<Rightarrow> bool" where
  "engine_keeps pw g g' \<longleftrightarrow> (engine_ok g \<longrightarrow> engine_ok g' \<and> sup_path pw g g')"

lemma engine_keeps_refl [simp]: "engine_keeps pw g g"
  by (simp add: engine_keeps_def)

lemma engine_keeps_trans: "engine_keeps pw g h \<Longrightarrow> engine_keeps pw h k \<Longrightarrow> engine_keeps pw g k"
  by (auto simp: engine_keeps_def)

lemma engine_keeps_persist [simp]:
  "engine_keeps pw g (persist_session env i h) = engine_keeps pw g h"
  "engine_keeps pw g (delete_record i h) = engine_keeps pw g h"
  by (simp_all add: engine_keeps_def)

lemma engine_keepsI:
  "(engine_ok g \<Longrightarrow> engine_ok g') \<Longrightarrow> (engine_ok g \<Longrightarrow> sup_path pw g g') \<Longrightarrow> engine_keeps pw g g'"
  by (simp add: engine_keeps_def)

lemma path_spawn_register:
  assumes "sn_heap sn r = None" and "sn_entries sn i = None"
  shows "(world_step pw)\<^sup>*\<^sup>* sn (register_live pw now unit (sn\<lparr>sn_heap := (sn_heap sn)(r \<mapsto> pane_new i pid)\<rparr>) r i pol)"
proof -
  let ?sn = "sn\<lparr>sn_heap := (sn_heap sn)(r \<mapsto> pane_new i pid)\<rparr>"
  have "world_step pw sn ?sn" using assms by (intro world_step.spawn)
  moreover have "world_step pw ?sn (register_live pw now unit ?sn r (pn_id (pane_new i pid)) pol)"
    using assms by (intro world_step.live) (simp_all add: pane_new_def)
  ultimately show ?thesis by (simp add: pane_new_def)
qed

lemma path_spawn_adopt:
  assumes "sn_heap sn r = None" and "\<And>e. sn_entries sn i = Some e \<Longrightarrow> en_pane e = None"
  shows "(world_step pw)\<^sup>*\<^sup>* sn (adopt_started pw now unit (sn\<lparr>sn_heap := (sn_heap sn)(r \<mapsto> pane_new i pid)\<rparr>) r i pol)"
proof -
  let ?sn = "sn\<lparr>sn_heap := (sn_heap sn)(r \<mapsto> pane_new i pid)\<rparr>"
  have "world_step pw sn ?sn" using assms by (intro world_step.spawn)
  moreover have "world_step pw ?sn (adopt_started pw now unit ?sn r (pn_id (pane_new i pid)) pol)"
    using assms by (intro world_step.adopt) (auto simp: pane_new_def split: option.splits)
  ultimately show ?thesis by (simp add: pane_new_def)
qed

lemma no_entry: "engine_ok g \<Longrightarrow> eg_panes g p = None \<Longrightarrow> sn_entries (eg_sup g) p = None"
  using panes_ok_link [OF engine_okD(2), of g p] by (simp add: links_def link_of_def)

lemma dead_entry_pane: "engine_ok g \<Longrightarrow> eg_panes g p = Some (DeadPane d) \<Longrightarrow> sn_entries (eg_sup g) p = Some e \<Longrightarrow> en_pane e = None"
  using panes_ok_link [OF engine_okD(2), of g p] by (simp add: links_def link_of_def)

end
