(* ===== verification/Engine.thy ===== *)
theory Engine
  imports Engine_Invariant
begin

text \<open>
  The operations of the engine keep its invariant and act on the supervisor only by the
  supervisor's own steps; the engine as a transition system; the properties that follow.
\<close>

section \<open>The operations keep it\<close>

lemma create_session_keeps:
  assumes "\<And>sp. spawn = Inr sp \<Longrightarrow> fresh_spawn g sp" and "eg_sessions g sid = None" and "eg_window_session g wid = None"
  shows "engine_keeps pw g (snd (create_session_supervised pw env sid wid name policy m spawn g))"
proof (cases "policy_validate policy")
  case (Inr u)
  show ?thesis
  proof (cases spawn)
    case sp: (Inr sp)
    let ?g = "snd (create_session_supervised pw env sid wid name policy m spawn g)"
    have f: "fresh_spawn g sp" using assms(1) sp by simp
    show ?thesis
    proof (rule engine_keepsI)
      assume ok: "engine_ok g"
      have "eg_pane_window g (sw_id sp) = None" using f panes_ok_None [OF engine_okD(2) [OF ok]] by (simp add: fresh_spawn_def)
      then show "engine_ok ?g" using core_create [OF engine_okD(1) [OF ok] assms(2,3)] panes_ok_live [OF engine_okD(2) [OF ok]]
          engine_okD(3) [OF ok] sp Inr
        by (simp add: create_session_supervised_def Let_def engine_ok_def engine_parts)
      show "sup_path pw g ?g" using path_spawn_register [of "eg_sup g" "sw_addr sp" "sw_id sp"] f no_entry [OF ok] sp Inr
        by (simp add: create_session_supervised_def Let_def engine_parts fresh_spawn_def)
    qed
  qed (simp add: create_session_supervised_def Inr)
qed (simp add: create_session_supervised_def)


lemma add_spawned_keeps: "fresh_spawn g sp \<Longrightarrow> engine_keeps pw g (add_spawned sp m g)"
  using world_step.spawn [of "eg_sup g" "sw_addr sp" pw "sw_id sp" "sw_pid sp"]
  by (simp add: engine_keeps_def engine_ok_def add_spawned_def fresh_spawn_def r_into_rtranclp)

lemma create_window_keeps:
  assumes "\<And>sp. spawn = Inr sp \<Longrightarrow> fresh_spawn g sp" and "eg_window_session g wid = None"
  shows "engine_keeps pw g (snd (create_window pw env sid wid m spawn g))"
proof (cases spawn)
  case sp: (Inr sp)
  let ?g = "snd (create_window pw env sid wid m spawn g)"
  have f: "fresh_spawn g sp" using assms(1) sp by simp
  show ?thesis
  proof (cases "eg_sessions g sid")
    case None
    then have "?g = add_spawned sp (m\<lparr>pm_rows := DEFAULT_ROWS, pm_cols := DEFAULT_COLS\<rparr>) g"
      by (simp add: create_window_def sp add_spawned_def)
    then show ?thesis using add_spawned_keeps [OF f] by simp
  next
    case (Some s)
    show ?thesis
    proof (rule engine_keepsI)
      assume ok: "engine_ok g"
      have "eg_pane_window g (sw_id sp) = None" using f panes_ok_None [OF engine_okD(2) [OF ok]] by (simp add: fresh_spawn_def)
      then show "engine_ok ?g" using core_add_window [OF engine_okD(1) [OF ok] Some assms(2)] panes_ok_live [OF engine_okD(2) [OF ok]]
          engine_okD(3) [OF ok] sp Some
        by (simp add: create_window_def Let_def engine_ok_def engine_parts)
      show "sup_path pw g ?g" using path_spawn_register [of "eg_sup g" "sw_addr sp" "sw_id sp"] f no_entry [OF ok] sp Some
        by (simp add: create_window_def Let_def engine_parts fresh_spawn_def)
    qed
  qed
qed (simp add: create_window_def)

lemma add_spawned_simps [simp]:
  "eg_sessions (add_spawned sp m g) = eg_sessions g" "eg_panes (add_spawned sp m g) = eg_panes g"
  "eg_pane_window (add_spawned sp m g) = eg_pane_window g" "eg_window_session (add_spawned sp m g) = eg_window_session g"
  "eg_viewports (add_spawned sp m g) = eg_viewports g" "window_and_session_for_pane (add_spawned sp m g) p = window_and_session_for_pane g p"
  by (simp_all add: add_spawned_def window_and_session_for_pane_def split: option.split)

text \<open>Where the index leads: to an existing window of an existing session that has the pane.\<close>

lemma indexed_window:
  assumes ok: "engine_ok g" and ix: "window_and_session_for_pane g p = Inr (wid, sid)"
  obtains s w where "eg_sessions g sid = Some s" "session_ok sid s" "find (\<lambda>x. wd_id x = wid) (ss_windows s) = Some w"
    "window_ok w" "p \<in> set (leaves (wd_layout w))" "eg_pane_window g p = Some wid" "eg_window_session g wid = Some sid"
    "\<And>q. eg_pane_window g q = Some wid \<longleftrightarrow> q \<in> set (leaves (wd_layout w))"
proof -
  note c = engine_okD(1) [OF ok]
  have i: "eg_pane_window g p = Some wid" "eg_window_session g wid = Some sid"
    using ix by (auto simp: window_and_session_for_pane_def split: option.splits)
  obtain sid' s where s: "eg_sessions g sid' = Some s" "contrib s p wid" "eg_window_session g wid = Some sid'"
    by (rule core_pwi_E [OF c i(1)])
  have s': "eg_sessions g sid = Some s" using s i by simp
  have sok: "session_ok sid s" by (rule core_session [OF c s'])
  obtain w where w: "find (\<lambda>x. wd_id x = wid) (ss_windows s) = Some w" using find_window_ex [OF contrib_win [OF s(2)]] by blast
  have k: "contrib s q wid \<longleftrightarrow> q \<in> set (leaves (wd_layout w))" for q by (rule contrib_found [OF sok w])
  have "window_ok w" using sok find_window(1) [OF w] by (auto simp: session_ok_def list_all_iff)
  then show ?thesis using that s' sok w s(2) i core_pwi [OF c s' i(2)] k by metis
qed

lemma distinct_expand:
  "distinct ps \<Longrightarrow> new \<notin> set ps \<Longrightarrow> distinct (concat (map (\<lambda>i. if i = p then [p, new] else [i]) ps))"
proof (induction ps)
  case (Cons q ps)
  then show ?case by (cases "p \<in> set ps") auto
qed simp

lemma split_layout_ok:
  assumes ok: "engine_ok g" and ix: "window_and_session_for_pane g p = Inr (wid, sid)"
    and new: "eg_panes g new = None" and sp: "split_layout p o' new wid sid g = Some (Inr policy, g')"
  shows "\<exists>s. g' = put_session sid s g \<and> core_ok ((eg_sessions g)(sid \<mapsto> s)) ((eg_pane_window g)(new \<mapsto> wid)) (eg_window_session g)"
proof -
  obtain s w where s: "eg_sessions g sid = Some s" "session_ok sid s" "find (\<lambda>x. wd_id x = wid) (ss_windows s) = Some w"
    "window_ok w" "p \<in> set (leaves (wd_layout w))" "\<And>q. eg_pane_window g q = Some wid \<longleftrightarrow> q \<in> set (leaves (wd_layout w))"
    using indexed_window [OF ok ix] by metis
  obtain l where l: "split (wd_layout w) p o' new (wd_rows w) (wd_cols w) = Some (Inr l)"
    and g': "g' = put_session sid (map_window wid (\<lambda>x. x\<lparr>wd_layout := l\<rparr>) s) g"
    using sp s(1,3) by (auto simp: split_layout_def split: option.splits sum.splits)
  have wf: "wf_layout (wd_layout w)" "distinct (leaves (wd_layout w))" using s(4) by (auto simp: window_ok_def)
  have free: "eg_pane_window g new = None" using new panes_ok_None [OF engine_okD(2) [OF ok]] by simp
  then have nl: "new \<notin> set (leaves (wd_layout w))" using s(6) [of new] by simp
  have "wf_layout l" "distinct (leaves l)" "set (leaves l) = insert new (set (leaves (wd_layout w)))"
  proof -
    have l': "l = subst_leaf (wd_layout w) p (halves o' p new)" using split_InrD [OF l wf] by simp
    show "wf_layout l" unfolding l' by (intro wf_subst_leaf wf wf_halves)
    have m: "leaves l = concat (map (\<lambda>i. if i = p then [p, new] else [i]) (leaves (wd_layout w)))"
      unfolding l' leaves_subst_leaf leaves_halves ..
    show "set (leaves l) = insert new (set (leaves (wd_layout w)))" using s(5) unfolding m by auto
    show "distinct (leaves l)" unfolding m by (rule distinct_expand [OF wf(2) nl])
  qed
  then have "window_ok (w\<lparr>wd_layout := l\<rparr>)" using s(4) by (simp add: window_ok_def)
  then have "core_ok ((eg_sessions g)(sid \<mapsto> map_window wid (\<lambda>x. x\<lparr>wd_layout := l\<rparr>) s)) ((eg_pane_window g)(new \<mapsto> wid)) (eg_window_session g)"
    using s(6) free \<open>set (leaves l) = _\<close> by (intro core_relayout [OF engine_okD(1) [OF ok] s(1,3)]) auto
  with g' show ?thesis by blast
qed


lemma split_finish_keeps:
  assumes ok: "engine_ok g" and f: "fresh_spawn g sp" and g': "g' = put_session sid s (add_spawned sp m g)"
    and c: "core_ok ((eg_sessions g)(sid \<mapsto> s)) ((eg_pane_window g)(sw_id sp \<mapsto> wid)) (eg_window_session g)"
  obtains snap h where "split_finish pw env sp policy wid sid g' = Some (snap, h)" "engine_ok h" "sup_path pw g h"
proof -
  obtain snap h where h: "split_finish pw env sp policy wid sid g' = Some (snap, h)"
    by (simp add: split_finish_def g' Let_def engine_parts)
  moreover have "engine_ok h" using h c panes_ok_live [OF engine_okD(2) [OF ok]] engine_okD(3) [OF ok]
    by (auto simp: split_finish_def g' Let_def engine_parts engine_ok_def)
  moreover have "sup_path pw g h"
    using h path_spawn_register [of "eg_sup g" "sw_addr sp" "sw_id sp"] f no_entry [OF ok]
    by (auto simp: split_finish_def g' Let_def engine_parts fresh_spawn_def)
  ultimately show ?thesis using that by blast
qed

lemma split_layout_returns:
  assumes ok: "engine_ok g" and ix: "window_and_session_for_pane g p = Inr (wid, sid)"
  shows "split_layout p o' new wid sid g \<noteq> None"
proof -
  obtain s w where s: "eg_sessions g sid = Some s" "find (\<lambda>x. wd_id x = wid) (ss_windows s) = Some w" "window_ok w"
    using indexed_window [OF ok ix] by metis
  have wf: "wf_layout (wd_layout w)" "distinct (leaves (wd_layout w))" "wd_rows w \<le> u16_max" "wd_cols w \<le> u16_max"
    using s(3) by (auto simp: window_ok_def)
  have "split (wd_layout w) p o' new (wd_rows w) (wd_cols w) \<noteq> None"
    by (simp add: split_value [OF wf] Let_def)
  then show ?thesis using s by (auto simp: split_layout_def split: option.splits sum.splits)
qed

lemma split_layout_err: "split_layout p o' new wid sid g = Some (Inl e, g') \<Longrightarrow> g' = g"
  by (auto simp: split_layout_def split: option.splits sum.splits)

lemma split_pane_keeps:
  assumes ok: "engine_ok g" and "\<And>sp. spawn = Inr sp \<Longrightarrow> fresh_spawn g sp"
  obtains res g' where "split_pane pw env p o' m spawn g = Some (res, g')" "engine_ok g'" "sup_path pw g g'"
proof (cases spawn)
  case (Inl e)
  then show ?thesis using that ok by (simp add: split_pane_def)
next
  case sp: (Inr sp)
  have f: "fresh_spawn g sp" using assms(2) sp by simp
  define g1 where "g1 = add_spawned sp (m\<lparr>pm_rows := DEFAULT_ROWS, pm_cols := DEFAULT_COLS\<rparr>) g"
  have k1: "engine_ok g1" "sup_path pw g g1" using add_spawned_keeps [OF f] ok by (auto simp: engine_keeps_def g1_def)
  have u: "split_pane pw env p o' m spawn g = (case window_and_session_for_pane g1 p of
             Inl e \<Rightarrow> Some (Inl e, g1)
           | Inr (wid, sid) \<Rightarrow>
              (case split_layout p o' (sw_id sp) wid sid g1 of
                 None \<Rightarrow> None
               | Some (Inl e, g2) \<Rightarrow> Some (Inl e, g2)
               | Some (Inr policy, g2) \<Rightarrow>
                   map_option (\<lambda>(snap, g3). (Inr snap, g3)) (split_finish pw env sp policy wid sid g2)))"
    unfolding split_pane_def sp g1_def Let_def sum.case ..
  show ?thesis
  proof (cases "window_and_session_for_pane g1 p")
    case (Inl e)
    then show ?thesis using that u k1 by simp
  next
    case (Inr ws)
    obtain wid sid where ix: "window_and_session_for_pane g1 p = Inr (wid, sid)" using Inr by (cases ws) simp
    obtain r g2 where l: "split_layout p o' (sw_id sp) wid sid g1 = Some (r, g2)"
      using split_layout_returns [OF k1(1) ix, of o' "sw_id sp"] by fast
    show ?thesis
    proof (cases r)
      case (Inl e)
      then show ?thesis using that u ix l split_layout_err [of p o' "sw_id sp" wid sid g1 e g2] k1 by simp
    next
      case (Inr policy)
      have "eg_panes g1 (sw_id sp) = None" using f by (simp add: fresh_spawn_def g1_def)
      from split_layout_ok [OF k1(1) ix this l [unfolded Inr]] obtain s where
        s: "g2 = put_session sid s g1" "core_ok ((eg_sessions g1)(sid \<mapsto> s)) ((eg_pane_window g1)(sw_id sp \<mapsto> wid)) (eg_window_session g1)"
        by blast
      obtain snap h where "split_finish pw env sp policy wid sid g2 = Some (snap, h)" "engine_ok h" "sup_path pw g h"
        using split_finish_keeps [OF ok f s(1) [unfolded g1_def], of wid pw env policy] s(2) by (auto simp: g1_def)
      then show ?thesis using that u ix l Inr by simp
    qed
  qed
qed


subsection \<open>Closing and killing\<close>

lemma drop_pane_simps [simp]:
  "eg_sessions (drop_pane env p g) = eg_sessions g" "eg_pane_window (drop_pane env p g) = eg_pane_window g"
  "eg_window_session (drop_pane env p g) = eg_window_session g" "eg_viewports (drop_pane env p g) = eg_viewports g"
  "eg_panes (drop_pane env p g) = (eg_panes g)(p := None)" "links (eg_sup (drop_pane env p g)) = (links (eg_sup g))(p := None)"
  "eg_saved (drop_pane env p g) = eg_saved g"
  by (auto simp: drop_pane_def on_sup_def Let_def split: option.splits pane_entry.splits)

lemma drop_pane_path: "sup_path pw g (drop_pane env p g)"
proof -
  have f: "world_step pw (eg_sup g) (forget (eg_sup g) p)" by (rule world_step.forget)
  show ?thesis
  proof (cases "eg_panes g p")
    case (Some e)
    show ?thesis
    proof (cases e)
      case (LivePane r)
      show ?thesis
      proof (cases "sn_heap (forget (eg_sup g) p) r")
        case None
        with Some LivePane f show ?thesis by (simp add: drop_pane_def on_sup_def pane_at_def r_into_rtranclp Let_def)
      next
        case h: (Some pp)
        have "world_step pw (forget (eg_sup g) p) ((forget (eg_sup g) p)\<lparr>sn_heap :=
            (sn_heap (forget (eg_sup g) p))(r \<mapsto> snd (kill (oe_kill env p) pp))\<rparr>)" by (rule world_step.killed [OF h])
        then have "(world_step pw)\<^sup>*\<^sup>* (eg_sup g) ((forget (eg_sup g) p)\<lparr>sn_heap :=
            (sn_heap (forget (eg_sup g) p))(r \<mapsto> snd (kill (oe_kill env p) pp))\<rparr>)"
          using converse_rtranclp_into_rtranclp [where r = "world_step pw", OF f] by blast
        then show ?thesis using f Some LivePane h by (simp add: drop_pane_def on_sup_def pane_at_def r_into_rtranclp Let_def)
      qed
    qed (use Some f in \<open>simp add: drop_pane_def on_sup_def r_into_rtranclp Let_def\<close>)
  qed (use f in \<open>simp add: drop_pane_def on_sup_def r_into_rtranclp Let_def\<close>)
qed

lemma drop_panes_simps [simp]:
  "eg_sessions (fold (drop_pane env) ps g) = eg_sessions g" "eg_pane_window (fold (drop_pane env) ps g) = eg_pane_window g"
  "eg_window_session (fold (drop_pane env) ps g) = eg_window_session g" "eg_viewports (fold (drop_pane env) ps g) = eg_viewports g"
  "eg_saved (fold (drop_pane env) ps g) = eg_saved g"
  by (induction ps arbitrary: g) auto

lemma drop_panes_maps:
  "eg_panes (fold (drop_pane env) ps g) = (\<lambda>p. if p \<in> set ps then None else eg_panes g p)"
  "links (eg_sup (fold (drop_pane env) ps g)) = (\<lambda>p. if p \<in> set ps then None else links (eg_sup g) p)"
  by (induction ps arbitrary: g) (auto simp: fun_eq_iff)

lemma drop_panes_path: "sup_path pw g (fold (drop_pane env) ps g)"
proof (induction ps arbitrary: g)
  case (Cons p ps)
  show ?case using rtranclp_trans [OF drop_pane_path [of pw g env p] Cons.IH] by simp
qed simp

lemma remove_panes_simps:
  "eg_pane_window (fold remove_pane ps g) = (\<lambda>p. if p \<in> set ps then None else eg_pane_window g p)"
  "eg_window_session (fold remove_pane ps g) = eg_window_session g" "eg_sessions (fold remove_pane ps g) = eg_sessions g"
  "eg_panes (fold remove_pane ps g) = eg_panes g" "eg_sup (fold remove_pane ps g) = eg_sup g"
  "eg_viewports (fold remove_pane ps g) = eg_viewports g" "eg_saved (fold remove_pane ps g) = eg_saved g"
  by (induction ps arbitrary: g) (auto simp: remove_pane_def fun_eq_iff)

lemma remove_windows_simps:
  "eg_window_session (fold remove_window ws g) = (\<lambda>w. if w \<in> set ws then None else eg_window_session g w)"
  "eg_pane_window (fold remove_window ws g) = eg_pane_window g" "eg_sessions (fold remove_window ws g) = eg_sessions g"
  "eg_panes (fold remove_window ws g) = eg_panes g" "eg_sup (fold remove_window ws g) = eg_sup g"
  "eg_viewports (fold remove_window ws g) = eg_viewports g" "eg_saved (fold remove_window ws g) = eg_saved g"
  by (induction ws arbitrary: g) (auto simp: remove_window_def fun_eq_iff)

lemma panes_ok_restrict:
  "panes_ok panes pwi lk \<Longrightarrow> panes_ok (\<lambda>p. if p \<in> A then None else panes p) (\<lambda>p. if p \<in> A then None else pwi p)
     (\<lambda>p. if p \<in> A then None else lk p)"
  by (auto simp: panes_ok_def link_of_def fun_eq_iff dom_def split: if_splits)

lemma kill_session_keeps: "engine_keeps pw g (snd (kill_session env sid g))"
proof (cases "eg_sessions g sid")
  case (Some s)
  let ?g = "snd (kill_session env sid g)"
  have w: "set (map wd_id (ss_windows s)) = win_ids s" by (simp add: win_ids_def)
  show ?thesis
  proof (rule engine_keepsI)
    assume ok: "engine_ok g"
    show "engine_ok ?g" using core_remove [OF engine_okD(1) [OF ok] Some] panes_ok_restrict [OF engine_okD(2) [OF ok]] engine_okD(3) [OF ok]
      by (simp add: kill_session_def Some Let_def kill_index_def remove_panes_simps remove_windows_simps engine_ok_def drop_panes_maps w
          del: set_map cong: if_cong)
    have "sup_path pw (kill_index s (g\<lparr>eg_sessions := (eg_sessions g)(sid := None)\<rparr>)) ?g"
      using drop_panes_path by (simp add: kill_session_def Some Let_def)
    then show "sup_path pw g ?g" by (simp add: kill_index_def remove_panes_simps remove_windows_simps)
  qed
qed (simp add: kill_session_def)

lemma close_layout_ok:
  assumes ok: "engine_ok g" and ix: "window_and_session_for_pane g p = Inr (wid, sid)"
  obtains out g' where "close_layout p wid sid g = Some (Inr out, g')"
    "core_ok (eg_sessions g') ((eg_pane_window g)(p := None)) (case cp_window_closed out of None \<Rightarrow> eg_window_session g | Some (w, _) \<Rightarrow> (eg_window_session g)(w := None))"
    "\<exists>sess. g' = g\<lparr>eg_sessions := sess\<rparr>"
proof -
  note c = engine_okD(1) [OF ok]
  obtain s w where s: "eg_sessions g sid = Some s" "session_ok sid s" "find (\<lambda>x. wd_id x = wid) (ss_windows s) = Some w"
    "window_ok w" "p \<in> set (leaves (wd_layout w))" "\<And>q. eg_pane_window g q = Some wid \<longleftrightarrow> q \<in> set (leaves (wd_layout w))"
    using indexed_window [OF ok ix] by metis
  have wf: "wf_layout (wd_layout w)" "distinct (leaves (wd_layout w))" using s(4) by (auto simp: window_ok_def)
  have wid: "wd_id w = wid" by (rule find_window(2) [OF s(3)])
  show ?thesis
  proof (cases "wd_layout w = Leaf p")
    case False
    obtain l where l: "remove (wd_layout w) p = Some (Collapsed l)" "wf_layout l" "leaves l = filter (\<lambda>i. i \<noteq> p) (leaves (wd_layout w))"
      using remove_present [OF wf s(5) False] by blast
    have "window_ok (w\<lparr>wd_layout := l\<rparr>)" using s(4) l wf by (simp add: window_ok_def)
    then have "core_ok ((eg_sessions g)(sid \<mapsto> map_window wid (\<lambda>x. x\<lparr>wd_layout := l\<rparr>) s)) ((eg_pane_window g)(p := None)) (eg_window_session g)"
      using s(5,6) l(3) by (intro core_relayout [OF c s(1,3)]) auto
    moreover obtain v vs where "ss_windows (map_window wid (\<lambda>x. x\<lparr>wd_layout := l\<rparr>) s) = v # vs"
      using map_window_ok [OF s(2,3), of "\<lambda>x. x\<lparr>wd_layout := l\<rparr>"] \<open>window_ok (w\<lparr>wd_layout := l\<rparr>)\<close>
      by (cases "ss_windows (map_window wid (\<lambda>x. x\<lparr>wd_layout := l\<rparr>) s)") (auto simp: session_ok_def)
    ultimately show ?thesis using that s(1,3) l(1)
      by (auto simp: close_layout_def Let_def put_session_def)
  next
    case leaf: True
    have r: "remove (wd_layout w) p = Some WindowEmpty" using leaf by simp
    show ?thesis
    proof (cases "remove_first (\<lambda>x. wd_id x = wid) (ss_windows s)")
      case (Cons v vs)
      then show ?thesis using that s(1,3) r wid core_drop_window [OF c s(1,3) leaf Cons]
        by (auto simp: close_layout_def Let_def put_session_def)
    next
      case Nil
      have d: "distinct (map wd_id (ss_windows s))" using s(2) by (simp add: session_ok_def)
      have "set (ss_windows s) = {w}" using set_remove_first [OF d s(3)] Nil find_window(1) [OF s(3)] by auto
      then have "set (session_panes s) = {p}" "win_ids s = {wid}" using leaf wid by (auto simp: session_panes_def win_ids_def)
      moreover have "(\<lambda>q. if q = x then None else m q) = m(x := None)" for x :: uuid and m :: "uuid \<Rightarrow> uuid option" by auto
      ultimately have "core_ok ((eg_sessions g)(sid := None)) ((eg_pane_window g)(p := None)) ((eg_window_session g)(wid := None))"
        using core_remove [OF c s(1)] by simp
      with Nil that s(1,3) r wid show ?thesis by (auto simp: close_layout_def Let_def)
    qed
  qed
qed

lemma close_pane_keeps:
  assumes ok: "engine_ok g"
  obtains res g' where "close_pane env p g = Some (res, g')" "engine_ok g'" "sup_path pw g g'"
proof (cases "window_and_session_for_pane g p")
  case (Inl e)
  then show ?thesis using that ok by (simp add: close_pane_def)
next
  case (Inr ws)
  obtain wid sid where ix: "window_and_session_for_pane g p = Inr (wid, sid)" using Inr by (cases ws) simp
  obtain out g1 sess where c: "close_layout p wid sid g = Some (Inr out, g1)"
    "core_ok (eg_sessions g1) ((eg_pane_window g)(p := None)) (case cp_window_closed out of None \<Rightarrow> eg_window_session g | Some (w, _) \<Rightarrow> (eg_window_session g)(w := None))"
    "g1 = g\<lparr>eg_sessions := sess\<rparr>"
    using close_layout_ok [OF ok ix] by metis
  define g2 where "g2 = (if cp_session_closed out \<noteq> None then delete_record sid g1 else persist_session env sid g1)"
  define g4 where "g4 = (case cp_window_closed out of Some (w, _) \<Rightarrow> remove_window w (remove_pane p g2) | None \<Rightarrow> remove_pane p g2)"
  have e: "close_pane env p g = Some (Inr out, drop_pane env p g4)"
    unfolding close_pane_def ix c(1) Let_def g4_def g2_def sum.case option.case prod.case ..
  have g4: "eg_sup g4 = eg_sup g" "eg_panes g4 = eg_panes g" "eg_viewports g4 = eg_viewports g" "eg_sessions g4 = eg_sessions g1"
    "eg_pane_window g4 = (eg_pane_window g)(p := None)"
    "eg_window_session g4 = (case cp_window_closed out of None \<Rightarrow> eg_window_session g | Some (w, _) \<Rightarrow> (eg_window_session g)(w := None))"
    by (auto simp: g4_def g2_def c(3) remove_window_def remove_pane_def split: option.splits)
  have "engine_ok (drop_pane env p g4)" using c(2) panes_ok_del [OF engine_okD(2) [OF ok]] engine_okD(3) [OF ok]
    by (simp add: engine_ok_def g4)
  moreover have "sup_path pw g (drop_pane env p g4)" using drop_pane_path [of pw g4 env p] g4(1) by simp
  ultimately show ?thesis using that e by blast
qed


subsection \<open>Starting and supervising\<close>

text \<open>An operation that only changes the supervisor, by one of its steps that keeps the links.\<close>

lemma sup_only_keeps:
  assumes "world_step pw (eg_sup g) sn" and "links sn = links (eg_sup g)"
  shows "engine_keeps pw g (g\<lparr>eg_sup := sn\<rparr>)"
  using assms by (simp add: engine_keeps_def engine_ok_def r_into_rtranclp)

lemma start_inner_keeps:
  assumes "\<And>sp. spawn = Inr sp \<Longrightarrow> sn_heap (eg_sup g) (sw_addr sp) = None \<and> sw_id sp = p"
  shows "engine_keeps pw g (snd (start_pane_inner pw env p fallback spawn g))"
proof (cases "eg_panes g p")
  case (Some e)
  show ?thesis
  proof (cases e)
    case (LivePane r)
    let ?env = "\<lparr>re_now = oe_now env, re_unit = oe_unit env, re_start = oe_start env p\<rparr>"
    have "engine_keeps pw g (g\<lparr>eg_sup := snd (start pw ?env (eg_sup g) p)\<rparr>)"
      by (rule sup_only_keeps) (auto intro: world_step.start)
    then show ?thesis by (simp add: start_pane_inner_def Some LivePane case_prod_beta)
  next
    case (DeadPane d)
    show ?thesis
    proof (cases spawn)
      case sp: (Inr sp)
      have f: "sn_heap (eg_sup g) (sw_addr sp) = None" "sw_id sp = p" using assms [OF sp] by auto
      show ?thesis
      proof (rule engine_keepsI)
        assume ok: "engine_ok g"
        show "engine_ok (snd (start_pane_inner pw env p fallback spawn g))"
          using ok panes_ok_adopt [OF engine_okD(2) [OF ok]] Some
          by (simp add: start_pane_inner_def DeadPane sp Let_def engine_parts engine_ok_def)
        show "sup_path pw g (snd (start_pane_inner pw env p fallback spawn g))"
          using path_spawn_adopt [OF f(1) dead_entry_pane [OF ok]] Some f(2)
          by (simp add: start_pane_inner_def DeadPane sp Let_def engine_parts)
      qed
    qed (simp add: start_pane_inner_def Some DeadPane)
  qed
qed (simp add: start_pane_inner_def)

text \<open>The processes a revive spawns live at free addresses, a different one for each pane.\<close>

definition spawns_apart :: "engine \<Rightarrow> (uuid \<Rightarrow> string + spawned) \<Rightarrow> uuid list \<Rightarrow> bool" where
  "spawns_apart g spawn ps \<longleftrightarrow>
     (\<forall>p\<in>set ps. \<forall>sp. spawn p = Inr sp \<longrightarrow> sn_heap (eg_sup g) (sw_addr sp) = None \<and> sw_id sp = p)
   \<and> (\<forall>p\<in>set ps. \<forall>q\<in>set ps. \<forall>sp sq. p \<noteq> q \<longrightarrow> spawn p = Inr sp \<longrightarrow> spawn q = Inr sq \<longrightarrow> sw_addr sp \<noteq> sw_addr sq)"

lemma spawns_apartD:
  assumes "spawns_apart g spawn ps"
  shows "p \<in> set ps \<Longrightarrow> spawn p = Inr sp \<Longrightarrow> sn_heap (eg_sup g) (sw_addr sp) = None"
    "p \<in> set ps \<Longrightarrow> spawn p = Inr sp \<Longrightarrow> sw_id sp = p"
    "p \<in> set ps \<Longrightarrow> q \<in> set ps \<Longrightarrow> p \<noteq> q \<Longrightarrow> spawn p = Inr sp \<Longrightarrow> spawn q = Inr sq \<Longrightarrow> sw_addr sp \<noteq> sw_addr sq"
  using assms unfolding spawns_apart_def by blast+

lemma spawns_apart_mono:
  assumes "spawns_apart g spawn ps" and "set qs \<subseteq> set ps"
    and "\<And>q sq. q \<in> set qs \<Longrightarrow> spawn q = Inr sq \<Longrightarrow> sn_heap (eg_sup g') (sw_addr sq) = None"
  shows "spawns_apart g' spawn qs"
  unfolding spawns_apart_def
proof (intro conjI ballI allI impI)
  show "sn_heap (eg_sup g') (sw_addr sp) = None" "sw_id sp = p" if "p \<in> set qs" "spawn p = Inr sp" for p sp
    using that assms(2,3) spawns_apartD(2) [OF assms(1)] by auto
  show "sw_addr sp \<noteq> sw_addr sq" if "p \<in> set qs" "q \<in> set qs" "p \<noteq> q" "spawn p = Inr sp" "spawn q = Inr sq" for p q sp sq
    using spawns_apartD(3) [OF assms(1) _ _ that(3-5)] that(1,2) assms(2) by blast
qed

lemma start_heap_free:
  assumes "sn_heap (eg_sup g) r = None" and "\<And>sp. spawn = Inr sp \<Longrightarrow> sw_addr sp \<noteq> r" and ok: "engine_ok g" and "world_inv pw (eg_sup g)"
  shows "sn_heap (eg_sup (snd (start_pane_inner pw env p fallback spawn g))) r = None"
proof (cases "eg_panes g p")
  case (Some e)
  show ?thesis
  proof (cases e)
    case (LivePane a)
    obtain en where en: "sn_entries (eg_sup g) p = Some en" "en_pane en = Some a"
      using panes_ok_link [OF engine_okD(2) [OF ok], of p] Some LivePane by (auto simp: links_def link_of_def)
    have "a \<noteq> r" using world_inv_entry [OF assms(4) en(1)] en(2) assms(1) by (auto simp: entry_ok_def)
    then have "sn_heap (snd (start pw renv (eg_sup g) p)) r = None" for renv
      using en assms(1) by (auto simp: Supervision.start_def do_respawn_def put_def mark_dirty_def Let_def split: sum.splits option.splits prod.splits)
    then show ?thesis using assms(1) by (simp add: start_pane_inner_def Some LivePane case_prod_beta)
  next
    case (DeadPane d)
    have "sn_heap (adopt_started pw now unit sn a i pol) r = sn_heap sn r" if "a \<noteq> r" for now unit sn a i pol
      using that by (auto simp: adopt_started_def install_hook_def put_def account_exit_def mark_dirty_def set_exit_hook_def Let_def split: option.splits prod.splits)
    then show ?thesis using assms by (cases spawn) (auto simp: start_pane_inner_def Some DeadPane engine_parts Let_def)
  qed
qed (use assms in \<open>simp add: start_pane_inner_def\<close>)


lemma start_all_keeps:
  assumes "engine_ok g" and "world_inv pw (eg_sup g)" and "spawns_apart g spawn ps" and "distinct ps"
  shows "engine_ok (snd (start_all pw env fb spawn ps g)) \<and> sup_path pw g (snd (start_all pw env fb spawn ps g))"
  using assms
proof (induction ps arbitrary: g)
  case (Cons p ps)
  define g1 where "g1 = snd (start_pane_inner pw env p fb (spawn p) g)"
  note apart = spawns_apartD [OF Cons.prems(3)]
  have "engine_keeps pw g g1" unfolding g1_def by (rule start_inner_keeps) (use apart(1,2) [of p] in simp)
  then have k: "engine_ok g1" "sup_path pw g g1" using Cons.prems(1) by (auto simp: engine_keeps_def)
  have w: "world_inv pw (eg_sup g1)" by (rule supervisor.steps_inv [OF k(2) Cons.prems(2)])
  have "spawns_apart g1 spawn ps"
  proof (rule spawns_apart_mono [OF Cons.prems(3)])
    show "sn_heap (eg_sup g1) (sw_addr sq) = None" if q: "q \<in> set ps" "spawn q = Inr sq" for q sq
    proof -
      have "p \<noteq> q" using Cons.prems(4) q(1) by auto
      then show ?thesis unfolding g1_def using q apart(1) [of q sq] apart(3) [of p q]
        by (intro start_heap_free [OF _ _ Cons.prems(1,2)]) simp_all
    qed
  qed auto
  then have ih: "engine_ok (snd (start_all pw env fb spawn ps g1))" "sup_path pw g1 (snd (start_all pw env fb spawn ps g1))"
    using Cons.IH [OF k(1) w] Cons.prems(4) by auto
  have "snd (start_all pw env fb spawn (p # ps) g) = snd (start_all pw env fb spawn ps g1)"
    by (simp add: g1_def case_prod_beta Let_def split: sum.split)
  then show ?case using ih(1) rtranclp_trans [OF k(2) ih(2)] by simp
qed simp

lemma concat_distinct:
  assumes "distinct (map wd_id ws)" and "\<And>w. w \<in> set ws \<Longrightarrow> distinct (leaves (wd_layout w))"
    and "\<And>p v w. v \<in> set ws \<Longrightarrow> w \<in> set ws \<Longrightarrow> p \<in> set (leaves (wd_layout v)) \<Longrightarrow> p \<in> set (leaves (wd_layout w)) \<Longrightarrow> wd_id v = wd_id w"
  shows "distinct (concat (map (\<lambda>w. leaves (wd_layout w)) ws))"
  using assms
proof (induction ws)
  case (Cons w ws)
  have "set (leaves (wd_layout w)) \<inter> set (leaves (wd_layout v)) = {}" if "v \<in> set ws" for v
  proof -
    have "wd_id w \<notin> wd_id ` set ws" using Cons.prems(1) by simp
    then have "wd_id v \<noteq> wd_id w" using imageI [OF that, of wd_id] by metis
    then show ?thesis using Cons.prems(3) [of w v] that by auto
  qed
  then have "set (leaves (wd_layout w)) \<inter> set (concat (map (\<lambda>w. leaves (wd_layout w)) ws)) = {}" by auto
  moreover have "distinct (concat (map (\<lambda>w. leaves (wd_layout w)) ws))"
  proof (rule Cons.IH)
    show "wd_id v = wd_id x" if "v \<in> set ws" "x \<in> set ws" "p \<in> set (leaves (wd_layout v))" "p \<in> set (leaves (wd_layout x))" for p v x
      by (rule Cons.prems(3) [of v x p]) (use that in simp_all)
  qed (use Cons.prems(1,2) in simp_all)
  ultimately show ?case using Cons.prems(2) [of w] by simp
qed simp

lemma session_panes_distinct:
  assumes c: "core_ok sess pwi wsi" and s: "sess sid = Some s"
  shows "distinct (session_panes s)"
  unfolding session_panes_def
proof (rule concat_distinct)
  have ok: "session_ok sid s" by (rule core_session [OF c s])
  then show "distinct (map wd_id (ss_windows s))" by (simp add: session_ok_def)
  show "distinct (leaves (wd_layout w))" if "w \<in> set (ss_windows s)" for w
    using ok that by (auto simp: session_ok_def list_all_iff window_ok_def)
  show "wd_id v = wd_id w" if "v \<in> set (ss_windows s)" "w \<in> set (ss_windows s)" "p \<in> set (leaves (wd_layout v))"
    "p \<in> set (leaves (wd_layout w))" for p v w
    using contrib_uniq [OF c s _ s, of p "wd_id v" "wd_id w"] that by (auto simp: contrib_def)
qed

lemma revive_keeps:
  assumes ok: "engine_ok g" and w: "world_inv pw (eg_sup g)"
    and sp: "\<And>s. eg_sessions g sid = Some s \<Longrightarrow> spawns_apart g spawn (session_panes s)"
  shows "engine_ok (snd (revive_session pw env prepare spawn sid g)) \<and> sup_path pw g (snd (revive_session pw env prepare spawn sid g))"
proof (cases "eg_sessions g sid")
  case (Some s)
  let ?ids = "filter (\<lambda>p. \<not> held g p) (session_panes s)"
  have "spawns_apart g spawn ?ids"
    by (rule spawns_apart_mono [OF sp [OF Some]]) (use spawns_apartD(1) [OF sp [OF Some]] in auto)
  moreover have "distinct ?ids" using session_panes_distinct [OF engine_okD(1) [OF ok] Some] by simp
  ultimately have k: "engine_ok (snd (start_all pw env fb spawn ?ids g)) \<and> sup_path pw g (snd (start_all pw env fb spawn ?ids g))" for fb
    by (rule start_all_keeps [OF ok w])
  have "snd (revive_session pw env prepare spawn sid g) \<in> {g, persist_session env sid (snd (start_all pw env (ss_default_restart_policy s) spawn ?ids g))}"
    unfolding revive_session_def Some Let_def case_prod_beta by (simp split: option.split)
  then show ?thesis using k [of "ss_default_restart_policy s"] ok by fastforce
qed (use ok in \<open>simp add: revive_session_def\<close>)

lemma supervised_op_keeps:
  assumes "world_step pw (eg_sup g) (snd (f (eg_sup g)))" and "links (snd (f (eg_sup g))) = links (eg_sup g)"
  shows "engine_keeps pw g (snd (supervised_op env p f g))"
  using sup_only_keeps [OF assms] by (auto simp: supervised_op_def Let_def case_prod_beta split: sum.splits)

lemma stop_keeps: "engine_keeps pw g (snd (stop_pane env p g))"
  unfolding stop_pane_def by (rule supervised_op_keeps) (auto intro: world_step.stop)

lemma reset_keeps: "engine_keeps pw g (snd (reset_restart_budget env p g))"
  unfolding reset_restart_budget_def by (rule supervised_op_keeps) (auto intro: world_step.budget)

lemma set_policy_keeps: "engine_keeps pw g (snd (set_restart_policy env p policy g))"
proof -
  have "engine_keeps pw g (snd (supervised_op env p (\<lambda>sn. sn_set_policy sn p policy (oe_now env)) g))"
    by (rule supervised_op_keeps) (auto intro: world_step.policy)
  then show ?thesis by (auto simp: set_restart_policy_def split: prod.splits sum.splits option.splits)
qed

lemma start_pane_keeps:
  assumes "\<And>sp. spawn = Inr sp \<Longrightarrow> sn_heap (eg_sup g) (sw_addr sp) = None \<and> sw_id sp = p"
  shows "engine_keeps pw g (snd (start_pane pw env p spawn g))"
  using start_inner_keeps [of spawn g p pw env default_policy, OF assms] 
  by (auto simp: start_pane_def split: sum.splits prod.splits)

lemma restart_pane_keeps:
  assumes "\<And>sp. spawn = Inr sp \<Longrightarrow> sn_heap (eg_sup g) (sw_addr sp) = None \<and> sw_id sp = p"
  shows "engine_keeps pw g (snd (restart_pane pw env p reset spawn g))"
proof -
  let ?env = "\<lparr>re_now = oe_now env, re_unit = oe_unit env, re_start = oe_start env p\<rparr>"
  have "engine_keeps pw g (g\<lparr>eg_sup := snd (sn_restart pw ?env (eg_sup g) p reset (oe_kill env p))\<rparr>)"
    by (rule sup_only_keeps) (auto intro: world_step.restart)
  with start_inner_keeps [of spawn g p pw env default_policy, OF assms] show ?thesis
    by (auto simp: restart_pane_def Let_def case_prod_beta split: sum.splits prod.splits option.splits pane_entry.splits)
qed

lemma set_policies_path:
  "(world_step pw)\<^sup>*\<^sup>* sn (snd (set_policies now policy ps sn)) \<and> links (snd (set_policies now policy ps sn)) = links sn"
proof (induction ps arbitrary: sn)
  case (Cons p ps)
  obtain res sn1 where q: "sn_set_policy sn p policy now = (res, sn1)" by force
  have "world_step pw sn sn1" using world_step.policy [of pw sn p policy now] q by simp
  moreover have "links sn1 = links sn" using links_requests(2) [of sn p policy now] q by simp
  ultimately show ?case using Cons.IH [of sn1] q
    by (cases res) (auto intro: converse_rtranclp_into_rtranclp)
qed simp

lemma set_session_policy_keeps: "engine_keeps pw g (snd (set_session_restart_policy env sid policy b g))"
proof (cases "eg_sessions g sid")
  case (Some s)
  let ?s = "s\<lparr>ss_default_restart_policy := policy\<rparr>"
  have c: "engine_ok (put_session sid ?s g)" if ok: "engine_ok g"
    using core_same_shape [OF engine_okD(1) [OF ok] Some, of ?s] core_session [OF engine_okD(1) [OF ok] Some] ok
    by (auto simp: engine_ok_def put_session_def session_ok_def win_ids_def contrib_def)
  have p: "engine_keeps pw g ((put_session sid ?s g)\<lparr>eg_sup := snd (set_policies now policy ps (eg_sup (put_session sid ?s g)))\<rparr>)" for now ps
    using c set_policies_path [of pw "eg_sup g" now policy ps] by (simp add: engine_keeps_def engine_ok_def put_session_def)
  have "engine_keeps pw g (put_session sid ?s g)" using c by (simp add: engine_keeps_def put_session_def)
  then show ?thesis using p Some
    by (cases b) (auto simp: set_session_restart_policy_def Let_def case_prod_beta split: sum.splits)
qed (auto simp: set_session_restart_policy_def split: sum.splits)

lemma persist_fold_simps: "eg_sup (fold (persist_session env) is g) = eg_sup g" "engine_ok (fold (persist_session env) is g) = engine_ok g"
  by (induction "is" arbitrary: g) auto

lemma tick_keeps:
  assumes "supervise_tick pw env order dirty g = Some (d, g')" and "distinct order" and "set order = dom (sn_entries (eg_sup g))"
  shows "engine_keeps pw g g'"
proof -
  obtain sn where r: "run_due pw order (oe_now env) (\<lambda>p. \<lparr>re_now = oe_now env, re_unit = oe_unit env, re_start = oe_start env p\<rparr>) (eg_sup g)
      = Some (d, sn)" and g': "g' = persist_dirty env dirty (g\<lparr>eg_sup := sn\<rparr>)"
    using assms(1) by (auto simp: supervise_tick_def split: option.splits)
  have "engine_keeps pw g (g\<lparr>eg_sup := sn\<rparr>)"
    by (rule sup_only_keeps [OF world_step.run [OF assms(2,3) r] links_run_due [OF r]])
  moreover have "engine_keeps pw (g\<lparr>eg_sup := sn\<rparr>) (g\<lparr>eg_sup := snd (take_dirty sn)\<rparr>)"
    using sup_only_keeps [of pw "g\<lparr>eg_sup := sn\<rparr>" "snd (take_dirty sn)"] world_step.drained by simp
  ultimately have "engine_keeps pw g (g\<lparr>eg_sup := snd (take_dirty sn)\<rparr>)" by (rule engine_keeps_trans)
  then show ?thesis unfolding g' by (simp add: persist_dirty_def Let_def on_sup_def engine_keeps_def persist_fold_simps)
qed


subsection \<open>Viewports\<close>

lemma clamp_viewport_range:
  "clamp_viewport r k = (r', k') \<Longrightarrow> MIN_PANE_ROWS \<le> r' \<and> r' \<le> MAX_PANE_ROWS \<and> MIN_PANE_COLS \<le> k' \<and> k' \<le> MAX_PANE_COLS"
  by (auto simp: clamp_viewport_def MIN_PANE_ROWS_def MIN_PANE_COLS_def MAX_PANE_ROWS_def MAX_PANE_COLS_def)

lemma set_assoc_put: "set (assoc_put k v xs) \<subseteq> insert (k, v) (set xs)"
  by (induction k v xs rule: assoc_put.induct) auto

lemma min_list_in: "xs \<noteq> [] \<Longrightarrow> min_list (xs :: nat list) \<in> set xs"
  by (simp add: min_list_Min)

lemma window_size_range:
  assumes "viewports_ok (eg_viewports g)" and "window_size g wid = (r, k)"
  shows "MIN_PANE_ROWS \<le> r \<and> r \<le> MAX_PANE_ROWS \<and> MIN_PANE_COLS \<le> k \<and> k \<le> MAX_PANE_COLS"
proof (cases "eg_viewports g wid")
  case (Some cs)
  show ?thesis
  proof (cases cs)
    case (Cons c cs')
    have "r \<in> (\<lambda>(_, r, _). r) ` set cs" "k \<in> (\<lambda>(_, _, k). k) ` set cs"
      using assms(2) Some Cons min_list_in [of "map (\<lambda>(_, r, _). r) cs"] min_list_in [of "map (\<lambda>(_, _, k). k) cs"]
      by (auto simp: window_size_def)
    then show ?thesis using assms(1) Some unfolding viewports_ok_def by fastforce
  qed (use assms(2) Some in \<open>auto simp: window_size_def DEFAULT_ROWS_def DEFAULT_COLS_def MIN_PANE_ROWS_def
      MIN_PANE_COLS_def MAX_PANE_ROWS_def MAX_PANE_COLS_def\<close>)
qed (use assms(2) in \<open>auto simp: window_size_def DEFAULT_ROWS_def DEFAULT_COLS_def MIN_PANE_ROWS_def
    MIN_PANE_COLS_def MAX_PANE_ROWS_def MAX_PANE_COLS_def\<close>)

lemma resize_leaf_simps [simp]:
  "eg_sessions (resize_leaf env x g) = eg_sessions g" "eg_panes (resize_leaf env x g) = eg_panes g"
  "eg_pane_window (resize_leaf env x g) = eg_pane_window g" "eg_window_session (resize_leaf env x g) = eg_window_session g"
  "eg_viewports (resize_leaf env x g) = eg_viewports g" "eg_sup (resize_leaf env x g) = eg_sup g"
  by (auto simp: resize_leaf_def split: prod.splits option.splits pane_entry.splits)

lemma resize_leaves_simps [simp]:
  "eg_sessions (fold (resize_leaf env) xs g) = eg_sessions g" "eg_panes (fold (resize_leaf env) xs g) = eg_panes g"
  "eg_pane_window (fold (resize_leaf env) xs g) = eg_pane_window g"
  "eg_window_session (fold (resize_leaf env) xs g) = eg_window_session g"
  "eg_viewports (fold (resize_leaf env) xs g) = eg_viewports g" "eg_sup (fold (resize_leaf env) xs g) = eg_sup g"
  by (induction xs arbitrary: g) auto

lemma recompute_keeps:
  assumes ok: "engine_ok g"
  obtains res g' where "recompute_window_geometry env wid g = Some (res, g')" "engine_ok g'" "eg_sup g' = eg_sup g"
proof (cases "eg_window_session g wid")
  case None
  then show ?thesis using that ok by (simp add: recompute_window_geometry_def case_prod_beta Let_def)
next
  case (Some sid)
  note c = engine_okD(1) [OF ok]
  obtain s where s: "eg_sessions g sid = Some s" "wid \<in> win_ids s" using Some c by (auto simp: core_ok_def index_ok_def)
  obtain w where w: "find (\<lambda>x. wd_id x = wid) (ss_windows s) = Some w" using find_window_ex [OF s(2)] by blast
  obtain r k where rk: "window_size g wid = (r, k)" by force
  have b: "r \<le> u16_max" "k \<le> u16_max" using window_size_range [OF engine_okD(3) [OF ok] rk]
    by (auto simp: MAX_PANE_ROWS_def MAX_PANE_COLS_def)
  have sok: "session_ok sid s" by (rule core_session [OF c s(1)])
  then have wok: "window_ok w" using find_window(1) [OF w] by (auto simp: session_ok_def list_all_iff)
  obtain rects where rects: "compute_geometry (wd_layout w) r k = Some rects"
    using compute_geometry_Some [OF _ b] wok unfolding window_ok_def by metis
  let ?f = "\<lambda>x. x\<lparr>wd_rows := r, wd_cols := k\<rparr>"
  have "core_ok ((eg_sessions g)(sid \<mapsto> map_window wid ?f s)) (eg_pane_window g) (eg_window_session g)"
  proof (rule core_same_shape [OF c s(1)])
    have wok': "window_ok (?f w)" using wok b by (simp add: window_ok_def)
    show "session_ok sid (map_window wid ?f s)" by (rule map_window_ok [where f = ?f, OF sok w _ wok']) simp
    show "win_ids (map_window wid ?f s) = win_ids s" by (rule map_window_ids) simp
    show "contrib (map_window wid ?f s) p x = contrib s p x" for p x
      using map_window_contrib [where f = ?f, OF sok w, of p x] contrib_found [OF sok w, of p] by simp
  qed
  then show ?thesis using that ok Some s(1) w rects
    by (simp add: recompute_window_geometry_def rk Let_def put_session_def engine_ok_def)
qed

lemma report_viewport_ok: "engine_ok g \<Longrightarrow> engine_ok (report_viewport wid client rows cols g)"
proof -
  assume ok: "engine_ok g"
  obtain r k where rk: "clamp_viewport rows cols = (r, k)" by force
  have "viewports_ok ((eg_viewports g)(wid \<mapsto> assoc_put client (r, k) cs))"
    if "cs = (case eg_viewports g wid of Some cs \<Rightarrow> cs | None \<Rightarrow> [])" for cs
  proof -
    have "\<And>c r k. (c, r, k) \<in> set cs \<Longrightarrow> MIN_PANE_ROWS \<le> r \<and> r \<le> MAX_PANE_ROWS \<and> MIN_PANE_COLS \<le> k \<and> k \<le> MAX_PANE_COLS"
      using that engine_okD(3) [OF ok] by (auto simp: viewports_ok_def split: option.splits)
    then show ?thesis using set_assoc_put [of client "(r, k)" cs] clamp_viewport_range [OF rk] engine_okD(3) [OF ok]
      unfolding viewports_ok_def by auto
  qed
  then show ?thesis using ok rk by (simp add: report_viewport_def engine_ok_def)
qed

lemma unregister_viewport_ok: "engine_ok g \<Longrightarrow> engine_ok (unregister_viewport wid client g)"
  by (auto simp: engine_ok_def unregister_viewport_def viewports_ok_def split: option.splits)

lemma viewport_sup [simp]: "eg_sup (report_viewport wid client rows cols g) = eg_sup g"
  "eg_sup (unregister_viewport wid client g) = eg_sup g"
  by (simp_all add: report_viewport_def unregister_viewport_def split: option.split)


subsection \<open>Loading\<close>

text \<open>A record fits the engine when its ids are its own: new to the engine and used once.\<close>

definition record_window_ok :: "persisted_window_record \<Rightarrow> bool" where
  "record_window_ok w \<longleftrightarrow> wf_layout (to_live_tree (pw_layout w)) \<and> distinct (leaves (to_live_tree (pw_layout w)))"

definition record_fits :: "engine \<Rightarrow> persisted_session_record \<Rightarrow> bool" where
  "record_fits g r \<longleftrightarrow> eg_sessions g (pq_session_id r) = None \<and> pq_windows r \<noteq> []
     \<and> distinct (map pw_id (pq_windows r)) \<and> pq_active_window_id r \<in> pw_id ` set (pq_windows r)
     \<and> list_all record_window_ok (pq_windows r)
     \<and> (\<forall>w\<in>set (pq_windows r). eg_window_session g (pw_id w) = None)
     \<and> (let ps = concat (map (\<lambda>w. leaves (to_live_tree (pw_layout w))) (pq_windows r))
        in distinct ps \<and> (\<forall>p\<in>set ps. eg_panes g p = None))"

lemma leaf_records_ids: "map pp_pane_id (leaf_records t) = leaves (to_live_tree t)"
  by (induction t) (auto simp: map_concat comp_def case_prod_beta intro!: arg_cong [where f = concat])

definition restored_into :: "engine \<Rightarrow> engine \<Rightarrow> uuid list \<Rightarrow> uuid \<Rightarrow> bool" where
  "restored_into g g' ps w \<longleftrightarrow> eg_sessions g' = eg_sessions g \<and> eg_viewports g' = eg_viewports g
     \<and> eg_window_session g' = eg_window_session g \<and> eg_panes g' = eg_panes g
     \<and> eg_pane_window g' = (\<lambda>p. if p \<in> set ps then Some w else eg_pane_window g p)
     \<and> links (eg_sup g') = (\<lambda>p. if p \<in> set ps then Some None else links (eg_sup g) p)"

abbreviation restore_pane :: "(uuid \<Rightarrow> persisted_restart_state option) \<Rightarrow> restart_policy \<Rightarrow> uuid \<Rightarrow> uuid \<Rightarrow> engine \<Rightarrow> engine" where
  "restore_pane per policy w p h \<equiv> on_sup (\<lambda>sn. register_restored sn p (per p) policy) (insert_pane p w h)"

lemma restore_leaves:
  assumes "distinct ps" and "\<And>p. p \<in> set ps \<Longrightarrow> sn_entries (eg_sup g) p = None"
  shows "restored_into g (fold (restore_pane per policy w) ps g) ps w \<and> sup_path pw g (fold (restore_pane per policy w) ps g)"
  using assms
proof (induction ps arbitrary: g)
  case (Cons p ps)
  define h where "h = restore_pane per policy w p g"
  have s: "eg_sup h = register_restored (eg_sup g) p (per p) policy" by (simp add: h_def on_sup_def insert_pane_def)
  have st: "world_step pw (eg_sup g) (eg_sup h)" unfolding s by (rule world_step.restored) (simp add: Cons.prems(2))
  have "sn_entries (eg_sup h) q = None" if "q \<in> set ps" for q
    using that Cons.prems by (auto simp: s register_restored_def put_def)
  then have ih: "restored_into h (fold (restore_pane per policy w) ps h) ps w" "sup_path pw h (fold (restore_pane per policy w) ps h)"
    using Cons.IH [of h] Cons.prems(1) by auto
  have "restored_into g (fold (restore_pane per policy w) ps h) (p # ps) w" using ih(1)
    by (auto simp: restored_into_def s fun_eq_iff) (auto simp: h_def on_sup_def insert_pane_def)
  then show ?case using converse_rtranclp_into_rtranclp [where r = "world_step pw", OF st ih(2)] by (simp add: h_def)
qed (simp add: restored_into_def)

definition live_window :: "persisted_window_record \<Rightarrow> window_state" where
  "live_window w = \<lparr>wd_id = pw_id w, wd_name = pw_name w, wd_layout = to_live_tree (pw_layout w), wd_rows = DEFAULT_ROWS, wd_cols = DEFAULT_COLS\<rparr>"

lemma live_window_simps [simp]: "wd_id (live_window w) = pw_id w" "wd_layout (live_window w) = to_live_tree (pw_layout w)"
  by (simp_all add: live_window_def)

text \<open>What loading a list of windows does to the maps.\<close>

definition windows_loaded :: "uuid \<Rightarrow> persisted_window_record list \<Rightarrow> engine \<Rightarrow> engine \<Rightarrow> bool" where
  "windows_loaded sid ws g g' \<longleftrightarrow> eg_sessions g' = eg_sessions g \<and> eg_viewports g' = eg_viewports g
     \<and> (\<forall>x. eg_window_session g' x = (if x \<in> pw_id ` set ws then Some sid else eg_window_session g x))
     \<and> (\<forall>p x. eg_pane_window g' p = Some x \<longleftrightarrow>
          (\<exists>w\<in>set ws. pw_id w = x \<and> p \<in> set (leaves (to_live_tree (pw_layout w))))
          \<or> eg_pane_window g p = Some x \<and> (\<forall>w\<in>set ws. p \<notin> set (leaves (to_live_tree (pw_layout w)))))
     \<and> panes_ok (eg_panes g') (eg_pane_window g') (links (eg_sup g'))
     \<and> (\<forall>p. (\<forall>w\<in>set ws. p \<notin> set (leaves (to_live_tree (pw_layout w)))) \<longrightarrow> eg_panes g' p = eg_panes g p)
     \<and> (\<forall>w\<in>set ws. \<forall>d\<in>set (leaf_records (pw_layout w)). eg_panes g' (pp_pane_id d) = Some (DeadPane d))"

lemma load_window_ok:
  assumes ok: "panes_ok (eg_panes g) (eg_pane_window g) (links (eg_sup g))"
    and w: "record_window_ok w" and new: "\<And>p. p \<in> set (leaves (to_live_tree (pw_layout w))) \<Longrightarrow> eg_panes g p = None"
  obtains g' where "load_window sid policy w g = (live_window w, g')" "windows_loaded sid [w] g g'" "sup_path pw g g'"
proof -
  let ?l = "to_live_tree (pw_layout w)"
  define panes where "panes = fold insert_dead (leaf_records (pw_layout w)) (eg_panes g)"
  define g1 where "g1 = insert_window (pw_id w) sid (g\<lparr>eg_panes := panes\<rparr>)"
  define per where "per = (\<lambda>p. case panes p of Some (DeadPane r) \<Rightarrow> pp_restart r | _ \<Rightarrow> None)"
  define g' where "g' = fold (restore_pane per policy (pw_id w)) (leaves ?l) g1"
  have e: "load_window sid policy w g = (live_window w, g')"
    by (simp add: load_window_def persisted_layout_to_live_def Let_def live_window_def g'_def g1_def per_def panes_def)
  have g1: "eg_sup g1 = eg_sup g" "eg_panes g1 = panes" "eg_pane_window g1 = eg_pane_window g" "eg_sessions g1 = eg_sessions g"
    "eg_viewports g1 = eg_viewports g" "eg_window_session g1 = (eg_window_session g)(pw_id w \<mapsto> sid)"
    by (simp_all add: g1_def insert_window_def)
  have d: "distinct (leaves ?l)" using w by (simp add: record_window_ok_def)
  have "sn_entries (eg_sup g1) p = None" if "p \<in> set (leaves ?l)" for p
    using panes_ok_link [OF ok, of p] new [OF that] by (simp add: g1 links_def link_of_def)
  then have r: "restored_into g1 g' (leaves ?l) (pw_id w)" "sup_path pw g1 g'"
    using restore_leaves [OF d, of g1 per policy "pw_id w" pw] by (simp_all add: g'_def)
  have dr: "distinct (map pp_pane_id (leaf_records (pw_layout w)))" using d by (simp add: leaf_records_ids)
  have inl: "p \<in> set (leaves ?l) \<longleftrightarrow> (\<exists>d\<in>set (leaf_records (pw_layout w)). pp_pane_id d = p)" for p
    unfolding leaf_records_ids [symmetric] by auto
  have old: "panes p = eg_panes g p" if "p \<notin> set (leaves ?l)" for p
    using that unfolding panes_def fold_insert_dead [OF dr] inl by (auto split: option.split simp: find_Some_iff)
  have exact: "panes (pp_pane_id d) = Some (DeadPane d)" if d: "d \<in> set (leaf_records (pw_layout w))" for d
  proof -
    obtain x where x: "find (\<lambda>q. pp_pane_id q = pp_pane_id d) (leaf_records (pw_layout w)) = Some x"
      using d by (cases "find (\<lambda>q. pp_pane_id q = pp_pane_id d) (leaf_records (pw_layout w))") (auto simp: find_None_iff)
    then have "x \<in> set (leaf_records (pw_layout w))" "pp_pane_id x = pp_pane_id d" by (auto simp: find_Some_iff)
    then have "x = d" using dr d by (auto simp: distinct_map inj_on_def)
    then show ?thesis using x unfolding panes_def fold_insert_dead [OF dr] by simp
  qed
  have dead: "\<exists>d. panes p = Some (DeadPane d) \<and> pp_pane_id d = p" if "p \<in> set (leaves ?l)" for p
    using that exact unfolding inl by blast
  have "panes_ok (eg_panes g') (eg_pane_window g') (links (eg_sup g'))"
    unfolding panes_ok_def
  proof (intro conjI allI impI)
    have o: "panes_ok (eg_panes g) (eg_pane_window g) (links (eg_sup g))" by (rule ok)
    show "dom (eg_panes g') = dom (eg_pane_window g')"
    proof (intro set_eqI)
      show "p \<in> dom (eg_panes g') \<longleftrightarrow> p \<in> dom (eg_pane_window g')" for p
        using r(1) old [of p] dead [of p] panes_ok_None [OF o, of p]
        by (cases "p \<in> set (leaves ?l)") (auto simp: restored_into_def g1 domIff)
    qed
    show "links (eg_sup g') = link_of (eg_panes g')"
    proof
      show "links (eg_sup g') p = link_of (eg_panes g') p" for p
        using r(1) old [of p] dead [of p] panes_ok_link [OF o, of p]
        by (cases "p \<in> set (leaves ?l)") (auto simp: restored_into_def g1 link_of_def)
    qed
    show "pp_pane_id d = p" if "eg_panes g' p = Some (DeadPane d)" for p d
      using that r(1) old [of p] dead [of p] o
      by (cases "p \<in> set (leaves ?l)") (auto simp: restored_into_def g1 panes_ok_def)
  qed
  then have "windows_loaded sid [w] g g'" using r(1) old exact
    by (auto simp: windows_loaded_def restored_into_def g1)
  then show ?thesis using that e r(2) by (simp add: g1)
qed


lemma load_windows_ok:
  assumes "panes_ok (eg_panes g) (eg_pane_window g) (links (eg_sup g))" and "list_all record_window_ok ws"
    and "distinct (concat (map (\<lambda>w. leaves (to_live_tree (pw_layout w))) ws))"
    and "\<And>w p. w \<in> set ws \<Longrightarrow> p \<in> set (leaves (to_live_tree (pw_layout w))) \<Longrightarrow> eg_panes g p = None"
  shows "\<exists>g'. load_windows sid policy ws g = (map live_window ws, g') \<and> windows_loaded sid ws g g' \<and> sup_path pw g g'"
  using assms
proof (induction ws arbitrary: g)
  case Nil
  then show ?case by (simp add: windows_loaded_def)
next
  case (Cons w ws)
  let ?lv = "\<lambda>w. set (leaves (to_live_tree (pw_layout w)))"
  obtain g1 where g1: "load_window sid policy w g = (live_window w, g1)" "windows_loaded sid [w] g g1" "sup_path pw g g1"
    by (rule load_window_ok [OF Cons.prems(1), of w sid policy pw]) (use Cons.prems(2,4) in auto)
  have apart: "?lv w \<inter> ?lv v = {}" if "v \<in> set ws" for v using Cons.prems(3) that by auto
  have "eg_panes g1 p = None" if "v \<in> set ws" "p \<in> ?lv v" for v p
  proof -
    have "p \<notin> ?lv w" using apart [OF that(1)] that(2) by auto
    then show ?thesis using g1(2) Cons.prems(4) [of v p] that by (simp add: windows_loaded_def)
  qed
  moreover have "panes_ok (eg_panes g1) (eg_pane_window g1) (links (eg_sup g1))" using g1(2) by (simp add: windows_loaded_def)
  ultimately obtain g2 where g2: "load_windows sid policy ws g1 = (map live_window ws, g2)" "windows_loaded sid ws g1 g2" "sup_path pw g1 g2"
    using Cons.IH [of g1] Cons.prems(2,3) by auto
  have "windows_loaded sid (w # ws) g g2"
  proof -
    have "eg_pane_window g2 p = Some x \<longleftrightarrow> (\<exists>v\<in>set (w # ws). pw_id v = x \<and> p \<in> ?lv v)
        \<or> eg_pane_window g p = Some x \<and> (\<forall>v\<in>set (w # ws). p \<notin> ?lv v)" for p x
    proof -
      have a: "eg_pane_window g2 p = Some x \<longleftrightarrow> (\<exists>v\<in>set ws. pw_id v = x \<and> p \<in> ?lv v) \<or> eg_pane_window g1 p = Some x \<and> (\<forall>v\<in>set ws. p \<notin> ?lv v)"
        using g2(2) by (simp add: windows_loaded_def)
      have b: "eg_pane_window g1 p = Some x \<longleftrightarrow> (pw_id w = x \<and> p \<in> ?lv w) \<or> eg_pane_window g p = Some x \<and> p \<notin> ?lv w"
        using g1(2) by (simp add: windows_loaded_def)
      show ?thesis unfolding a b using apart by auto
    qed
    moreover have "eg_panes g2 (pp_pane_id d) = Some (DeadPane d)" if v: "v \<in> set (w # ws)" "d \<in> set (leaf_records (pw_layout v))" for v d
    proof (cases "v \<in> set ws")
      case False
      then have "pp_pane_id d \<in> ?lv w" using v unfolding leaf_records_ids [symmetric] by auto
      then have "\<forall>u\<in>set ws. pp_pane_id d \<notin> ?lv u" using apart by blast
      then show ?thesis using g1(2) g2(2) v False by (auto simp: windows_loaded_def)
    qed (use g2(2) v in \<open>simp add: windows_loaded_def\<close>)
    ultimately show ?thesis using g1(2) g2(2) unfolding windows_loaded_def by auto
  qed
  then show ?case using g1(1) g2(1) rtranclp_trans [OF g1(3) g2(3)] by simp
qed

lemma load_record_keeps:
  assumes fits: "record_fits g r"
  shows "engine_keeps pw g (load_record r g)"
proof -
  let ?sid = "pq_session_id r"
  let ?ws = "pq_windows r"
  define policy where "policy = (case pq_default_restart_policy r of Some p \<Rightarrow> p | None \<Rightarrow> default_policy)"
  have "engine_ok (load_record r g) \<and> sup_path pw g (load_record r g)" if ok: "engine_ok g"
  proof -
    note c = engine_okD(1) [OF ok]
    obtain g1 where g1: "load_windows ?sid policy ?ws g = (map live_window ?ws, g1)" "windows_loaded ?sid ?ws g g1" "sup_path pw g g1"
      using load_windows_ok [OF engine_okD(2) [OF ok], of ?ws ?sid policy pw] fits by (fastforce simp: record_fits_def Let_def)
    define s where "s = \<lparr>ss_id = ?sid, ss_name = pq_name r, ss_windows = map live_window ?ws, ss_active_window_id = pq_active_window_id r,
        ss_default_restart_policy = policy\<rparr>"
    have e: "load_record r g = put_session ?sid s g1" by (simp add: load_record_def policy_def [symmetric] g1(1) s_def)
    have wi: "win_ids s = pw_id ` set ?ws" by (simp add: win_ids_def s_def image_image)
    have k: "contrib s p x \<longleftrightarrow> (\<exists>w\<in>set ?ws. pw_id w = x \<and> p \<in> set (leaves (to_live_tree (pw_layout w))))" for p x
      by (auto simp: contrib_def s_def)
    have none: "eg_sessions g ?sid = None" using fits by (simp add: record_fits_def)
    have "core_ok ((eg_sessions g)(?sid \<mapsto> s)) (eg_pane_window g1) (eg_window_session g1)"
    proof (rule core_replace [OF c])
      have "session_ok ?sid s" unfolding session_ok_def wi using fits
        by (auto simp: s_def record_fits_def list_all_iff comp_def record_window_ok_def window_ok_def live_window_def DEFAULT_ROWS_def DEFAULT_COLS_def)
      then show "session_ok ?sid u \<and> (\<forall>w\<in>win_ids u. eg_window_session g w \<in> {None, Some ?sid})" if "Some s = Some u" for u
        using that wi fits by (auto simp: record_fits_def)
      show "eg_window_session g1 x = (if \<exists>u. Some s = Some u \<and> x \<in> win_ids u then Some ?sid
          else if eg_window_session g x = Some ?sid then None else eg_window_session g x)" for x
        using g1(2) core_no_session [OF c none, of x] wi by (auto simp: windows_loaded_def)
      have free: "eg_pane_window g p = None" if "w \<in> set ?ws" "p \<in> set (leaves (to_live_tree (pw_layout w)))" for w p
        using fits that panes_ok_None [OF engine_okD(2) [OF ok], of p] by (auto simp: record_fits_def Let_def)
      have pwi: "eg_pane_window g1 p = Some x \<longleftrightarrow> contrib s p x \<or> eg_pane_window g p = Some x" for p x
        using g1(2) free [of _ p] unfolding k windows_loaded_def by force
      show "eg_pane_window g1 p = Some x \<longleftrightarrow> (\<exists>u. Some s = Some u \<and> contrib u p x)
          \<or> eg_pane_window g p = Some x \<and> eg_window_session g x \<noteq> Some ?sid" for p x
        using pwi core_no_session [OF c none] by simp
    qed
    then show ?thesis using g1(2,3) engine_okD(3) [OF ok] by (simp add: e put_session_def engine_ok_def windows_loaded_def)
  qed
  then show ?thesis by (simp add: engine_keeps_def)
qed


section \<open>The engine as a transition system\<close>

text \<open>
  Every operation of the engine, and every step of a pane's reader thread. The side conditions are
  what the surroundings guarantee: ids drawn at random are new, a process is put at a free address,
  and a record that is loaded uses ids of its own.
\<close>

definition reader_step :: "powi_fun \<Rightarrow> engine \<Rightarrow> engine \<Rightarrow> bool" where
  "reader_step pw g g' \<longleftrightarrow> g' = g\<lparr>eg_sup := eg_sup g'\<rparr> \<and> world_step pw (eg_sup g) (eg_sup g') \<and> links (eg_sup g') = links (eg_sup g)"

inductive engine_step :: "powi_fun \<Rightarrow> engine \<Rightarrow> engine \<Rightarrow> bool" for pw where
  create_session: "(\<And>sp. spawn = Inr sp \<Longrightarrow> fresh_spawn g sp) \<Longrightarrow> eg_sessions g sid = None \<Longrightarrow> eg_window_session g wid = None \<Longrightarrow>
     engine_step pw g (snd (create_session_supervised pw env sid wid name policy m spawn g))"
| create_window: "(\<And>sp. spawn = Inr sp \<Longrightarrow> fresh_spawn g sp) \<Longrightarrow> eg_window_session g wid = None \<Longrightarrow>
     engine_step pw g (snd (create_window pw env sid wid m spawn g))"
| split: "(\<And>sp. spawn = Inr sp \<Longrightarrow> fresh_spawn g sp) \<Longrightarrow> split_pane pw env p o' m spawn g = Some (res, g') \<Longrightarrow> engine_step pw g g'"
| close: "close_pane env p g = Some (res', g') \<Longrightarrow> engine_step pw g g'"
| kill: "engine_step pw g (snd (kill_session env sid g))"
| load: "record_fits g r \<Longrightarrow> engine_step pw g (load_record r g)"
| revive: "(\<And>s. eg_sessions g sid = Some s \<Longrightarrow> spawns_apart g spawns (session_panes s)) \<Longrightarrow>
     engine_step pw g (snd (revive_session pw env prepare spawns sid g))"
| stop: "engine_step pw g (snd (stop_pane env p g))"
| start: "(\<And>sp. spawn = Inr sp \<Longrightarrow> sn_heap (eg_sup g) (sw_addr sp) = None \<and> sw_id sp = p) \<Longrightarrow>
     engine_step pw g (snd (start_pane pw env p spawn g))"
| restart: "(\<And>sp. spawn = Inr sp \<Longrightarrow> sn_heap (eg_sup g) (sw_addr sp) = None \<and> sw_id sp = p) \<Longrightarrow>
     engine_step pw g (snd (restart_pane pw env p reset spawn g))"
| reset_budget: "engine_step pw g (snd (reset_restart_budget env p g))"
| set_policy: "engine_step pw g (snd (set_restart_policy env p policy g))"
| set_session_policy: "engine_step pw g (snd (set_session_restart_policy env sid policy b g))"
| tick: "distinct order \<Longrightarrow> set order = dom (sn_entries (eg_sup g)) \<Longrightarrow>
     supervise_tick pw env order dirty g = Some (d, g') \<Longrightarrow> engine_step pw g g'"
| viewport: "report_viewport_and_recompute env wid client rows cols g = Some (size', g') \<Longrightarrow> engine_step pw g g'"
| recompute: "recompute_window_geometry env wid g = Some (size', g') \<Longrightarrow> engine_step pw g g'"
| detach: "engine_step pw g (unregister_viewport wid client g)"
| client: "engine_step pw g (snd (new_client_id g))"
| reader: "reader_step pw g g' \<Longrightarrow> engine_step pw g g'"

definition engine_init :: "engine \<Rightarrow> bool" where
  "engine_init g \<longleftrightarrow> g = engine_new"

definition engine_inv :: "powi_fun \<Rightarrow> engine \<Rightarrow> bool" where
  "engine_inv pw g \<longleftrightarrow> engine_ok g \<and> reachable world_init (world_step pw) (eg_sup g)"

lemma reachable_path: "reachable init step s \<Longrightarrow> step\<^sup>*\<^sup>* s t \<Longrightarrow> reachable init step t"
  by (rotate_tac, induction rule: rtranclp_induct) (auto intro: reachable.reach_step)

lemma engine_step_keeps:
  assumes "engine_step pw g g'" and inv: "engine_inv pw g"
  shows "engine_ok g' \<and> sup_path pw g g'"
proof -
  have ok: "engine_ok g" using inv by (simp add: engine_inv_def)
  have w: "world_inv pw (eg_sup g)" using inv by (auto simp: engine_inv_def intro: supervisor.reachable_inv)
  have k: "engine_ok h \<and> sup_path pw g h" if "engine_keeps pw g h" for h using that ok by (simp add: engine_keeps_def)
  show ?thesis using assms(1)
  proof cases
    case (create_session spawn sid wid env name policy m)
    show ?thesis unfolding create_session(1) by (rule k [OF create_session_keeps [OF create_session(2-4)]])
  next
    case (create_window spawn wid env sid m)
    show ?thesis unfolding create_window(1) by (rule k [OF create_window_keeps [OF create_window(2,3)]])
  next
    case (split spawn env p o' m res)
    obtain r h where "split_pane pw env p o' m spawn g = Some (r, h)" "engine_ok h" "sup_path pw g h"
      by (rule split_pane_keeps [OF ok split(1)])
    then show ?thesis using split(2) by auto
  next
    case (close env p res')
    obtain r h where "close_pane env p g = Some (r, h)" "engine_ok h" "sup_path pw g h" by (rule close_pane_keeps [OF ok])
    then show ?thesis using close by auto
  next
    case (revive sid spawns env prepare)
    show ?thesis unfolding revive(1) by (rule revive_keeps [OF ok w revive(2)])
  next
    case (start spawn p env)
    show ?thesis unfolding start(1) by (rule k [OF start_pane_keeps [OF start(2)]])
  next
    case (restart spawn p env reset)
    show ?thesis unfolding restart(1) by (rule k [OF restart_pane_keeps [OF restart(2)]])
  next
    case (tick order env dirty d)
    show ?thesis by (rule k [OF tick_keeps [OF tick(3,1,2)]])
  next
    case (viewport env wid client rows cols size')
    obtain r h where "recompute_window_geometry env wid (report_viewport wid client rows cols g) = Some (r, h)" "engine_ok h" "eg_sup h = eg_sup g"
      using recompute_keeps [OF report_viewport_ok [OF ok]] viewport_sup(1) by metis
    then show ?thesis using viewport by (auto simp: report_viewport_and_recompute_def)
  next
    case (recompute env wid size')
    obtain r h where "recompute_window_geometry env wid g = Some (r, h)" "engine_ok h" "eg_sup h = eg_sup g"
      by (rule recompute_keeps [OF ok])
    then show ?thesis using recompute by auto
  next
    case (client)
    then show ?thesis using ok by (simp add: new_client_id_def engine_ok_def)
  next
    case reader
    have "engine_keeps pw g (g\<lparr>eg_sup := eg_sup g'\<rparr>)"
      by (rule sup_only_keeps) (use reader in \<open>simp_all add: reader_step_def\<close>)
    moreover have "g\<lparr>eg_sup := eg_sup g'\<rparr> = g'" using reader by (simp add: reader_step_def)
    ultimately show ?thesis using k by simp
  next
    case (detach wid client)
    then show ?thesis using unregister_viewport_ok [OF ok] by simp
  next
    case (kill env sid)
    show ?thesis unfolding kill(1) by (rule k [OF kill_session_keeps])
  next
    case (load r)
    show ?thesis unfolding load(1) by (rule k [OF load_record_keeps [OF load(2)]])
  next
    case (stop env p)
    show ?thesis unfolding stop(1) by (rule k [OF stop_keeps])
  next
    case (reset_budget env p)
    show ?thesis unfolding reset_budget(1) by (rule k [OF reset_keeps])
  next
    case (set_policy env p policy)
    show ?thesis unfolding set_policy(1) by (rule k [OF set_policy_keeps])
  next
    case (set_session_policy env sid policy b)
    show ?thesis unfolding set_session_policy(1) by (rule k [OF set_session_policy_keeps])
  qed
qed

interpretation engine: invariant_system engine_init "engine_step pw" "engine_inv pw" for pw
proof
  show "engine_inv pw g" if "engine_init g" for g
    using that by (auto simp: engine_init_def engine_new_def engine_inv_def engine_ok_def core_ok_def index_ok_def panes_ok_def
        viewports_ok_def links_def link_of_def fun_eq_iff dom_def intro: reachable.reach_init world_init.intros)
  show "engine_inv pw g'" if "engine_inv pw g" "engine_step pw g g'" for g g'
    using engine_step_keeps [OF that(2,1)] that(1) reachable_path by (auto simp: engine_inv_def)
qed

end
