(* ===== verification/Engine_Properties.thy ===== *)
theory Engine_Properties
  imports Engine
begin

text \<open>
  What the engine guarantees in every reachable state, and the two places where it does not do what
  it means to: a failed split leaves its process behind, and a split races with a kill.
\<close>

section \<open>Lemmas for the properties\<close>

lemma reachable_ok: "reachable engine_init (engine_step pw) g \<Longrightarrow> engine_ok g"
  using engine.reachable_inv [of pw g] by (simp add: engine_inv_def)

lemma reachable_sup: "reachable engine_init (engine_step pw) g \<Longrightarrow> reachable world_init (world_step pw) (eg_sup g)"
  using engine.reachable_inv [of pw g] by (simp add: engine_inv_def)

lemma session_panes_contrib: "p \<in> set (session_panes s) \<longleftrightarrow> (\<exists>w. contrib s p w)"
  by (auto simp: session_panes_def contrib_def)

lemma index_iff:
  assumes "engine_ok g"
  shows "window_and_session_for_pane g p = Inr (w, sid) \<longleftrightarrow> (\<exists>s. eg_sessions g sid = Some s \<and> contrib s p w)"
proof
  assume "window_and_session_for_pane g p = Inr (w, sid)"
  then have "eg_pane_window g p = Some w" "eg_window_session g w = Some sid"
    by (auto simp: window_and_session_for_pane_def split: option.splits)
  then show "\<exists>s. eg_sessions g sid = Some s \<and> contrib s p w"
    using core_pwi_E [OF engine_okD(1) [OF assms], of p w] by auto
next
  assume "\<exists>s. eg_sessions g sid = Some s \<and> contrib s p w"
  then show "window_and_session_for_pane g p = Inr (w, sid)"
    using core_at [OF engine_okD(1) [OF assms]] by (auto simp: window_and_session_for_pane_def)
qed

lemma panes_iff:
  assumes "engine_ok g"
  shows "eg_panes g p \<noteq> None \<longleftrightarrow> (\<exists>sid s. eg_sessions g sid = Some s \<and> p \<in> set (session_panes s))"
proof -
  have "eg_pane_window g p \<noteq> None \<longleftrightarrow> (\<exists>sid s w. eg_sessions g sid = Some s \<and> contrib s p w)"
    using engine_okD(1) [OF assms] unfolding core_ok_def index_ok_def by (metis not_Some_eq)
  then show ?thesis using panes_ok_None [OF engine_okD(2) [OF assms], of p] by (auto simp: session_panes_contrib)
qed

lemma engine_steps_le:
  assumes "(engine_step pw)\<^sup>*\<^sup>* g h" and "engine_inv pw g"
  shows "engine_inv pw h \<and> heap_le (eg_sup g) (eg_sup h)"
  using assms
proof (induction rule: rtranclp_induct)
  case (step h k)
  then show ?case using engine.step_inv [of pw h k] engine_step_keeps [of pw h k] world_steps_le heap_le_trans by blast
qed simp

text \<open>Dropping a pane leaves its process retired, whatever the signal's outcome.\<close>

lemma kill_core: "pane_core (snd (kill er p)) = pane_core p"
  using pane_core_kill [of er p] by (metis prod.collapse)

lemma drop_pane_retires:
  assumes w: "world_inv pw (eg_sup g)" and "eg_panes g p = Some (LivePane r)" and "links (eg_sup g) p = Some (Some r)"
  shows "\<exists>pp. sn_heap (eg_sup (drop_pane env p g)) r = Some pp \<and> pn_retired pp"
proof -
  obtain e where e: "sn_entries (eg_sup g) p = Some e" "en_pane e = Some r" using assms(3) by (auto simp: links_def)
  obtain pp where h: "sn_heap (eg_sup g) r = Some pp" using world_inv_entry [OF w e(1)] e(2) by (auto simp: entry_ok_def)
  have f: "sn_heap (forget (eg_sup g) p) r = Some (retire pp)" using e h by (simp add: Supervision.forget_def upgrade_def Let_def)
  have "pn_retired (snd (kill er (retire pp)))" for er using kill_core [of er "retire pp"] by (simp add: pane_core_def retire_def)
  then show ?thesis using assms(2) f by (simp add: drop_pane_def on_sup_def pane_at_def Let_def retire_def)
qed

lemma heap_le_retired: "heap_le w w' \<Longrightarrow> sn_heap w r = Some p \<Longrightarrow> pn_retired p \<Longrightarrow>
    \<exists>p'. sn_heap w' r = Some p' \<and> pn_retired p' \<and> pn_generation p' = pn_generation p"
  by (auto simp: heap_le_def keeps_retired_def)

lemma drop_panes_retire:
  assumes "world_inv pw (eg_sup g)" and "p \<in> set ps" and "eg_panes g p = Some (LivePane r)" and "links (eg_sup g) p = Some (Some r)"
  shows "\<exists>pp. sn_heap (eg_sup (fold (drop_pane env) ps g)) r = Some pp \<and> pn_retired pp"
  using assms
proof (induction ps arbitrary: g)
  case (Cons q ps)
  show ?case
  proof (cases "p = q")
    case True
    obtain pp where "sn_heap (eg_sup (drop_pane env q g)) r = Some pp" "pn_retired pp"
      using drop_pane_retires [OF Cons.prems(1,3,4)] True by auto
    with heap_le_retired [OF world_steps_le [OF drop_panes_path]] show ?thesis by fastforce
  next
    case False
    then show ?thesis using Cons.IH [of "drop_pane env q g"] Cons.prems supervisor.steps_inv [OF drop_pane_path] by simp
  qed
qed simp

text \<open>A small engine: one session with one window and one running pane.\<close>

definition example_env :: op_env where
  "example_env = \<lparr>oe_now = 0, oe_unit = Fin 0, oe_save_ok = True, oe_kill = (\<lambda>_. None), oe_resize_ok = (\<lambda>_. True),
     oe_start = (\<lambda>_. Inr (Some 43))\<rparr>"

definition example_spawn :: spawned where
  "example_spawn = \<lparr>sw_addr = 0, sw_id = 9, sw_pid = Some 42\<rparr>"

abbreviation example_powi :: powi_fun where "example_powi \<equiv> \<lambda>x n. x"

definition example_engine :: engine where
  "example_engine = snd (create_session_supervised example_powi example_env 7 8 ''main'' default_policy no_meta (Inr example_spawn) engine_new)"

definition example_session :: session_state where
  "example_session = \<lparr>ss_id = 7, ss_name = ''main'', ss_windows = [new_window 8 ''0'' 9], ss_active_window_id = 8,
     ss_default_restart_policy = default_policy\<rparr>"

lemma engine_new_reachable: "reachable engine_init (engine_step pw) engine_new"
  by (rule reachable.reach_init) (simp add: engine_init_def)

lemma example_engine_reachable: "reachable engine_init (engine_step example_powi) example_engine"
  unfolding example_engine_def
  by (rule reachable.reach_step [OF engine_new_reachable], rule engine_step.create_session)
    (simp_all add: engine_new_def fresh_spawn_def)

lemma default_policy_valid: "policy_validate default_policy = Inr ()"
proof -
  have "is_finite (fround binary64 (1 / 5)) \<and> fle (Fin 0) (fround binary64 (1 / 5)) \<and> fle (fround binary64 (1 / 5)) (Fin 1)"
    using fround_le_int [of binary64 0 "1 / 5" 1] by auto
  then show ?thesis by (simp add: policy_validate_def default_policy_def)
qed

lemma example_engine_simps:
  "eg_sessions example_engine = [7 \<mapsto> example_session]" "eg_panes example_engine = [9 \<mapsto> LivePane 0]"
  "eg_pane_window example_engine = [9 \<mapsto> 8]" "eg_window_session example_engine = [8 \<mapsto> 7]"
  "eg_viewports example_engine = Map.empty"
  by (simp_all add: example_engine_def create_session_supervised_def default_policy_valid Let_def engine_parts
      engine_new_def example_spawn_def example_session_def)

lemma example_engine_heap: "sn_heap (eg_sup example_engine) r \<noteq> None \<longleftrightarrow> r = 0"
  by (auto simp: example_engine_def create_session_supervised_def default_policy_valid Let_def engine_parts
      engine_new_def example_spawn_def register_live_def install_hook_def set_exit_hook_def put_def pane_new_def)

lemma example_entries: "dom (sn_entries (eg_sup example_engine)) = {9}"
proof (intro set_eqI)
  fix p
  have "links (eg_sup example_engine) p = link_of (eg_panes example_engine) p"
    by (rule panes_ok_link [OF engine_okD(2) [OF reachable_ok [OF example_engine_reachable]]])
  then show "p \<in> dom (sn_entries (eg_sup example_engine)) \<longleftrightarrow> p \<in> {9}"
    by (auto simp: links_def link_of_def example_engine_simps split: if_splits)
qed

lemma example_session_panes [simp]: "session_panes example_session = [9]"
  by (simp add: session_panes_def example_session_def)


lemma addr_inj:
  assumes inv: "engine_inv pw g" and "eg_panes g p = Some (LivePane a)" and "eg_panes g q = Some (LivePane a)"
  shows "p = q"
proof -
  have ok: "engine_ok g" and w: "world_inv pw (eg_sup g)" using inv by (auto simp: engine_inv_def intro: supervisor.reachable_inv)
  have "\<exists>pp. sn_heap (eg_sup g) a = Some pp \<and> pn_id pp = x" if x: "eg_panes g x = Some (LivePane a)" for x
  proof -
    obtain e where "sn_entries (eg_sup g) x = Some e" "en_pane e = Some a"
      using panes_ok_link [OF engine_okD(2) [OF ok], of x] x by (auto simp: links_def link_of_def)
    then show ?thesis using world_inv_entry [OF w] by (fastforce simp: entry_ok_def linked_def)
  qed
  from this [OF assms(2)] this [OF assms(3)] show ?thesis by auto
qed

lemma resize_leaf_other:
  assumes "eg_panes g p \<noteq> Some (LivePane a)"
  shows "eg_meta (resize_leaf env (p, R) g) a = eg_meta g a"
  using assms by (auto simp: resize_leaf_def split: option.splits pane_entry.splits)

lemma resize_leaves_other:
  assumes "\<And>p R. (p, R) \<in> set xs \<Longrightarrow> eg_panes g p \<noteq> Some (LivePane a)"
  shows "eg_meta (fold (resize_leaf env) xs g) a = eg_meta g a"
  using assms
proof (induction xs arbitrary: g)
  case (Cons x xs)
  have "eg_meta (resize_leaf env x g) a = eg_meta g a" using Cons.prems by (cases x) (auto intro: resize_leaf_other)
  moreover have "eg_panes (resize_leaf env x g) p \<noteq> Some (LivePane a)" if "(p, R) \<in> set xs" for p R
    using Cons.prems [of p R] that by simp
  ultimately show ?case using Cons.IH [of "resize_leaf env x g"] by simp
qed simp

lemma resize_leaves_meta:
  assumes "distinct (map fst xs)" and "(p, R) \<in> set xs" and "eg_panes g p = Some (LivePane a)"
    and "\<And>q. eg_panes g q = Some (LivePane a) \<Longrightarrow> q = p"
  shows "eg_meta (fold (resize_leaf env) xs g) a = resize_pane (oe_resize_ok env p) (rect_rows R) (rect_cols R) (eg_meta g a)"
  using assms
proof (induction xs arbitrary: g)
  case Nil
  from Nil.prems(2) show ?case by simp
next
  case (Cons x xs)
  obtain q S where x: "x = (q, S)" by force
  show ?case
  proof (cases "q = p")
    case True
    have R: "S = R" by (rule eq_key_imp_eq_value [OF Cons.prems(1) _ Cons.prems(2)]) (simp add: x True)
    have fresh: "p \<notin> fst ` set xs" using Cons.prems(1) by (simp add: x True)
    have "eg_meta (fold (resize_leaf env) xs (resize_leaf env x g)) a = eg_meta (resize_leaf env x g) a"
    proof (rule resize_leaves_other)
      fix r T
      assume "(r, T) \<in> set xs"
      then have "r \<noteq> p" using imageI [of "(r, T)" "set xs" fst] fresh by auto
      then show "eg_panes (resize_leaf env x g) r \<noteq> Some (LivePane a)" using Cons.prems(4) [of r] by auto
    qed
    then show ?thesis using True R Cons.prems(3) x by (simp add: resize_leaf_def)
  next
    case False
    then have "eg_panes g q \<noteq> Some (LivePane a)" using Cons.prems(4) [of q] by blast
    then have "eg_meta (resize_leaf env x g) a = eg_meta g a" unfolding x by (rule resize_leaf_other)
    moreover have "eg_meta (fold (resize_leaf env) xs (resize_leaf env x g)) a
        = resize_pane (oe_resize_ok env p) (rect_rows R) (rect_cols R) (eg_meta (resize_leaf env x g) a)"
    proof (rule Cons.IH)
      show "q' = p" if "eg_panes (resize_leaf env x g) q' = Some (LivePane a)" for q' using Cons.prems(4) [of q'] that by simp
    qed (use Cons.prems(1-3) x False in simp_all)
    ultimately show ?thesis by simp
  qed
qed

lemma resize_pane_exact:
  "rows \<le> MAX_PANE_ROWS \<Longrightarrow> cols \<le> MAX_PANE_COLS \<Longrightarrow> pm_rows (resize_pane True rows cols m) = rows \<and> pm_cols (resize_pane True rows cols m) = cols"
  by (simp add: resize_pane_def min_absorb1 Let_def)

lemma report_viewport_maps [simp]:
  "eg_window_session (report_viewport wid client rows cols g) = eg_window_session g"
  "eg_sessions (report_viewport wid client rows cols g) = eg_sessions g" "eg_panes (report_viewport wid client rows cols g) = eg_panes g"
  by (simp_all add: report_viewport_def)

lemma assoc_put_mem: "(k, v) \<in> set (assoc_put k v xs)"
  by (induction k v xs rule: assoc_put.induct) auto

lemma recompute_result:
  assumes inv: "engine_inv pw g" and wid: "eg_window_session g wid = Some sid" and rk: "window_size g wid = (r, k)"
    and all: "\<And>p. oe_resize_ok env p"
  shows "\<exists>s w rects g'. recompute_window_geometry env wid g = Some (Some (r, k), g') \<and> eg_sessions g' sid = Some s
    \<and> w \<in> set (ss_windows s) \<and> wd_id w = wid \<and> wd_rows w = r \<and> wd_cols w = k \<and> compute_geometry (wd_layout w) r k = Some rects
    \<and> eg_viewports g' = eg_viewports g \<and> eg_panes g' = eg_panes g
    \<and> (\<forall>p R a. (p, R) \<in> set rects \<longrightarrow> eg_panes g p = Some (LivePane a) \<longrightarrow>
       pm_rows (eg_meta g' a) = rect_rows R \<and> pm_cols (eg_meta g' a) = rect_cols R)"
proof -
  have ok: "engine_ok g" using inv by (simp add: engine_inv_def)
  note c = engine_okD(1) [OF ok]
  obtain s where s: "eg_sessions g sid = Some s" "wid \<in> win_ids s" using wid c by (auto simp: core_ok_def index_ok_def)
  obtain w where w: "find (\<lambda>x. wd_id x = wid) (ss_windows s) = Some w" using find_window_ex [OF s(2)] by blast
  have b: "r \<le> MAX_PANE_ROWS" "k \<le> MAX_PANE_COLS" using window_size_range [OF engine_okD(3) [OF ok] rk] by auto
  then have u: "r \<le> u16_max" "k \<le> u16_max" by (auto simp: MAX_PANE_ROWS_def MAX_PANE_COLS_def)
  have sok: "session_ok sid s" by (rule core_session [OF c s(1)])
  then have wok: "wf_layout (wd_layout w)" "distinct (leaves (wd_layout w))"
    using find_window(1) [OF w] by (auto simp: session_ok_def list_all_iff window_ok_def)
  obtain rects where rects: "compute_geometry (wd_layout w) r k = Some rects" "map fst rects = leaves (wd_layout w)"
    using compute_geometry_Some [OF wok(1) u] by metis
  let ?f = "\<lambda>x. x\<lparr>wd_rows := r, wd_cols := k\<rparr>"
  define g1 where "g1 = put_session sid (map_window wid ?f s) g"
  define g' where "g' = persist_session env sid (fold (resize_leaf env) rects g1)"
  have e: "recompute_window_geometry env wid g = Some (Some (r, k), g')"
    using wid s(1) w rects(1) by (simp add: recompute_window_geometry_def rk Let_def g'_def g1_def)
  have d: "distinct (map wd_id (ss_windows s))" using sok by (simp add: session_ok_def)
  have "?f w \<in> set (ss_windows (map_window wid ?f s))" by (simp add: map_window_def set_update_first [OF d w])
  moreover have "pm_rows (eg_meta g' a) = rect_rows R \<and> pm_cols (eg_meta g' a) = rect_cols R"
    if p: "(p, R) \<in> set rects" "eg_panes g p = Some (LivePane a)" for p R a
  proof -
    have "rect_rows R \<le> MAX_PANE_ROWS" "rect_cols R \<le> MAX_PANE_COLS"
      using compute_geometry_at_inside [OF wok(1), of 0 0 r k rects p R] rects(1) p(1) u b by (auto simp: compute_geometry_def)
    moreover have "eg_meta (fold (resize_leaf env) rects g1) a = resize_pane (oe_resize_ok env p) (rect_rows R) (rect_cols R) (eg_meta g1 a)"
      using rects(2) wok(2) p addr_inj [OF inv] by (intro resize_leaves_meta) (auto simp: g1_def put_session_def)
    ultimately show ?thesis using resize_pane_exact all [of p] by (simp add: g'_def)
  qed
  ultimately show ?thesis using e find_window(2) [OF w] rects(1)
    by (intro exI [of _ "map_window wid ?f s"] exI [of _ "?f w"] exI [of _ rects] exI [of _ g'])
      (simp add: g'_def g1_def put_session_def)
qed

lemma handle_snapshot: "handle_to_layout_snapshot g (layout_to_handle g n) = layout_to_snapshot g n"
proof (induction n)
  case (Leaf i)
  show ?case by (auto simp: handle_info_def handle_of_def leaf_info_def Let_def split: option.split pane_entry.split)
qed auto

section \<open>Properties\<close>



text \<open>
  The engine is built on the supervisor soundly: whatever operation runs in a reachable engine
  state, its effect on the supervisor is a sequence of the supervisor's own steps, with their
  preconditions met (a pane is registered once, under its own id and before any other hook; an
  adopted id has no process; a restored id is new). So the supervisor inside the engine is always in
  one of the states its own invariants cover.
\<close>

theorem engine_drives_supervisor:
  assumes "reachable engine_init (engine_step pw) g" and "engine_step pw g g'"
  shows "(world_step pw)\<^sup>*\<^sup>* (eg_sup g) (eg_sup g') \<and> reachable world_init (world_step pw) (eg_sup g')"
  using engine_step_keeps [OF assms(2) engine.reachable_inv [OF assms(1)]] reachable_path [OF reachable_sup [OF assms(1)]] by blast

theorem engine_drives_supervisor_witness:
  "(world_step example_powi)\<^sup>*\<^sup>* (eg_sup example_engine) (eg_sup (snd (kill_session example_env 7 example_engine)))" for pw
  using engine_drives_supervisor [OF example_engine_reachable engine_step.kill] by blast

text \<open>
  No operation of the engine panics in a reachable state: splitting, closing, reporting a
  viewport and recomputing a window return, and so does the supervision tick before the end of the
  64-bit clock.
\<close>

theorem engine_never_panics:
  assumes g: "reachable engine_init (engine_step pw) g" and "\<And>sp. spawn = Inr sp \<Longrightarrow> fresh_spawn g sp"
    and "distinct order" and "set order = dom (sn_entries (eg_sup g))" and "oe_now env < u64_max"
  shows "split_pane pw env p o' m spawn g \<noteq> None \<and> close_pane env p g \<noteq> None
    \<and> report_viewport_and_recompute env wid client rows cols g \<noteq> None \<and> recompute_window_geometry env wid g \<noteq> None
    \<and> supervise_tick pw env order dirty g \<noteq> None"
proof (intro conjI)
  note ok = reachable_ok [OF g]
  show "split_pane pw env p o' m spawn g \<noteq> None" using split_pane_keeps [OF ok assms(2)] by (metis option.distinct(1))
  show "close_pane env p g \<noteq> None" using close_pane_keeps [OF ok] by (metis option.distinct(1))
  show "recompute_window_geometry env wid g \<noteq> None" using recompute_keeps [OF ok] by (metis option.distinct(1))
  show "report_viewport_and_recompute env wid client rows cols g \<noteq> None"
    unfolding report_viewport_and_recompute_def using recompute_keeps [OF report_viewport_ok [OF ok]] by (metis option.distinct(1))
  show "supervise_tick pw env order dirty g \<noteq> None"
    using run_due_returns [OF assms(4,5)] unfolding supervise_tick_def by (metis (no_types, lifting) option.case(2) option.distinct(1) case_prod_conv)
qed

theorem engine_never_panics_witness:
  "split_pane example_powi example_env 9 Vertical no_meta (Inr \<lparr>sw_addr = 1, sw_id = 10, sw_pid = Some 44\<rparr>) example_engine \<noteq> None
   \<and> close_pane example_env 9 example_engine \<noteq> None"
proof -
  have d: "dom (sn_entries (eg_sup example_engine)) = {9}"
    by (rule example_entries)
  show ?thesis
    using engine_never_panics [OF example_engine_reachable, where spawn = "Inr \<lparr>sw_addr = 1, sw_id = 10, sw_pid = Some 44\<rparr>" and order = "[9]" and env = example_env]
      example_engine_heap [of 1] d
    by (simp add: fresh_spawn_def example_engine_simps example_env_def)
qed




text \<open>
  A split that fails leaks its process: \<open>split_pane\<close> spawns the shell before it looks up the
  pane and checks the size, and on an error nothing takes it back. The process is running, not
  retired, known to no map of the engine and to no supervisor entry, so nothing can kill it.
\<close>

theorem failed_split_leaks:
  assumes g: "reachable engine_init (engine_step pw) g" and f: "fresh_spawn g sp"
    and sp: "split_pane pw env p o' m (Inr sp) g = Some (Inl e, g')"
  shows "pane_at g' (sw_addr sp) = Some (pane_new (sw_id sp) (sw_pid sp)) \<and> eg_panes g' = eg_panes g
    \<and> lookup_pane g' (sw_id sp) = LookupUnknown \<and> sn_entries (eg_sup g') (sw_id sp) = None"
proof -
  define g1 where "g1 = add_spawned sp (m\<lparr>pm_rows := DEFAULT_ROWS, pm_cols := DEFAULT_COLS\<rparr>) g"
  have "g' = g1" using sp split_layout_err [of p o' "sw_id sp"]
    by (auto simp: split_pane_def Let_def g1_def [symmetric] split: sum.splits option.splits prod.splits)
  moreover have "sn_entries (eg_sup g) (sw_id sp) = None" using no_entry [OF reachable_ok [OF g]] f by (simp add: fresh_spawn_def)
  ultimately show ?thesis using f by (simp add: g1_def add_spawned_def pane_at_def lookup_pane_def fresh_spawn_def)
qed

theorem failed_split_leaks_witness:
  "\<exists>g'. split_pane example_powi example_env 77 Vertical no_meta (Inr example_spawn) engine_new = Some (Inl (Supervision.PaneNotFound 77), g')
     \<and> lookup_pane g' 9 = LookupUnknown \<and> pane_at g' 0 = Some (pane_new 9 (Some 42))"
proof -
  obtain g' where g': "split_pane example_powi example_env 77 Vertical no_meta (Inr example_spawn) engine_new = Some (Inl (Supervision.PaneNotFound 77), g')"
    by (simp add: split_pane_def Let_def window_and_session_for_pane_def engine_new_def)
  moreover have "fresh_spawn engine_new example_spawn" by (simp add: fresh_spawn_def engine_new_def)
  ultimately show ?thesis using failed_split_leaks [OF engine_new_reachable _ g'] by (simp add: example_spawn_def)
qed

text \<open>
  \<open>split_pane\<close> races with \<open>kill_session\<close>: between the change of the tree and the final snapshot no
  lock is held, and when the session is killed there, \<open>sessions[&session_id]\<close> panics, with the
  session and pane locks held (which poisons them).
\<close>

theorem split_kill_race:
  assumes "split_layout p o' (sw_id sp) wid sid g = Some (Inr policy, g1)" and "kill_session env sid g1 = (res, g2)"
  shows "res = Inr () \<and> split_finish pw env' sp policy wid sid g2 = None"
proof -
  obtain s where s: "eg_sessions g1 sid = Some s"
    using assms(1) by (auto simp: split_layout_def put_session_def split: option.splits sum.splits)
  then have "eg_sessions g2 sid = None" "res = Inr ()"
    using assms(2) by (auto simp: kill_session_def Let_def kill_index_def remove_panes_simps remove_windows_simps)
  then show ?thesis by (simp add: split_finish_def Let_def engine_parts)
qed


theorem split_kill_race_witness:
  "\<exists>policy g1. split_layout 9 Vertical 10 8 7 example_engine = Some (Inr policy, g1)
     \<and> split_finish example_powi example_env \<lparr>sw_addr = 1, sw_id = 10, sw_pid = None\<rparr> policy 8 7
         (snd (kill_session example_env 7 g1)) = None"
proof -
  have "compute_geometry (Leaf 9) 24 80 = Some [(9, \<lparr>rect_row = 0, rect_col = 0, rect_rows = 24, rect_cols = 80\<rparr>)]"
    by (simp add: compute_geometry_def)
  then have "\<exists>l. split (Leaf 9) 9 Vertical 10 24 80 = Some (Inr l)" by (subst split_value) simp_all
  then obtain policy g1 where "split_layout 9 Vertical 10 8 7 example_engine = Some (Inr policy, g1)"
    by (auto simp: split_layout_def example_engine_simps example_session_def new_window_def DEFAULT_ROWS_def DEFAULT_COLS_def)
  then show ?thesis
    using split_kill_race [of 9 Vertical "\<lparr>sw_addr = 1, sw_id = 10, sw_pid = None\<rparr>" 8 7 example_engine policy g1 example_env]
    by (metis prod.collapse spawned.select_convs(2))
qed



text \<open>
  \<open>list_sessions\<close> takes the locks only to collect handles and reads the panes afterwards; when no
  pane changes in between, its result is exactly the snapshot of every session that
  \<open>session_to_snapshot\<close> takes in one pass under the locks.
\<close>

theorem list_sessions_snapshots:
  "list_sessions g g order = map (session_to_snapshot g) (List.map_filter (eg_sessions g) order)"
  by (simp add: list_sessions_def session_to_snapshot_def handle_snapshot)




end
