(* ===== verification/Utf8.thy ===== *)
theory Utf8
  imports Prelude
begin

text \<open>
  UTF-8 as Rust's standard library has it: \<open>char::encode_utf8\<close>, \<open>char::len_utf8\<close>,
  \<open>char::is_control\<close>, \<open>str::from_utf8\<close> and \<open>String::from_utf8_lossy\<close>. A \<open>char\<close> is its code point,
  a byte a number below 256. Decoding inverts encoding.
\<close>

section \<open>Encoding\<close>

definition is_scalar :: "nat \<Rightarrow> bool" where
  "is_scalar c \<longleftrightarrow> c < 0x110000 \<and> \<not> (0xD800 \<le> c \<and> c < 0xE000)"

definition is_control :: "nat \<Rightarrow> bool" where
  "is_control c \<longleftrightarrow> c < 0x20 \<or> 0x7F \<le> c \<and> c < 0xA0"

definition encode_utf8 :: "nat \<Rightarrow> bytes" where
  "encode_utf8 c =
     (if c < 0x80 then [c]
      else if c < 0x800 then [0xC0 + c div 64, 0x80 + c mod 64]
      else if c < 0x10000 then [0xE0 + c div 4096, 0x80 + c div 64 mod 64, 0x80 + c mod 64]
      else [0xF0 + c div 262144, 0x80 + c div 4096 mod 64, 0x80 + c div 64 mod 64, 0x80 + c mod 64])"

definition len_utf8 :: "nat \<Rightarrow> nat" where
  "len_utf8 c = (if c < 0x80 then 1 else if c < 0x800 then 2 else if c < 0x10000 then 3 else 4)"

lemma length_encode_utf8 [simp]: "length (encode_utf8 c) = len_utf8 c"
  by (simp add: encode_utf8_def len_utf8_def)

lemma len_utf8_range: "1 \<le> len_utf8 c" "len_utf8 c \<le> 4"
  by (simp_all add: len_utf8_def)

section \<open>Decoding\<close>

text \<open>
  One step of the validator: the character at the front, or \<open>None\<close> for an ill-formed sequence, and how
  many bytes it takes. A byte past the end counts as no continuation byte.
\<close>

definition continuation_at :: "nat \<Rightarrow> bytes \<Rightarrow> bool" where
  "continuation_at k bs \<longleftrightarrow> k < length bs \<and> 0x80 \<le> bs ! k \<and> bs ! k < 0xC0"

definition second_byte_ok :: "nat \<Rightarrow> nat \<Rightarrow> bool" where
  "second_byte_ok b x \<longleftrightarrow> (if b = 0xE0 then 0xA0 \<le> x else if b = 0xED then x < 0xA0 else if b = 0xF0 then 0x90 \<le> x
     else if b = 0xF4 then x < 0x90 else True)"

definition utf8_step :: "nat \<Rightarrow> bytes \<Rightarrow> nat option \<times> nat" where
  "utf8_step b bs =
     (if b < 0x80 then (Some b, 1)
      else if 0xC2 \<le> b \<and> b < 0xE0 then
        if continuation_at 0 bs then (Some ((b - 0xC0) * 64 + (bs ! 0 - 0x80)), 2) else (None, 1)
      else if 0xE0 \<le> b \<and> b < 0xF0 then
        if \<not> (continuation_at 0 bs \<and> second_byte_ok b (bs ! 0)) then (None, 1)
        else if \<not> continuation_at 1 bs then (None, 2)
        else (Some ((b - 0xE0) * 4096 + (bs ! 0 - 0x80) * 64 + (bs ! 1 - 0x80)), 3)
      else if 0xF0 \<le> b \<and> b < 0xF5 then
        if \<not> (continuation_at 0 bs \<and> second_byte_ok b (bs ! 0)) then (None, 1)
        else if \<not> continuation_at 1 bs then (None, 2)
        else if \<not> continuation_at 2 bs then (None, 3)
        else (Some ((b - 0xF0) * 262144 + (bs ! 0 - 0x80) * 4096 + (bs ! 1 - 0x80) * 64 + (bs ! 2 - 0x80)), 4)
      else (None, 1))"

function utf8_chunks :: "bytes \<Rightarrow> nat option list" where
  "utf8_chunks [] = []"
| "utf8_chunks (b # bs) = fst (utf8_step b bs) # utf8_chunks (drop (snd (utf8_step b bs) - 1) bs)"
  by pat_completeness auto
termination by (relation "measure length") auto

definition from_utf8 :: "bytes \<Rightarrow> nat list option" where
  "from_utf8 bs = (if None \<in> set (utf8_chunks bs) then None else Some (map the (utf8_chunks bs)))"

definition from_utf8_lossy :: "bytes \<Rightarrow> nat list" where
  "from_utf8_lossy bs = map (\<lambda>x. case x of Some c \<Rightarrow> c | None \<Rightarrow> 0xFFFD) (utf8_chunks bs)"

section \<open>Decoding inverts encoding\<close>

text \<open>A number from its digits to the base 64.\<close>

lemma digits3:
  fixes c :: nat
  shows "c = c div 4096 * 4096 + c div 64 mod 64 * 64 + c mod 64"
proof -
  have "c div 64 div 64 = c div 4096" by (simp add: div_mult2_eq [of c 64 64, simplified])
  then show ?thesis using div_mult_mod_eq [of c 64] div_mult_mod_eq [of "c div 64" 64] by linarith
qed

lemma digits4:
  fixes c :: nat
  shows "c = c div 262144 * 262144 + c div 4096 mod 64 * 4096 + c div 64 mod 64 * 64 + c mod 64"
proof -
  have "c div 4096 div 64 = c div 262144" by (simp add: div_mult2_eq [of c 4096 64, simplified])
  then show ?thesis using digits3 [of c] div_mult_mod_eq [of "c div 4096" 64] by linarith
qed

lemma step_encode2: "0x80 \<le> c \<Longrightarrow> c < 0x800 \<Longrightarrow> utf8_step (0xC0 + c div 64) ((0x80 + c mod 64) # r) = (Some c, 2)"
  by (simp add: utf8_step_def continuation_at_def) linarith

lemma step_encode3:
  assumes "0x800 \<le> c" "c < 0x10000" "is_scalar c"
  shows "utf8_step (0xE0 + c div 4096) ((0x80 + c div 64 mod 64) # (0x80 + c mod 64) # r) = (Some c, 3)"
proof -
  let ?a = "c div 4096" and ?b = "c div 64 mod 64"
  have e: "c = ?a * 4096 + ?b * 64 + c mod 64" by (rule digits3)
  have a: "?a < 16" using assms(2) by simp
  have b: "?b < 64" "c mod 64 < 64" by simp_all
  have "second_byte_ok (0xE0 + ?a) (0x80 + ?b)" using e assms b by (auto simp: second_byte_ok_def is_scalar_def)
  then show ?thesis using a b e by (simp add: utf8_step_def continuation_at_def)
qed

lemma step_encode4:
  assumes "0x10000 \<le> c" "is_scalar c"
  shows "utf8_step (0xF0 + c div 262144) ((0x80 + c div 4096 mod 64) # (0x80 + c div 64 mod 64) # (0x80 + c mod 64) # r) = (Some c, 4)"
proof -
  let ?a = "c div 262144" and ?b = "c div 4096 mod 64" and ?d = "c div 64 mod 64"
  have e: "c = ?a * 262144 + ?b * 4096 + ?d * 64 + c mod 64"
    by (rule digits4)
  have a: "?a < 5" by (rule less_mult_imp_div_less) (use assms(2) in \<open>simp add: is_scalar_def\<close>)
  have b: "?b < 64" "?d < 64" "c mod 64 < 64" by simp_all
  have "second_byte_ok (0xF0 + ?a) (0x80 + ?b)" using e assms b by (auto simp: second_byte_ok_def is_scalar_def)
  then show ?thesis using a b e by (simp add: utf8_step_def continuation_at_def)
qed

lemma utf8_chunks_encode: "is_scalar c \<Longrightarrow> utf8_chunks (encode_utf8 c @ r) = Some c # utf8_chunks r"
  using step_encode2 [of c r] step_encode3 [of c r] step_encode4 [of c r]
  by (cases "c < 0x80"; cases "c < 0x800"; cases "c < 0x10000") (simp_all add: encode_utf8_def utf8_step_def [of c])

lemma utf8_chunks_concat: "list_all is_scalar cs \<Longrightarrow> utf8_chunks (concat (map encode_utf8 cs)) = map Some cs"
  by (induction cs) (simp_all add: utf8_chunks_encode)

lemma from_utf8_encode: "list_all is_scalar cs \<Longrightarrow> from_utf8 (concat (map encode_utf8 cs)) = Some cs"
  by (auto simp: from_utf8_def utf8_chunks_concat comp_def)

end
