(* ===== verification/Vt_Cell.thy ===== *)
theory Vt_Cell
  imports Utf8 "HOL-Library.Word"
begin

unbundle bit_operations_syntax

text \<open>
  Cells and rows of the terminal emulator (\<open>crates/vt100/src/attrs.rs\<close>, \<open>cell.rs\<close>, \<open>row.rs\<close>).

  A cell packs the number of its content bytes and two flags (first and second half of a wide
  character) into one byte, modelled as an 8-bit word; attributes pack their flags into a 16-bit word.
  A Rust \<open>char\<close> is its code point. \<open>cw\<close> is \<open>UnicodeWidthChar::width\<close> of the unicode-width crate.
  An index out of range, which panics, is \<open>None\<close>.
\<close>

section \<open>Vectors and loops\<close>

definition vec_get :: "'a list \<Rightarrow> nat \<Rightarrow> 'a option" where
  "vec_get xs i = (if i < length xs then Some (xs ! i) else None)"

definition vec_set :: "'a list \<Rightarrow> nat \<Rightarrow> 'a \<Rightarrow> 'a list option" where
  "vec_set xs i x = (if i < length xs then Some (xs[i := x]) else None)"

definition vec_insert :: "'a list \<Rightarrow> nat \<Rightarrow> 'a \<Rightarrow> 'a list option" where
  "vec_insert xs i x = (if i \<le> length xs then Some (take i xs @ x # drop i xs) else None)"

definition vec_remove :: "'a list \<Rightarrow> nat \<Rightarrow> ('a \<times> 'a list) option" where
  "vec_remove xs i = (if i < length xs then Some (xs ! i, take i xs @ drop (Suc i) xs) else None)"

definition vec_resize :: "nat \<Rightarrow> 'a \<Rightarrow> 'a list \<Rightarrow> 'a list" where
  "vec_resize n x xs = take n xs @ replicate (n - length xs) x"

text \<open>\<open>for _ in 0..n\<close> and \<open>for i in is\<close> over a state, stopping at a panic.\<close>

fun loop :: "nat \<Rightarrow> ('s \<Rightarrow> 's option) \<Rightarrow> 's \<Rightarrow> 's option" where
  "loop 0 f s = Some s"
| "loop (Suc n) f s = f s \<bind> loop n f"

fun for_each :: "'i list \<Rightarrow> ('i \<Rightarrow> 's \<Rightarrow> 's option) \<Rightarrow> 's \<Rightarrow> 's option" where
  "for_each [] f s = Some s"
| "for_each (i # is) f s = f i s \<bind> for_each is f"

text \<open>
  \<open>returns m P\<close>: the computation does not panic and its result satisfies \<open>P\<close>. The rules below compose
  such facts along the shape of a program.
\<close>

definition returns :: "'a option \<Rightarrow> ('a \<Rightarrow> bool) \<Rightarrow> bool" where
  "returns m P \<longleftrightarrow> (\<exists>x. m = Some x \<and> P x)"

lemma returns_Some [simp]: "returns (Some x) P \<longleftrightarrow> P x"
  by (simp add: returns_def)

lemma returns_None [simp]: "\<not> returns None P"
  by (simp add: returns_def)

lemma returns_bind [intro]: "returns m P \<Longrightarrow> (\<And>x. P x \<Longrightarrow> returns (f x) Q) \<Longrightarrow> returns (m \<bind> f) Q"
  by (auto simp: returns_def)

lemma returns_mono: "returns m P \<Longrightarrow> (\<And>x. P x \<Longrightarrow> Q x) \<Longrightarrow> returns m Q"
  by (auto simp: returns_def)

lemma returns_conj: "returns m P \<Longrightarrow> returns m Q \<Longrightarrow> returns m (\<lambda>x. P x \<and> Q x)"
  by (auto simp: returns_def)

lemma returns_map: "returns (map_option f m) P \<longleftrightarrow> returns m (\<lambda>x. P (f x))"
  by (cases m) auto

lemma returns_loop:
  assumes "\<And>s. P s \<Longrightarrow> returns (f s) P" and "P s"
  shows "returns (loop n f s) P"
  using assms(2)
proof (induction n arbitrary: s)
  case (Suc n)
  then show ?case using assms(1) [of s] by auto
qed simp

lemma returns_for_each:
  assumes "\<And>i s. i \<in> set is \<Longrightarrow> P s \<Longrightarrow> returns (f i s) P" and "P s"
  shows "returns (for_each is f s) P"
  using assms
proof (induction "is" arbitrary: s)
  case (Cons i "is")
  show ?case using Cons.prems(1) [of i s] Cons.IH Cons.prems by (auto intro!: returns_bind)
qed simp

section \<open>Attributes\<close>

datatype vt_color = ColorDefault | ColorIdx u8 | ColorRgb u8 u8 u8

datatype underline_style = ULSingle | ULDouble | ULCurly | ULDotted | ULDashed

definition TEXT_MODE_BOLD :: "16 word" where "TEXT_MODE_BOLD = push_bit 0 1"
definition TEXT_MODE_DIM :: "16 word" where "TEXT_MODE_DIM = push_bit 1 1"
definition TEXT_MODE_ITALIC :: "16 word" where "TEXT_MODE_ITALIC = push_bit 2 1"
definition TEXT_MODE_UNDERLINE :: "16 word" where "TEXT_MODE_UNDERLINE = push_bit 3 1"
definition TEXT_MODE_INVERSE :: "16 word" where "TEXT_MODE_INVERSE = push_bit 4 1"
definition TEXT_MODE_STRIKETHROUGH :: "16 word" where "TEXT_MODE_STRIKETHROUGH = push_bit 5 1"
definition TEXT_MODE_BLINK :: "16 word" where "TEXT_MODE_BLINK = push_bit 6 1"
definition TEXT_MODE_CONCEAL :: "16 word" where "TEXT_MODE_CONCEAL = push_bit 7 1"
definition TEXT_MODE_OVERLINE :: "16 word" where "TEXT_MODE_OVERLINE = push_bit 8 1"

record attrs =
  at_fgcolor :: vt_color
  at_bgcolor :: vt_color
  at_ulcolor :: vt_color
  at_mode :: "16 word"
  at_underline_style :: underline_style
  at_hyperlink :: u32

definition default_attrs :: attrs where
  "default_attrs = \<lparr>at_fgcolor = ColorDefault, at_bgcolor = ColorDefault, at_ulcolor = ColorDefault, at_mode = 0,
     at_underline_style = ULSingle, at_hyperlink = 0\<rparr>"

text \<open>The getter and setter pairs the macro \<open>flag!\<close> generates.\<close>

definition attr_flag :: "16 word \<Rightarrow> attrs \<Rightarrow> bool" where
  "attr_flag b a \<longleftrightarrow> at_mode a AND b \<noteq> 0"

definition set_attr_flag :: "16 word \<Rightarrow> bool \<Rightarrow> attrs \<Rightarrow> attrs" where
  "set_attr_flag b on a = a\<lparr>at_mode := (if on then at_mode a OR b else at_mode a AND NOT b)\<rparr>"

definition set_underline :: "underline_style option \<Rightarrow> attrs \<Rightarrow> attrs" where
  "set_underline st a = (case st of
     Some s \<Rightarrow> a\<lparr>at_mode := at_mode a OR TEXT_MODE_UNDERLINE, at_underline_style := s\<rparr>
   | None \<Rightarrow> a\<lparr>at_mode := at_mode a AND NOT TEXT_MODE_UNDERLINE, at_underline_style := ULSingle\<rparr>)"

definition set_normal_intensity :: "attrs \<Rightarrow> attrs" where
  "set_normal_intensity a = a\<lparr>at_mode := at_mode a AND NOT (TEXT_MODE_BOLD OR TEXT_MODE_DIM)\<rparr>"

definition sgr_reset :: "attrs \<Rightarrow> attrs" where
  "sgr_reset a = default_attrs\<lparr>at_hyperlink := at_hyperlink a\<rparr>"

definition for_erase :: "attrs \<Rightarrow> attrs" where
  "for_erase a = default_attrs\<lparr>at_bgcolor := at_bgcolor a\<rparr>"

section \<open>Characters\<close>

type_synonym width_fun = "nat \<Rightarrow> nat option"

text \<open>
  What unicode-width documents: a width is 0, 1 or 2, no ASCII character is wide, and the soft hyphen
  is not wide either.
\<close>

definition width_fun_ok :: "width_fun \<Rightarrow> bool" where
  "width_fun_ok cw \<longleftrightarrow> (\<forall>c w. cw c = Some w \<longrightarrow> w \<le> 2 \<and> (c < 128 \<or> c = 0xAD \<longrightarrow> w \<noteq> 2))"

section \<open>Cells\<close>

definition CONTENT_BYTES :: usize where "CONTENT_BYTES = 22"
definition IS_WIDE :: "8 word" where "IS_WIDE = 0b10000000"
definition IS_WIDE_CONTINUATION :: "8 word" where "IS_WIDE_CONTINUATION = 0b01000000"
definition LEN_BITS :: "8 word" where "LEN_BITS = 0b00011111"

record cell =
  ce_contents :: bytes
  ce_len :: "8 word"
  ce_attrs :: attrs

definition cell_new :: cell where
  "cell_new = \<lparr>ce_contents = replicate CONTENT_BYTES 0, ce_len = 0, ce_attrs = default_attrs\<rparr>"

definition cell_len :: "cell \<Rightarrow> usize" where
  "cell_len c = unat (ce_len c AND LEN_BITS)"

definition cell_eq :: "cell \<Rightarrow> cell \<Rightarrow> bool" where
  "cell_eq a b \<longleftrightarrow> ce_len a = ce_len b \<and> ce_attrs a = ce_attrs b
     \<and> take (cell_len a) (ce_contents a) = take (cell_len a) (ce_contents b)"

definition is_wide :: "cell \<Rightarrow> bool" where
  "is_wide c \<longleftrightarrow> ce_len c AND IS_WIDE \<noteq> 0"

definition is_wide_continuation :: "cell \<Rightarrow> bool" where
  "is_wide_continuation c \<longleftrightarrow> ce_len c AND IS_WIDE_CONTINUATION \<noteq> 0"

definition has_contents :: "cell \<Rightarrow> bool" where
  "has_contents c \<longleftrightarrow> 0 < cell_len c"

definition set_wide :: "bool \<Rightarrow> cell \<Rightarrow> cell" where
  "set_wide w c = c\<lparr>ce_len := (if w then ce_len c OR IS_WIDE else ce_len c AND NOT IS_WIDE)\<rparr>"

definition set_wide_continuation :: "bool \<Rightarrow> cell \<Rightarrow> cell" where
  "set_wide_continuation w c = c\<lparr>ce_len := (if w then ce_len c OR IS_WIDE_CONTINUATION else ce_len c AND NOT IS_WIDE_CONTINUATION)\<rparr>"

text \<open>\<open>encode_utf8\<close> panics when the bytes do not fit the rest of the buffer.\<close>

definition append_char :: "nat \<Rightarrow> nat \<Rightarrow> cell \<Rightarrow> cell option" where
  "append_char start c x =
     (if start + len_utf8 c \<le> length (ce_contents x)
      then Some (x\<lparr>ce_contents := take start (ce_contents x) @ encode_utf8 c @ drop (start + len_utf8 c) (ce_contents x),
                   ce_len := ce_len x + of_nat (len_utf8 c)\<rparr>)
      else None)"

definition cell_set :: "width_fun \<Rightarrow> nat \<Rightarrow> attrs \<Rightarrow> cell \<Rightarrow> cell option" where
  "cell_set cw c a x =
     do { y \<leftarrow> append_char 0 c (x\<lparr>ce_len := 0\<rparr>);
          Some ((set_wide (\<not> c < 128 \<and> (case cw c of Some w \<Rightarrow> 1 < w | None \<Rightarrow> False)) y)\<lparr>ce_attrs := a\<rparr>) }"

definition cell_append :: "nat \<Rightarrow> cell \<Rightarrow> cell option" where
  "cell_append c x =
     (if CONTENT_BYTES - 4 \<le> cell_len x then Some x
      else do { y \<leftarrow> (if cell_len x = 0
                       then do { b \<leftarrow> vec_set (ce_contents x) 0 32; Some (x\<lparr>ce_contents := b, ce_len := ce_len x + 1\<rparr>) }
                       else Some x);
                append_char (cell_len y) c y })"

definition cell_clear :: "attrs \<Rightarrow> cell \<Rightarrow> cell" where
  "cell_clear a x = x\<lparr>ce_len := 0, ce_attrs := a\<rparr>"

definition set_hyperlink :: "u32 \<Rightarrow> cell \<Rightarrow> cell" where
  "set_hyperlink i x = x\<lparr>ce_attrs := (ce_attrs x)\<lparr>at_hyperlink := i\<rparr>\<rparr>"

subsection \<open>The packed length\<close>

text \<open>The flags and the length of the packed byte, read off its value.\<close>

lemma bit_word_nat:
  assumes "n < LENGTH('a)"
  shows "bit (w :: 'a::len word) n \<longleftrightarrow> odd (unat w div 2 ^ n)"
proof -
  have "bit w n \<longleftrightarrow> bit (uint w) n" using assms by (simp add: bit_uint_iff)
  also have "\<dots> \<longleftrightarrow> odd (uint w div 2 ^ n)" by (rule bit_iff_odd)
  also have "uint w div 2 ^ n = int (unat w div 2 ^ n)" by (simp add: zdiv_int)
  finally show ?thesis by simp
qed

lemma and_bit: "n < LENGTH('a) \<Longrightarrow> (w :: 'a::len word) AND push_bit n 1 \<noteq> 0 \<longleftrightarrow> bit w n"
  by (simp add: bit_iff_and_push_bit_not_eq_0)

lemma wide_bit: "is_wide c \<longleftrightarrow> bit (ce_len c) 7"
proof -
  have w: "IS_WIDE = push_bit 7 1" by (simp add: IS_WIDE_def)
  show ?thesis unfolding is_wide_def w by (rule and_bit) simp
qed

lemma continuation_bit: "is_wide_continuation c \<longleftrightarrow> bit (ce_len c) 6"
proof -
  have w: "IS_WIDE_CONTINUATION = push_bit 6 1" by (simp add: IS_WIDE_CONTINUATION_def)
  show ?thesis unfolding is_wide_continuation_def w by (rule and_bit) simp
qed

lemma cell_len_mod: "cell_len c = unat (ce_len c) mod 32"
proof -
  have "LEN_BITS = mask 5" by (simp add: LEN_BITS_def mask_eq_exp_minus_1)
  then have "ce_len c AND LEN_BITS = take_bit 5 (ce_len c)" by (simp add: take_bit_eq_mask)
  also have "\<dots> = ce_len c mod 32" by (simp add: take_bit_eq_mod)
  finally show ?thesis by (simp add: cell_len_def unat_mod)
qed

text \<open>Adding to the length within its five bits leaves the flags alone.\<close>

lemma low_bits_grow:
  fixes u k :: nat
  assumes "u mod 32 + k < 32"
  shows "(u + k) div 32 = u div 32" "(u + k) mod 32 = u mod 32 + k"
proof -
  have "u + k = (u mod 32 + k) + 32 * (u div 32)" by simp
  then have "(u + k) div 32 = (u mod 32 + k) div 32 + u div 32" "(u + k) mod 32 = (u mod 32 + k) mod 32"
    by (metis div_mult_self2 add.commute zero_neq_numeral, metis mod_mult_self2)
  with assms show "(u + k) div 32 = u div 32" "(u + k) mod 32 = u mod 32 + k" by simp_all
qed

lemma len_grow:
  fixes w :: "8 word"
  assumes "unat w mod 32 + k < 32"
  shows "unat (w + of_nat k) mod 32 = unat w mod 32 + k" "bit (w + of_nat k) 7 = bit w 7" "bit (w + of_nat k) 6 = bit w 6"
proof -
  note d = low_bits_grow [OF assms]
  have "unat w < 8 * 32" using unsigned_less [of w] by simp
  then have "unat w div 32 < 8" by (rule less_mult_imp_div_less)
  then have "unat w + k < 256" using d(1) div_mult_mod_eq [of "unat w + k" 32] mod_less_divisor [of 32 "unat w + k"] by linarith
  then have u: "unat (w + of_nat k) = unat w + k" by (simp add: unat_word_ariths unat_of_nat)
  show "unat (w + of_nat k) mod 32 = unat w mod 32 + k" unfolding u by (rule d)
  have "(unat w + k) div 128 = unat w div 128" "(unat w + k) div 64 = unat w div 64"
    using d(1) div_mult2_eq [of "unat w + k" 32 4] div_mult2_eq [of "unat w" 32 4]
      div_mult2_eq [of "unat w + k" 32 2] div_mult2_eq [of "unat w" 32 2] by simp_all
  then show "bit (w + of_nat k) 7 = bit w 7" "bit (w + of_nat k) 6 = bit w 6" by (simp_all add: bit_word_nat u)
qed

lemma flag_simps [simp]:
  "is_wide (set_wide b c) = b" "is_wide_continuation (set_wide b c) = is_wide_continuation c"
  "is_wide (set_wide_continuation b c) = is_wide c" "is_wide_continuation (set_wide_continuation b c) = b"
  "cell_len (set_wide b c) = cell_len c" "cell_len (set_wide_continuation b c) = cell_len c"
proof -
  have w: "IS_WIDE = push_bit 7 1" "IS_WIDE_CONTINUATION = push_bit 6 1" by (simp_all add: IS_WIDE_def IS_WIDE_CONTINUATION_def)
  show "is_wide (set_wide b c) = b" "is_wide_continuation (set_wide b c) = is_wide_continuation c"
    "is_wide (set_wide_continuation b c) = is_wide c" "is_wide_continuation (set_wide_continuation b c) = b"
    unfolding wide_bit continuation_bit by (simp_all add: set_wide_def set_wide_continuation_def w bit_simps del: push_bit_of_1)
  have l: "(x OR IS_WIDE) AND LEN_BITS = x AND LEN_BITS" "(x AND NOT IS_WIDE) AND LEN_BITS = x AND LEN_BITS"
    "(x OR IS_WIDE_CONTINUATION) AND LEN_BITS = x AND LEN_BITS" "(x AND NOT IS_WIDE_CONTINUATION) AND LEN_BITS = x AND LEN_BITS" for x
  proof -
    have m: "LEN_BITS = mask 5" by (simp add: LEN_BITS_def mask_eq_exp_minus_1)
    show "(x OR IS_WIDE) AND LEN_BITS = x AND LEN_BITS" "(x AND NOT IS_WIDE) AND LEN_BITS = x AND LEN_BITS"
      "(x OR IS_WIDE_CONTINUATION) AND LEN_BITS = x AND LEN_BITS" "(x AND NOT IS_WIDE_CONTINUATION) AND LEN_BITS = x AND LEN_BITS"
      by (rule bit_eqI; simp add: w m bit_simps del: push_bit_of_1; fastforce)+
  qed
  show "cell_len (set_wide b c) = cell_len c" "cell_len (set_wide_continuation b c) = cell_len c"
    by (simp_all add: cell_len_def set_wide_def set_wide_continuation_def l)
qed


subsection \<open>What a cell holds\<close>

text \<open>The bytes \<open>contents()\<close> takes for UTF-8 text, and the property that makes them so.\<close>

definition cell_text :: "cell \<Rightarrow> bytes" where
  "cell_text x = take (cell_len x) (ce_contents x)"

text \<open>\<open>str::from_utf8(..).unwrap()\<close>.\<close>

definition contents :: "cell \<Rightarrow> nat list option" where
  "contents x = from_utf8 (cell_text x)"

definition utf8_text :: "bytes \<Rightarrow> bool" where
  "utf8_text bs \<longleftrightarrow> (\<exists>cs. list_all is_scalar cs \<and> bs = concat (map encode_utf8 cs))"

definition cell_ok :: "cell \<Rightarrow> bool" where
  "cell_ok x \<longleftrightarrow> length (ce_contents x) = CONTENT_BYTES \<and> cell_len x \<le> CONTENT_BYTES \<and> utf8_text (cell_text x)
     \<and> \<not> (is_wide x \<and> is_wide_continuation x) \<and> (is_wide x \<longrightarrow> has_contents x)"

lemma utf8_text_simps [simp]: "utf8_text []" "is_scalar c \<Longrightarrow> utf8_text (encode_utf8 c)"
  by (auto simp: utf8_text_def intro: exI [of _ "[]"] exI [of _ "[c]"])

lemma contents_returns: "cell_ok x \<Longrightarrow> returns (contents x) (\<lambda>cs. list_all is_scalar cs \<and> cell_text x = concat (map encode_utf8 cs))"
  by (auto simp: cell_ok_def utf8_text_def contents_def from_utf8_encode)

lemma utf8_text_append: "utf8_text a \<Longrightarrow> utf8_text b \<Longrightarrow> utf8_text (a @ b)"
proof (unfold utf8_text_def, elim exE conjE)
  show "\<exists>cs. list_all is_scalar cs \<and> a @ b = concat (map encode_utf8 cs)"
    if "list_all is_scalar xs" "a = concat (map encode_utf8 xs)" "list_all is_scalar ys" "b = concat (map encode_utf8 ys)" for xs ys
    using that by (intro exI [of _ "xs @ ys"]) simp
qed

lemma cell_clear_simps [simp]:
  "\<not> is_wide (cell_clear a x)" "\<not> is_wide_continuation (cell_clear a x)" "ce_attrs (cell_clear a x) = a" "cell_len (cell_clear a x) = 0"
  "ce_contents (cell_clear a x) = ce_contents x"
  by (simp_all add: cell_clear_def wide_bit continuation_bit cell_len_mod)

lemma cell_clear_ok: "cell_ok x \<Longrightarrow> cell_ok (cell_clear a x)"
  by (simp add: cell_ok_def cell_text_def CONTENT_BYTES_def)

lemma cell_new_simps [simp]:
  "\<not> is_wide cell_new" "\<not> is_wide_continuation cell_new" "ce_attrs cell_new = default_attrs" "cell_len cell_new = 0" "cell_ok cell_new"
  by (simp_all add: cell_new_def wide_bit continuation_bit cell_len_mod cell_ok_def cell_text_def)

lemma set_continuation_ok:
  "cell_ok x \<Longrightarrow> \<not> is_wide x \<or> \<not> b \<Longrightarrow> cell_ok (set_wide_continuation b x)"
  "ce_attrs (set_wide_continuation b x) = ce_attrs x"
proof -
  have c: "ce_contents (set_wide_continuation b x) = ce_contents x" by (simp add: set_wide_continuation_def)
  show "cell_ok x \<Longrightarrow> \<not> is_wide x \<or> \<not> b \<Longrightarrow> cell_ok (set_wide_continuation b x)"
    by (auto simp: cell_ok_def cell_text_def c has_contents_def)
qed (simp add: set_wide_continuation_def)

lemma set_hyperlink_simps [simp]:
  "is_wide (set_hyperlink i x) = is_wide x" "is_wide_continuation (set_hyperlink i x) = is_wide_continuation x"
  "cell_ok (set_hyperlink i x) = cell_ok x" "ce_attrs (set_hyperlink i x) = (ce_attrs x)\<lparr>at_hyperlink := i\<rparr>"
  "cell_text (set_hyperlink i x) = cell_text x"
  by (simp_all add: set_hyperlink_def is_wide_def is_wide_continuation_def cell_ok_def cell_len_def cell_text_def has_contents_def)

lemma append_char_returns:
  assumes "length (ce_contents x) = CONTENT_BYTES" and "cell_len x + len_utf8 c \<le> CONTENT_BYTES"
  shows "returns (append_char (cell_len x) c x) (\<lambda>y. length (ce_contents y) = CONTENT_BYTES \<and> cell_len y = cell_len x + len_utf8 c
     \<and> cell_text y = cell_text x @ encode_utf8 c \<and> ce_attrs y = ce_attrs x \<and> is_wide y = is_wide x
     \<and> is_wide_continuation y = is_wide_continuation x)"
proof -
  have g: "unat (ce_len x) mod 32 + len_utf8 c < 32" using assms(2) by (simp add: cell_len_mod CONTENT_BYTES_def)
  have n: "cell_len x \<le> length (ce_contents x)" using assms by simp
  show ?thesis using assms n len_grow [OF g]
    by (simp add: append_char_def cell_text_def wide_bit continuation_bit) (simp add: cell_len_mod)
qed

definition wide_char :: "width_fun \<Rightarrow> nat \<Rightarrow> bool" where
  "wide_char cw c \<longleftrightarrow> \<not> c < 128 \<and> (case cw c of Some w \<Rightarrow> 1 < w | None \<Rightarrow> False)"

lemma cell_set_returns:
  assumes "cell_ok x" and "is_scalar c"
  shows "returns (cell_set cw c a x) (\<lambda>y. cell_ok y \<and> cell_text y = encode_utf8 c \<and> ce_attrs y = a
     \<and> is_wide y = wide_char cw c \<and> \<not> is_wide_continuation y)"
proof -
  let ?x = "x\<lparr>ce_len := 0\<rparr>"
  have x: "cell_len ?x = 0" "length (ce_contents ?x) = CONTENT_BYTES" using assms(1) by (simp_all add: cell_len_mod cell_ok_def)
  have c: "\<not> is_wide_continuation ?x" by (simp add: continuation_bit)
  have "returns (append_char 0 c ?x) (\<lambda>y. length (ce_contents y) = CONTENT_BYTES \<and> cell_len y = len_utf8 c
     \<and> cell_text y = encode_utf8 c \<and> \<not> is_wide_continuation y)"
    by (rule returns_mono [OF append_char_returns [of ?x c, unfolded x(1)]])
      (use x c len_utf8_range [of c] in \<open>auto simp: CONTENT_BYTES_def cell_text_def\<close>)
  then show ?thesis unfolding cell_set_def wide_char_def [symmetric]
  proof (rule returns_bind)
    fix y
    assume y: "length (ce_contents y) = CONTENT_BYTES \<and> cell_len y = len_utf8 c \<and> cell_text y = encode_utf8 c \<and> \<not> is_wide_continuation y"
    define z where "z = (set_wide (wide_char cw c) y)\<lparr>ce_attrs := a\<rparr>"
    have "is_wide z = wide_char cw c" "\<not> is_wide_continuation z" "cell_len z = cell_len y" "ce_contents z = ce_contents y" "ce_attrs z = a"
      using y flag_simps(1,2,5) [of "wide_char cw c" y]
      by (simp_all add: z_def is_wide_def is_wide_continuation_def cell_len_def) (simp add: set_wide_def)
    then show "returns (Some ((set_wide (wide_char cw c) y)\<lparr>ce_attrs := a\<rparr>)) (\<lambda>y. cell_ok y \<and> cell_text y = encode_utf8 c
        \<and> ce_attrs y = a \<and> is_wide y = wide_char cw c \<and> \<not> is_wide_continuation y)"
      using y assms(2) len_utf8_range [of c] by (auto simp: z_def [symmetric] cell_ok_def cell_text_def CONTENT_BYTES_def has_contents_def)
  qed
qed

lemma cell_append_returns:
  assumes "cell_ok x" and "is_scalar c"
  shows "returns (cell_append c x) (\<lambda>y. cell_ok y \<and> ce_attrs y = ce_attrs x \<and> is_wide y = is_wide x
     \<and> is_wide_continuation y = is_wide_continuation x)"
proof (cases "CONTENT_BYTES - 4 \<le> cell_len x")
  case True
  then show ?thesis using assms by (simp add: cell_append_def)
next
  case False
  define z where "z = (if cell_len x = 0 then x\<lparr>ce_contents := (ce_contents x)[0 := 32], ce_len := ce_len x + 1\<rparr> else x)"
  have l: "length (ce_contents x) = CONTENT_BYTES" and t: "utf8_text (cell_text x)" and nb: "\<not> (is_wide x \<and> is_wide_continuation x)"
    using assms(1) by (simp_all add: cell_ok_def)
  have e: "cell_append c x = append_char (cell_len z) c z" using False l
    by (simp add: cell_append_def z_def vec_set_def CONTENT_BYTES_def)
  have z: "length (ce_contents z) = CONTENT_BYTES" "ce_attrs z = ce_attrs x" "is_wide z = is_wide x"
    "is_wide_continuation z = is_wide_continuation x" "cell_len z < CONTENT_BYTES - 4 \<or> cell_len z = 1" "utf8_text (cell_text z)"
  proof -
    have g: "unat (ce_len x + 1) mod 32 = 1" "bit (ce_len x + 1) 7 = bit (ce_len x) 7" "bit (ce_len x + 1) 6 = bit (ce_len x) 6" if "cell_len x = 0"
      using len_grow [of "ce_len x" 1] that by (simp_all add: cell_len_mod)
    have "take 1 ((ce_contents x)[0 := 32]) = encode_utf8 32" using l by (cases "ce_contents x") (auto simp: CONTENT_BYTES_def encode_utf8_def)
    then show "length (ce_contents z) = CONTENT_BYTES" "ce_attrs z = ce_attrs x" "is_wide z = is_wide x"
      "is_wide_continuation z = is_wide_continuation x" "cell_len z < CONTENT_BYTES - 4 \<or> cell_len z = 1" "utf8_text (cell_text z)"
      using l t g False by (auto simp: z_def wide_bit continuation_bit cell_text_def cell_len_mod is_scalar_def)
  qed
  have "cell_len z + len_utf8 c \<le> CONTENT_BYTES" using z(5) len_utf8_range [of c] by (auto simp: CONTENT_BYTES_def)
  from append_char_returns [OF z(1) this] show ?thesis unfolding e
  proof (rule returns_mono)
    fix y
    assume "length (ce_contents y) = CONTENT_BYTES \<and> cell_len y = cell_len z + len_utf8 c \<and> cell_text y = cell_text z @ encode_utf8 c
      \<and> ce_attrs y = ce_attrs z \<and> is_wide y = is_wide z \<and> is_wide_continuation y = is_wide_continuation z"
    then show "cell_ok y \<and> ce_attrs y = ce_attrs x \<and> is_wide y = is_wide x \<and> is_wide_continuation y = is_wide_continuation x"
      using z \<open>cell_len z + len_utf8 c \<le> CONTENT_BYTES\<close> nb assms(2) len_utf8_range [of c] by (auto simp: cell_ok_def has_contents_def intro: utf8_text_append)
  qed
qed


section \<open>Rows\<close>

record row =
  rw_cells :: "cell list"
  rw_wrapped :: bool

definition row_new :: "u16 \<Rightarrow> row" where
  "row_new cols = \<lparr>rw_cells = replicate cols cell_new, rw_wrapped = False\<rparr>"

definition row_clear :: "attrs \<Rightarrow> row \<Rightarrow> row" where
  "row_clear a r = \<lparr>rw_cells = map (cell_clear a) (rw_cells r), rw_wrapped = False\<rparr>"

definition row_wrap :: "bool \<Rightarrow> row \<Rightarrow> row" where
  "row_wrap w r = r\<lparr>rw_wrapped := w\<rparr>"

definition row_insert :: "u16 \<Rightarrow> cell \<Rightarrow> row \<Rightarrow> row option" where
  "row_insert i c r = map_option (\<lambda>cs. r\<lparr>rw_cells := cs\<rparr>) (vec_insert (rw_cells r) i c)"

text \<open>A column is below the row's length, which fits 16 bits, so \<open>col + 1\<close> does not overflow.\<close>

definition clear_wide :: "u16 \<Rightarrow> row \<Rightarrow> row option" where
  "clear_wide col r =
     do { cell \<leftarrow> vec_get (rw_cells r) col;
          if is_wide cell
          then do { other \<leftarrow> vec_get (rw_cells r) (col + 1);
                    cs \<leftarrow> vec_set (rw_cells r) (col + 1) (cell_clear (ce_attrs other) other);
                    Some (r\<lparr>rw_cells := cs\<rparr>) }
          else if is_wide_continuation cell
          then do { j \<leftarrow> checked_sub col 1;
                    other \<leftarrow> vec_get (rw_cells r) j;
                    cs \<leftarrow> vec_set (rw_cells r) j (cell_clear (ce_attrs other) other);
                    Some (r\<lparr>rw_cells := cs\<rparr>) }
          else Some r }"

definition row_remove :: "u16 \<Rightarrow> row \<Rightarrow> row option" where
  "row_remove i r =
     do { r1 \<leftarrow> clear_wide i r;
          (_, cs) \<leftarrow> vec_remove (rw_cells r1) i;
          Some (r1\<lparr>rw_cells := cs\<rparr>) }"

definition row_erase :: "u16 \<Rightarrow> attrs \<Rightarrow> row \<Rightarrow> row option" where
  "row_erase i a r =
     do { r1 \<leftarrow> clear_wide i r;
          c \<leftarrow> vec_get (rw_cells r1) i;
          cs \<leftarrow> vec_set (rw_cells r1) i (cell_clear a c);
          Some (r1\<lparr>rw_cells := cs\<rparr>) }"

definition row_truncate :: "u16 \<Rightarrow> row \<Rightarrow> row option" where
  "row_truncate n r =
     (let cs = take n (rw_cells r)
      in do { j \<leftarrow> checked_sub n 1;
              l \<leftarrow> vec_get cs j;
              Some (r\<lparr>rw_cells := (if is_wide l then cs[j := cell_clear (ce_attrs l) l] else cs)\<rparr>) })"

definition row_resize :: "u16 \<Rightarrow> cell \<Rightarrow> row \<Rightarrow> row" where
  "row_resize n c r =
     (let cs = vec_resize n c (rw_cells r)
      in r\<lparr>rw_cells := (if cs \<noteq> [] \<and> is_wide (last cs) then cs[length cs - 1 := c] else cs)\<rparr>)"

definition row_update :: "u16 \<Rightarrow> (cell \<Rightarrow> cell option) \<Rightarrow> row \<Rightarrow> row option" where
  "row_update i f r = do { c \<leftarrow> vec_get (rw_cells r) i; d \<leftarrow> f c; Some (r\<lparr>rw_cells := (rw_cells r)[i := d]\<rparr>) }"

subsection \<open>The halves of wide characters stay together\<close>

fun paired :: "cell list \<Rightarrow> bool" where
  "paired [] = True"
| "paired [c] = (\<not> is_wide c \<and> \<not> is_wide_continuation c)"
| "paired (c # d # cs) = (\<not> is_wide_continuation c \<and>
     (if is_wide c then is_wide_continuation d \<and> \<not> is_wide d \<and> paired cs else paired (d # cs)))"

abbreviation narrow :: "cell \<Rightarrow> bool" where
  "narrow c \<equiv> \<not> is_wide c \<and> \<not> is_wide_continuation c"

lemma paired_append: "paired xs \<Longrightarrow> paired ys \<Longrightarrow> paired (xs @ ys)"
proof (induction xs rule: paired.induct)
  case (2 c)
  then show ?case by (cases ys) auto
qed (auto split: if_splits)

lemma paired_split:
  "paired (xs @ ys) \<Longrightarrow> ys = [] \<or> \<not> is_wide_continuation (hd ys) \<Longrightarrow> paired xs \<and> paired ys"
proof (induction xs rule: paired.induct)
  case (2 c)
  then show ?case by (cases ys) (auto split: if_splits)
qed (auto split: if_splits)

lemma paired_narrow_Cons: "narrow c \<Longrightarrow> paired (c # cs) = paired cs"
  by (cases cs) auto

lemma paired_wide_Cons: "is_wide c \<Longrightarrow> paired (c # cs) \<longleftrightarrow> \<not> is_wide_continuation c \<and> (\<exists>d ds. cs = d # ds \<and> is_wide_continuation d \<and> \<not> is_wide d \<and> paired ds)"
  by (cases cs) auto

lemma paired_all_narrow: "(\<And>c. c \<in> set cs \<Longrightarrow> narrow c) \<Longrightarrow> paired cs"
  by (induction cs) (auto simp: paired_narrow_Cons)

lemma paired_hd: "paired (c # cs) \<Longrightarrow> \<not> is_wide_continuation c"
  by (cases cs) auto

abbreviation same_flags :: "cell \<Rightarrow> cell \<Rightarrow> bool" where
  "same_flags c d \<equiv> is_wide d = is_wide c \<and> is_wide_continuation d = is_wide_continuation c"

lemma paired_flags: "paired xs \<Longrightarrow> list_all2 same_flags xs ys \<Longrightarrow> paired ys"
proof (induction xs arbitrary: ys rule: paired.induct)
  case (3 c d cs)
  from 3(4) obtain e f fs where ys: "ys = e # f # fs" "same_flags c e" "same_flags d f" "list_all2 same_flags cs fs"
    by (auto simp: list_all2_Cons1)
  show ?case
  proof (cases "is_wide c")
    case True
    with 3(1) [OF True, of fs] 3(3) ys show ?thesis by simp
  next
    case False
    with 3(2) [OF False, of "f # fs"] 3(3) ys show ?thesis by simp
  qed
qed (auto simp: list_all2_Cons1)

text \<open>A paired list seen from one of its cells.\<close>

lemma paired_at_wide:
  assumes "paired (xs @ c # ys)" and "is_wide c"
  obtains d ds where "ys = d # ds" "is_wide_continuation d" "\<not> is_wide d" "\<not> is_wide_continuation c" "paired xs" "paired ds"
proof -
  have nc: "\<not> is_wide_continuation c"
  proof
    assume "is_wide_continuation c"
    with assms show False by (induction xs rule: paired.induct) (auto split: if_splits dest: paired_hd)
  qed
  with paired_split [OF assms(1)] have "paired xs" "paired (c # ys)" by auto
  with assms(2) that nc show ?thesis by (auto simp: paired_wide_Cons)
qed

lemma paired_at_continuation:
  assumes "paired (xs @ c # ys)" and "is_wide_continuation c"
  obtains zs w where "xs = zs @ [w]" "is_wide w" "\<not> is_wide c" "paired zs" "paired ys"
proof (cases xs rule: rev_cases)
  case Nil
  with assms show ?thesis by (cases ys) auto
next
  case (snoc zs w)
  have "is_wide w"
  proof (rule ccontr)
    assume n: "\<not> is_wide w"
    have "paired (zs @ w # c # ys) \<Longrightarrow> False"
      using n assms(2) by (induction zs rule: paired.induct) (auto split: if_splits dest: paired_hd)
    with assms(1) snoc show False by simp
  qed
  then obtain d ds where "c # ys = d # ds" "\<not> is_wide d" "paired zs" "paired ds"
    using paired_at_wide [of zs w "c # ys"] assms(1) snoc by auto
  then show ?thesis using that snoc \<open>is_wide w\<close> by simp
qed

lemma paired_at_narrow: "paired (xs @ c # ys) \<Longrightarrow> narrow c \<Longrightarrow> paired xs \<and> paired ys"
  using paired_split [of xs "c # ys"] by (auto simp: paired_narrow_Cons)

lemma paired_insert: "paired xs \<Longrightarrow> paired ys \<Longrightarrow> narrow c \<Longrightarrow> paired (xs @ c # ys)"
  by (rule paired_append) (auto simp: paired_narrow_Cons)

text \<open>
  A row is good for a class \<open>A\<close> of attributes when it has the given width, its wide characters are
  complete, its cells hold text, and their attributes are in the class.
\<close>

definition row_ok :: "(attrs \<Rightarrow> bool) \<Rightarrow> nat \<Rightarrow> row \<Rightarrow> bool" where
  "row_ok A n r \<longleftrightarrow> length (rw_cells r) = n \<and> paired (rw_cells r) \<and> (\<forall>c\<in>set (rw_cells r). cell_ok c \<and> A (ce_attrs c))"


lemma list_at: "i < length cs \<Longrightarrow> cs = take i cs @ cs ! i # drop (Suc i) cs"
  by (rule id_take_nth_drop)

lemma paired_update:
  assumes "paired cs" and "i < length cs" and "narrow (cs ! i)" and "narrow d"
  shows "paired (cs[i := d])"
proof -
  have "paired (take i cs @ cs ! i # drop (Suc i) cs)" using assms(1) list_at [OF assms(2)] by simp
  from paired_at_narrow [OF this assms(3)] show ?thesis using assms(2,4) by (simp add: upd_conv_take_nth_drop paired_insert)
qed

text \<open>Clearing the other half makes room for any narrow cell.\<close>

definition unlinked :: "nat \<Rightarrow> cell list \<Rightarrow> bool" where
  "unlinked i cs \<longleftrightarrow> i < length cs \<and> paired (take i cs) \<and> paired (drop (Suc i) cs)"

lemma clear_wide_returns:
  assumes "row_ok A n r" and "i < n"
  shows "returns (clear_wide i r) (\<lambda>r'. length (rw_cells r') = n \<and> unlinked i (rw_cells r')
     \<and> (\<forall>c\<in>set (rw_cells r'). cell_ok c \<and> A (ce_attrs c)) \<and> rw_wrapped r' = rw_wrapped r)"
proof -
  define cs where "cs = rw_cells r"
  have cs: "length cs = n" "paired cs" "\<forall>c\<in>set cs. cell_ok c \<and> A (ce_attrs c)" using assms by (simp_all add: row_ok_def cs_def)
  have i: "i < length cs" using cs assms by simp
  define xs c ys where "xs = take i cs" and "c = cs ! i" and "ys = drop (Suc i) cs"
  have l: "cs = xs @ c # ys" "length xs = i" using list_at [OF i] i by (simp_all add: xs_def c_def ys_def)
  have p: "paired (xs @ c # ys)" using cs(2) l by simp
  consider "is_wide c" | "\<not> is_wide c" "is_wide_continuation c" | "narrow c" by blast
  then show ?thesis
  proof cases
    case 1
    obtain d ds where d: "ys = d # ds" "paired xs" "paired ds" using paired_at_wide [OF p 1] by metis
    have "clear_wide i r = Some (r\<lparr>rw_cells := xs @ c # cell_clear (ce_attrs d) d # ds\<rparr>)"
      using 1 l d by (simp add: clear_wide_def vec_get_def vec_set_def cs_def [symmetric] nth_append list_update_append)
    then show ?thesis using l d cs by (auto simp: unlinked_def paired_narrow_Cons cell_clear_ok)
  next
    case 2
    obtain zs w where d: "xs = zs @ [w]" "paired zs" "paired ys" using paired_at_continuation [OF p 2(2)] by metis
    have "clear_wide i r = Some (r\<lparr>rw_cells := zs @ cell_clear (ce_attrs w) w # c # ys\<rparr>)"
    proof -
      have "i = Suc (length zs)" "rw_cells r = zs @ w # c # ys" using l d by (auto simp: cs_def)
      then show ?thesis using 2 by (simp add: clear_wide_def vec_get_def vec_set_def checked_sub_def nth_append list_update_append)
    qed
    then show ?thesis using l d cs by (auto simp: unlinked_def paired_insert cell_clear_ok)
  next
    case 3
    then have "clear_wide i r = Some r" using l by (simp add: clear_wide_def vec_get_def cs_def [symmetric] nth_append)
    then show ?thesis using cs paired_at_narrow [OF p 3] i by (simp add: unlinked_def cs_def xs_def ys_def)
  qed
qed

lemma row_erase_returns:
  assumes "row_ok A n r" and "i < n" and "A a"
  shows "returns (row_erase i a r) (row_ok A n)"
  unfolding row_erase_def
proof (rule returns_bind [OF clear_wide_returns [OF assms(1,2)]])
  fix r' :: row
  assume r': "length (rw_cells r') = n \<and> unlinked i (rw_cells r') \<and> (\<forall>c\<in>set (rw_cells r'). cell_ok c \<and> A (ce_attrs c)) \<and> rw_wrapped r' = rw_wrapped r"
  let ?d = "cell_clear a (rw_cells r' ! i)"
  have "paired ((rw_cells r')[i := ?d])" using r' by (auto simp: unlinked_def upd_conv_take_nth_drop intro: paired_insert)
  moreover have "\<forall>c\<in>set ((rw_cells r')[i := ?d]). cell_ok c \<and> A (ce_attrs c)"
    using r' assms set_update_subset_insert [of "rw_cells r'" i ?d] by (auto simp: cell_clear_ok)
  ultimately show "returns (vec_get (rw_cells r') i \<bind> (\<lambda>c. vec_set (rw_cells r') i (cell_clear a c) \<bind> (\<lambda>cs. Some (r'\<lparr>rw_cells := cs\<rparr>)))) (row_ok A n)"
    using r' assms by (simp add: vec_get_def vec_set_def row_ok_def)
qed

lemma row_remove_returns:
  assumes "row_ok A n r" and "i < n"
  shows "returns (row_remove i r) (row_ok A (n - 1))"
  unfolding row_remove_def
proof (rule returns_bind [OF clear_wide_returns [OF assms]])
  fix r' :: row
  assume r': "length (rw_cells r') = n \<and> unlinked i (rw_cells r') \<and> (\<forall>c\<in>set (rw_cells r'). cell_ok c \<and> A (ce_attrs c)) \<and> rw_wrapped r' = rw_wrapped r"
  have "paired (take i (rw_cells r') @ drop (Suc i) (rw_cells r'))" using r' by (simp add: unlinked_def paired_append)
  moreover have "\<forall>c\<in>set (take i (rw_cells r')) \<union> set (drop (Suc i) (rw_cells r')). cell_ok c \<and> A (ce_attrs c)"
    using r' by (auto dest: in_set_takeD in_set_dropD)
  ultimately show "returns (vec_remove (rw_cells r') i \<bind> (\<lambda>(_, cs). Some (r'\<lparr>rw_cells := cs\<rparr>))) (row_ok A (n - 1))"
    using r' assms by (auto simp: vec_remove_def row_ok_def)
qed

lemma row_truncate_returns:
  assumes r: "row_ok A m r" and "0 < n" and "n \<le> m"
  shows "returns (row_truncate n r) (row_ok A n)"
proof -
  define cs where "cs = rw_cells r"
  have cs: "length cs = m" "paired cs" "\<forall>c\<in>set cs. cell_ok c \<and> A (ce_attrs c)" using r by (simp_all add: row_ok_def cs_def)
  define xs c ys where "xs = take (n - 1) cs" and "c = cs ! (n - 1)" and "ys = drop n cs"
  have i: "n - 1 < length cs" using cs assms by simp
  have l: "cs = xs @ c # ys" "take n cs = xs @ [c]" "length xs = n - 1"
  proof -
    have n: "Suc (n - 1) = n" using assms(2) by simp
    show "cs = xs @ c # ys" unfolding xs_def c_def ys_def by (rule list_at [OF i, unfolded n])
    show "take n cs = xs @ [c]" unfolding xs_def c_def by (rule take_Suc_conv_app_nth [OF i, unfolded n])
    show "length xs = n - 1" using i by (simp add: xs_def)
  qed
  have p: "paired (xs @ c # ys)" using cs(2) l by simp
  have e: "row_truncate n r = Some (r\<lparr>rw_cells := (if is_wide c then xs @ [cell_clear (ce_attrs c) c] else xs @ [c])\<rparr>)"
    using assms(2) l by (simp add: row_truncate_def cs_def [symmetric] vec_get_def checked_sub_def nth_append list_update_append Let_def)
  have "paired (if is_wide c then xs @ [cell_clear (ce_attrs c) c] else xs @ [c])"
  proof (cases "is_wide c")
    case True
    obtain d ds where "paired xs" by (rule paired_at_wide [OF p True])
    then show ?thesis using True by (simp add: paired_append)
  next
    case False
    have "ys = [] \<or> \<not> is_wide_continuation (hd ys)"
    proof (cases ys)
      case (Cons d ds)
      have "\<not> is_wide_continuation d"
      proof
        assume d: "is_wide_continuation d"
        have "paired ((xs @ [c]) @ d # ds)" using p Cons by simp
        then obtain zs w where "xs @ [c] = zs @ [w]" "is_wide w" using d by (rule paired_at_continuation)
        with False show False by simp
      qed
      with Cons show ?thesis by simp
    qed simp
    then show ?thesis using paired_split [of "xs @ [c]" ys] p False by simp
  qed
  then show ?thesis unfolding e using cs l assms by (auto simp: row_ok_def cell_clear_ok)
qed

lemma row_resize_ok:
  assumes r: "row_ok A m r" and "m \<le> n" and c: "cell_ok c" "narrow c" "A (ce_attrs c)"
  shows "row_ok A n (row_resize n c r)"
proof -
  define cs where "cs = rw_cells r"
  have cs: "length cs = m" "paired cs" "\<forall>c\<in>set cs. cell_ok c \<and> A (ce_attrs c)" using r by (simp_all add: row_ok_def cs_def)
  define ds where "ds = vec_resize n c cs"
  have ds: "ds = cs @ replicate (n - m) c" using cs assms by (simp add: ds_def vec_resize_def)
  have p: "paired ds" unfolding ds using c by (intro paired_append [OF cs(2) paired_all_narrow]) simp_all
  have "\<not> is_wide (last ds)" if "ds \<noteq> []"
  proof
    assume w: "is_wide (last ds)"
    have "paired (butlast ds @ last ds # [])" using p that by simp
    from paired_at_wide [OF this w] show False by auto
  qed
  then have "row_resize n c r = r\<lparr>rw_cells := ds\<rparr>" by (auto simp: row_resize_def cs_def [symmetric] ds_def [symmetric] Let_def)
  then show ?thesis using p ds cs c assms by (auto simp: row_ok_def)
qed

end
