(* ===== verification/Vt_Grid.thy ===== *)
theory Vt_Grid
  imports Vt_Cell
begin

text \<open>
  The screen buffer of the terminal emulator (\<open>crates/vt100/src/grid.rs\<close>): the visible rows, the
  scrollback, the cursor with its saved copy, the scroll region and the tab stops.

  \<^item> \<open>vt_size\<close>, \<open>vt_pos\<close> and \<open>grid\<close> are the structs \<open>Size\<close>, \<open>Pos\<close> and \<open>Grid\<close>; the vectors and the deque are
    lists. The counter \<open>freed_rows\<close> (64 bits, one per discarded row) is an unbounded number.
  \<^item> An operation that indexes, unwraps or subtracts returns an option, \<open>None\<close> for the panic. A screen
    has at least one row and one column, so \<open>size.rows - 1\<close> and \<open>size.cols - 1\<close> are plain differences.
  \<^item> \<open>grid_ok\<close> is the invariant: dimensions of every row, cursor and margins inside the screen, wide
    characters complete, bounded scrollback. Every operation returns and keeps it.
\<close>

section \<open>State\<close>

record vt_size =
  sz_rows :: u16
  sz_cols :: u16

record vt_pos =
  p_row :: u16
  p_col :: u16

abbreviation origin :: vt_pos where
  "origin \<equiv> \<lparr>p_row = 0, p_col = 0\<rparr>"

record grid =
  g_freed_rows :: nat
  g_size :: vt_size
  g_pos :: vt_pos
  g_saved_pos :: vt_pos
  g_saved_set :: bool
  g_rows :: "row list"
  g_scroll_top :: u16
  g_scroll_bottom :: u16
  g_origin_mode :: bool
  g_saved_origin_mode :: bool
  g_scrollback :: "row list"
  g_scrollback_len :: usize
  g_scrollback_offset :: usize
  g_blank_attrs :: attrs
  g_tab_stops :: "bool list"

abbreviation "nrows g \<equiv> sz_rows (g_size g)"
abbreviation "ncols g \<equiv> sz_cols (g_size g)"
abbreviation "cur_row g \<equiv> p_row (g_pos g)"
abbreviation "cur_col g \<equiv> p_col (g_pos g)"

definition MIN_REARM_ROWS :: u64 where "MIN_REARM_ROWS = 16"

definition default_tab_stops :: "u16 \<Rightarrow> bool list" where
  "default_tab_stops cols = map (\<lambda>c. c mod 8 = 0 \<and> c \<noteq> 0) [0..<cols]"

definition grid_new :: "vt_size \<Rightarrow> usize \<Rightarrow> grid" where
  "grid_new sz sb_len = \<lparr>g_freed_rows = 0, g_size = sz, g_pos = origin, g_saved_pos = origin, g_saved_set = False,
     g_rows = [], g_scroll_top = 0, g_scroll_bottom = sz_rows sz - 1, g_origin_mode = False, g_saved_origin_mode = False,
     g_scrollback = [], g_scrollback_len = sb_len, g_scrollback_offset = 0, g_blank_attrs = default_attrs,
     g_tab_stops = default_tab_stops (sz_cols sz)\<rparr>"

section \<open>Operations\<close>

definition set_row :: "u16 \<Rightarrow> grid \<Rightarrow> grid" where
  "set_row r g = g\<lparr>g_pos := (g_pos g)\<lparr>p_row := r\<rparr>\<rparr>"

definition set_col :: "u16 \<Rightarrow> grid \<Rightarrow> grid" where
  "set_col c g = g\<lparr>g_pos := (g_pos g)\<lparr>p_col := c\<rparr>\<rparr>"

definition set_blank_attrs :: "attrs \<Rightarrow> grid \<Rightarrow> grid" where
  "set_blank_attrs a g = g\<lparr>g_blank_attrs := a\<rparr>"

definition blank_cell :: "grid \<Rightarrow> cell" where
  "blank_cell g = cell_clear (g_blank_attrs g) cell_new"

definition allocate_rows :: "grid \<Rightarrow> grid" where
  "allocate_rows g = (if g_rows g = [] then g\<lparr>g_rows := replicate (nrows g) (row_new (ncols g))\<rparr> else g)"

definition new_row :: "grid \<Rightarrow> row" where
  "new_row g = (let r = row_new (ncols g) in if g_blank_attrs g \<noteq> default_attrs then row_clear (g_blank_attrs g) r else r)"

definition free_screen :: "grid \<Rightarrow> grid" where
  "free_screen g = g\<lparr>g_freed_rows := g_freed_rows g + max (nrows g) MIN_REARM_ROWS\<rparr>"

definition grid_clear :: "grid \<Rightarrow> grid" where
  "grid_clear g = (free_screen g)\<lparr>g_pos := origin, g_saved_pos := origin, g_saved_set := False,
     g_rows := map (row_clear default_attrs) (g_rows g), g_scroll_top := 0, g_scroll_bottom := nrows g - 1,
     g_origin_mode := False, g_saved_origin_mode := False\<rparr>"

definition row_clamp_top :: "bool \<Rightarrow> grid \<Rightarrow> u16 \<times> grid" where
  "row_clamp_top limit g =
     (if limit \<and> cur_row g < g_scroll_top g then (g_scroll_top g - cur_row g, set_row (g_scroll_top g) g) else (0, g))"

definition row_clamp_bottom :: "bool \<Rightarrow> grid \<Rightarrow> u16 \<times> grid" where
  "row_clamp_bottom limit g =
     (let bottom = (if limit then g_scroll_bottom g else nrows g - 1)
      in if bottom < cur_row g then (cur_row g - bottom, set_row bottom g) else (0, g))"

definition row_clamp :: "grid \<Rightarrow> grid" where
  "row_clamp g = (if nrows g - 1 < cur_row g then set_row (nrows g - 1) g else g)"

definition col_clamp :: "grid \<Rightarrow> grid" where
  "col_clamp g = (if ncols g - 1 < cur_col g then set_col (ncols g - 1) g else g)"

definition set_pos :: "vt_pos \<Rightarrow> grid \<Rightarrow> grid" where
  "set_pos p g =
     (let q = (if g_origin_mode g then p\<lparr>p_row := saturating_add u16_max (p_row p) (g_scroll_top g)\<rparr> else p);
          g1 = g\<lparr>g_pos := q\<rparr>;
          g2 = snd (row_clamp_top (g_origin_mode g) g1);
          g3 = snd (row_clamp_bottom (g_origin_mode g) g2)
      in col_clamp g3)"

definition set_pos_exact :: "vt_pos \<Rightarrow> grid \<Rightarrow> grid" where
  "set_pos_exact p g = g\<lparr>g_pos := p\<rparr>"

definition grid_save_cursor :: "grid \<Rightarrow> grid" where
  "grid_save_cursor g = g\<lparr>g_saved_pos := g_pos g, g_saved_set := True, g_saved_origin_mode := g_origin_mode g\<rparr>"

definition grid_restore_cursor :: "grid \<Rightarrow> grid" where
  "grid_restore_cursor g = col_clamp (g\<lparr>g_pos := g_saved_pos g, g_origin_mode := g_saved_origin_mode g\<rparr>)"

text \<open>\<open>scrollback.len() - scrollback_offset\<close> is a plain subtraction.\<close>

definition visible_rows :: "grid \<Rightarrow> row list option" where
  "visible_rows g =
     do { k \<leftarrow> checked_sub (length (g_scrollback g)) (g_scrollback_offset g);
          Some (take (length (g_rows g)) (drop k (g_scrollback g))
                @ take (saturating_sub (length (g_rows g)) (g_scrollback_offset g)) (g_rows g)) }"

definition nth_opt :: "'a list \<Rightarrow> nat \<Rightarrow> 'a option" where
  "nth_opt xs i = (if i < length xs then Some (xs ! i) else None)"

definition visible_cell :: "vt_pos \<Rightarrow> grid \<Rightarrow> cell option option" where
  "visible_cell p g = map_option (\<lambda>rs. nth_opt rs (p_row p) \<bind> (\<lambda>r. nth_opt (rw_cells r) (p_col p))) (visible_rows g)"

definition drawing_cell :: "vt_pos \<Rightarrow> grid \<Rightarrow> cell option" where
  "drawing_cell p g = nth_opt (g_rows g) (p_row p) \<bind> (\<lambda>r. nth_opt (rw_cells r) (p_col p))"

text \<open>\<open>drawing_row_mut(row).unwrap()\<close> and \<open>current_row_mut()\<close>, followed by an edit of the row.\<close>

definition on_row :: "u16 \<Rightarrow> (row \<Rightarrow> row option) \<Rightarrow> grid \<Rightarrow> grid option" where
  "on_row i f g = do { r \<leftarrow> vec_get (g_rows g) i; r' \<leftarrow> f r; Some (g\<lparr>g_rows := (g_rows g)[i := r']\<rparr>) }"

abbreviation on_current_row :: "(row \<Rightarrow> row option) \<Rightarrow> grid \<Rightarrow> grid option" where
  "on_current_row f g \<equiv> on_row (cur_row g) f g"

definition pad_row :: "u16 \<Rightarrow> row \<Rightarrow> row" where
  "pad_row cols r = (if length (rw_cells r) < cols then r\<lparr>rw_cells := vec_resize cols cell_new (rw_cells r)\<rparr> else r)"

definition pad_scrollback_window :: "grid \<Rightarrow> grid" where
  "pad_scrollback_window g =
     (let shown = min (g_scrollback_offset g) (length (g_scrollback g));
          k = length (g_scrollback g) - shown;
          sb = g_scrollback g
      in g\<lparr>g_scrollback := take k sb @ map (pad_row (ncols g)) (take (length (g_rows g)) (drop k sb))
             @ drop (length (g_rows g)) (drop k sb)\<rparr>)"

definition set_scrollback :: "usize \<Rightarrow> grid \<Rightarrow> grid" where
  "set_scrollback n g = pad_scrollback_window (g\<lparr>g_scrollback_offset := min n (length (g_scrollback g))\<rparr>)"

subsection \<open>Erasing\<close>

definition erase_all :: "attrs \<Rightarrow> grid \<Rightarrow> grid" where
  "erase_all a g = (free_screen g)\<lparr>g_rows := map (row_clear a) (g_rows g)\<rparr>"

definition erase_row :: "attrs \<Rightarrow> grid \<Rightarrow> grid option" where
  "erase_row a g = on_current_row (\<lambda>r. Some (row_clear a r)) g"

definition erase_row_forward :: "attrs \<Rightarrow> grid \<Rightarrow> grid option" where
  "erase_row_forward a g =
     on_current_row (\<lambda>r. do { r1 \<leftarrow> for_each [cur_col g..<ncols g] (\<lambda>c. row_erase c a) r;
                              Some (if cur_col g = 0 then row_wrap False r1 else r1) }) g"

definition erase_row_backward :: "attrs \<Rightarrow> grid \<Rightarrow> grid option" where
  "erase_row_backward a g = on_current_row (for_each [0..<Suc (min (cur_col g) (ncols g - 1))] (\<lambda>c. row_erase c a)) g"

definition erase_all_forward :: "attrs \<Rightarrow> grid \<Rightarrow> grid option" where
  "erase_all_forward a g =
     erase_row_forward a (g\<lparr>g_rows := take (cur_row g + 1) (g_rows g) @ map (row_clear a) (drop (cur_row g + 1) (g_rows g))\<rparr>)"

definition erase_all_backward :: "attrs \<Rightarrow> grid \<Rightarrow> grid option" where
  "erase_all_backward a g =
     (let pos = g_pos g;
          g1 = g\<lparr>g_rows := map (row_clear a) (take (p_row pos) (g_rows g)) @ drop (p_row pos) (g_rows g)\<rparr>
      in do { g2 \<leftarrow> erase_row_backward a g1;
              g3 \<leftarrow> on_current_row (\<lambda>r. Some (row_wrap False r)) g2;
              c \<leftarrow> checked_add u16_max (p_col pos) 1;
              Some (if ncols g \<le> c
                    then (let j = p_row pos + 1; sb = length (g_scrollback g3)
                          in if j < sb then g3\<lparr>g_scrollback := (g_scrollback g3)[j := row_wrap False (g_scrollback g3 ! j)]\<rparr>
                             else if j - sb < length (g_rows g3)
                                  then g3\<lparr>g_rows := (g_rows g3)[j - sb := row_wrap False (g_rows g3 ! (j - sb))]\<rparr>
                                  else g3)
                    else g3) })"

definition erase_cells :: "u16 \<Rightarrow> attrs \<Rightarrow> grid \<Rightarrow> grid option" where
  "erase_cells count a g =
     on_current_row (for_each [cur_col g..<min (saturating_add u16_max (cur_col g) count) (ncols g)] (\<lambda>c. row_erase c a)) g"

subsection \<open>Inserting and deleting\<close>

definition insert_one :: "bool \<Rightarrow> u16 \<Rightarrow> cell \<Rightarrow> row \<Rightarrow> row option" where
  "insert_one wide col blank r =
     do { r1 \<leftarrow> (if wide then row_update col (\<lambda>c. Some (set_wide_continuation False c)) r else Some r);
          r2 \<leftarrow> row_insert col blank r1;
          if wide then row_update col (\<lambda>c. Some (set_wide_continuation True c)) r2 else Some r2 }"

definition insert_cells :: "u16 \<Rightarrow> grid \<Rightarrow> grid option" where
  "insert_cells count g =
     do { wide \<leftarrow> (if cur_col g < ncols g then map_option is_wide_continuation (drawing_cell (g_pos g) g) else Some False);
          on_current_row (\<lambda>r. do { r1 \<leftarrow> loop (min count (saturating_sub (ncols g) (cur_col g)))
                                            (insert_one wide (cur_col g) (blank_cell g)) r;
                                  row_truncate (ncols g) r1 }) g }"

definition delete_cells :: "u16 \<Rightarrow> grid \<Rightarrow> grid option" where
  "delete_cells count g =
     on_current_row (\<lambda>r. do { left \<leftarrow> checked_sub (ncols g) (cur_col g);
                              r1 \<leftarrow> loop (min count left) (row_remove (cur_col g)) r;
                              Some (row_resize (ncols g) (blank_cell g) r1) }) g"

definition in_scroll_region :: "grid \<Rightarrow> bool" where
  "in_scroll_region g \<longleftrightarrow> g_scroll_top g \<le> cur_row g \<and> cur_row g \<le> g_scroll_bottom g"

text \<open>\<open>count.min(hi - lo + 1)\<close>.\<close>

definition at_most_span :: "u16 \<Rightarrow> u16 \<Rightarrow> u16 \<Rightarrow> u16 option" where
  "at_most_span count hi lo = do { d \<leftarrow> checked_sub hi lo; n \<leftarrow> checked_add u16_max d 1; Some (min count n) }"

text \<open>Take the row at \<open>from\<close> out and put a new one in at \<open>to\<close>, or the other way round.\<close>

definition remove_insert :: "nat \<Rightarrow> nat \<Rightarrow> row \<Rightarrow> grid \<Rightarrow> grid option" where
  "remove_insert i j r g = do { (_, rs) \<leftarrow> vec_remove (g_rows g) i; rs' \<leftarrow> vec_insert rs j r; Some (g\<lparr>g_rows := rs'\<rparr>) }"

definition insert_remove :: "nat \<Rightarrow> nat \<Rightarrow> row \<Rightarrow> grid \<Rightarrow> (row \<times> grid) option" where
  "insert_remove i j r g = do { rs \<leftarrow> vec_insert (g_rows g) i r; (x, rs') \<leftarrow> vec_remove rs j; Some (x, g\<lparr>g_rows := rs'\<rparr>) }"

definition insert_lines :: "u16 \<Rightarrow> grid \<Rightarrow> grid option" where
  "insert_lines count g =
     (let g1 = col_clamp g
      in if \<not> in_scroll_region g1 then Some g1
         else let g2 = set_col 0 g1
              in do { n \<leftarrow> at_most_span count (g_scroll_bottom g2) (cur_row g2);
                      loop n (\<lambda>h. remove_insert (g_scroll_bottom h) (cur_row h) (new_row h) h) g2 })"

definition delete_lines :: "u16 \<Rightarrow> grid \<Rightarrow> grid option" where
  "delete_lines count g =
     (let g1 = col_clamp g
      in if \<not> in_scroll_region g1 then Some g1
         else let g2 = set_col 0 g1
              in do { n \<leftarrow> at_most_span count (g_scroll_bottom g2) (cur_row g2);
                      loop n (\<lambda>h. map_option snd (insert_remove (g_scroll_bottom h + 1) (cur_row h) (new_row h) h)) g2 })"

subsection \<open>Scrolling\<close>

text \<open>The \<open>while\<close> loop drops rows from the front until the scrollback fits.\<close>

definition push_scrollback :: "row \<Rightarrow> grid \<Rightarrow> grid" where
  "push_scrollback r g =
     (let sb = g_scrollback g @ [r];
          k = length sb - g_scrollback_len g;
          sb' = drop k sb;
          off = g_scrollback_offset g
      in g\<lparr>g_scrollback := sb', g_freed_rows := g_freed_rows g + k,
           g_scrollback_offset := (if 0 < off then min (length sb') (off + 1) else off)\<rparr>)"

definition scroll_one :: "bool \<Rightarrow> grid \<Rightarrow> grid option" where
  "scroll_one feed g =
     do { (removed, g1) \<leftarrow> insert_remove (g_scroll_bottom g + 1) (g_scroll_top g) (new_row g) g;
          Some (if feed \<and> 0 < g_scrollback_len g1 \<and> g_scroll_top g1 = 0 then push_scrollback removed g1
                else g1\<lparr>g_freed_rows := g_freed_rows g1 + 1\<rparr>) }"

definition scroll_region_up :: "u16 \<Rightarrow> bool \<Rightarrow> grid \<Rightarrow> grid option" where
  "scroll_region_up count feed g =
     do { n \<leftarrow> at_most_span count (g_scroll_bottom g) (g_scroll_top g); loop n (scroll_one feed) g }"

definition scroll_up :: "u16 \<Rightarrow> grid \<Rightarrow> grid option" where
  "scroll_up count g = scroll_region_up count True g"

definition scroll_up_discard :: "u16 \<Rightarrow> grid \<Rightarrow> grid option" where
  "scroll_up_discard count g = scroll_region_up count False g"

definition scroll_down :: "u16 \<Rightarrow> bool \<Rightarrow> grid \<Rightarrow> grid option" where
  "scroll_down count bce g =
     do { n \<leftarrow> at_most_span count (g_scroll_bottom g) (g_scroll_top g);
          loop n (\<lambda>h. remove_insert (g_scroll_bottom h) (g_scroll_top h)
                        (if bce then new_row h else row_new (ncols h)) h) g }"

definition set_scroll_region :: "u16 \<Rightarrow> u16 \<Rightarrow> grid \<Rightarrow> grid" where
  "set_scroll_region t b g =
     (let b' = min b (nrows g - 1)
      in if t < b'
         then g\<lparr>g_scroll_top := t, g_scroll_bottom := b',
                g_pos := \<lparr>p_row = (if g_origin_mode g then t else 0), p_col = 0\<rparr>\<rparr>
         else g)"

definition scroll_region :: "grid \<Rightarrow> (u16 \<times> u16) option" where
  "scroll_region g =
     (if g_scroll_top g = 0 \<and> g_scroll_bottom g = nrows g - 1 then Some (0, 0)
      else do { t \<leftarrow> checked_add u16_max (g_scroll_top g) 1; b \<leftarrow> checked_add u16_max (g_scroll_bottom g) 1; Some (t, b) })"

definition grid_tab_stops :: "grid \<Rightarrow> u16 list" where
  "grid_tab_stops g = map (\<lambda>c. if c \<le> u16_max then c else u16_max) (filter (\<lambda>c. g_tab_stops g ! c) [0..<length (g_tab_stops g)])"

definition set_origin_mode :: "bool \<Rightarrow> grid \<Rightarrow> grid" where
  "set_origin_mode m g = set_pos origin (g\<lparr>g_origin_mode := m\<rparr>)"

subsection \<open>Moving the cursor\<close>

definition row_inc_clamp :: "u16 \<Rightarrow> grid \<Rightarrow> grid" where
  "row_inc_clamp count g =
     snd (row_clamp_bottom (in_scroll_region g) (set_row (saturating_add u16_max (cur_row g) count) g))"

definition row_inc_scroll :: "u16 \<Rightarrow> grid \<Rightarrow> (u16 \<times> grid) option" where
  "row_inc_scroll count g =
     (let inside = in_scroll_region g;
          (lines, g1) = row_clamp_bottom inside (set_row (saturating_add u16_max (cur_row g) count) g)
      in if inside then map_option (Pair lines) (scroll_up lines g1) else Some (0, g1))"

definition line_feed :: "grid \<Rightarrow> grid option" where
  "line_feed g =
     do { (scrolled, g1) \<leftarrow> row_inc_scroll 1 g;
          below \<leftarrow> (if scrolled = 0 then checked_add u16_max (cur_row g) 1 else Some 0);
          g2 \<leftarrow> (if scrolled = 0 \<and> cur_row g1 = below then on_current_row (\<lambda>r. Some (row_wrap False r)) g1 else Some g1);
          Some (col_clamp g2) }"

definition row_dec_clamp :: "u16 \<Rightarrow> grid \<Rightarrow> grid" where
  "row_dec_clamp count g = snd (row_clamp_top (in_scroll_region g) (set_row (saturating_sub (cur_row g) count) g))"

definition restrict_col :: "grid \<Rightarrow> grid" where
  "restrict_col g = col_clamp g"

definition reverse_index :: "grid \<Rightarrow> grid option" where
  "reverse_index g =
     (let g1 = col_clamp g
      in if cur_row g1 = g_scroll_top g1 then scroll_down 1 True g1
         else Some (set_row (saturating_sub (cur_row g1) 1) g1))"

definition row_set :: "u16 \<Rightarrow> grid \<Rightarrow> grid" where
  "row_set i g = row_clamp (set_row i g)"

definition col_inc :: "u16 \<Rightarrow> grid \<Rightarrow> grid" where
  "col_inc count g = set_col (saturating_add u16_max (cur_col g) count) g"

definition col_inc_clamp :: "u16 \<Rightarrow> grid \<Rightarrow> grid" where
  "col_inc_clamp count g = col_clamp (col_inc count g)"

definition col_dec :: "u16 \<Rightarrow> grid \<Rightarrow> grid" where
  "col_dec count g = set_col (saturating_sub (cur_col g) count) g"

definition col_dec_restricted :: "u16 \<Rightarrow> grid \<Rightarrow> grid" where
  "col_dec_restricted count g = col_dec count (col_clamp g)"

definition next_stop :: "grid \<Rightarrow> u16" where
  "next_stop g = (case find (\<lambda>c. g_tab_stops g ! c) [cur_col g + 1..<length (g_tab_stops g)] of
     Some c \<Rightarrow> if c \<le> u16_max then c else ncols g - 1 | None \<Rightarrow> ncols g - 1)"

definition col_forward_tab :: "u16 \<Rightarrow> grid \<Rightarrow> grid" where
  "col_forward_tab count g =
     (if ncols g \<le> cur_col g then g else col_clamp (((\<lambda>h. set_col (next_stop h) h) ^^ count) g))"

definition col_tab :: "grid \<Rightarrow> grid" where
  "col_tab g = col_forward_tab 1 g"

text \<open>Indexing \<open>tab_stops\<close> from the last column down panics when there are fewer stops than columns.\<close>

fun last_stop :: "bool list \<Rightarrow> nat \<Rightarrow> nat option option" where
  "last_stop ts 0 = Some None"
| "last_stop ts (Suc c) = do { s \<leftarrow> vec_get ts c; if s then Some (Some c) else last_stop ts c }"

definition back_one :: "grid \<Rightarrow> grid option" where
  "back_one g =
     do { prev \<leftarrow> last_stop (g_tab_stops g) (min (cur_col g) (ncols g - 1));
          Some (set_col (case prev of Some c \<Rightarrow> if c \<le> u16_max then c else 0 | None \<Rightarrow> 0) g) }"

definition col_back_tab :: "u16 \<Rightarrow> grid \<Rightarrow> grid option" where
  "col_back_tab count g = loop count back_one g"

definition set_tab_stop :: "grid \<Rightarrow> grid" where
  "set_tab_stop g = (if cur_col g < length (g_tab_stops g) then g\<lparr>g_tab_stops := (g_tab_stops g)[cur_col g := True]\<rparr> else g)"

definition clear_tab_stop :: "grid \<Rightarrow> grid" where
  "clear_tab_stop g = (if cur_col g < length (g_tab_stops g) then g\<lparr>g_tab_stops := (g_tab_stops g)[cur_col g := False]\<rparr> else g)"

definition clear_all_tab_stops :: "grid \<Rightarrow> grid" where
  "clear_all_tab_stops g = g\<lparr>g_tab_stops := map (\<lambda>_. False) (g_tab_stops g)\<rparr>"

fun map_opt :: "('a \<Rightarrow> 'b option) \<Rightarrow> 'a list \<Rightarrow> 'b list option" where
  "map_opt f [] = Some []"
| "map_opt f (x # xs) = do { y \<leftarrow> f x; ys \<leftarrow> map_opt f xs; Some (y # ys) }"

definition align_row :: "width_fun \<Rightarrow> row \<Rightarrow> row option" where
  "align_row cw r =
     (let r1 = row_clear default_attrs r
      in map_option (\<lambda>cs. r1\<lparr>rw_cells := cs\<rparr>) (map_opt (cell_set cw 0x45 default_attrs) (rw_cells r1)))"

definition align_test :: "width_fun \<Rightarrow> grid \<Rightarrow> grid option" where
  "align_test cw g =
     (let g1 = g\<lparr>g_scroll_top := 0, g_scroll_bottom := nrows g - 1, g_origin_mode := False, g_pos := origin\<rparr>
      in map_option (\<lambda>rs. g1\<lparr>g_rows := rs\<rparr>) (map_opt (align_row cw) (g_rows g1)))"

definition soft_reset :: "grid \<Rightarrow> grid" where
  "soft_reset g = g\<lparr>g_scroll_top := 0, g_scroll_bottom := nrows g - 1, g_origin_mode := False, g_saved_origin_mode := False,
     g_saved_pos := origin, g_saved_set := False\<rparr>"

definition col_set :: "u16 \<Rightarrow> grid \<Rightarrow> grid" where
  "col_set i g = col_clamp (set_col i g)"

definition col_wrap :: "u16 \<Rightarrow> grid \<Rightarrow> grid option" where
  "col_wrap width g =
     do { limit \<leftarrow> checked_sub (ncols g) width;
          if limit < cur_col g
          then do { (_, g1) \<leftarrow> row_inc_scroll 1 (set_col 0 g);
                    on_current_row (\<lambda>r. Some (row_wrap True r)) g1 }
          else Some g }"

section \<open>The invariant\<close>

definition size_ok :: "vt_size \<Rightarrow> bool" where
  "size_ok sz \<longleftrightarrow> 1 \<le> sz_rows sz \<and> sz_rows sz \<le> u16_max \<and> 1 \<le> sz_cols sz \<and> sz_cols sz < u16_max"

abbreviation line_ok :: "(attrs \<Rightarrow> bool) \<Rightarrow> row \<Rightarrow> bool" where
  "line_ok A r \<equiv> row_ok A (length (rw_cells r)) r"

text \<open>
  Everything but the visible rows, which the alternate grid does not have before its first use:
  \<open>frame_ok\<close>. \<open>A\<close> is a class of attributes the cells are known to have, \<open>sz\<close> the size of the screen
  and \<open>lim\<close> holds the configured length of the scrollback and a lower bound of the count of freed rows.
\<close>

type_synonym limits = "nat \<times> nat"

definition frame_ok :: "(attrs \<Rightarrow> bool) \<Rightarrow> vt_size \<Rightarrow> limits \<Rightarrow> grid \<Rightarrow> bool" where
  "frame_ok A sz lim g \<longleftrightarrow> size_ok sz \<and> g_size g = sz \<and> cur_row g < sz_rows sz \<and> cur_col g \<le> sz_cols sz
     \<and> p_row (g_saved_pos g) < sz_rows sz \<and> p_col (g_saved_pos g) \<le> sz_cols sz
     \<and> g_scroll_top g \<le> g_scroll_bottom g \<and> g_scroll_bottom g < sz_rows sz
     \<and> g_scrollback_len g = fst lim \<and> length (g_scrollback g) \<le> fst lim \<and> snd lim \<le> g_freed_rows g \<and> g_scrollback_offset g \<le> length (g_scrollback g)
     \<and> (\<forall>r\<in>set (g_scrollback g). line_ok A r \<and> length (rw_cells r) \<le> sz_cols sz) \<and> length (g_tab_stops g) = sz_cols sz \<and> A (g_blank_attrs g)
     \<and> at_hyperlink (g_blank_attrs g) = 0"

definition rows_ok :: "(attrs \<Rightarrow> bool) \<Rightarrow> vt_size \<Rightarrow> row list \<Rightarrow> bool" where
  "rows_ok A sz rs \<longleftrightarrow> length rs = sz_rows sz \<and> (\<forall>r\<in>set rs. row_ok A (sz_cols sz) r)"

definition grid_ok :: "(attrs \<Rightarrow> bool) \<Rightarrow> vt_size \<Rightarrow> limits \<Rightarrow> grid \<Rightarrow> bool" where
  "grid_ok A sz lim g \<longleftrightarrow> frame_ok A sz lim g \<and> rows_ok A sz (g_rows g)"

lemma frame_sizes:
  "frame_ok A sz lim g \<Longrightarrow> size_ok sz" "frame_ok A sz lim g \<Longrightarrow> g_size g = sz"
  "frame_ok A sz lim g \<Longrightarrow> cur_row g < sz_rows sz" "frame_ok A sz lim g \<Longrightarrow> cur_col g \<le> sz_cols sz"
  by (simp_all add: frame_ok_def)

lemma grid_sizes:
  assumes "grid_ok A sz lim g"
  shows "cur_row g < sz_rows sz" "cur_col g \<le> sz_cols sz" "g_size g = sz" "size_ok sz" "0 < sz_cols sz" "0 < sz_rows sz"
    "length (g_rows g) = sz_rows sz" "g_scroll_top g \<le> g_scroll_bottom g" "g_scroll_bottom g < sz_rows sz" "A (g_blank_attrs g)"
    "sz_cols sz < u16_max" "sz_rows sz \<le> u16_max"
  using assms by (auto simp: grid_ok_def frame_ok_def size_ok_def rows_ok_def)

lemma frame_move:
  "frame_ok A sz lim g \<Longrightarrow> p_row p < sz_rows sz \<Longrightarrow> p_col p \<le> sz_cols sz \<Longrightarrow> frame_ok A sz lim (g\<lparr>g_pos := p\<rparr>)"
  by (simp add: frame_ok_def)

lemma frame_set_row: "frame_ok A sz lim g \<Longrightarrow> r < sz_rows sz \<Longrightarrow> frame_ok A sz lim (set_row r g)"
  by (simp add: set_row_def frame_move frame_sizes)

lemma frame_set_col: "frame_ok A sz lim g \<Longrightarrow> c \<le> sz_cols sz \<Longrightarrow> frame_ok A sz lim (set_col c g)"
  by (simp add: set_col_def frame_move frame_sizes)

lemma frame_rows [simp]: "frame_ok A sz lim (g\<lparr>g_rows := rs\<rparr>) = frame_ok A sz lim g"
  by (simp add: frame_ok_def)

lemma frame_freed: "frame_ok A sz lim g \<Longrightarrow> g_freed_rows g \<le> n \<Longrightarrow> frame_ok A sz lim (g\<lparr>g_freed_rows := n\<rparr>)"
  by (simp add: frame_ok_def)

lemma set_pos_fields [simp]:
  "g_rows (set_row r g) = g_rows g" "g_rows (set_col c g) = g_rows g" "g_size (set_row r g) = g_size g" "g_size (set_col c g) = g_size g"
  "cur_row (set_row r g) = r" "cur_col (set_row r g) = cur_col g" "cur_row (set_col c g) = cur_row g" "cur_col (set_col c g) = c"
  "g_scroll_top (set_row r g) = g_scroll_top g" "g_scroll_bottom (set_row r g) = g_scroll_bottom g"
  "g_scroll_top (set_col c g) = g_scroll_top g" "g_scroll_bottom (set_col c g) = g_scroll_bottom g"
  "g_origin_mode (set_row r g) = g_origin_mode g" "g_origin_mode (set_col c g) = g_origin_mode g"
  "g_tab_stops (set_row r g) = g_tab_stops g" "g_tab_stops (set_col c g) = g_tab_stops g"
  "g_blank_attrs (set_row r g) = g_blank_attrs g" "g_blank_attrs (set_col c g) = g_blank_attrs g"
  by (simp_all add: set_row_def set_col_def)

lemma rows_ok_update:
  "rows_ok A sz rs \<Longrightarrow> row_ok A (sz_cols sz) r \<Longrightarrow> rows_ok A sz (rs[i := r])"
  using set_update_subset_insert [of rs i r] by (auto simp: rows_ok_def)

lemma rows_ok_map:
  "rows_ok A sz rs \<Longrightarrow> (\<And>r. row_ok A (sz_cols sz) r \<Longrightarrow> row_ok A (sz_cols sz) (f r)) \<Longrightarrow> rows_ok A sz (map f rs)"
  by (auto simp: rows_ok_def)

lemma rows_ok_append:
  "length (xs @ ys) = sz_rows sz \<Longrightarrow> (\<forall>r\<in>set xs. row_ok A (sz_cols sz) r) \<Longrightarrow> (\<forall>r\<in>set ys. row_ok A (sz_cols sz) r) \<Longrightarrow> rows_ok A sz (xs @ ys)"
  by (auto simp: rows_ok_def)

lemma row_clear_ok: "row_ok A n r \<Longrightarrow> A a \<Longrightarrow> row_ok A n (row_clear a r)"
  by (auto simp: row_ok_def row_clear_def cell_clear_ok intro!: paired_all_narrow)

lemma row_wrap_ok [simp]: "row_ok A n (row_wrap b r) = row_ok A n r"
  by (simp add: row_ok_def row_wrap_def)

lemma row_new_ok: "A default_attrs \<Longrightarrow> row_ok A n (row_new n)"
  by (auto simp: row_ok_def row_new_def intro!: paired_all_narrow)

lemma row_fields [simp]: "rw_cells (row_wrap b r) = rw_cells r" "rw_wrapped (row_wrap b r) = b"
  "rw_cells (row_clear a r) = map (cell_clear a) (rw_cells r)"
  by (simp_all add: row_wrap_def row_clear_def)

text \<open>An edit of one visible row that keeps rows good keeps the grid good.\<close>

lemma on_row_returns:
  assumes "grid_ok A sz lim g" and "i < sz_rows sz"
    and "\<And>r. row_ok A (sz_cols sz) r \<Longrightarrow> returns (f r) (row_ok A (sz_cols sz))"
  shows "returns (on_row i f g) (\<lambda>g'. grid_ok A sz lim g' \<and> (\<exists>rs. g' = g\<lparr>g_rows := rs\<rparr>))"
proof -
  have r: "i < length (g_rows g)" "row_ok A (sz_cols sz) (g_rows g ! i)" using assms(1,2) by (auto simp: grid_ok_def rows_ok_def)
  from assms(3) [OF r(2)] obtain r' where "f (g_rows g ! i) = Some r'" "row_ok A (sz_cols sz) r'" by (auto simp: returns_def)
  then show ?thesis using assms(1) r(1) by (auto simp: on_row_def vec_get_def grid_ok_def rows_ok_update)
qed

lemma on_row_keeps:
  assumes "grid_ok A sz lim g" and "i < sz_rows sz"
    and "\<And>r. row_ok A (sz_cols sz) r \<Longrightarrow> returns (f r) (row_ok A (sz_cols sz))"
  shows "returns (on_row i f g) (grid_ok A sz lim)"
  by (rule returns_mono [OF on_row_returns [OF assms]]) auto

lemma on_row_pure:
  assumes "grid_ok A sz lim g" and "i < sz_rows sz" and "\<And>r. row_ok A (sz_cols sz) r \<Longrightarrow> row_ok A (sz_cols sz) (f r)"
  shows "returns (on_row i (\<lambda>r. Some (f r)) g) (grid_ok A sz lim)"
  by (rule on_row_keeps [OF assms(1,2)]) (simp add: assms(3))

lemma erase_range_returns:
  assumes "row_ok A n r" and "A a" and "\<forall>c\<in>set cs. c < n"
  shows "returns (for_each cs (\<lambda>c. row_erase c a) r) (row_ok A n)"
  by (rule returns_for_each) (use assms in \<open>auto intro: row_erase_returns\<close>)

subsection \<open>Cursor movement\<close>

lemma col_clamp_fields [simp]:
  "g_rows (col_clamp g) = g_rows g" "g_size (col_clamp g) = g_size g" "cur_row (col_clamp g) = cur_row g"
  "cur_col (col_clamp g) = min (cur_col g) (ncols g - 1)" "g_scroll_top (col_clamp g) = g_scroll_top g"
  "g_scroll_bottom (col_clamp g) = g_scroll_bottom g" "g_scrollback_len (col_clamp g) = g_scrollback_len g"
  by (auto simp: col_clamp_def set_col_def)

lemma rows_unchanged [simp]:
  "g_rows (snd (row_clamp_top l g)) = g_rows g" "g_rows (snd (row_clamp_bottom l g)) = g_rows g"
  "g_size (snd (row_clamp_top l g)) = g_size g" "g_size (snd (row_clamp_bottom l g)) = g_size g"
  "g_rows (row_clamp g) = g_rows g" "g_rows (free_screen g) = g_rows g"
  by (auto simp: row_clamp_top_def row_clamp_bottom_def Let_def row_clamp_def free_screen_def)

text \<open>A frame whose cursor may still be anywhere, before it is clamped.\<close>

definition frame_loose :: "(attrs \<Rightarrow> bool) \<Rightarrow> vt_size \<Rightarrow> limits \<Rightarrow> grid \<Rightarrow> bool" where
  "frame_loose A sz lim g \<longleftrightarrow> frame_ok A sz lim (g\<lparr>g_pos := origin\<rparr>)"

lemma frame_loose_iff:
  "frame_ok A sz lim g \<longleftrightarrow> frame_loose A sz lim g \<and> cur_row g < sz_rows sz \<and> cur_col g \<le> sz_cols sz"
  by (auto simp: frame_loose_def frame_ok_def size_ok_def)

lemma loose_moves [simp]:
  "frame_loose A sz lim (set_row r g) = frame_loose A sz lim g" "frame_loose A sz lim (set_col c g) = frame_loose A sz lim g"
  "frame_loose A sz lim (g\<lparr>g_pos := p\<rparr>) = frame_loose A sz lim g" "frame_loose A sz lim (g\<lparr>g_rows := rs\<rparr>) = frame_loose A sz lim g"
  "frame_loose A sz lim (g\<lparr>g_origin_mode := b\<rparr>) = frame_loose A sz lim g"
  by (auto simp: frame_loose_def frame_ok_def set_row_def set_col_def)

lemma loose_sizes:
  "frame_loose A sz lim g \<Longrightarrow> g_size g = sz" "frame_loose A sz lim g \<Longrightarrow> size_ok sz"
  "frame_loose A sz lim g \<Longrightarrow> g_scroll_top g \<le> g_scroll_bottom g" "frame_loose A sz lim g \<Longrightarrow> g_scroll_bottom g < sz_rows sz"
  "frame_loose A sz lim g \<Longrightarrow> 0 < sz_rows sz" "frame_loose A sz lim g \<Longrightarrow> 0 < sz_cols sz"
  by (auto simp: frame_loose_def frame_ok_def size_ok_def)

lemma clamp_loose [simp]:
  "frame_loose A sz lim (snd (row_clamp_top l g)) = frame_loose A sz lim g"
  "frame_loose A sz lim (snd (row_clamp_bottom l g)) = frame_loose A sz lim g"
  "frame_loose A sz lim (row_clamp g) = frame_loose A sz lim g"
  "frame_loose A sz lim (col_clamp g) = frame_loose A sz lim g"
  by (simp_all add: row_clamp_top_def row_clamp_bottom_def row_clamp_def col_clamp_def Let_def)

lemma row_clamp_bottom_pos:
  "cur_row (snd (row_clamp_bottom l g)) = min (cur_row g) (if l then g_scroll_bottom g else nrows g - 1)"
  "cur_col (snd (row_clamp_bottom l g)) = cur_col g"
  by (auto simp: row_clamp_bottom_def Let_def)

lemma row_clamp_top_pos:
  "cur_row (snd (row_clamp_top l g)) = (if l then max (cur_row g) (g_scroll_top g) else cur_row g)"
  "cur_col (snd (row_clamp_top l g)) = cur_col g"
  by (auto simp: row_clamp_top_def)

lemma row_clamp_pos: "cur_row (row_clamp g) = min (cur_row g) (nrows g - 1)" "cur_col (row_clamp g) = cur_col g"
  by (auto simp: row_clamp_def)

lemma scroll_fields [simp]:
  "g_scroll_top (snd (row_clamp_top l g)) = g_scroll_top g" "g_scroll_bottom (snd (row_clamp_top l g)) = g_scroll_bottom g"
  "g_scroll_top (snd (row_clamp_bottom l g)) = g_scroll_top g" "g_scroll_bottom (snd (row_clamp_bottom l g)) = g_scroll_bottom g"
  by (auto simp: row_clamp_top_def row_clamp_bottom_def Let_def)

lemmas clamp_pos = row_clamp_bottom_pos row_clamp_top_pos row_clamp_pos

text \<open>The moves: each leaves the rows alone and the cursor inside the screen.\<close>

lemma frame_moves:
  assumes "frame_ok A sz lim g"
  shows "frame_ok A sz lim (col_clamp g)" "frame_ok A sz lim (set_pos p g)" "frame_ok A sz lim (grid_save_cursor g)"
    "frame_ok A sz lim (grid_restore_cursor g)" "frame_ok A sz lim (set_origin_mode b g)"
    "frame_ok A sz lim (row_inc_clamp n g)" "frame_ok A sz lim (row_dec_clamp n g)" "frame_ok A sz lim (row_set n g)"
    "frame_ok A sz lim (col_inc_clamp n g)" "frame_ok A sz lim (col_dec n g)" "frame_ok A sz lim (col_dec_restricted n g)"
    "frame_ok A sz lim (col_set n g)" "frame_ok A sz lim (restrict_col g)"
proof -
  note f = assms [unfolded frame_loose_iff]
  note s = loose_sizes [OF conjunct1 [OF f]]
  have c: "min x (sz_rows sz - Suc 0) < sz_rows sz" "min x (sz_cols sz - Suc 0) \<le> sz_cols sz" for x using s by linarith+
  have sp: "frame_ok A sz lim (set_pos p h)" if "frame_loose A sz lim h" for h
    using loose_sizes [OF that] that c by (auto simp: frame_loose_iff set_pos_def Let_def clamp_pos)
  show "frame_ok A sz lim (col_clamp g)" "frame_ok A sz lim (set_pos p g)"
    "frame_ok A sz lim (row_inc_clamp n g)" "frame_ok A sz lim (row_dec_clamp n g)" "frame_ok A sz lim (row_set n g)"
    "frame_ok A sz lim (col_inc_clamp n g)" "frame_ok A sz lim (col_dec n g)" "frame_ok A sz lim (col_dec_restricted n g)"
    "frame_ok A sz lim (col_set n g)" "frame_ok A sz lim (restrict_col g)"
    using f s c sp [of g] unfolding frame_loose_iff
    by (auto simp: row_inc_clamp_def row_dec_clamp_def row_set_def col_inc_clamp_def col_inc_def col_dec_def
        col_dec_restricted_def col_set_def restrict_col_def clamp_pos saturating_sub_def)
  show "frame_ok A sz lim (set_origin_mode b g)"
    using f s c by (auto simp: frame_loose_iff set_origin_mode_def set_pos_def Let_def clamp_pos)
  show "frame_ok A sz lim (grid_save_cursor g)" using assms by (simp add: grid_save_cursor_def frame_ok_def)
  show "frame_ok A sz lim (grid_restore_cursor g)"
    using assms by (auto simp: grid_restore_cursor_def col_clamp_def set_col_def frame_ok_def)
qed

lemma rows_moves [simp]:
  "g_rows (set_pos p g) = g_rows g" "g_rows (grid_save_cursor g) = g_rows g" "g_rows (grid_restore_cursor g) = g_rows g"
  "g_rows (set_origin_mode b g) = g_rows g" "g_rows (row_inc_clamp n g) = g_rows g" "g_rows (row_dec_clamp n g) = g_rows g"
  "g_rows (row_set n g) = g_rows g" "g_rows (col_inc n g) = g_rows g" "g_rows (col_inc_clamp n g) = g_rows g"
  "g_rows (col_dec n g) = g_rows g" "g_rows (col_dec_restricted n g) = g_rows g" "g_rows (col_set n g) = g_rows g"
  "g_rows (restrict_col g) = g_rows g"
  by (simp_all add: set_pos_def Let_def grid_save_cursor_def grid_restore_cursor_def set_origin_mode_def row_inc_clamp_def
      row_dec_clamp_def row_set_def col_inc_def col_inc_clamp_def col_dec_def col_dec_restricted_def col_set_def restrict_col_def)

lemma grid_moves:
  assumes "grid_ok A sz lim g"
  shows "grid_ok A sz lim (col_clamp g)" "grid_ok A sz lim (set_pos p g)" "grid_ok A sz lim (grid_save_cursor g)"
    "grid_ok A sz lim (grid_restore_cursor g)" "grid_ok A sz lim (set_origin_mode b g)"
    "grid_ok A sz lim (row_inc_clamp n g)" "grid_ok A sz lim (row_dec_clamp n g)" "grid_ok A sz lim (row_set n g)"
    "grid_ok A sz lim (col_inc_clamp n g)" "grid_ok A sz lim (col_dec n g)" "grid_ok A sz lim (col_dec_restricted n g)"
    "grid_ok A sz lim (col_set n g)" "grid_ok A sz lim (restrict_col g)"
  using assms frame_moves [of A sz lim g] by (simp_all add: grid_ok_def)

subsection \<open>Tab stops\<close>

lemma forward_tab_ok:
  assumes "frame_ok A sz lim g"
  shows "frame_ok A sz lim (col_forward_tab n g) \<and> g_rows (col_forward_tab n g) = g_rows g"
proof -
  have step: "frame_ok A sz lim (set_col (next_stop h) h)" if "frame_ok A sz lim h" for h
  proof -
    have "next_stop h \<le> sz_cols sz"
      using that by (auto simp: next_stop_def frame_ok_def find_Some_iff split: option.splits)
    with that show ?thesis by (rule frame_set_col)
  qed
  have "frame_ok A sz lim (((\<lambda>h. set_col (next_stop h) h) ^^ n) g) \<and> g_rows (((\<lambda>h. set_col (next_stop h) h) ^^ n) g) = g_rows g"
    by (induction n) (use assms step in \<open>auto simp: funpow_swap1 [symmetric]\<close>)
  then show ?thesis using assms frame_moves(1) by (auto simp: col_forward_tab_def)
qed

lemma last_stop_returns: "n \<le> length ts \<Longrightarrow> returns (last_stop ts n) (\<lambda>r. \<forall>c. r = Some c \<longrightarrow> c < n)"
  by (induction n) (auto simp: vec_get_def returns_def)

lemma back_tab_returns:
  assumes "grid_ok A sz lim g"
  shows "returns (col_back_tab n g) (\<lambda>h. grid_ok A sz lim h \<and> g_rows h = g_rows g)"
  unfolding col_back_tab_def
proof (rule returns_loop)
  fix h
  assume h: "grid_ok A sz lim h \<and> g_rows h = g_rows g"
  then have l: "min (cur_col h) (ncols h - 1) \<le> length (g_tab_stops h)" "ncols h = sz_cols sz" by (auto simp: grid_ok_def frame_ok_def)
  show "returns (back_one h) (\<lambda>h. grid_ok A sz lim h \<and> g_rows h = g_rows g)" unfolding back_one_def
  proof (rule returns_bind [OF last_stop_returns [OF l(1)]])
    fix prev
    assume "\<forall>c. prev = Some c \<longrightarrow> c < min (cur_col h) (ncols h - 1)"
    then have "(case prev of None \<Rightarrow> 0 | Some c \<Rightarrow> if c \<le> u16_max then c else 0) \<le> sz_cols sz" using l(2) by (auto split: option.splits)
    then show "returns (Some (set_col (case prev of None \<Rightarrow> 0 | Some c \<Rightarrow> if c \<le> u16_max then c else 0) h)) (\<lambda>h. grid_ok A sz lim h \<and> g_rows h = g_rows g)"
      using h by (auto simp: grid_ok_def frame_set_col)
  qed
qed (simp add: assms)

lemma tab_edits_ok:
  assumes "grid_ok A sz lim g"
  shows "grid_ok A sz lim (set_tab_stop g)" "grid_ok A sz lim (clear_tab_stop g)" "grid_ok A sz lim (clear_all_tab_stops g)"
    "grid_ok A sz lim (col_forward_tab n g)"
  using assms forward_tab_ok [of A sz lim g n]
  by (simp_all add: grid_ok_def frame_ok_def set_tab_stop_def clear_tab_stop_def clear_all_tab_stops_def)

subsection \<open>Erasing\<close>

lemma erase_row_returns:
  assumes "grid_ok A sz lim g" and "A a"
  shows "returns (erase_row a g) (grid_ok A sz lim)" "returns (erase_row_forward a g) (grid_ok A sz lim)"
    "returns (erase_row_backward a g) (grid_ok A sz lim)"
    "returns (erase_cells n a g) (grid_ok A sz lim)"
proof -
  have g: "cur_row g < sz_rows sz" "ncols g = sz_cols sz" "0 < sz_cols sz" using assms(1) by (auto simp: grid_ok_def frame_ok_def size_ok_def)
  show "returns (erase_row a g) (grid_ok A sz lim)" unfolding erase_row_def
    by (rule on_row_pure [OF assms(1) g(1)]) (simp add: row_clear_ok assms)
  show "returns (erase_row_forward a g) (grid_ok A sz lim)" unfolding erase_row_forward_def
    by (rule on_row_keeps [OF assms(1) g(1)], rule returns_bind [OF erase_range_returns [where A = A]]) (use g assms in auto)
  show "returns (erase_row_backward a g) (grid_ok A sz lim)" unfolding erase_row_backward_def
    by (rule on_row_keeps [OF assms(1) g(1)], rule erase_range_returns) (use g assms in auto)
  show "returns (erase_cells n a g) (grid_ok A sz lim)" unfolding erase_cells_def
    by (rule on_row_keeps [OF assms(1) g(1)], rule erase_range_returns) (use g assms in auto)
qed

lemma unlink_ok: "grid_ok A sz lim h \<Longrightarrow> j < length (g_rows h) \<Longrightarrow> grid_ok A sz lim (h\<lparr>g_rows := (g_rows h)[j := row_wrap b (g_rows h ! j)]\<rparr>)"
  by (auto simp: grid_ok_def intro!: rows_ok_update) (auto simp: rows_ok_def)

lemma unlink_back_ok:
  assumes "grid_ok A sz lim h" and "j < length (g_scrollback h)"
  shows "grid_ok A sz lim (h\<lparr>g_scrollback := (g_scrollback h)[j := row_wrap b (g_scrollback h ! j)]\<rparr>)"
proof -
  have "\<forall>r\<in>set ((g_scrollback h)[j := row_wrap b (g_scrollback h ! j)]). line_ok A r \<and> length (rw_cells r) \<le> sz_cols sz"
    using assms set_update_subset_insert [of "g_scrollback h" j "row_wrap b (g_scrollback h ! j)"]
    by (auto simp: grid_ok_def frame_ok_def)
  then show ?thesis using assms by (simp add: grid_ok_def frame_ok_def)
qed

lemma erase_all_returns:
  assumes "grid_ok A sz lim g" and "A a"
  shows "grid_ok A sz lim (erase_all a g)" "returns (erase_all_forward a g) (grid_ok A sz lim)"
    "returns (erase_all_backward a g) (grid_ok A sz lim)"
proof -
  have r: "rows_ok A sz (g_rows g)" and f: "frame_ok A sz lim g" using assms(1) by (simp_all add: grid_ok_def)
  have keep: "\<forall>r\<in>set (take k (g_rows g)) \<union> set (drop k (g_rows g)). row_ok A (sz_cols sz) r" for k
    using r by (auto simp: rows_ok_def dest: in_set_takeD in_set_dropD)
  show "grid_ok A sz lim (erase_all a g)" using f r assms(2)
    by (auto simp: grid_ok_def erase_all_def free_screen_def rows_ok_map row_clear_ok frame_freed)
  have "grid_ok A sz lim (g\<lparr>g_rows := take (cur_row g + 1) (g_rows g) @ map (row_clear a) (drop (cur_row g + 1) (g_rows g))\<rparr>)"
    using f r keep [of "cur_row g + 1"] assms(2) by (auto simp: grid_ok_def row_clear_ok rows_ok_def intro!: rows_ok_append)
  from erase_row_returns(2) [OF this assms(2)] show "returns (erase_all_forward a g) (grid_ok A sz lim)"
    by (simp add: erase_all_forward_def)
  have g1: "grid_ok A sz lim (g\<lparr>g_rows := map (row_clear a) (take (cur_row g) (g_rows g)) @ drop (cur_row g) (g_rows g)\<rparr>)"
    using f r keep [of "cur_row g"] assms(2) by (auto simp: grid_ok_def row_clear_ok rows_ok_def intro!: rows_ok_append)
  have c: "checked_add u16_max (cur_col g) 1 = Some (cur_col g + 1)" using f by (auto simp: frame_ok_def size_ok_def checked_add_def)
  show "returns (erase_all_backward a g) (grid_ok A sz lim)" unfolding erase_all_backward_def Let_def c
  proof (rule returns_bind [OF erase_row_returns(3) [OF g1 assms(2)]])
    fix h
    assume h: "grid_ok A sz lim h"
    then have "cur_row h < sz_rows sz" by (rule grid_sizes)
    from on_row_pure [OF h this, of "row_wrap False"]
    have "returns (on_current_row (\<lambda>r. Some (row_wrap False r)) h) (grid_ok A sz lim)" by simp
    then show "returns (on_current_row (\<lambda>r. Some (row_wrap False r)) h \<bind> (\<lambda>g3. Some (cur_col g + 1) \<bind> (\<lambda>c. Some (if ncols g \<le> c then
         if cur_row g + 1 < length (g_scrollback g3)
         then g3\<lparr>g_scrollback := (g_scrollback g3)[cur_row g + 1 := row_wrap False (g_scrollback g3 ! (cur_row g + 1))]\<rparr>
         else if cur_row g + 1 - length (g_scrollback g3) < length (g_rows g3)
              then g3\<lparr>g_rows := (g_rows g3)[cur_row g + 1 - length (g_scrollback g3) := row_wrap False (g_rows g3 ! (cur_row g + 1 - length (g_scrollback g3)))]\<rparr>
              else g3 else g3)))) (grid_ok A sz lim)"
      by (rule returns_bind) (simp add: unlink_ok unlink_back_ok)
  qed
qed

subsection \<open>Inserting and deleting cells\<close>

text \<open>
  While blanks are inserted the row grows; \<open>wide\<close> says that the cell at the cursor is, and stays, the
  second half of the wide character before it.
\<close>

definition widening :: "(attrs \<Rightarrow> bool) \<Rightarrow> nat \<Rightarrow> bool \<Rightarrow> nat \<Rightarrow> row \<Rightarrow> bool" where
  "widening A n wide col r \<longleftrightarrow> line_ok A r \<and> n \<le> length (rw_cells r) \<and> col < length (rw_cells r) \<and> is_wide_continuation (rw_cells r ! col) = wide"

lemma insert_one_narrow:
  assumes "widening A n False col r" and "cell_ok b" "narrow b" "A (ce_attrs b)"
  shows "returns (insert_one False col b r) (widening A n False col)"
proof -
  let ?cs = "rw_cells r"
  have col: "col < length ?cs" "\<not> is_wide_continuation (?cs ! col)" "paired ?cs" using assms(1) by (auto simp: widening_def row_ok_def)
  have "paired (take col ?cs @ drop col ?cs)" using col by simp
  from paired_split [OF this] have p: "paired (take col ?cs @ b # drop col ?cs)" using col assms(3) by (auto simp: hd_drop_conv_nth intro!: paired_insert)
  have s: "set (take col ?cs) \<union> set (drop col ?cs) \<subseteq> set ?cs" by (auto dest: in_set_takeD in_set_dropD)
  show ?thesis using assms p s col(1) by (auto simp: insert_one_def row_insert_def vec_insert_def widening_def row_ok_def nth_append)
qed

lemma insert_one_wide:
  assumes "widening A n True col r" and "cell_ok b" "narrow b" "A (ce_attrs b)"
  shows "returns (insert_one True col b r) (widening A n True col)"
proof -
  let ?cs = "rw_cells r"
  have col: "col < length ?cs" "is_wide_continuation (?cs ! col)" "paired ?cs" using assms(1) by (auto simp: widening_def row_ok_def)
  define xs c ys where "xs = take col ?cs" and "c = ?cs ! col" and "ys = drop (Suc col) ?cs"
  have cs: "?cs = xs @ c # ys" "length xs = col" using list_at [OF col(1)] col(1) by (simp_all add: xs_def c_def ys_def)
  have p: "paired (xs @ c # ys)" and c: "is_wide_continuation c" using col cs by (auto simp: nth_append)
  obtain zs w where z: "xs = zs @ [w]" "is_wide w" "\<not> is_wide c" "paired zs" "paired ys" by (rule paired_at_continuation [OF p c])
  have nc: "\<not> is_wide_continuation w" using paired_at_wide [of zs w "c # ys"] p z(1,2) by (metis append.assoc append_Cons append_Nil)
  let ?b = "set_wide_continuation True b" and ?c = "set_wide_continuation False c"
  have i: "insert_one True col b r = Some (r\<lparr>rw_cells := xs @ ?b # ?c # ys\<rparr>)"
    using cs by (simp add: insert_one_def row_insert_def vec_insert_def row_update_def vec_get_def nth_append list_update_append)
  have "paired (zs @ w # ?b # ?c # ys)"
    by (rule paired_append [OF z(4)]) (use z nc assms(3) in \<open>auto simp: paired_wide_Cons paired_narrow_Cons\<close>)
  moreover have "\<forall>x\<in>set (xs @ c # ys). cell_ok x \<and> A (ce_attrs x)" using assms(1) cs(1) by (simp add: widening_def row_ok_def)
  ultimately show ?thesis unfolding i using assms cs z(1)
    by (auto simp: widening_def row_ok_def set_continuation_ok nth_append)
qed

lemma blank_cell_ok: "grid_ok A sz lim g \<Longrightarrow> cell_ok (blank_cell g) \<and> narrow (blank_cell g) \<and> A (ce_attrs (blank_cell g))"
  by (simp add: blank_cell_def cell_clear_ok grid_ok_def frame_ok_def)

lemma insert_cells_returns:
  assumes "grid_ok A sz lim g"
  shows "returns (insert_cells n g) (grid_ok A sz lim)"
proof -
  note z = grid_sizes [OF assms] and b = blank_cell_ok [OF assms]
  let ?r = "g_rows g ! cur_row g"
  have r: "row_ok A (sz_cols sz) ?r" using assms z by (simp add: grid_ok_def rows_ok_def)
  define wide where "wide = (cur_col g < sz_cols sz \<and> is_wide_continuation (rw_cells ?r ! cur_col g))"
  have w: "(if cur_col g < ncols g then map_option is_wide_continuation (drawing_cell (g_pos g) g) else Some False) = Some wide"
    using z r by (simp add: drawing_cell_def nth_opt_def wide_def row_ok_def)
  let ?k = "min n (saturating_sub (ncols g) (cur_col g))"
  have lp: "returns (loop ?k (insert_one wide (cur_col g) (blank_cell g)) ?r) (\<lambda>r'. line_ok A r' \<and> sz_cols sz \<le> length (rw_cells r'))"
  proof (cases "cur_col g < sz_cols sz")
    case True
    have "widening A (sz_cols sz) wide (cur_col g) ?r" using r True by (auto simp: widening_def wide_def row_ok_def)
    moreover have "returns (insert_one wide (cur_col g) (blank_cell g) s) (widening A (sz_cols sz) wide (cur_col g))"
      if "widening A (sz_cols sz) wide (cur_col g) s" for s
      using that b insert_one_narrow insert_one_wide by (cases wide) auto
    ultimately have "returns (loop ?k (insert_one wide (cur_col g) (blank_cell g)) ?r) (widening A (sz_cols sz) wide (cur_col g))"
      by (intro returns_loop)
    then show ?thesis by (rule returns_mono) (auto simp: widening_def)
  next
    case False
    then show ?thesis using r z by (simp add: saturating_sub_def row_ok_def)
  qed
  then have "returns (loop ?k (insert_one wide (cur_col g) (blank_cell g)) ?r \<bind> row_truncate (ncols g)) (row_ok A (sz_cols sz))"
    by (rule returns_bind) (use z in \<open>auto intro!: row_truncate_returns\<close>)
  then obtain y r' where e: "loop ?k (insert_one wide (cur_col g) (blank_cell g)) ?r = Some y" "row_truncate (ncols g) y = Some r'" "row_ok A (sz_cols sz) r'"
    by (auto simp: returns_def bind_Some_conv)
  have v: "vec_get (g_rows g) (cur_row g) = Some ?r" using z by (simp add: vec_get_def)
  have "insert_cells n g = Some (g\<lparr>g_rows := (g_rows g)[cur_row g := r']\<rparr>)"
    unfolding insert_cells_def w on_row_def bind.bind_lunit v e by (simp add: e)
  then show ?thesis using assms e(3) by (simp add: grid_ok_def rows_ok_update)
qed

lemma delete_cells_returns:
  assumes "grid_ok A sz lim g"
  shows "returns (delete_cells n g) (grid_ok A sz lim)"
  unfolding delete_cells_def
proof (rule on_row_keeps [OF assms grid_sizes(1) [OF assms]])
  note z = grid_sizes [OF assms] and b = blank_cell_ok [OF assms]
  fix r
  assume r: "row_ok A (sz_cols sz) r"
  have "returns (loop k (row_remove (cur_col g)) s) (\<lambda>s'. row_ok A (m - k) s')" if "row_ok A m s" "cur_col g + k \<le> m" for k m s
    using that
  proof (induction k arbitrary: m s)
    case (Suc k)
    have "returns (row_remove (cur_col g) s) (row_ok A (m - 1))" using Suc.prems by (intro row_remove_returns) auto
    moreover have "returns (loop k (row_remove (cur_col g)) s') (row_ok A (m - Suc k))" if "row_ok A (m - 1) s'" for s'
      using Suc.IH [OF that] Suc.prems by (simp add: Suc_diff_Suc)
    ultimately show ?case by (simp add: returns_bind)
  qed simp
  from this [OF r, of "min n (sz_cols sz - cur_col g)"]
  have "returns (loop (min n (sz_cols sz - cur_col g)) (row_remove (cur_col g)) r) (row_ok A (sz_cols sz - min n (sz_cols sz - cur_col g)))"
    using z by simp
  then have "returns (loop (min n (sz_cols sz - cur_col g)) (row_remove (cur_col g)) r \<bind> (\<lambda>r1. Some (row_resize (sz_cols sz) (blank_cell g) r1))) (row_ok A (sz_cols sz))"
    by (rule returns_bind) (use b in \<open>auto intro: row_resize_ok\<close>)
  then show "returns (checked_sub (ncols g) (cur_col g) \<bind> (\<lambda>left. loop (min n left) (row_remove (cur_col g)) r \<bind> (\<lambda>r1. Some (row_resize (ncols g) (blank_cell g) r1)))) (row_ok A (sz_cols sz))"
    using z by (simp add: checked_sub_def)
qed

subsection \<open>Moving rows\<close>

lemma at_most_span_returns:
  "lo \<le> hi \<Longrightarrow> hi < u16_max \<Longrightarrow> at_most_span count hi lo = Some (min count (hi - lo + 1))"
  by (simp add: at_most_span_def checked_sub_def checked_add_def)

lemma remove_insert_returns:
  assumes "grid_ok A sz lim g" and "i < sz_rows sz" and "j < sz_rows sz" and "row_ok A (sz_cols sz) r"
  shows "returns (remove_insert i j r g) (\<lambda>g'. grid_ok A sz lim g' \<and> (\<exists>rs. g' = g\<lparr>g_rows := rs\<rparr>))"
proof -
  let ?rs = "take i (g_rows g) @ drop (Suc i) (g_rows g)"
  let ?rs' = "take j ?rs @ r # drop j ?rs"
  have l: "length (g_rows g) = sz_rows sz" "\<forall>r\<in>set (g_rows g). row_ok A (sz_cols sz) r" using assms(1) by (auto simp: grid_ok_def rows_ok_def)
  have "set ?rs' \<subseteq> insert r (set (g_rows g))" using in_set_takeD in_set_dropD by (fastforce dest: in_set_takeD in_set_dropD)
  then have "rows_ok A sz ?rs'" using l assms by (auto simp: rows_ok_def)
  moreover have "remove_insert i j r g = Some (g\<lparr>g_rows := ?rs'\<rparr>)" using l assms by (simp add: remove_insert_def vec_remove_def vec_insert_def)
  ultimately show ?thesis using assms(1) by (auto simp: grid_ok_def)
qed

lemma insert_remove_returns:
  assumes "grid_ok A sz lim g" and "i \<le> sz_rows sz" and "j \<le> sz_rows sz" and "row_ok A (sz_cols sz) r"
  shows "returns (insert_remove i j r g) (\<lambda>(x, g'). row_ok A (sz_cols sz) x \<and> grid_ok A sz lim g' \<and> (\<exists>rs. g' = g\<lparr>g_rows := rs\<rparr>))"
proof -
  let ?rs = "take i (g_rows g) @ r # drop i (g_rows g)"
  let ?rs' = "take j ?rs @ drop (Suc j) ?rs"
  have l: "length (g_rows g) = sz_rows sz" "\<forall>r\<in>set (g_rows g). row_ok A (sz_cols sz) r" using assms(1) by (auto simp: grid_ok_def rows_ok_def)
  have all: "\<forall>x\<in>set ?rs. row_ok A (sz_cols sz) x" using l assms(4) by (auto dest: in_set_takeD in_set_dropD)
  have len: "j < length ?rs" "length ?rs' = sz_rows sz" using l assms(2,3) by auto
  have "set ?rs' \<subseteq> set ?rs" using set_take_subset [of j ?rs] set_drop_subset [of "Suc j" ?rs] by (simp only: set_append Un_least)
  then have "rows_ok A sz ?rs'" using all len(2) unfolding rows_ok_def by blast
  moreover have "insert_remove i j r g = Some (?rs ! j, g\<lparr>g_rows := ?rs'\<rparr>)"
    using l assms(2) len by (simp add: insert_remove_def vec_remove_def vec_insert_def)
  moreover have "row_ok A (sz_cols sz) (?rs ! j)" using all nth_mem [OF len(1)] by blast
  ultimately show ?thesis using assms(1) by (auto simp: grid_ok_def)
qed

text \<open>A class of attributes that holds the default attributes, which every reset writes.\<close>

locale attr_class =
  fixes A :: "attrs \<Rightarrow> bool"
  assumes default_in: "A default_attrs"
begin

lemma new_row_ok: "grid_ok A sz lim g \<Longrightarrow> row_ok A (sz_cols sz) (new_row g)"
  using row_new_ok [where A = A, OF default_in] by (auto simp: new_row_def Let_def row_clear_ok grid_sizes)

lemma insert_lines_returns:
  assumes "grid_ok A sz lim g"
  shows "returns (insert_lines n g) (grid_ok A sz lim)"
proof (cases "in_scroll_region (col_clamp g)")
  case True
  let ?g = "set_col 0 (col_clamp g)"
  have g: "grid_ok A sz lim ?g" using grid_moves(1) [OF assms] by (simp add: grid_ok_def frame_set_col)
  note z = grid_sizes [OF g]
  have "cur_row ?g \<le> g_scroll_bottom ?g" using True by (simp add: in_scroll_region_def)
  then have s: "at_most_span n (g_scroll_bottom ?g) (cur_row ?g) = Some (min n (g_scroll_bottom ?g - cur_row ?g + 1))"
    using z by (intro at_most_span_returns) auto
  have "returns (loop k (\<lambda>h. remove_insert (g_scroll_bottom h) (cur_row h) (new_row h) h) ?g) (grid_ok A sz lim)" for k
    by (rule returns_loop [where P = "grid_ok A sz lim"])
      (auto intro: returns_mono [OF remove_insert_returns] simp: g grid_sizes new_row_ok)
  then show ?thesis unfolding insert_lines_def Let_def s using True by simp
next
  case False
  then show ?thesis using grid_moves(1) [OF assms] by (simp add: insert_lines_def)
qed

lemma delete_lines_returns:
  assumes "grid_ok A sz lim g"
  shows "returns (delete_lines n g) (grid_ok A sz lim)"
proof (cases "in_scroll_region (col_clamp g)")
  case True
  let ?g = "set_col 0 (col_clamp g)"
  have g: "grid_ok A sz lim ?g" using grid_moves(1) [OF assms] by (simp add: grid_ok_def frame_set_col)
  note z = grid_sizes [OF g]
  have "cur_row ?g \<le> g_scroll_bottom ?g" using True by (simp add: in_scroll_region_def)
  then have s: "at_most_span n (g_scroll_bottom ?g) (cur_row ?g) = Some (min n (g_scroll_bottom ?g - cur_row ?g + 1))"
    using z by (intro at_most_span_returns) auto
  have step: "returns (map_option snd (insert_remove (g_scroll_bottom h + 1) (cur_row h) (new_row h) h)) (grid_ok A sz lim)"
    if "grid_ok A sz lim h" for h
    unfolding returns_map using grid_sizes [OF that] new_row_ok [OF that]
    by (intro returns_mono [OF insert_remove_returns [OF that]]) auto
  have "returns (loop k (\<lambda>h. map_option snd (insert_remove (g_scroll_bottom h + 1) (cur_row h) (new_row h) h)) ?g) (grid_ok A sz lim)" for k
    by (rule returns_loop [where P = "grid_ok A sz lim"], erule step, rule g)
  then show ?thesis unfolding delete_lines_def Let_def s using True by simp
next
  case False
  then show ?thesis using grid_moves(1) [OF assms] by (simp add: delete_lines_def)
qed

lemma push_scrollback_ok:
  "grid_ok A sz lim g \<Longrightarrow> row_ok A (sz_cols sz) r \<Longrightarrow> grid_ok A sz lim (push_scrollback r g)"
  by (auto simp: push_scrollback_def Let_def grid_ok_def frame_ok_def row_ok_def dest: in_set_dropD)

lemma push_scrollback_fields [simp]:
  "g_pos (push_scrollback r g) = g_pos g" "g_rows (push_scrollback r g) = g_rows g" "g_size (push_scrollback r g) = g_size g"
  by (simp_all add: push_scrollback_def Let_def)

lemma scroll_one_returns:
  assumes "grid_ok A sz lim g"
  shows "returns (scroll_one feed g) (\<lambda>h. grid_ok A sz lim h \<and> g_pos h = g_pos g)"
  unfolding scroll_one_def
proof (rule returns_bind [OF insert_remove_returns [OF assms _ _ new_row_ok [OF assms]]])
  show "g_scroll_bottom g + 1 \<le> sz_rows sz" "g_scroll_top g \<le> sz_rows sz" using grid_sizes [OF assms] by linarith+
  fix x
  assume "case x of (x, g') \<Rightarrow> row_ok A (sz_cols sz) x \<and> grid_ok A sz lim g' \<and> (\<exists>rs. g' = g\<lparr>g_rows := rs\<rparr>)"
  then show "returns (case x of (removed, g1) \<Rightarrow> Some (if feed \<and> 0 < g_scrollback_len g1 \<and> g_scroll_top g1 = 0 then push_scrollback removed g1
      else g1\<lparr>g_freed_rows := g_freed_rows g1 + 1\<rparr>)) (\<lambda>h. grid_ok A sz lim h \<and> g_pos h = g_pos g)"
    by (auto simp: push_scrollback_ok) (auto simp: grid_ok_def frame_ok_def)
qed

lemma scroll_region_up_returns:
  assumes "grid_ok A sz lim g"
  shows "returns (scroll_region_up n feed g) (\<lambda>h. grid_ok A sz lim h \<and> g_pos h = g_pos g)"
proof -
  have s: "at_most_span n (g_scroll_bottom g) (g_scroll_top g) = Some (min n (g_scroll_bottom g - g_scroll_top g + 1))"
    using grid_sizes [OF assms] by (intro at_most_span_returns) auto
  have "returns (loop k (scroll_one feed) g) (\<lambda>h. grid_ok A sz lim h \<and> g_pos h = g_pos g)" for k
    by (rule returns_loop) (auto simp: assms intro: returns_mono [OF scroll_one_returns])
  then show ?thesis unfolding scroll_region_up_def s by simp
qed

lemma scroll_down_returns:
  assumes "grid_ok A sz lim g"
  shows "returns (scroll_down n bce g) (grid_ok A sz lim)"
proof -
  have s: "at_most_span n (g_scroll_bottom g) (g_scroll_top g) = Some (min n (g_scroll_bottom g - g_scroll_top g + 1))"
    using grid_sizes [OF assms] by (intro at_most_span_returns) auto
  have step: "returns (remove_insert (g_scroll_bottom h) (g_scroll_top h) (if bce then new_row h else row_new (ncols h)) h) (grid_ok A sz lim)"
    if "grid_ok A sz lim h" for h
    using grid_sizes [OF that] new_row_ok [OF that] row_new_ok [where A = A and n = "sz_cols sz", OF default_in]
    by (intro returns_mono [OF remove_insert_returns [OF that]]) auto
  have "returns (loop k (\<lambda>h. remove_insert (g_scroll_bottom h) (g_scroll_top h) (if bce then new_row h else row_new (ncols h)) h) g) (grid_ok A sz lim)" for k
    by (rule returns_loop [where P = "grid_ok A sz lim"], erule step, rule assms)
  then show ?thesis unfolding scroll_down_def s by simp
qed

lemma row_inc_scroll_returns:
  assumes "grid_ok A sz lim g"
  shows "returns (row_inc_scroll n g) (\<lambda>(k, h). grid_ok A sz lim h \<and> cur_col h = cur_col g)"
proof -
  let ?i = "in_scroll_region g" and ?g = "set_row (saturating_add u16_max (cur_row g) n) g"
  note z = grid_sizes [OF assms]
  have h: "grid_ok A sz lim (snd (row_clamp_bottom ?i ?g))" using assms z
    by (auto simp: grid_ok_def frame_loose_iff clamp_pos)
  show ?thesis
  proof (cases ?i)
    case True
    have "returns (scroll_up (fst (row_clamp_bottom True ?g)) (snd (row_clamp_bottom True ?g))) (\<lambda>h. grid_ok A sz lim h \<and> cur_col h = cur_col g)"
      unfolding scroll_up_def using h True
      by (intro returns_mono [OF scroll_region_up_returns]) (auto simp: clamp_pos)
    then show ?thesis using True by (simp add: row_inc_scroll_def Let_def case_prod_beta returns_map)
  next
    case False
    then show ?thesis using h by (simp add: row_inc_scroll_def Let_def case_prod_beta clamp_pos)
  qed
qed

lemma line_feed_returns:
  assumes "grid_ok A sz lim g"
  shows "returns (line_feed g) (grid_ok A sz lim)"
  unfolding line_feed_def
proof (rule returns_bind [OF row_inc_scroll_returns [OF assms]], clarify)
  fix k h
  assume h: "grid_ok A sz lim h"
  have c: "checked_add u16_max (cur_row g) 1 = Some (cur_row g + 1)" using grid_sizes [OF assms] by (simp add: checked_add_def)
  have "returns (on_current_row (\<lambda>r. Some (row_wrap False r)) h) (grid_ok A sz lim)"
    by (rule on_row_pure [OF h grid_sizes(1) [OF h]]) simp
  then have "returns (on_current_row (\<lambda>r. Some (row_wrap False r)) h \<bind> (\<lambda>g2. Some (col_clamp g2))) (grid_ok A sz lim)"
    by (rule returns_bind) (simp add: grid_moves)
  then show "returns ((if k = 0 then checked_add u16_max (cur_row g) 1 else Some 0) \<bind> (\<lambda>below.
      (if k = 0 \<and> cur_row h = below then on_current_row (\<lambda>r. Some (row_wrap False r)) h else Some h) \<bind> (\<lambda>g2. Some (col_clamp g2)))) (grid_ok A sz lim)"
    using grid_moves(1) [OF h] unfolding c by auto
qed

lemma reverse_index_returns:
  assumes "grid_ok A sz lim g"
  shows "returns (reverse_index g) (grid_ok A sz lim)"
proof -
  note h = grid_moves(1) [OF assms]
  have "grid_ok A sz lim (set_row (cur_row (col_clamp g) - 1) (col_clamp g))"
    using h grid_sizes(1) [OF h] by (simp add: grid_ok_def frame_set_row)
  then show ?thesis using scroll_down_returns [OF h] by (simp add: reverse_index_def Let_def saturating_sub_def)
qed

lemma col_wrap_returns:
  assumes "grid_ok A sz lim g" and "w \<le> sz_cols sz"
  shows "returns (col_wrap w g) (\<lambda>h. grid_ok A sz lim h \<and> cur_col h \<le> sz_cols sz - w)"
proof (cases "sz_cols sz - w < cur_col g")
  case True
  have g: "grid_ok A sz lim (set_col 0 g)" using assms(1) by (simp add: grid_ok_def frame_set_col)
  have "returns (row_inc_scroll 1 (set_col 0 g) \<bind> (\<lambda>(_, g1). on_current_row (\<lambda>r. Some (row_wrap True r)) g1)) (\<lambda>h. grid_ok A sz lim h \<and> cur_col h \<le> sz_cols sz - w)"
  proof (rule returns_bind [OF row_inc_scroll_returns [OF g]], clarify)
    fix k h
    assume h: "grid_ok A sz lim h" "cur_col h = cur_col (set_col 0 g)"
    show "returns (on_current_row (\<lambda>r. Some (row_wrap True r)) h) (\<lambda>h. grid_ok A sz lim h \<and> cur_col h \<le> sz_cols sz - w)"
      by (rule returns_mono [OF on_row_returns [OF h(1) grid_sizes(1) [OF h(1)]]]) (use h(2) in auto)
  qed
  then show ?thesis using True assms grid_sizes(3) [OF assms(1)] by (simp add: col_wrap_def checked_sub_def)
next
  case False
  then show ?thesis using assms grid_sizes(3) [OF assms(1)] by (simp add: col_wrap_def checked_sub_def)
qed

lemma map_opt_returns:
  assumes "\<And>x. x \<in> set xs \<Longrightarrow> P x \<Longrightarrow> returns (f x) Q" and "\<forall>x\<in>set xs. P x"
  shows "returns (map_opt f xs) (\<lambda>ys. length ys = length xs \<and> (\<forall>y\<in>set ys. Q y))"
  using assms
proof (induction xs)
  case (Cons x xs)
  from Cons.prems obtain y where "f x = Some y" "Q y" by (auto simp: returns_def)
  moreover from Cons obtain ys where "map_opt f xs = Some ys" "length ys = length xs" "\<forall>y\<in>set ys. Q y" by (auto simp: returns_def)
  ultimately show ?case by simp
qed simp

lemma align_test_returns:
  assumes "grid_ok A sz lim g"
  shows "returns (align_test cw g) (grid_ok A sz lim)"
proof -
  have E: "is_scalar 69" "\<not> wide_char cw 69" by (simp_all add: is_scalar_def wide_char_def)
  have row: "returns (align_row cw r) (row_ok A (sz_cols sz))" if "row_ok A (sz_cols sz) r" for r
  proof -
    let ?r = "row_clear default_attrs r"
    have r: "row_ok A (sz_cols sz) ?r" using that default_in by (rule row_clear_ok)
    have "returns (map_opt (cell_set cw 69 default_attrs) (rw_cells ?r)) (\<lambda>ys. length ys = length (rw_cells ?r) \<and> (\<forall>y\<in>set ys. cell_ok y \<and> A (ce_attrs y) \<and> narrow y))"
      by (rule map_opt_returns [where P = cell_ok], rule returns_mono [OF cell_set_returns]) (use r E default_in in \<open>auto simp: row_ok_def\<close>)
    then show ?thesis unfolding align_row_def Let_def returns_map
      by (rule returns_mono) (use r in \<open>auto simp: row_ok_def intro: paired_all_narrow\<close>)
  qed
  have "returns (map_opt (align_row cw) (g_rows g)) (\<lambda>rs. length rs = length (g_rows g) \<and> (\<forall>r\<in>set rs. row_ok A (sz_cols sz) r))"
    by (rule map_opt_returns [where P = "row_ok A (sz_cols sz)"]) (use assms row in \<open>auto simp: grid_ok_def rows_ok_def\<close>)
  then show ?thesis by (simp add: align_test_def Let_def returns_map) (rule returns_mono, assumption, use assms in \<open>auto simp: grid_ok_def frame_ok_def rows_ok_def size_ok_def\<close>)
qed

lemma grid_new_ok:
  "size_ok sz \<Longrightarrow> frame_ok A sz (n, 0) (grid_new sz n)"
  "frame_ok A sz lim g \<Longrightarrow> g_rows g = [] \<or> rows_ok A sz (g_rows g) \<Longrightarrow> grid_ok A sz lim (allocate_rows g)"
  using default_in row_new_ok [where A = A, OF default_in]
  by (auto simp: default_attrs_def grid_new_def frame_ok_def size_ok_def default_tab_stops_def allocate_rows_def grid_ok_def rows_ok_def)

lemma grid_clear_ok: "frame_ok A sz lim g \<Longrightarrow> frame_ok A sz lim (grid_clear g)"
  "grid_ok A sz lim g \<Longrightarrow> grid_ok A sz lim (grid_clear g)"
  using default_in by (auto simp: grid_clear_def free_screen_def grid_ok_def rows_ok_map row_clear_ok frame_ok_def size_ok_def)

lemma reset_ok:
  "frame_ok A sz lim g \<Longrightarrow> frame_ok A sz lim (soft_reset g)" "grid_ok A sz lim g \<Longrightarrow> grid_ok A sz lim (soft_reset g)"
  "grid_ok A sz lim g \<Longrightarrow> grid_ok A sz lim (set_scroll_region t b g)"
  "frame_ok A sz lim g \<Longrightarrow> A a \<Longrightarrow> at_hyperlink a = 0 \<Longrightarrow> frame_ok A sz lim (set_blank_attrs a g)"
  "grid_ok A sz lim g \<Longrightarrow> A a \<Longrightarrow> at_hyperlink a = 0 \<Longrightarrow> grid_ok A sz lim (set_blank_attrs a g)"
  by (auto simp: soft_reset_def grid_ok_def frame_ok_def size_ok_def set_scroll_region_def Let_def set_blank_attrs_def)

lemma pad_row_ok:
  assumes "line_ok A r"
  shows "line_ok A (pad_row n r)" "length (rw_cells r) \<le> n \<Longrightarrow> length (rw_cells (pad_row n r)) = n"
proof -
  have "paired (rw_cells r @ replicate (n - length (rw_cells r)) cell_new)"
    using assms by (intro paired_append paired_all_narrow [of "replicate _ _"]) (auto simp: row_ok_def)
  then show "line_ok A (pad_row n r)" "length (rw_cells r) \<le> n \<Longrightarrow> length (rw_cells (pad_row n r)) = n"
    using assms default_in by (auto simp: pad_row_def row_ok_def vec_resize_def)
qed

lemma set_scrollback_ok:
  assumes "grid_ok A sz lim g"
  shows "grid_ok A sz lim (set_scrollback n g)"
proof -
  let ?sb = "g_scrollback g" and ?m = "min n (length (g_scrollback g))"
  let ?sb' = "take (length ?sb - ?m) ?sb @ map (pad_row (ncols g)) (take (length (g_rows g)) (drop (length ?sb - ?m) ?sb))
     @ drop (length (g_rows g)) (drop (length ?sb - ?m) ?sb)"
  have e: "set_scrollback n g = g\<lparr>g_scrollback := ?sb', g_scrollback_offset := ?m\<rparr>"
    by (simp add: set_scrollback_def pad_scrollback_window_def Let_def)
  have "line_ok A r \<and> length (rw_cells r) \<le> sz_cols sz" if "r \<in> set ?sb" for r using assms that by (simp add: grid_ok_def frame_ok_def)
  then have "\<forall>r\<in>set ?sb'. line_ok A r \<and> length (rw_cells r) \<le> sz_cols sz"
    using assms pad_row_ok(1) [where n = "sz_cols sz"] by (fastforce simp: grid_sizes pad_row_ok(2) dest!: in_set_takeD in_set_dropD)
  moreover have "length ?sb' = length ?sb" by simp
  ultimately show ?thesis using assms unfolding e by (simp add: grid_ok_def frame_ok_def del: length_append set_append)
qed

end

end
