(* ===== verification/Vt_Screen.thy ===== *)
theory Vt_Screen
  imports Vt_Grid
begin

text \<open>
  The terminal state and its operations (\<open>crates/vt100/src/screen.rs\<close>, \<open>perform.rs\<close>, \<open>parser.rs\<close>).

  \<^item> \<open>screen\<close> is the struct \<open>Screen\<close>: two grids, the drawing attributes with their saved copy, the
    character sets, the table of hyperlinks, the title, and the mode bits as a 16-bit word. Strings the
    screen stores are lists of characters (the title) or of the bytes of valid UTF-8 (links).
  \<^item> \<open>term_event\<close> is a call the tokenizer (the \<open>vte\<close> crate) makes on \<open>WrappedScreen\<close>; \<open>term_step\<close> is the
    dispatch of \<open>perform.rs\<close>. The callbacks of the embedding program take no part: the two
    implementations there are (none, and the query responder) do not change the screen.
  \<^item> \<open>cw\<close> is \<open>UnicodeWidthChar::width\<close>.
\<close>

section \<open>State\<close>

definition MAX_HYPERLINKS :: usize where "MAX_HYPERLINKS = 4096"
definition MAX_COMPACT_SKIP :: u32 where "MAX_COMPACT_SKIP = 1024"
definition MAX_TITLE_BYTES :: usize where "MAX_TITLE_BYTES = 1024"
definition MAX_URI_BYTES :: usize where "MAX_URI_BYTES = 8192"
definition MAX_LINK_ID_BYTES :: usize where "MAX_LINK_ID_BYTES = 256"

definition MODE_APPLICATION_KEYPAD :: "16 word" where "MODE_APPLICATION_KEYPAD = push_bit 0 1"
definition MODE_APPLICATION_CURSOR :: "16 word" where "MODE_APPLICATION_CURSOR = push_bit 1 1"
definition MODE_HIDE_CURSOR :: "16 word" where "MODE_HIDE_CURSOR = push_bit 2 1"
definition MODE_ALTERNATE_SCREEN :: "16 word" where "MODE_ALTERNATE_SCREEN = push_bit 3 1"
definition MODE_BRACKETED_PASTE :: "16 word" where "MODE_BRACKETED_PASTE = push_bit 4 1"
definition MODE_INSERT :: "16 word" where "MODE_INSERT = push_bit 5 1"
definition MODE_NEWLINE :: "16 word" where "MODE_NEWLINE = push_bit 6 1"
definition MODE_NO_AUTOWRAP :: "16 word" where "MODE_NO_AUTOWRAP = push_bit 7 1"
definition MODE_FOCUS_EVENTS :: "16 word" where "MODE_FOCUS_EVENTS = push_bit 8 1"
definition MODE_REVERSE_VIDEO :: "16 word" where "MODE_REVERSE_VIDEO = push_bit 9 1"

datatype mouse_protocol_mode = MouseOff | Press | PressRelease | ButtonMotion | AnyMotion

datatype mouse_protocol_encoding = EncDefault | EncUtf8 | EncSgr | EncUrxvt

datatype charset = Ascii | DecSpecial | Uk

definition from_final :: "u8 \<Rightarrow> charset option" where
  "from_final b = (if b = 0x42 then Some Ascii else if b = 0x30 then Some DecSpecial else if b = 0x41 then Some Uk else None)"

text \<open>The replacements for the characters from \<open>_\<close> to the tilde.\<close>

definition dec_special_table :: "nat list" where
  "dec_special_table =
     [0xa0, 0x25c6, 0x2592, 0x2409, 0x240c, 0x240d, 0x240a, 0xb0, 0xb1, 0x2424, 0x240b, 0x2518, 0x2510, 0x250c, 0x2514, 0x253c,
      0x23ba, 0x23bb, 0x2500, 0x23bc, 0x23bd, 0x251c, 0x2524, 0x2534, 0x252c, 0x2502, 0x2264, 0x2265, 0x3c0, 0x2260, 0xa3, 0xb7]"

definition dec_special_graphics :: "nat \<Rightarrow> nat" where
  "dec_special_graphics c = (if 0x5f \<le> c \<and> c \<le> 0x7e then dec_special_table ! (c - 0x5f) else c)"

fun charset_map :: "charset \<Rightarrow> nat \<Rightarrow> nat" where
  "charset_map Ascii c = c"
| "charset_map Uk c = (if c = 0x23 then 0xa3 else c)"
| "charset_map DecSpecial c = dec_special_graphics c"

record charsets =
  ch_g :: "charset list"
  ch_gl :: usize
  ch_single_shift :: "usize option"

definition default_charsets :: charsets where
  "default_charsets = \<lparr>ch_g = replicate 4 Ascii, ch_gl = 0, ch_single_shift = None\<rparr>"

type_synonym link = "bytes \<times> bytes"

record screen =
  sc_grid :: grid
  sc_alternate_grid :: grid
  sc_attrs :: attrs
  sc_saved_attrs :: attrs
  sc_charsets :: charsets
  sc_saved_charsets :: charsets
  sc_last_base :: nat
  sc_last_marks :: "nat list"
  sc_last_cluster_live :: bool
  sc_hyperlinks :: "link list"
  sc_compact_skip :: u32
  sc_compact_delay :: u32
  sc_compact_freed_mark :: nat
  sc_title :: "nat list"
  sc_cursor_style :: u8
  sc_modes :: "16 word"
  sc_mouse_mode :: mouse_protocol_mode
  sc_mouse_encoding :: mouse_protocol_encoding

definition screen_new :: "vt_size \<Rightarrow> usize \<Rightarrow> screen" where
  "screen_new sz sb_len = \<lparr>sc_grid = allocate_rows (grid_new sz sb_len), sc_alternate_grid = grid_new sz 0,
     sc_attrs = default_attrs, sc_saved_attrs = default_attrs, sc_charsets = default_charsets, sc_saved_charsets = default_charsets,
     sc_last_base = 0x20, sc_last_marks = [], sc_last_cluster_live = False, sc_hyperlinks = [], sc_compact_skip = 0,
     sc_compact_delay = 0, sc_compact_freed_mark = 0, sc_title = [], sc_cursor_style = 0, sc_modes = 0,
     sc_mouse_mode = MouseOff, sc_mouse_encoding = EncDefault\<rparr>"

section \<open>Modes and the active grid\<close>

definition mode :: "16 word \<Rightarrow> screen \<Rightarrow> bool" where
  "mode b s \<longleftrightarrow> sc_modes s AND b \<noteq> 0"

definition set_mode :: "16 word \<Rightarrow> screen \<Rightarrow> screen" where
  "set_mode b s = s\<lparr>sc_modes := sc_modes s OR b\<rparr>"

definition clear_mode :: "16 word \<Rightarrow> screen \<Rightarrow> screen" where
  "clear_mode b s = s\<lparr>sc_modes := sc_modes s AND NOT b\<rparr>"

definition set_mouse_mode :: "mouse_protocol_mode \<Rightarrow> screen \<Rightarrow> screen" where
  "set_mouse_mode m s = s\<lparr>sc_mouse_mode := m\<rparr>"

definition clear_mouse_mode :: "mouse_protocol_mode \<Rightarrow> screen \<Rightarrow> screen" where
  "clear_mouse_mode m s = (if sc_mouse_mode s = m then s\<lparr>sc_mouse_mode := MouseOff\<rparr> else s)"

definition set_mouse_encoding :: "mouse_protocol_encoding \<Rightarrow> screen \<Rightarrow> screen" where
  "set_mouse_encoding e s = s\<lparr>sc_mouse_encoding := e\<rparr>"

definition clear_mouse_encoding :: "mouse_protocol_encoding \<Rightarrow> screen \<Rightarrow> screen" where
  "clear_mouse_encoding e s = (if sc_mouse_encoding s = e then s\<lparr>sc_mouse_encoding := EncDefault\<rparr> else s)"

definition active_grid :: "screen \<Rightarrow> grid" where
  "active_grid s = (if mode MODE_ALTERNATE_SCREEN s then sc_alternate_grid s else sc_grid s)"

definition on_grid :: "(grid \<Rightarrow> grid option) \<Rightarrow> screen \<Rightarrow> screen option" where
  "on_grid f s = (if mode MODE_ALTERNATE_SCREEN s
     then map_option (\<lambda>g. s\<lparr>sc_alternate_grid := g\<rparr>) (f (sc_alternate_grid s))
     else map_option (\<lambda>g. s\<lparr>sc_grid := g\<rparr>) (f (sc_grid s)))"

definition in_grid :: "(grid \<Rightarrow> grid) \<Rightarrow> screen \<Rightarrow> screen" where
  "in_grid f s = (if mode MODE_ALTERNATE_SCREEN s
     then s\<lparr>sc_alternate_grid := f (sc_alternate_grid s)\<rparr> else s\<lparr>sc_grid := f (sc_grid s)\<rparr>)"

definition enter_alternate_grid :: "screen \<Rightarrow> screen" where
  "enter_alternate_grid s =
     (if mode MODE_ALTERNATE_SCREEN s then s
      else let s1 = in_grid (set_scrollback 0) s;
               s2 = set_mode MODE_ALTERNATE_SCREEN s1
           in s2\<lparr>sc_alternate_grid := set_pos_exact (g_pos (sc_grid s1)) (allocate_rows (sc_alternate_grid s2))\<rparr>)"

definition exit_alternate_grid :: "screen \<Rightarrow> screen" where
  "exit_alternate_grid s =
     (if \<not> mode MODE_ALTERNATE_SCREEN s then s
      else (clear_mode MODE_ALTERNATE_SCREEN s)\<lparr>sc_grid := set_pos_exact (g_pos (sc_alternate_grid s)) (sc_grid s)\<rparr>)"

definition sync_blank_attrs :: "screen \<Rightarrow> screen" where
  "sync_blank_attrs s = s\<lparr>sc_grid := set_blank_attrs (for_erase (sc_attrs s)) (sc_grid s),
     sc_alternate_grid := set_blank_attrs (for_erase (sc_attrs s)) (sc_alternate_grid s)\<rparr>"

definition save_cursor :: "screen \<Rightarrow> screen" where
  "save_cursor s = (in_grid grid_save_cursor s)\<lparr>sc_saved_attrs := sc_attrs s, sc_saved_charsets := sc_charsets s\<rparr>"

definition restore_cursor :: "screen \<Rightarrow> screen" where
  "restore_cursor s =
     sync_blank_attrs ((in_grid grid_restore_cursor s)\<lparr>sc_attrs := sc_saved_attrs s, sc_charsets := sc_saved_charsets s\<rparr>)"

definition screen_set_scrollback :: "usize \<Rightarrow> screen \<Rightarrow> screen" where
  "screen_set_scrollback n s = in_grid (set_scrollback n) s"

definition cell_at :: "u16 \<Rightarrow> u16 \<Rightarrow> screen \<Rightarrow> cell option option" where
  "cell_at r c s = visible_cell \<lparr>p_row = r, p_col = c\<rparr> (active_grid s)"

section \<open>Hyperlinks\<close>

definition hyperlink :: "u32 \<Rightarrow> screen \<Rightarrow> link option" where
  "hyperlink i s = (if i = 0 then None else nth_opt (sc_hyperlinks s) (i - 1))"

definition freed_rows :: "screen \<Rightarrow> nat" where
  "freed_rows s = g_freed_rows (sc_grid s) + g_freed_rows (sc_alternate_grid s)"

definition grid_cells :: "grid \<Rightarrow> cell list" where
  "grid_cells g = concat (map rw_cells (g_rows g)) @ concat (map rw_cells (g_scrollback g))"

definition map_grid_cells :: "(cell \<Rightarrow> cell) \<Rightarrow> grid \<Rightarrow> grid" where
  "map_grid_cells f g = (let h = (\<lambda>r. r\<lparr>rw_cells := map f (rw_cells r)\<rparr>)
     in g\<lparr>g_rows := map h (g_rows g), g_scrollback := map h (g_scrollback g)\<rparr>)"

definition marked :: "screen \<Rightarrow> u32 list" where
  "marked s = at_hyperlink (sc_attrs s) # at_hyperlink (sc_saved_attrs s)
     # map (\<lambda>c. at_hyperlink (ce_attrs c)) (grid_cells (sc_grid s) @ grid_cells (sc_alternate_grid s))"

definition live_links :: "screen \<Rightarrow> bool list" where
  "live_links s = map (\<lambda>i. i \<in> set (marked s)) [1..<length (sc_hyperlinks s) + 1]"

text \<open>The surviving entries and, for each old entry, its new number (0 for a dropped one).\<close>

fun keep_live :: "link list \<Rightarrow> bool list \<Rightarrow> nat \<Rightarrow> link list \<times> u32 list" where
  "keep_live (e # es) (l # ls) k =
     (if l then let (kept, remap) = keep_live es ls (k + 1) in (e # kept, (if k + 1 \<le> u32_max then k + 1 else 0) # remap)
      else let (kept, remap) = keep_live es ls k in (kept, 0 # remap))"
| "keep_live _ _ k = ([], [])"

definition renumber :: "u32 list \<Rightarrow> u32 \<Rightarrow> u32" where
  "renumber remap i = (if i < length remap then remap ! i else 0)"

definition renumber_attrs :: "u32 list \<Rightarrow> attrs \<Rightarrow> attrs" where
  "renumber_attrs remap a = a\<lparr>at_hyperlink := renumber remap (at_hyperlink a)\<rparr>"

definition renumber_cell :: "u32 list \<Rightarrow> cell \<Rightarrow> cell" where
  "renumber_cell remap c =
     (if at_hyperlink (ce_attrs c) \<noteq> 0 then set_hyperlink (renumber remap (at_hyperlink (ce_attrs c))) c else c)"

definition compact_hyperlinks :: "screen \<Rightarrow> bool \<times> screen" where
  "compact_hyperlinks s =
     (let live = live_links s
      in if list_all (\<lambda>l. \<not> l) live then (True, s\<lparr>sc_hyperlinks := []\<rparr>)
         else if list_all (\<lambda>l. l) live then (False, s)
         else let (kept, rs) = keep_live (sc_hyperlinks s) live 0; remap = 0 # rs
              in (True, s\<lparr>sc_hyperlinks := kept,
                         sc_attrs := renumber_attrs remap (sc_attrs s), sc_saved_attrs := renumber_attrs remap (sc_saved_attrs s),
                         sc_grid := map_grid_cells (renumber_cell remap) (sc_grid s),
                         sc_alternate_grid := map_grid_cells (renumber_cell remap) (sc_alternate_grid s)\<rparr>))"

fun split_on :: "nat \<Rightarrow> bytes \<Rightarrow> bytes list" where
  "split_on d [] = [[]]"
| "split_on d (b # bs) = (if b = d then [] # split_on d bs else (case split_on d bs of [] \<Rightarrow> [[b]] | p # ps \<Rightarrow> (b # p) # ps))"

definition strip_id :: "bytes \<Rightarrow> bytes option" where
  "strip_id kv = (if take 3 kv = [0x69, 0x64, 0x3d] then Some (drop 3 kv) else None)"

definition link_id :: "bytes \<Rightarrow> bytes" where
  "link_id params = (case find (\<lambda>kv. strip_id kv \<noteq> None) (split_on 0x3a params) of
     Some kv \<Rightarrow> the (strip_id kv) | None \<Rightarrow> [])"

definition has_control :: "bytes \<Rightarrow> bool" where
  "has_control bs = (case from_utf8 bs of Some cs \<Rightarrow> list_ex is_control cs | None \<Rightarrow> False)"

definition link_position :: "'a \<Rightarrow> 'a list \<Rightarrow> nat option" where
  "link_position x xs = find (\<lambda>i. xs ! i = x) [0..<length xs]"

definition end_link :: "screen \<Rightarrow> screen" where
  "end_link s = s\<lparr>sc_attrs := (sc_attrs s)\<lparr>at_hyperlink := 0\<rparr>\<rparr>"

definition begin_link :: "nat \<Rightarrow> screen \<Rightarrow> screen" where
  "begin_link i s = s\<lparr>sc_attrs := (sc_attrs s)\<lparr>at_hyperlink := (if i + 1 \<le> u32_max then i + 1 else 0)\<rparr>\<rparr>"

text \<open>Making room in a full table: scan, or skip the scan while the last ones were futile.\<close>

definition try_compact :: "screen \<Rightarrow> screen option" where
  "try_compact s =
     do { since \<leftarrow> checked_sub (freed_rows s) (sc_compact_freed_mark s);
          let s1 = (if MIN_REARM_ROWS \<le> since then s\<lparr>sc_compact_skip := 0, sc_compact_delay := 0\<rparr> else s);
          (if 0 < sc_compact_skip s1 then Some (s1\<lparr>sc_compact_skip := sc_compact_skip s1 - 1\<rparr>)
           else case compact_hyperlinks s1 of
              (True, s2) \<Rightarrow> Some (s2\<lparr>sc_compact_delay := 0\<rparr>)
            | (False, s2) \<Rightarrow> (let d = max 1 (min MAX_COMPACT_SKIP (sc_compact_delay s2 * 2))
                in Some (s2\<lparr>sc_compact_delay := d, sc_compact_skip := d, sc_compact_freed_mark := freed_rows s2\<rparr>))) }"

definition osc8 :: "bytes \<Rightarrow> bytes \<Rightarrow> screen \<Rightarrow> screen option" where
  "osc8 params uri s0 =
     (let s = s0\<lparr>sc_last_cluster_live := False\<rparr>; i = link_id params
      in if uri = [] \<or> from_utf8 uri = None \<or> from_utf8 params = None
            \<or> MAX_URI_BYTES < length uri \<or> MAX_LINK_ID_BYTES < length i \<or> has_control uri \<or> has_control i
         then Some (end_link s)
         else case link_position (uri, i) (sc_hyperlinks s) of
           Some k \<Rightarrow> Some (begin_link k s)
         | None \<Rightarrow>
             do { s1 \<leftarrow> (if MAX_HYPERLINKS \<le> length (sc_hyperlinks s) then try_compact s else Some s);
                  Some (if MAX_HYPERLINKS \<le> length (sc_hyperlinks s1) then end_link s1
                        else case link_position (uri, i) (sc_hyperlinks s1) of
                          Some k \<Rightarrow> begin_link k s1
                        | None \<Rightarrow> begin_link (length (sc_hyperlinks s1)) (s1\<lparr>sc_hyperlinks := sc_hyperlinks s1 @ [(uri, i)]\<rparr>)) })"

section \<open>Drawing\<close>

definition char_width :: "width_fun \<Rightarrow> nat \<Rightarrow> nat option" where
  "char_width cw c = (if 0x20 \<le> c \<and> c \<le> 0x7e \<or> c = 0xad then Some 1 else cw c)"

text \<open>\<open>if let Some(cell) = drawing_cell_mut(pos)\<close>.\<close>

definition row_update_if :: "nat \<Rightarrow> (cell \<Rightarrow> cell option) \<Rightarrow> row \<Rightarrow> row option" where
  "row_update_if i f r = (if i < length (rw_cells r) then row_update i f r else Some r)"

definition put_char :: "width_fun \<Rightarrow> nat \<Rightarrow> attrs \<Rightarrow> u16 \<Rightarrow> row \<Rightarrow> row option" where
  "put_char cw c a col r =
     do { x \<leftarrow> vec_get (rw_cells r) col;
          r1 \<leftarrow> (if is_wide_continuation x
                  then do { j \<leftarrow> checked_sub col 1; row_update j (\<lambda>y. Some (cell_clear a y)) r } else Some r);
          x1 \<leftarrow> vec_get (rw_cells r1) col;
          r2 \<leftarrow> (if is_wide x1
                  then do { j \<leftarrow> checked_add u16_max col 1; row_update_if j (cell_set cw 0x20 a) r1 } else Some r1);
          row_update col (cell_set cw c a) r2 }"

definition put_second :: "attrs \<Rightarrow> u16 \<Rightarrow> row \<Rightarrow> row option" where
  "put_second a col r =
     do { x \<leftarrow> vec_get (rw_cells r) col;
          r1 \<leftarrow> (if is_wide x
                  then do { j \<leftarrow> checked_add u16_max col 1; row_update_if j (\<lambda>y. Some (cell_clear a y)) r } else Some r);
          row_update col (\<lambda>y. Some (set_wide_continuation True (cell_clear a y))) r1 }"

definition place :: "width_fun \<Rightarrow> nat \<Rightarrow> attrs \<Rightarrow> nat \<Rightarrow> vt_pos \<Rightarrow> grid \<Rightarrow> grid option" where
  "place cw c a width pos g =
     do { g1 \<leftarrow> on_row (p_row pos) (put_char cw c a (p_col pos)) g;
          let g2 = col_inc 1 g1;
          (if 1 < width
           then do { g3 \<leftarrow> on_row (p_row (g_pos g2)) (put_second a (p_col (g_pos g2))) g2; Some (col_inc 1 g3) }
           else Some g2) }"

text \<open>A combining mark joins the character that ends before column \<open>col\<close>.\<close>

definition attach :: "nat \<Rightarrow> u16 \<Rightarrow> row \<Rightarrow> row option" where
  "attach c col r =
     do { j \<leftarrow> checked_sub col 1;
          x \<leftarrow> vec_get (rw_cells r) j;
          k \<leftarrow> (if is_wide_continuation x then checked_sub col 2 else Some j);
          row_update k (cell_append c) r }"

definition combine :: "nat \<Rightarrow> vt_pos \<Rightarrow> grid \<Rightarrow> grid option" where
  "combine c pos g =
     (if 0 < p_col pos then on_row (p_row pos) (attach c (p_col pos)) g
      else if 0 < p_row pos \<and> (case nth_opt (g_rows g) (p_row pos) of Some r \<Rightarrow> rw_wrapped r | None \<Rightarrow> False)
           then on_row (p_row pos - 1) (attach c (ncols g)) g
           else Some g)"

definition plain_cell_at :: "vt_pos \<Rightarrow> grid \<Rightarrow> bool" where
  "plain_cell_at pos g = (case drawing_cell pos g of Some x \<Rightarrow> \<not> is_wide x \<and> \<not> is_wide_continuation x | None \<Rightarrow> False)"

definition draw_wrapped :: "width_fun \<Rightarrow> nat \<Rightarrow> nat \<Rightarrow> vt_pos \<Rightarrow> screen \<Rightarrow> screen option" where
  "draw_wrapped cw c width pos0 s =
     (let autowrap = \<not> mode MODE_NO_AUTOWRAP s; cols = ncols (active_grid s); a = sc_attrs s
      in do { s1 \<leftarrow> (if autowrap \<and> 1 < width \<and> p_col pos0 = cols - 1 \<and> p_row pos0 < length (g_rows (active_grid s))
                      then on_grid (on_row (p_row pos0) (row_erase (cols - 1) (a\<lparr>at_hyperlink := 0\<rparr>))) s else Some s);
              s2 \<leftarrow> (if autowrap then on_grid (col_wrap width) s1 else Some s1);
              let pos = g_pos (active_grid s2);
              s3 \<leftarrow> (if mode MODE_INSERT s2 \<and> 0 < width then on_grid (insert_cells width) s2 else Some s2);
              (if width = 0 then on_grid (combine c pos) s3 else on_grid (place cw c a width pos) s3) })"

definition draw_width :: "width_fun \<Rightarrow> nat \<Rightarrow> nat \<Rightarrow> screen \<Rightarrow> screen option" where
  "draw_width cw c width s =
     (let g = active_grid s; pos = g_pos g; cols = ncols g
      in if cols < width then Some s
         else if width = 1 \<and> p_col pos < cols \<and> \<not> mode MODE_INSERT s \<and> plain_cell_at pos g
         then on_grid (\<lambda>g. map_option (col_inc 1) (on_row (p_row pos) (row_update (p_col pos) (cell_set cw c (sc_attrs s))) g)) s
         else if mode MODE_NO_AUTOWRAP s \<and> cols - width < p_col pos
         then (let s1 = in_grid (col_set (cols - 1)) s in if 1 < width then Some s1 else draw_wrapped cw c width pos s1)
         else draw_wrapped cw c width pos s)"

definition draw_inner :: "width_fun \<Rightarrow> nat \<Rightarrow> screen \<Rightarrow> screen option" where
  "draw_inner cw c s =
     (if c = 0xfeff then Some s
      else case char_width cw c of
        None \<Rightarrow> if c < 256 then Some s else draw_width cw c 1 s
      | Some w \<Rightarrow> draw_width cw c w s)"

definition draw :: "width_fun \<Rightarrow> nat \<Rightarrow> screen \<Rightarrow> screen option" where
  "draw cw c s = draw_inner cw c s"

definition draw_text :: "width_fun \<Rightarrow> nat \<Rightarrow> screen \<Rightarrow> screen option" where
  "draw_text cw c0 s =
     (let ch = sc_charsets s;
          g = (case ch_single_shift ch of Some k \<Rightarrow> k | None \<Rightarrow> ch_gl ch);
          s1 = s\<lparr>sc_charsets := ch\<lparr>ch_single_shift := None\<rparr>\<rparr>
      in do { cset \<leftarrow> vec_get (ch_g ch) g;
              let c = charset_map cset c0;
              s2 \<leftarrow> draw cw c s1;
              Some (case char_width cw c of
                 None \<Rightarrow> s2
               | Some w \<Rightarrow>
                   if w = 0 then if sc_last_cluster_live s2 then s2\<lparr>sc_last_marks := sc_last_marks s2 @ [c]\<rparr> else s2
                   else s2\<lparr>sc_last_base := c, sc_last_marks := [], sc_last_cluster_live := True\<rparr>) })"

definition rep :: "width_fun \<Rightarrow> u16 \<Rightarrow> screen \<Rightarrow> screen option" where
  "rep cw count s =
     (if \<not> sc_last_cluster_live s then Some s
      else let b = sc_last_base s; marks = sc_last_marks s; g = active_grid s
           in do { s1 \<leftarrow> loop (min count (nrows g * ncols g)) (\<lambda>t. do { t1 \<leftarrow> draw cw b t; for_each marks (draw cw) t1 })
                          (s\<lparr>sc_last_marks := []\<rparr>);
                   Some (s1\<lparr>sc_last_marks := marks, sc_last_cluster_live := False\<rparr>) })"

section \<open>Control codes and escapes\<close>

definition break_rep :: "screen \<Rightarrow> screen" where
  "break_rep s = s\<lparr>sc_last_cluster_live := False\<rparr>"

definition scs :: "u8 \<Rightarrow> u8 \<Rightarrow> screen \<Rightarrow> screen option" where
  "scs slot final_byte s =
     (let s1 = break_rep s;
          cset = (case from_final final_byte of Some x \<Rightarrow> x | None \<Rightarrow> Ascii);
          put = (\<lambda>i. map_option (\<lambda>gs. s1\<lparr>sc_charsets := (sc_charsets s1)\<lparr>ch_g := gs\<rparr>\<rparr>) (vec_set (ch_g (sc_charsets s1)) i cset))
      in if slot = 0x28 then put 0 else if slot = 0x29 then put 1 else if slot = 0x2a then put 2
         else if slot = 0x2b then put 3 else Some s1)"

definition shift :: "usize \<Rightarrow> screen \<Rightarrow> screen" where
  "shift g s = (break_rep s)\<lparr>sc_charsets := (sc_charsets s)\<lparr>ch_gl := g\<rparr>\<rparr>"

definition single_shift :: "usize \<Rightarrow> screen \<Rightarrow> screen" where
  "single_shift g s = (break_rep s)\<lparr>sc_charsets := (sc_charsets s)\<lparr>ch_single_shift := Some g\<rparr>\<rparr>"

definition backspace :: "screen \<Rightarrow> screen" where "backspace s = in_grid (col_dec_restricted 1) s"
definition tab :: "screen \<Rightarrow> screen" where "tab s = in_grid col_tab s"
definition cr :: "screen \<Rightarrow> screen" where "cr s = in_grid (col_set 0) s"

definition lf :: "screen \<Rightarrow> screen option" where
  "lf s = on_grid line_feed (if mode MODE_NEWLINE s then cr s else s)"

definition vt :: "screen \<Rightarrow> screen option" where "vt s = lf s"
definition ff :: "screen \<Rightarrow> screen option" where "ff s = lf s"

definition ind :: "screen \<Rightarrow> screen option" where
  "ind s = on_grid (\<lambda>g. map_option snd (row_inc_scroll 1 g)) (in_grid restrict_col s)"

definition nel :: "screen \<Rightarrow> screen option" where "nel s = ind (cr s)"
definition hts :: "screen \<Rightarrow> screen" where "hts s = in_grid set_tab_stop s"

definition tbc :: "u16 \<Rightarrow> screen \<Rightarrow> screen" where
  "tbc m s = (if m = 0 then in_grid clear_tab_stop s else if m = 3 then in_grid clear_all_tab_stops s else s)"

definition cht :: "u16 \<Rightarrow> screen \<Rightarrow> screen" where "cht n s = in_grid (col_forward_tab n) s"
definition cbt :: "u16 \<Rightarrow> screen \<Rightarrow> screen option" where "cbt n s = on_grid (col_back_tab n) s"
definition decaln :: "width_fun \<Rightarrow> screen \<Rightarrow> screen option" where "decaln cw s = on_grid (align_test cw) s"

definition decstr :: "screen \<Rightarrow> screen" where
  "decstr s =
     (let s1 = s\<lparr>sc_attrs := default_attrs, sc_saved_attrs := default_attrs, sc_charsets := default_charsets,
                 sc_saved_charsets := default_charsets, sc_last_cluster_live := False, sc_cursor_style := 0\<rparr>;
          s2 = clear_mode (MODE_INSERT OR MODE_NEWLINE OR MODE_NO_AUTOWRAP OR MODE_APPLICATION_CURSOR
                           OR MODE_APPLICATION_KEYPAD OR MODE_HIDE_CURSOR) s1
      in sync_blank_attrs (in_grid soft_reset s2))"

definition ansi_mode :: "u16 list list \<Rightarrow> bool \<Rightarrow> screen \<Rightarrow> screen" where
  "ansi_mode params on s = fold (\<lambda>p t.
     if p = [4] then if on then set_mode MODE_INSERT t else clear_mode MODE_INSERT t
     else if p = [20] then if on then set_mode MODE_NEWLINE t else clear_mode MODE_NEWLINE t
     else t) params s"

definition decsc :: "screen \<Rightarrow> screen" where "decsc s = save_cursor s"
definition decrc :: "screen \<Rightarrow> screen" where "decrc s = restore_cursor s"
definition deckpam :: "screen \<Rightarrow> screen" where "deckpam s = set_mode MODE_APPLICATION_KEYPAD s"
definition deckpnm :: "screen \<Rightarrow> screen" where "deckpnm s = clear_mode MODE_APPLICATION_KEYPAD s"
definition ri :: "screen \<Rightarrow> screen option" where "ri s = on_grid reverse_index s"

definition ris :: "screen \<Rightarrow> screen" where
  "ris s = screen_new (g_size (sc_grid s)) (g_scrollback_len (sc_grid s))"

section \<open>Control sequences\<close>

definition ich :: "u16 \<Rightarrow> screen \<Rightarrow> screen option" where "ich n s = on_grid (insert_cells n) (in_grid restrict_col s)"
definition cuu :: "u16 \<Rightarrow> screen \<Rightarrow> screen" where "cuu n s = in_grid (row_dec_clamp n) (in_grid restrict_col s)"
definition cud :: "u16 \<Rightarrow> screen \<Rightarrow> screen" where "cud n s = in_grid (row_inc_clamp n) (in_grid restrict_col s)"
definition cuf :: "u16 \<Rightarrow> screen \<Rightarrow> screen" where "cuf n s = in_grid (col_inc_clamp n) s"
definition cub :: "u16 \<Rightarrow> screen \<Rightarrow> screen" where "cub n s = in_grid (col_dec_restricted n) s"
definition cnl :: "u16 \<Rightarrow> screen \<Rightarrow> screen" where "cnl n s = in_grid (row_inc_clamp n) (in_grid (col_set 0) s)"
definition cpl :: "u16 \<Rightarrow> screen \<Rightarrow> screen" where "cpl n s = in_grid (row_dec_clamp n) (in_grid (col_set 0) s)"

definition cha :: "u16 \<Rightarrow> screen \<Rightarrow> screen option" where
  "cha col s = do { c \<leftarrow> checked_sub col 1; Some (in_grid (col_set c) s) }"

definition cup :: "u16 \<times> u16 \<Rightarrow> screen \<Rightarrow> screen option" where
  "cup rc s = do { r \<leftarrow> checked_sub (fst rc) 1; c \<leftarrow> checked_sub (snd rc) 1; Some (in_grid (set_pos \<lparr>p_row = r, p_col = c\<rparr>) s) }"

definition ed :: "u16 \<Rightarrow> screen \<Rightarrow> screen option" where
  "ed m s = (let a = for_erase (sc_attrs s)
     in if m = 0 then on_grid (erase_all_forward a) s
        else if m = 1 then on_grid (erase_all_backward a) s
        else if m = 2 then Some (in_grid (erase_all a) s) else Some s)"

definition decsed :: "u16 \<Rightarrow> screen \<Rightarrow> screen option" where "decsed m s = ed m s"

definition el :: "u16 \<Rightarrow> screen \<Rightarrow> screen option" where
  "el m s = (let a = for_erase (sc_attrs s)
     in if m = 0 then on_grid (erase_row_forward a) s
        else if m = 1 then on_grid (erase_row_backward a) s
        else if m = 2 then on_grid (erase_row a) s else Some s)"

definition decsel :: "u16 \<Rightarrow> screen \<Rightarrow> screen option" where "decsel m s = el m s"
definition il :: "u16 \<Rightarrow> screen \<Rightarrow> screen option" where "il n s = on_grid (insert_lines n) s"
definition dl :: "u16 \<Rightarrow> screen \<Rightarrow> screen option" where "dl n s = on_grid (delete_lines n) s"
definition dch :: "u16 \<Rightarrow> screen \<Rightarrow> screen option" where "dch n s = on_grid (delete_cells n) (in_grid restrict_col s)"
definition su :: "u16 \<Rightarrow> screen \<Rightarrow> screen option" where "su n s = on_grid (scroll_up_discard n) s"
definition sd :: "u16 \<Rightarrow> screen \<Rightarrow> screen option" where "sd n s = on_grid (scroll_down n False) s"

definition ech :: "u16 \<Rightarrow> screen \<Rightarrow> screen option" where
  "ech n s = on_grid (erase_cells n (for_erase (sc_attrs s))) (in_grid restrict_col s)"

definition vpa :: "u16 \<Rightarrow> screen \<Rightarrow> screen option" where
  "vpa row s = do { r \<leftarrow> checked_sub row 1; Some (in_grid (row_set r) (in_grid restrict_col s)) }"

definition decset_one :: "u16 list \<Rightarrow> screen \<Rightarrow> screen" where
  "decset_one p s =
     (if p = [1] then set_mode MODE_APPLICATION_CURSOR s
      else if p = [5] then set_mode MODE_REVERSE_VIDEO s
      else if p = [6] then in_grid (set_origin_mode True) s
      else if p = [7] then clear_mode MODE_NO_AUTOWRAP s
      else if p = [9] then set_mouse_mode Press s
      else if p = [25] then clear_mode MODE_HIDE_CURSOR s
      else if p = [47] \<or> p = [1047] then enter_alternate_grid s
      else if p = [1048] then decsc s
      else if p = [1000] then set_mouse_mode PressRelease s
      else if p = [1002] then set_mouse_mode ButtonMotion s
      else if p = [1003] then set_mouse_mode AnyMotion s
      else if p = [1005] then set_mouse_encoding EncUtf8 s
      else if p = [1006] then set_mouse_encoding EncSgr s
      else if p = [1015] then set_mouse_encoding EncUrxvt s
      else if p = [1004] then set_mode MODE_FOCUS_EVENTS s
      else if p = [1049] then
        (let s1 = decsc s;
             s2 = (if \<not> mode MODE_ALTERNATE_SCREEN s1 then s1\<lparr>sc_alternate_grid := grid_clear (sc_alternate_grid s1)\<rparr> else s1)
         in enter_alternate_grid s2)
      else if p = [2004] then set_mode MODE_BRACKETED_PASTE s
      else s)"

definition decset :: "u16 list list \<Rightarrow> screen \<Rightarrow> screen" where
  "decset params s = fold decset_one params s"

definition decrst_one :: "u16 list \<Rightarrow> screen \<Rightarrow> screen" where
  "decrst_one p s =
     (if p = [1] then clear_mode MODE_APPLICATION_CURSOR s
      else if p = [5] then clear_mode MODE_REVERSE_VIDEO s
      else if p = [6] then in_grid (set_origin_mode False) s
      else if p = [7] then set_mode MODE_NO_AUTOWRAP s
      else if p = [9] then clear_mouse_mode Press s
      else if p = [25] then set_mode MODE_HIDE_CURSOR s
      else if p = [47] then exit_alternate_grid s
      else if p = [1047] then
        (let s1 = exit_alternate_grid s in s1\<lparr>sc_alternate_grid := grid_clear (sc_alternate_grid s1)\<rparr>)
      else if p = [1048] then decrc s
      else if p = [1000] then clear_mouse_mode PressRelease s
      else if p = [1002] then clear_mouse_mode ButtonMotion s
      else if p = [1003] then clear_mouse_mode AnyMotion s
      else if p = [1005] then clear_mouse_encoding EncUtf8 s
      else if p = [1006] then clear_mouse_encoding EncSgr s
      else if p = [1015] then clear_mouse_encoding EncUrxvt s
      else if p = [1004] then clear_mode MODE_FOCUS_EVENTS s
      else if p = [1049] then decrc (exit_alternate_grid s)
      else if p = [2004] then clear_mode MODE_BRACKETED_PASTE s
      else s)"

definition decrst :: "u16 list list \<Rightarrow> screen \<Rightarrow> screen" where
  "decrst params s = fold decrst_one params s"

subsection \<open>Graphic rendition\<close>

definition to_byte :: "u16 \<Rightarrow> u8 option" where
  "to_byte n = (if n < 256 then Some n else None)"

definition small :: "u16 \<Rightarrow> u8" where
  "small n = (if n < 256 then n else 255)"

definition rgb_color :: "u16 \<Rightarrow> u16 \<Rightarrow> u16 \<Rightarrow> vt_color option" where
  "rgb_color r g b = do { r' \<leftarrow> to_byte r; g' \<leftarrow> to_byte g; b' \<leftarrow> to_byte b; Some (ColorRgb r' g' b') }"

fun next_param :: "u16 list list \<Rightarrow> (u16 \<times> u16 list list) option" where
  "next_param ([n] # ps) = Some (n, ps)"
| "next_param _ = None"

fun colon_color :: "u16 list \<Rightarrow> vt_color option" where
  "colon_color [k, n] = (if k = 5 then map_option ColorIdx (to_byte n) else None)"
| "colon_color [k, r, g, b] = (if k = 2 then rgb_color r g b else None)"
| "colon_color [k, _, r, g, b] = (if k = 2 then rgb_color r g b else None)"
| "colon_color _ = None"

definition extended_color :: "u16 list \<Rightarrow> u16 list list \<Rightarrow> (vt_color \<times> u16 list list) option" where
  "extended_color head rest =
     (if 1 < length head then map_option (\<lambda>c. (c, rest)) (colon_color (tl head))
      else do { (k, r0) \<leftarrow> next_param rest;
                if k = 5 then do { (n, r1) \<leftarrow> next_param r0; i \<leftarrow> to_byte n; Some (ColorIdx i, r1) }
                else if k = 2 then do { (r, r1) \<leftarrow> next_param r0; r' \<leftarrow> to_byte r; (g, r2) \<leftarrow> next_param r1; g' \<leftarrow> to_byte g;
                                        (b, r3) \<leftarrow> next_param r2; b' \<leftarrow> to_byte b; Some (ColorRgb r' g' b', r3) }
                else None })"

definition underline_of :: "u16 \<Rightarrow> attrs \<Rightarrow> attrs" where
  "underline_of n a =
     (if n = 0 then set_underline None a else if n = 1 then set_underline (Some ULSingle) a
      else if n = 2 then set_underline (Some ULDouble) a else if n = 3 then set_underline (Some ULCurly) a
      else if n = 4 then set_underline (Some ULDotted) a else if n = 5 then set_underline (Some ULDashed) a else a)"

definition sgr_single :: "u16 \<Rightarrow> attrs \<Rightarrow> attrs" where
  "sgr_single n a =
     (if n = 0 then sgr_reset a
      else if n = 1 then set_attr_flag TEXT_MODE_BOLD True a
      else if n = 2 then set_attr_flag TEXT_MODE_DIM True a
      else if n = 3 then set_attr_flag TEXT_MODE_ITALIC True a
      else if n = 4 then set_underline (Some ULSingle) a
      else if n = 5 \<or> n = 6 then set_attr_flag TEXT_MODE_BLINK True a
      else if n = 7 then set_attr_flag TEXT_MODE_INVERSE True a
      else if n = 8 then set_attr_flag TEXT_MODE_CONCEAL True a
      else if n = 9 then set_attr_flag TEXT_MODE_STRIKETHROUGH True a
      else if n = 21 then set_underline (Some ULDouble) a
      else if n = 22 then set_normal_intensity a
      else if n = 23 then set_attr_flag TEXT_MODE_ITALIC False a
      else if n = 24 then set_underline None a
      else if n = 25 then set_attr_flag TEXT_MODE_BLINK False a
      else if n = 27 then set_attr_flag TEXT_MODE_INVERSE False a
      else if n = 28 then set_attr_flag TEXT_MODE_CONCEAL False a
      else if n = 29 then set_attr_flag TEXT_MODE_STRIKETHROUGH False a
      else if 30 \<le> n \<and> n \<le> 37 then a\<lparr>at_fgcolor := ColorIdx (small n - 30)\<rparr>
      else if n = 39 then a\<lparr>at_fgcolor := ColorDefault\<rparr>
      else if 40 \<le> n \<and> n \<le> 47 then a\<lparr>at_bgcolor := ColorIdx (small n - 40)\<rparr>
      else if n = 49 then a\<lparr>at_bgcolor := ColorDefault\<rparr>
      else if n = 53 then set_attr_flag TEXT_MODE_OVERLINE True a
      else if n = 55 then set_attr_flag TEXT_MODE_OVERLINE False a
      else if n = 59 then a\<lparr>at_ulcolor := ColorDefault\<rparr>
      else if 90 \<le> n \<and> n \<le> 97 then a\<lparr>at_fgcolor := ColorIdx (small n - 82)\<rparr>
      else if 100 \<le> n \<and> n \<le> 107 then a\<lparr>at_bgcolor := ColorIdx (small n - 92)\<rparr>
      else a)"

definition set_color :: "u16 \<Rightarrow> vt_color \<Rightarrow> attrs \<Rightarrow> attrs" where
  "set_color k c a = (if k = 38 then a\<lparr>at_fgcolor := c\<rparr> else if k = 48 then a\<lparr>at_bgcolor := c\<rparr> else a\<lparr>at_ulcolor := c\<rparr>)"

lemma next_param_shorter: "next_param ps = Some (n, qs) \<Longrightarrow> length qs < length ps"
  by (induction ps rule: next_param.induct) auto

lemma extended_color_shorter:
  assumes "extended_color h ps = Some (c, qs)"
  shows "length qs \<le> length ps"
  using assms by (auto simp: extended_color_def bind_Some_conv split: if_splits dest!: next_param_shorter)

function sgr_loop :: "u16 list list \<Rightarrow> attrs \<Rightarrow> attrs" where
  "sgr_loop [] a = a"
| "sgr_loop (p # ps) a =
     (if p \<noteq> [] \<and> (hd p = 38 \<or> hd p = 48 \<or> hd p = 58)
      then (case extended_color p ps of None \<Rightarrow> a | Some (c, qs) \<Rightarrow> sgr_loop qs (set_color (hd p) c a))
      else if length p = 1 then sgr_loop ps (sgr_single (hd p) a)
      else if length p = 2 \<and> hd p = 4 then sgr_loop ps (underline_of (p ! 1) a)
      else sgr_loop ps a)"
  by pat_completeness auto
termination by (relation "measure (\<lambda>(ps, a). length ps)") (auto dest: extended_color_shorter)

definition sgr_apply :: "u16 list list \<Rightarrow> screen \<Rightarrow> screen" where
  "sgr_apply params s = s\<lparr>sc_attrs := (if params = [] then sgr_reset (sc_attrs s) else sgr_loop params (sc_attrs s))\<rparr>"

definition sgr :: "u16 list list \<Rightarrow> screen \<Rightarrow> screen" where
  "sgr params s = sync_blank_attrs (sgr_apply params s)"

definition decscusr :: "u16 \<Rightarrow> screen \<Rightarrow> screen" where
  "decscusr style s = (if style \<le> 6 then s\<lparr>sc_cursor_style := style\<rparr> else s)"

fun take_title :: "nat list \<Rightarrow> nat \<Rightarrow> nat list" where
  "take_title [] n = []"
| "take_title (c # cs) n = (if MAX_TITLE_BYTES < n + len_utf8 c then [] else c # take_title cs (n + len_utf8 c))"

definition set_title :: "bytes \<Rightarrow> screen \<Rightarrow> screen" where
  "set_title t s = s\<lparr>sc_title := take_title (filter (\<lambda>c. \<not> is_control c) (from_utf8_lossy t)) 0\<rparr>"

definition decstbm :: "u16 \<times> u16 \<Rightarrow> screen \<Rightarrow> screen option" where
  "decstbm tb s = do { t \<leftarrow> checked_sub (fst tb) 1; b \<leftarrow> checked_sub (snd tb) 1; Some (in_grid (set_scroll_region t b) s) }"

section \<open>Dispatch\<close>

datatype term_event =
    TermPrint nat
  | TermExecute u8
  | TermEsc bytes u8
  | TermCsi "u16 list list" bytes nat
  | TermOsc "bytes list"

definition first_sub :: "u16 list list \<Rightarrow> nat \<Rightarrow> u16" where
  "first_sub params i = (if i < length params \<and> params ! i \<noteq> [] then hd (params ! i) else 0)"

definition canonicalize_params_1 :: "u16 list list \<Rightarrow> u16 \<Rightarrow> u16" where
  "canonicalize_params_1 params d = (let x = first_sub params 0 in if x = 0 then d else x)"

definition canonicalize_params_2 :: "u16 list list \<Rightarrow> u16 \<Rightarrow> u16 \<Rightarrow> u16 \<times> u16" where
  "canonicalize_params_2 params d1 d2 =
     (let x = first_sub params 0; y = first_sub params 1 in (if x = 0 then d1 else x, if y = 0 then d2 else y))"

definition canonicalize_params_decstbm :: "u16 list list \<Rightarrow> vt_size \<Rightarrow> u16 \<times> u16" where
  "canonicalize_params_decstbm params sz =
     (let t = first_sub params 0; b = first_sub params 1 in (if t = 0 then 1 else t, if b = 0 then sz_rows sz else b))"

definition print :: "width_fun \<Rightarrow> nat \<Rightarrow> screen \<Rightarrow> screen option" where
  "print cw c s = (if 0x80 \<le> c \<and> c < 0xa0 then Some s else draw_text cw c s)"

definition execute :: "u8 \<Rightarrow> screen \<Rightarrow> screen option" where
  "execute b s0 =
     (let s = (if b \<noteq> 14 \<and> b \<noteq> 15 then break_rep s0 else s0)
      in if b = 8 then Some (backspace s) else if b = 9 then Some (tab s) else if b = 10 then lf s else if b = 11 then vt s
         else if b = 12 then ff s else if b = 13 then Some (cr s) else if b = 14 then Some (shift 1 s)
         else if b = 15 then Some (shift 0 s) else Some s)"

definition esc_dispatch :: "width_fun \<Rightarrow> bytes \<Rightarrow> u8 \<Rightarrow> screen \<Rightarrow> screen option" where
  "esc_dispatch cw intermediates b s0 =
     (let s = break_rep s0
      in if length intermediates = 1 \<and> hd intermediates \<in> {0x28, 0x29, 0x2a, 0x2b} then scs (hd intermediates) b s
         else if intermediates = [0x23] \<and> b = 0x38 then decaln cw s
         else if intermediates \<noteq> [] then Some s
         else if b = 0x44 then ind s
         else if b = 0x45 then nel s
         else if b = 0x48 then Some (hts s)
         else if b = 0x4e then Some (single_shift 2 s)
         else if b = 0x6e then Some (shift 2 s)
         else if b = 0x6f then Some (shift 3 s)
         else if b = 0x4f then Some (single_shift 3 s)
         else if b = 0x37 then Some (decsc s)
         else if b = 0x38 then Some (decrc s)
         else if b = 0x3d then Some (deckpam s)
         else if b = 0x3e then Some (deckpnm s)
         else if b = 0x4d then ri s
         else if b = 0x63 then Some (ris s)
         else Some s)"

text \<open>The sequences without a private marker, by their final character.\<close>

definition csi_plain :: "width_fun \<Rightarrow> u16 list list \<Rightarrow> nat \<Rightarrow> screen \<Rightarrow> screen option" where
  "csi_plain cw params c s =
     (let n = canonicalize_params_1 params 1; m = canonicalize_params_1 params 0
      in if c = 0x40 then ich n s
         else if c = 0x41 then Some (cuu n s)
         else if c = 0x42 then Some (cud n s)
         else if c = 0x43 then Some (cuf n s)
         else if c = 0x44 then Some (cub n s)
         else if c = 0x45 then Some (cnl n s)
         else if c = 0x46 then Some (cpl n s)
         else if c = 0x47 then cha n s
         else if c = 0x48 then cup (canonicalize_params_2 params 1 1) s
         else if c = 0x4a then ed m s
         else if c = 0x4b then el m s
         else if c = 0x4c then il n s
         else if c = 0x4d then dl n s
         else if c = 0x50 then dch n s
         else if c = 0x53 then su n s
         else if c = 0x54 then sd n s
         else if c = 0x58 then ech n s
         else if c = 0x62 then rep cw n s
         else if c = 0x60 then cha n s
         else if c = 0x61 then Some (cuf n s)
         else if c = 0x65 then Some (cud n s)
         else if c = 0x66 then cup (canonicalize_params_2 params 1 1) s
         else if c = 0x49 then Some (cht n s)
         else if c = 0x5a then cbt n s
         else if c = 0x67 then Some (tbc m s)
         else if c = 0x68 then Some (ansi_mode params True s)
         else if c = 0x6c then Some (ansi_mode params False s)
         else if c = 0x73 then Some (decsc s)
         else if c = 0x75 then Some (decrc s)
         else if c = 0x64 then vpa n s
         else if c = 0x6d then Some (sgr params s)
         else if c = 0x72 then decstbm (canonicalize_params_decstbm params (g_size (active_grid s))) s
         else Some s)"

definition csi_dispatch :: "width_fun \<Rightarrow> u16 list list \<Rightarrow> bytes \<Rightarrow> nat \<Rightarrow> screen \<Rightarrow> screen option" where
  "csi_dispatch cw params intermediates c s0 =
     (let s = (if c \<noteq> 0x62 then break_rep s0 else s0)
      in case intermediates of
        [] \<Rightarrow> csi_plain cw params c s
      | i # _ \<Rightarrow>
          if i = 0x3f then
            (if c = 0x4a then decsed (canonicalize_params_1 params 0) s
             else if c = 0x4b then decsel (canonicalize_params_1 params 0) s
             else if c = 0x68 then Some (decset params s)
             else if c = 0x6c then Some (decrst params s)
             else Some s)
          else if i = 0x21 \<and> c = 0x70 then Some (decstr s)
          else if i = 0x20 \<and> c = 0x71 \<and> length intermediates = 1 then Some (decscusr (canonicalize_params_1 params 0) s)
          else Some s)"

definition MAX_OSC_PARAMS :: usize where "MAX_OSC_PARAMS = 16"

fun join :: "nat \<Rightarrow> bytes list \<Rightarrow> bytes" where
  "join d [] = []"
| "join d [x] = x"
| "join d (x # y # xs) = x @ d # join d (y # xs)"

definition osc_dispatch :: "bytes list \<Rightarrow> screen \<Rightarrow> screen option" where
  "osc_dispatch params s =
     (case params of
        [] \<Rightarrow> Some s
      | k # rest \<Rightarrow>
          if (k = [0x30] \<or> k = [0x32]) \<and> rest \<noteq> [] then Some (set_title (join 0x3b rest) s)
          else if k = [0x38] then
            (if MAX_OSC_PARAMS \<le> length params then osc8 [] [] s
             else case rest of p # u # us \<Rightarrow> osc8 p (join 0x3b (u # us)) s | _ \<Rightarrow> osc8 [] [] s)
          else Some s)"

fun term_step :: "width_fun \<Rightarrow> term_event \<Rightarrow> screen \<Rightarrow> screen option" where
  "term_step cw (TermPrint c) s = print cw c s"
| "term_step cw (TermExecute b) s = execute b s"
| "term_step cw (TermEsc is b) s = esc_dispatch cw is b s"
| "term_step cw (TermCsi ps is c) s = csi_dispatch cw ps is c s"
| "term_step cw (TermOsc ps) s = osc_dispatch ps s"

section \<open>Parser\<close>

text \<open>
  \<open>process\<close> rewrites the C1 controls before the tokenizer sees them; a trailing 0xC2 waits for the next
  chunk. \<open>adv\<close> is \<open>vte::Parser::advance\<close>: the calls it makes and its next state.
\<close>

fun rewrite_c1 :: "bool \<Rightarrow> bytes \<Rightarrow> bytes \<times> bool" where
  "rewrite_c1 pending [] = ([], pending)"
| "rewrite_c1 pending (b # bs) =
     (if pending \<and> 0x80 \<le> b \<and> b \<le> 0x9f
      then (let (out, p) = rewrite_c1 False bs in (0x1b # (b - 0x40) # out, p))
      else if b = 0xc2 then (let (out, p) = rewrite_c1 True bs in ((if pending then [0xc2] else []) @ out, p))
      else (let (out, p) = rewrite_c1 False bs in ((if pending then [0xc2] else []) @ b # out, p)))"

record 'p parser =
  pa_vte :: 'p
  pa_pending_c2 :: bool
  pa_screen :: screen

definition tokenizer_input :: "bool \<Rightarrow> bytes \<Rightarrow> bytes \<times> bool" where
  "tokenizer_input pending bs = (if \<not> pending \<and> 0xc2 \<notin> set bs then (bs, pending) else rewrite_c1 pending bs)"

definition process :: "width_fun \<Rightarrow> ('p \<Rightarrow> bytes \<Rightarrow> term_event list \<times> 'p) \<Rightarrow> bytes \<Rightarrow> 'p parser \<Rightarrow> 'p parser option" where
  "process cw adv bs p =
     (let (out, pending) = tokenizer_input (pa_pending_c2 p) bs;
          (events, v) = adv (pa_vte p) out
      in do { s \<leftarrow> for_each events (term_step cw) (pa_screen p);
              Some (p\<lparr>pa_vte := v, pa_pending_c2 := pending, pa_screen := s\<rparr>) })"

end
