(* ===== verification/Vt_Safety.thy ===== *)
theory Vt_Safety
  imports Vt_Screen
begin

text \<open>
  The terminal never panics: an invariant of the screen, \<open>screen_ok\<close>, and for every operation that it
  returns and keeps the invariant. The rules \<open>on_grid_returns\<close> and \<open>in_grid_ok\<close> carry the facts about
  one grid over to the screen; drawing and hyperlinks, which span more than one operation on a grid,
  have lemmas of their own.
\<close>

section \<open>The invariant\<close>

definition linked :: "nat \<Rightarrow> attrs \<Rightarrow> bool" where
  "linked n a \<longleftrightarrow> at_hyperlink a \<le> n"

interpretation linked: attr_class "linked n" for n
  by unfold_locales (simp add: linked_def default_attrs_def)

definition charsets_ok :: "charsets \<Rightarrow> bool" where
  "charsets_ok ch \<longleftrightarrow> length (ch_g ch) = 4 \<and> ch_gl ch < 4 \<and> (case ch_single_shift ch of None \<Rightarrow> True | Some k \<Rightarrow> k < 4)"

definition link_ok :: "link \<Rightarrow> bool" where
  "link_ok l \<longleftrightarrow> fst l \<noteq> [] \<and> length (fst l) \<le> MAX_URI_BYTES \<and> length (snd l) \<le> MAX_LINK_ID_BYTES
     \<and> from_utf8 (fst l) \<noteq> None \<and> \<not> has_control (fst l) \<and> \<not> has_control (snd l)"

definition title_ok :: "nat list \<Rightarrow> bool" where
  "title_ok t \<longleftrightarrow> sum_list (map len_utf8 t) \<le> MAX_TITLE_BYTES \<and> list_all (\<lambda>c. \<not> is_control c) t"

text \<open>The alternate grid has no rows before its first use.\<close>

definition alternate_ok :: "bool \<Rightarrow> (attrs \<Rightarrow> bool) \<Rightarrow> vt_size \<Rightarrow> limits \<Rightarrow> grid \<Rightarrow> bool" where
  "alternate_ok shown A sz lim g \<longleftrightarrow> frame_ok A sz lim g \<and> (rows_ok A sz (g_rows g) \<or> \<not> shown \<and> g_rows g = [])"

definition grids_ok :: "nat \<Rightarrow> bool \<Rightarrow> vt_size \<Rightarrow> nat \<Rightarrow> nat \<Rightarrow> grid \<Rightarrow> grid \<Rightarrow> bool" where
  "grids_ok k shown sz n m g h \<longleftrightarrow> (\<exists>f1 f2. grid_ok (linked k) sz (n, f1) g \<and> alternate_ok shown (linked k) sz (0, f2) h \<and> m \<le> f1 + f2)"

definition pen_ok :: "screen \<Rightarrow> bool" where
  "pen_ok s \<longleftrightarrow> linked (length (sc_hyperlinks s)) (sc_attrs s) \<and> linked (length (sc_hyperlinks s)) (sc_saved_attrs s)
     \<and> charsets_ok (sc_charsets s) \<and> charsets_ok (sc_saved_charsets s) \<and> is_scalar (sc_last_base s) \<and> list_all is_scalar (sc_last_marks s)
     \<and> length (sc_hyperlinks s) \<le> MAX_HYPERLINKS \<and> list_all link_ok (sc_hyperlinks s) \<and> title_ok (sc_title s)"

definition screen_ok :: "vt_size \<Rightarrow> nat \<Rightarrow> screen \<Rightarrow> bool" where
  "screen_ok sz n s \<longleftrightarrow> pen_ok s \<and> grids_ok (length (sc_hyperlinks s)) (mode MODE_ALTERNATE_SCREEN s) sz n (sc_compact_freed_mark s)
     (sc_grid s) (sc_alternate_grid s)"

lemma alternate_shown: "alternate_ok True A sz lim g = grid_ok A sz lim g"
  by (simp add: alternate_ok_def grid_ok_def)

lemma alternate_hide: "grid_ok A sz lim g \<Longrightarrow> alternate_ok b A sz lim g"
  by (simp add: alternate_ok_def grid_ok_def)

lemma screen_new_ok: "size_ok sz \<Longrightarrow> screen_ok sz n (screen_new sz n)"
proof -
  assume sz: "size_ok sz"
  have "frame_ok (linked 0) sz (n, 0) (grid_new sz n)" "frame_ok (linked 0) sz (0, 0) (grid_new sz 0)"
    using linked.grid_new_ok(1) [OF sz] by auto
  moreover have "g_rows (grid_new sz m) = []" for m by (simp add: grid_new_def)
  ultimately show ?thesis using linked.grid_new_ok(2) [of 0 sz "(n, 0)" "grid_new sz n"]
    by (auto simp: screen_ok_def pen_ok_def grids_ok_def alternate_ok_def screen_new_def mode_def charsets_ok_def default_charsets_def
        linked_def default_attrs_def is_scalar_def title_ok_def MAX_TITLE_BYTES_def intro!: exI [of _ 0])
qed

section \<open>From one grid to the screen\<close>

lemma in_grid_fields [simp]:
  "sc_attrs (in_grid f s) = sc_attrs s" "sc_modes (in_grid f s) = sc_modes s" "sc_hyperlinks (in_grid f s) = sc_hyperlinks s"
  "mode b (in_grid f s) = mode b s" "pen_ok (in_grid f s) = pen_ok s" "active_grid (in_grid f s) = f (active_grid s)"
  "sc_compact_freed_mark (in_grid f s) = sc_compact_freed_mark s" "sc_saved_attrs (in_grid f s) = sc_saved_attrs s"
  "sc_last_cluster_live (in_grid f s) = sc_last_cluster_live s" "sc_last_marks (in_grid f s) = sc_last_marks s"
  "sc_last_base (in_grid f s) = sc_last_base s" "sc_charsets (in_grid f s) = sc_charsets s"
  "sc_saved_charsets (in_grid f s) = sc_saved_charsets s"
  by (simp_all add: in_grid_def pen_ok_def mode_def active_grid_def)

lemma on_grid_alt: "on_grid f s = map_option (\<lambda>g. in_grid (\<lambda>_. g) s) (f (active_grid s))"
  by (cases "f (active_grid s)") (auto simp: on_grid_def in_grid_def active_grid_def)

lemma in_grid_alt: "in_grid f s = in_grid (\<lambda>_. f (active_grid s)) s"
  by (simp add: in_grid_def active_grid_def)

lemma active_ok:
  assumes "screen_ok sz n s"
  obtains lim where "grid_ok (linked (length (sc_hyperlinks s))) sz lim (active_grid s)"
    "\<forall>g. grid_ok (linked (length (sc_hyperlinks s))) sz lim g \<longrightarrow> screen_ok sz n (in_grid (\<lambda>_. g) s)"
proof -
  let ?k = "length (sc_hyperlinks s)"
  obtain f1 f2 where f: "grid_ok (linked ?k) sz (n, f1) (sc_grid s)"
    "alternate_ok (mode MODE_ALTERNATE_SCREEN s) (linked ?k) sz (0, f2) (sc_alternate_grid s)" "sc_compact_freed_mark s \<le> f1 + f2"
    using assms by (auto simp: screen_ok_def grids_ok_def)
  show ?thesis
  proof (cases "mode MODE_ALTERNATE_SCREEN s")
    case True
    show ?thesis
    proof (rule that [of "(0, f2)"])
      show "grid_ok (linked ?k) sz (0, f2) (active_grid s)" using f(2) True by (simp add: active_grid_def alternate_shown)
      show "\<forall>g. grid_ok (linked ?k) sz (0, f2) g \<longrightarrow> screen_ok sz n (in_grid (\<lambda>_. g) s)"
      proof (intro allI impI)
      fix g
      assume "grid_ok (linked ?k) sz (0, f2) g"
      then have "grids_ok ?k True sz n (sc_compact_freed_mark s) (sc_grid s) g" using f by (auto simp: grids_ok_def alternate_shown)
      then show "screen_ok sz n (in_grid (\<lambda>_. g) s)" using assms True unfolding screen_ok_def by (simp, simp add: in_grid_def)
      qed
    qed
  next
    case False
    show ?thesis
    proof (rule that [of "(n, f1)"])
      show "grid_ok (linked ?k) sz (n, f1) (active_grid s)" using f(1) False by (simp add: active_grid_def)
      show "\<forall>g. grid_ok (linked ?k) sz (n, f1) g \<longrightarrow> screen_ok sz n (in_grid (\<lambda>_. g) s)"
      proof (intro allI impI)
      fix g
      assume "grid_ok (linked ?k) sz (n, f1) g"
      then have "grids_ok ?k False sz n (sc_compact_freed_mark s) g (sc_alternate_grid s)" using f False by (auto simp: grids_ok_def)
      then show "screen_ok sz n (in_grid (\<lambda>_. g) s)" using assms False unfolding screen_ok_def by (simp, simp add: in_grid_def)
      qed
    qed
  qed
qed

lemma on_grid_post:
  assumes "screen_ok sz n s"
    and "\<And>lim. grid_ok (linked (length (sc_hyperlinks s))) sz lim (active_grid s)
      \<Longrightarrow> returns (f (active_grid s)) (\<lambda>g. grid_ok (linked (length (sc_hyperlinks s))) sz lim g \<and> Q g)"
  shows "returns (on_grid f s) (\<lambda>s'. screen_ok sz n s' \<and> (\<exists>g. s' = in_grid (\<lambda>_. g) s \<and> Q g))"
proof -
  obtain lim where l: "grid_ok (linked (length (sc_hyperlinks s))) sz lim (active_grid s)"
    "\<forall>g. grid_ok (linked (length (sc_hyperlinks s))) sz lim g \<longrightarrow> screen_ok sz n (in_grid (\<lambda>_. g) s)"
    by (rule active_ok [OF assms(1)])
  show ?thesis unfolding on_grid_alt returns_map by (rule returns_mono [OF assms(2) [OF l(1)]]) (use l(2) in auto)
qed

lemma on_grid_returns:
  assumes "screen_ok sz n s"
    and "\<And>k lim g. grid_ok (linked k) sz lim g \<Longrightarrow> returns (f g) (grid_ok (linked k) sz lim)"
  shows "returns (on_grid f s) (screen_ok sz n)"
  by (rule returns_mono [OF on_grid_post [OF assms(1), where Q = "\<lambda>_. True"]]) (use assms(2) in auto)

lemma in_grid_ok:
  assumes "screen_ok sz n s" and "\<And>k lim g. grid_ok (linked k) sz lim g \<Longrightarrow> grid_ok (linked k) sz lim (f g)"
  shows "screen_ok sz n (in_grid f s)"
proof -
  obtain lim where "grid_ok (linked (length (sc_hyperlinks s))) sz lim (active_grid s)"
    "\<forall>g. grid_ok (linked (length (sc_hyperlinks s))) sz lim g \<longrightarrow> screen_ok sz n (in_grid (\<lambda>_. g) s)"
    by (rule active_ok [OF assms(1)])
  then show ?thesis using assms(2) by (subst in_grid_alt) blast
qed

section \<open>Drawing\<close>

text \<open>A row whose cells are good but whose wide characters may be broken at one column.\<close>

definition loose_row :: "(attrs \<Rightarrow> bool) \<Rightarrow> nat \<Rightarrow> nat \<Rightarrow> row \<Rightarrow> bool" where
  "loose_row A n col r \<longleftrightarrow> length (rw_cells r) = n \<and> unlinked col (rw_cells r) \<and> (\<forall>c\<in>set (rw_cells r). cell_ok c \<and> A (ce_attrs c))"

lemma loose_row_at:
  "loose_row A n col r \<longleftrightarrow> (\<exists>xs c ys. rw_cells r = xs @ c # ys \<and> length xs = col \<and> n = Suc (col + length ys) \<and> paired xs \<and> paired ys
     \<and> (\<forall>x\<in>set (xs @ c # ys). cell_ok x \<and> A (ce_attrs x)))" (is "_ \<longleftrightarrow> ?r")
proof
  assume l: "loose_row A n col r"
  let ?cs = "rw_cells r"
  have i: "col < length ?cs" using l by (simp add: loose_row_def unlinked_def)
  have "?cs = take col ?cs @ ?cs ! col # drop (Suc col) ?cs" by (rule list_at [OF i])
  moreover have "length (take col ?cs) = col" "n = Suc (col + length (drop (Suc col) ?cs))" using l i by (auto simp: loose_row_def)
  moreover have "\<forall>x\<in>set (take col ?cs @ ?cs ! col # drop (Suc col) ?cs). cell_ok x \<and> A (ce_attrs x)"
    using l list_at [OF i] by (simp add: loose_row_def)
  ultimately show ?r using l unfolding loose_row_def unlinked_def by blast
next
  assume ?r
  then show "loose_row A n col r" by (auto simp: loose_row_def unlinked_def)
qed

lemma loose_rowI:
  "length xs = col \<Longrightarrow> n = Suc (col + length ys) \<Longrightarrow> paired xs \<Longrightarrow> paired ys
     \<Longrightarrow> \<forall>x\<in>set (xs @ c # ys). cell_ok x \<and> A (ce_attrs x) \<Longrightarrow> loose_row A n col (r\<lparr>rw_cells := xs @ c # ys\<rparr>)"
  by (auto simp: loose_row_at)

lemma loose_row_narrow: "loose_row A n col r \<Longrightarrow> narrow (rw_cells r ! col) \<Longrightarrow> row_ok A n r"
  by (auto simp: loose_row_at row_ok_def nth_append intro: paired_insert)

lemma cell_set_ex:
  assumes "cell_ok x" and "is_scalar c"
  obtains y where "cell_set cw c a x = Some y" "cell_ok y" "ce_attrs y = a" "is_wide y = wide_char cw c" "\<not> is_wide_continuation y"
    "cell_text y = encode_utf8 c"
  using cell_set_returns [OF assms, of cw a] that by (auto simp: returns_def)

lemma ascii_narrow: "c < 128 \<Longrightarrow> \<not> wide_char cw c"
  by (simp add: wide_char_def)

lemma row_update_at:
  "rw_cells r = xs @ x # ys \<Longrightarrow> i = length xs \<Longrightarrow> f x = Some y \<Longrightarrow> row_update i f r = Some (r\<lparr>rw_cells := xs @ y # ys\<rparr>)"
  by (simp add: row_update_def vec_get_def nth_append list_update_append)

text \<open>
  Freeing a column for a new character: the first half that loses its second half is cleared, the
  second half that loses its first half becomes a blank.
\<close>

definition free_column :: "width_fun \<Rightarrow> attrs \<Rightarrow> u16 \<Rightarrow> row \<Rightarrow> row option" where
  "free_column cw a col r =
     do { x \<leftarrow> vec_get (rw_cells r) col;
          r1 \<leftarrow> (if is_wide_continuation x
                  then do { j \<leftarrow> checked_sub col 1; row_update j (\<lambda>y. Some (cell_clear a y)) r } else Some r);
          x1 \<leftarrow> vec_get (rw_cells r1) col;
          (if is_wide x1
           then do { j \<leftarrow> checked_add u16_max col 1; row_update_if j (cell_set cw 0x20 a) r1 } else Some r1) }"

lemma put_char_alt: "put_char cw c a col r = free_column cw a col r \<bind> row_update col (cell_set cw c a)"
  by (simp add: put_char_def free_column_def)

lemma free_column_returns:
  assumes "row_ok A n r" and "col < n" and "n < u16_max" and "A a"
  shows "returns (free_column cw a col r) (loose_row A n col)"
proof -
  have cs: "length (rw_cells r) = n" "paired (rw_cells r)" "\<forall>c\<in>set (rw_cells r). cell_ok c \<and> A (ce_attrs c)"
    using assms(1) by (simp_all add: row_ok_def)
  define xs x ys where "xs = take col (rw_cells r)" and "x = rw_cells r ! col" and "ys = drop (Suc col) (rw_cells r)"
  have l: "rw_cells r = xs @ x # ys" "length xs = col"
    using list_at [of col "rw_cells r"] cs(1) assms(2) by (simp_all add: xs_def x_def ys_def)
  have p: "paired (xs @ x # ys)" using cs(2) l by simp
  have v: "vec_get (rw_cells r) col = Some x" using l by (simp add: vec_get_def nth_append)
  consider "is_wide x" | "is_wide_continuation x" | "narrow x" by blast
  then show ?thesis
  proof cases
    case 1
    obtain d ds where d: "ys = d # ds" "\<not> is_wide_continuation x" "paired xs" "paired ds" by (rule paired_at_wide [OF p 1])
    have "cell_ok d" "is_scalar 32" using cs(3) l d by (auto simp: is_scalar_def)
    then obtain y where y: "cell_set cw 32 a d = Some y" "cell_ok y" "ce_attrs y = a" "is_wide y = wide_char cw 32" "\<not> is_wide_continuation y"
      by (rule cell_set_ex)
    have "row_update (col + 1) (cell_set cw 32 a) r = Some (r\<lparr>rw_cells := (xs @ [x]) @ y # ds\<rparr>)"
      by (rule row_update_at) (use l d y in auto)
    then have "free_column cw a col r = Some (r\<lparr>rw_cells := xs @ x # y # ds\<rparr>)"
      using v 1 d assms(2,3) cs(1) l by (simp add: free_column_def checked_add_def row_update_if_def)
    moreover have "paired (y # ds)" using y d ascii_narrow [of 32 cw] by (simp add: paired_narrow_Cons)
    moreover have "\<forall>z\<in>set (xs @ x # y # ds). cell_ok z \<and> A (ce_attrs z)" "n = Suc (col + length (y # ds))" using l d cs y assms(4) by auto
    ultimately show ?thesis using d(3) l(2) by (simp add: loose_rowI del: set_append)
  next
    case 2
    obtain zs w where z: "xs = zs @ [w]" "is_wide w" "\<not> is_wide x" "paired zs" "paired ys" by (rule paired_at_continuation [OF p 2])
    have "row_update (col - 1) (\<lambda>y. Some (cell_clear a y)) r = Some (r\<lparr>rw_cells := zs @ cell_clear a w # x # ys\<rparr>)"
      by (rule row_update_at) (use l z in auto)
    moreover have "vec_get (zs @ cell_clear a w # x # ys) col = Some x" using l z by (auto simp: vec_get_def nth_append)
    ultimately have "free_column cw a col r = Some (r\<lparr>rw_cells := (zs @ [cell_clear a w]) @ x # ys\<rparr>)"
      using v 2 z l by (auto simp: free_column_def checked_sub_def)
    moreover have "paired (zs @ [cell_clear a w])" using z by (simp add: paired_append)
    moreover have "\<forall>y\<in>set ((zs @ [cell_clear a w]) @ x # ys). cell_ok y \<and> A (ce_attrs y)" "n = Suc (col + length ys)" "length (zs @ [cell_clear a w]) = col"
      using l z cs assms(4) by (auto simp: cell_clear_ok)
    ultimately show ?thesis using z(5) by (simp only: returns_Some loose_rowI)
  next
    case 3
    then have "free_column cw a col r = Some r" using v by (simp add: free_column_def)
    moreover have "n = Suc (col + length ys)" using l cs by auto
    then have "loose_row A n col (r\<lparr>rw_cells := xs @ x # ys\<rparr>)" using l cs paired_at_narrow [OF p 3] by (intro loose_rowI) auto
    moreover have "r\<lparr>rw_cells := xs @ x # ys\<rparr> = r" using l by simp
    ultimately show ?thesis by simp
  qed
qed

lemma put_char_returns:
  assumes "row_ok A n r" and "col < n" and "n < u16_max" and "A a" and "is_scalar c"
  shows "returns (put_char cw c a col r) (\<lambda>r'. loose_row A n col r' \<and> is_wide (rw_cells r' ! col) = wide_char cw c
     \<and> \<not> is_wide_continuation (rw_cells r' ! col))"
  unfolding put_char_alt
proof (rule returns_bind [OF free_column_returns [OF assms(1-4)]])
  fix r1
  assume "loose_row A n col r1"
  then obtain xs x ys where l: "rw_cells r1 = xs @ x # ys" "length xs = col" "n = Suc (col + length ys)" "paired xs" "paired ys"
    "\<forall>x\<in>set (xs @ x # ys). cell_ok x \<and> A (ce_attrs x)" by (auto simp: loose_row_at)
  have "cell_ok x" using l(6) by simp
  then obtain y where y: "cell_set cw c a x = Some y" "cell_ok y" "ce_attrs y = a" "is_wide y = wide_char cw c" "\<not> is_wide_continuation y"
    using assms(5) by (rule cell_set_ex)
  have "row_update col (cell_set cw c a) r1 = Some (r1\<lparr>rw_cells := xs @ y # ys\<rparr>)" by (rule row_update_at) (use l y in auto)
  then show "returns (row_update col (cell_set cw c a) r1) (\<lambda>r'. loose_row A n col r' \<and> is_wide (rw_cells r' ! col) = wide_char cw c
     \<and> \<not> is_wide_continuation (rw_cells r' ! col))"
    using l y assms(4) by (auto simp: loose_row_at nth_append)
qed

lemma put_second_returns:
  assumes "loose_row A n col r" and "is_wide (rw_cells r ! col)" and "\<not> is_wide_continuation (rw_cells r ! col)"
    and "col + 1 < n" and "n < u16_max" and "A a"
  shows "returns (put_second a (col + 1) r) (row_ok A n)"
proof -
  obtain xs w zs where l: "rw_cells r = xs @ w # zs" "length xs = col" "n = Suc (col + length zs)" "paired xs" "paired zs"
    "\<forall>x\<in>set (xs @ w # zs). cell_ok x \<and> A (ce_attrs x)" using assms(1) by (auto simp: loose_row_at)
  have w: "is_wide w" "\<not> is_wide_continuation w" using assms(2,3) l by (simp_all add: nth_append)
  obtain x ys where zs: "zs = x # ys" using l assms(4) by (cases zs) auto
  let ?x = "set_wide_continuation True (cell_clear a x)"
  have v: "vec_get (rw_cells r) (col + 1) = Some x" using l zs by (simp add: vec_get_def nth_append)
  have good: "paired ys' \<Longrightarrow> length ys' = length ys \<Longrightarrow> \<forall>y\<in>set ys'. cell_ok y \<and> A (ce_attrs y)
      \<Longrightarrow> row_ok A n (r\<lparr>rw_cells := xs @ w # ?x # ys'\<rparr>)" for ys'
    using l zs w assms(6) by (auto simp: row_ok_def paired_wide_Cons cell_clear_ok set_continuation_ok intro!: paired_append)
  have up: "row_update (col + 1) (\<lambda>y. Some (set_wide_continuation True (cell_clear a y))) (r\<lparr>rw_cells := xs @ w # x # ys'\<rparr>)
      = Some (r\<lparr>rw_cells := xs @ w # ?x # ys'\<rparr>)" for ys'
    using row_update_at [of "r\<lparr>rw_cells := xs @ w # x # ys'\<rparr>" "xs @ [w]" x ys' "col + 1"] l(2) by simp
  show ?thesis
  proof (cases "is_wide x")
    case True
    have "paired ([] @ x # ys)" using l zs by simp
    then obtain d ds where d: "ys = d # ds" "paired ds" using True by (rule paired_at_wide)
    have "row_update (col + 1 + 1) (\<lambda>y. Some (cell_clear a y)) r = Some (r\<lparr>rw_cells := (xs @ [w, x]) @ cell_clear a d # ds\<rparr>)"
      by (rule row_update_at) (use l zs d in auto)
    then have "put_second a (col + 1) r = Some (r\<lparr>rw_cells := xs @ w # ?x # cell_clear a d # ds\<rparr>)"
      using v True up [of "cell_clear a d # ds"] l zs d assms(5) by (simp add: put_second_def checked_add_def row_update_if_def)
    then show ?thesis using good [of "cell_clear a d # ds"] d l zs assms(6) by (auto simp: paired_narrow_Cons cell_clear_ok)
  next
    case False
    have nc: "\<not> is_wide_continuation x" using l zs paired_hd by blast
    have "rw_cells r = xs @ w # x # ys" using l zs by simp
    then have "put_second a (col + 1) r = Some (r\<lparr>rw_cells := xs @ w # ?x # ys\<rparr>)"
      using v False up [of ys] by (simp add: put_second_def) (metis row.surjective row.update_convs(1))
    moreover have "paired ys" using l zs False nc by (simp add: paired_narrow_Cons)
    ultimately show ?thesis using good [of ys] l zs by auto
  qed
qed

lemma attach_returns:
  assumes r: "row_ok A n r" and "0 < col" and "col \<le> n" and "is_scalar c"
  shows "returns (attach c col r) (row_ok A n)"
proof -
  have cs: "length (rw_cells r) = n" "paired (rw_cells r)" "\<forall>c\<in>set (rw_cells r). cell_ok c \<and> A (ce_attrs c)"
    using r by (simp_all add: row_ok_def)
  let ?j = "col - 1"
  have j: "?j < length (rw_cells r)" using cs(1) assms by simp
  have app: "returns (row_update k (cell_append c) r) (row_ok A n)" if "k < n" for k
  proof -
    have k: "k < length (rw_cells r)" "cell_ok (rw_cells r ! k)" "A (ce_attrs (rw_cells r ! k))" using that cs by auto
    from cell_append_returns [OF k(2) assms(4)] obtain y where y: "cell_append c (rw_cells r ! k) = Some y" "cell_ok y"
      "ce_attrs y = ce_attrs (rw_cells r ! k)" "same_flags (rw_cells r ! k) y" by (auto simp: returns_def)
    have "list_all2 same_flags (rw_cells r) ((rw_cells r)[k := y])"
      using y(4) k(1) by (simp add: list_all2_conv_all_nth nth_list_update)
    with cs(2) have "paired ((rw_cells r)[k := y])" by (rule paired_flags)
    then show ?thesis using k y cs set_update_subset_insert [of "rw_cells r" k y]
      by (auto simp: row_update_def vec_get_def row_ok_def)
  qed
  show ?thesis
  proof (cases "is_wide_continuation (rw_cells r ! ?j)")
    case True
    have "paired (take ?j (rw_cells r) @ rw_cells r ! ?j # drop (Suc ?j) (rw_cells r))" using cs(2) list_at [OF j] by simp
    then obtain zs w where "take ?j (rw_cells r) = zs @ [w]" using True by (rule paired_at_continuation)
    then have "2 \<le> col" using j by (metis One_nat_def Suc_1 Suc_leI diff_is_0_eq' less_one linorder_not_less nat_neq_iff snoc_eq_iff_butlast take0 zero_less_diff)
    then show ?thesis using app [of "col - 2"] True assms(2,3) j by (simp add: attach_def checked_sub_def vec_get_def)
  next
    case False
    then show ?thesis using app [of ?j] assms(2,3) j by (simp add: attach_def checked_sub_def vec_get_def)
  qed
qed

lemma combine_returns:
  assumes "grid_ok A sz lim g" and "is_scalar c"
  shows "returns (combine c (g_pos g) g) (grid_ok A sz lim)"
proof -
  note z = grid_sizes [OF assms(1)]
  have "returns (on_row (cur_row g) (attach c (cur_col g)) g) (grid_ok A sz lim)" if "0 < cur_col g"
    by (rule on_row_keeps [OF assms(1) z(1)], rule attach_returns) (use that z assms(2) in auto)
  moreover have "returns (on_row (cur_row g - 1) (attach c (ncols g)) g) (grid_ok A sz lim)"
    by (rule on_row_keeps [OF assms(1)], use z in simp, rule attach_returns) (use z assms(2) in auto)
  ultimately show ?thesis using assms(1) by (simp add: combine_def)
qed

lemma col_inc_ok: "grid_ok A sz lim g \<Longrightarrow> cur_col g + n \<le> sz_cols sz \<Longrightarrow> grid_ok A sz lim (col_inc n g)"
  by (simp add: grid_ok_def col_inc_def saturating_add_def frame_set_col)

lemma place_returns:
  assumes "grid_ok A sz lim g" and "A a" and "is_scalar c" and "w = (if wide_char cw c then 2 else 1)" and "cur_col g + w \<le> sz_cols sz"
  shows "returns (place cw c a w (g_pos g) g) (grid_ok A sz lim)"
proof -
  note z = grid_sizes [OF assms(1)]
  let ?i = "cur_row g" and ?col = "cur_col g" and ?n = "sz_cols sz"
  have r: "row_ok A ?n (g_rows g ! ?i)" using assms(1) z by (simp add: grid_ok_def rows_ok_def)
  obtain r1 where r1: "put_char cw c a ?col (g_rows g ! ?i) = Some r1" "loose_row A ?n ?col r1"
    "is_wide (rw_cells r1 ! ?col) = wide_char cw c" "\<not> is_wide_continuation (rw_cells r1 ! ?col)"
    using put_char_returns [OF r _ z(11) assms(2,3), of ?col cw] assms(4,5) by (auto simp: returns_def split: if_splits)
  have g1: "on_row ?i (put_char cw c a ?col) g = Some (g\<lparr>g_rows := (g_rows g)[?i := r1]\<rparr>)" using z r1(1) by (simp add: on_row_def vec_get_def)
  have sat: "saturating_add u16_max ?col 1 = ?col + 1" using z assms(4,5) by (auto simp: saturating_add_def split: if_splits)
  show ?thesis
  proof (cases "wide_char cw c")
    case False
    have "row_ok A ?n r1" using r1 False by (intro loose_row_narrow) auto
    then have "grid_ok A sz lim (g\<lparr>g_rows := (g_rows g)[?i := r1]\<rparr>)" using assms(1) by (simp add: grid_ok_def rows_ok_update)
    then have "grid_ok A sz lim (col_inc 1 (g\<lparr>g_rows := (g_rows g)[?i := r1]\<rparr>))" using assms(4,5) False by (intro col_inc_ok) auto
    then show ?thesis using g1 False assms(4) by (simp add: place_def)
  next
    case True
    then have w: "w = 2" "?col + 1 < ?n" using assms(4,5) by auto
    obtain r2 where r2: "put_second a (?col + 1) r1 = Some r2" "row_ok A ?n r2"
      using put_second_returns [OF r1(2) _ r1(4) w(2) z(11) assms(2)] r1(3) True by (auto simp: returns_def)
    let ?g2 = "set_col (?col + 1) (g\<lparr>g_rows := (g_rows g)[?i := r1]\<rparr>)"
    have "on_row ?i (put_second a (?col + 1)) ?g2 = Some (set_col (?col + 1) (g\<lparr>g_rows := (g_rows g)[?i := r2]\<rparr>))"
      using z r2(1) by (simp add: on_row_def vec_get_def set_col_def)
    moreover have "grid_ok A sz lim (col_inc 1 (set_col (?col + 1) (g\<lparr>g_rows := (g_rows g)[?i := r2]\<rparr>)))"
      using assms(1) r2(2) w by (intro col_inc_ok) (auto simp: grid_ok_def rows_ok_update frame_set_col)
    ultimately show ?thesis using g1 w(1) sat by (simp add: place_def col_inc_def)
  qed
qed

lemma insert_cells_pos:
  "insert_cells n g = Some h \<Longrightarrow> g_pos h = g_pos g"
  by (auto simp: insert_cells_def on_row_def bind_Some_conv split: if_splits)

lemma insert_cells_post:
  "grid_ok A sz lim g \<Longrightarrow> returns (insert_cells n g) (\<lambda>h. grid_ok A sz lim h \<and> g_pos h = g_pos g)"
  using insert_cells_returns [of A sz lim g n] insert_cells_pos [of n g] by (auto simp: returns_def)

lemma in_grid_twice [simp]: "in_grid (\<lambda>_. h) (in_grid f s) = in_grid (\<lambda>_. h) s"
  by (simp add: in_grid_def mode_def)

lemma active_sizes:
  assumes "screen_ok sz n s"
  shows "g_size (active_grid s) = sz" "cur_col (active_grid s) \<le> sz_cols sz" "cur_row (active_grid s) < sz_rows sz" "size_ok sz"
    "linked (length (sc_hyperlinks s)) (sc_attrs s)"
  using active_ok [OF assms] grid_sizes assms by (metis, metis, metis, metis, simp add: screen_ok_def pen_ok_def)

lemma in_grid_self [simp]: "in_grid (\<lambda>_. active_grid s) s = s"
  by (simp add: in_grid_def active_grid_def)

text \<open>A step of drawing: what it keeps of the screen, and a fact about the grid it leaves.\<close>

definition drawn :: "vt_size \<Rightarrow> nat \<Rightarrow> screen \<Rightarrow> (grid \<Rightarrow> bool) \<Rightarrow> screen \<Rightarrow> bool" where
  "drawn sz n s Q s' \<longleftrightarrow> screen_ok sz n s' \<and> (\<exists>g. s' = in_grid (\<lambda>_. g) s \<and> Q g)"

lemma drawn_self: "screen_ok sz n s \<Longrightarrow> Q (active_grid s) \<Longrightarrow> drawn sz n s Q s"
  unfolding drawn_def by (intro conjI exI [of _ "active_grid s"]) simp_all

lemma drawn_step:
  assumes "drawn sz n s P s1"
    and "\<And>lim. grid_ok (linked (length (sc_hyperlinks s))) sz lim (active_grid s1) \<Longrightarrow> P (active_grid s1)
      \<Longrightarrow> returns (f (active_grid s1)) (\<lambda>g. grid_ok (linked (length (sc_hyperlinks s))) sz lim g \<and> Q g)"
  shows "returns (on_grid f s1) (drawn sz n s Q)"
proof -
  obtain g where g: "screen_ok sz n s1" "s1 = in_grid (\<lambda>_. g) s" "P g" using assms(1) by (auto simp: drawn_def)
  have h: "sc_hyperlinks s1 = sc_hyperlinks s" "active_grid s1 = g" using g(2) by simp_all
  have "returns (on_grid f s1) (\<lambda>s'. screen_ok sz n s' \<and> (\<exists>g. s' = in_grid (\<lambda>_. g) s1 \<and> Q g))"
    using assms(2) g(3) h by (intro on_grid_post [OF g(1)]) simp
  then show ?thesis by (rule returns_mono) (use g(2) in \<open>auto simp: drawn_def\<close>)
qed

lemma returns_if: "(b \<Longrightarrow> returns x P) \<Longrightarrow> (\<not> b \<Longrightarrow> returns y P) \<Longrightarrow> returns (if b then x else y) P"
  by simp

text \<open>The width of a character to be drawn: zero, or the number of cells \<open>set\<close> makes it take.\<close>

definition width_of :: "width_fun \<Rightarrow> nat \<Rightarrow> nat \<Rightarrow> bool" where
  "width_of cw c w \<longleftrightarrow> w = 0 \<or> w = (if wide_char cw c then 2 else 1)"

lemma draw_wrapped_returns:
  assumes ok: "screen_ok sz n s" and c: "is_scalar c" and w: "width_of cw c w" "w \<le> sz_cols sz"
    and fits: "mode MODE_NO_AUTOWRAP s \<Longrightarrow> cur_col (active_grid s) + w \<le> sz_cols sz"
  shows "returns (draw_wrapped cw c w pos0 s) (screen_ok sz n)"
proof -
  let ?a = "sc_attrs s" and ?k = "length (sc_hyperlinks s)" and ?Q = "\<lambda>g. cur_col g + w \<le> sz_cols sz"
  note z = active_sizes [OF ok]
  have cols: "0 < sz_cols sz" using z(4) by (simp add: size_ok_def)
  have lk: "linked ?k (?a\<lparr>at_hyperlink := 0\<rparr>)" by (simp add: linked_def)
  let ?s1 = "if \<not> mode MODE_NO_AUTOWRAP s \<and> 1 < w \<and> p_col pos0 = ncols (active_grid s) - 1 \<and> p_row pos0 < length (g_rows (active_grid s))
     then on_grid (on_row (p_row pos0) (row_erase (ncols (active_grid s) - 1) (?a\<lparr>at_hyperlink := 0\<rparr>))) s else Some s"
  have 1: "returns ?s1 (drawn sz n s (\<lambda>g. g_pos g = g_pos (active_grid s)))"
  proof -
    have d: "drawn sz n s (\<lambda>g. g_pos g = g_pos (active_grid s)) s" using ok by (rule drawn_self) simp
    have "returns (on_grid (on_row (p_row pos0) (row_erase (sz_cols sz - 1) (?a\<lparr>at_hyperlink := 0\<rparr>))) s) (drawn sz n s (\<lambda>g. g_pos g = g_pos (active_grid s)))"
      if "p_row pos0 < length (g_rows (active_grid s))"
    proof (rule drawn_step [OF d])
      fix lim
      assume g: "grid_ok (linked ?k) sz lim (active_grid s)"
      show "returns (on_row (p_row pos0) (row_erase (sz_cols sz - 1) (?a\<lparr>at_hyperlink := 0\<rparr>)) (active_grid s))
        (\<lambda>g. grid_ok (linked ?k) sz lim g \<and> g_pos g = g_pos (active_grid s))"
        by (rule returns_mono [OF on_row_returns [OF g]], use that grid_sizes(7) [OF g] in simp, rule row_erase_returns)
          (use lk cols in auto)
    qed
    then show ?thesis using d z(1) by simp
  qed
  have 2: "returns (if \<not> mode MODE_NO_AUTOWRAP s then on_grid (col_wrap w) s1 else Some s1) (drawn sz n s ?Q)"
    if "drawn sz n s (\<lambda>g. g_pos g = g_pos (active_grid s)) s1" for s1
  proof (cases "mode MODE_NO_AUTOWRAP s")
    case True
    then show ?thesis using that fits by (auto simp: drawn_def)
  next
    case False
    have "returns (on_grid (col_wrap w) s1) (drawn sz n s ?Q)"
      by (rule drawn_step [OF that], rule returns_mono [OF linked.col_wrap_returns]) (use w in auto)
    then show ?thesis using False by simp
  qed
  have 3: "returns (if mode MODE_INSERT s2 \<and> 0 < w then on_grid (insert_cells w) s2 else Some s2)
      (drawn sz n s (\<lambda>g. g_pos g = g_pos (active_grid s2) \<and> ?Q g))" if "drawn sz n s ?Q s2" for s2
  proof -
    have d: "drawn sz n s (\<lambda>g. g_pos g = g_pos (active_grid s2) \<and> ?Q g) s2" using that by (auto simp: drawn_def)
    have "returns (on_grid (insert_cells w) s2) (drawn sz n s (\<lambda>g. g_pos g = g_pos (active_grid s2) \<and> ?Q g))"
      by (rule drawn_step [OF d], rule returns_mono [OF insert_cells_post]) auto
    then show ?thesis using d by simp
  qed
  have 4: "returns (if w = 0 then on_grid (combine c pos) s3 else on_grid (place cw c ?a w pos) s3) (screen_ok sz n)"
    if d: "drawn sz n s (\<lambda>g. g_pos g = pos \<and> ?Q g) s3" for s3 pos
  proof -
    have "returns (on_grid (combine c pos) s3) (drawn sz n s (\<lambda>_. True))"
      by (rule drawn_step [OF d]) (use combine_returns [OF _ c] in auto)
    moreover have "returns (on_grid (place cw c ?a w pos) s3) (drawn sz n s (\<lambda>_. True))" if "w \<noteq> 0"
    proof (rule drawn_step [OF d])
      fix lim
      assume g: "grid_ok (linked ?k) sz lim (active_grid s3)" and q: "g_pos (active_grid s3) = pos \<and> ?Q (active_grid s3)"
      have "w = (if wide_char cw c then 2 else 1)" using w(1) that by (simp add: width_of_def)
      from place_returns [OF g z(5) c this] q
      show "returns (place cw c ?a w pos (active_grid s3)) (\<lambda>g. grid_ok (linked ?k) sz lim g \<and> True)" by auto
    qed
    ultimately have "returns (if w = 0 then on_grid (combine c pos) s3 else on_grid (place cw c ?a w pos) s3) (drawn sz n s (\<lambda>_. True))" by simp
    then show ?thesis by (rule returns_mono) (simp add: drawn_def)
  qed
  show ?thesis unfolding draw_wrapped_def Let_def
    by (rule returns_bind [OF 1], rule returns_bind [OF 2], assumption, rule returns_bind [OF 3], assumption, rule 4)
qed

lemma char_width_of: "width_fun_ok cw \<Longrightarrow> char_width cw c = Some w \<Longrightarrow> width_of cw c w"
  by (auto simp: width_fun_ok_def char_width_def width_of_def wide_char_def le_Suc_eq numeral_2_eq_2 split: if_splits option.splits)

lemma char_width_none: "char_width cw c = None \<Longrightarrow> width_of cw c 1"
  by (auto simp: char_width_def width_of_def wide_char_def split: if_splits)

lemma draw_width_returns:
  assumes ok: "screen_ok sz n s" and c: "is_scalar c" and w: "width_of cw c w"
  shows "returns (draw_width cw c w s) (screen_ok sz n)"
proof -
  note z = active_sizes [OF ok]
  let ?g = "active_grid s" and ?k = "length (sc_hyperlinks s)"
  have fast: "returns (on_grid (\<lambda>g. map_option (col_inc 1) (on_row (cur_row ?g) (row_update (cur_col ?g) (cell_set cw c (sc_attrs s))) g)) s) (screen_ok sz n)"
    if pl: "w = 1" "plain_cell_at (g_pos ?g) ?g" "cur_col ?g < sz_cols sz"
  proof -
    have "returns (on_grid (\<lambda>g. map_option (col_inc 1) (on_row (cur_row ?g) (row_update (cur_col ?g) (cell_set cw c (sc_attrs s))) g)) s)
      (\<lambda>s'. screen_ok sz n s' \<and> (\<exists>g. s' = in_grid (\<lambda>_. g) s \<and> True))"
    proof (rule on_grid_post [OF ok], unfold returns_map)
      fix lim
      assume g: "grid_ok (linked ?k) sz lim ?g"
      let ?r = "g_rows ?g ! cur_row ?g"
      have r: "row_ok (linked ?k) (sz_cols sz) ?r" using g grid_sizes [OF g] by (simp add: grid_ok_def rows_ok_def)
      have i: "cur_col ?g < length (rw_cells ?r)" "cell_ok (rw_cells ?r ! cur_col ?g)" using r pl(3) by (auto simp: row_ok_def)
      have x: "narrow (rw_cells ?r ! cur_col ?g)" proof -
        have "drawing_cell (g_pos ?g) ?g = Some (rw_cells ?r ! cur_col ?g)"
          using i(1) grid_sizes(1,7) [OF g] by (simp add: drawing_cell_def nth_opt_def)
        then show ?thesis using pl(2) by (simp add: plain_cell_at_def)
      qed
      obtain y where y0: "cell_set cw c (sc_attrs s) (rw_cells ?r ! cur_col ?g) = Some y" "cell_ok y" "ce_attrs y = sc_attrs s"
        "is_wide y = wide_char cw c" "\<not> is_wide_continuation y" by (rule cell_set_ex [OF i(2) c])
      have "\<not> wide_char cw c" using w unfolding width_of_def pl(1) by (cases "wide_char cw c") simp_all
      with y0 have y: "cell_set cw c (sc_attrs s) (rw_cells ?r ! cur_col ?g) = Some y" "cell_ok y" "ce_attrs y = sc_attrs s" "narrow y" by simp_all
      have "row_ok (linked ?k) (sz_cols sz) (?r\<lparr>rw_cells := (rw_cells ?r)[cur_col ?g := y]\<rparr>)"
        using r y(2,3) z(5) set_update_subset_insert [of "rw_cells ?r" "cur_col ?g" y] paired_update [OF _ i(1) x y(4)] unfolding row_ok_def by auto
      then have "grid_ok (linked ?k) sz lim (?g\<lparr>g_rows := (g_rows ?g)[cur_row ?g := ?r\<lparr>rw_cells := (rw_cells ?r)[cur_col ?g := y]\<rparr>]\<rparr>)"
        using g by (simp add: grid_ok_def rows_ok_update)
      then show "returns (on_row (cur_row ?g) (row_update (cur_col ?g) (cell_set cw c (sc_attrs s))) ?g)
          (\<lambda>x. grid_ok (linked ?k) sz lim (col_inc 1 x) \<and> True)"
        using i y(1) pl(3) grid_sizes [OF g] by (simp add: on_row_def vec_get_def row_update_def col_inc_ok)
    qed
    then show ?thesis by (rule returns_mono) simp
  qed
  have clamp: "screen_ok sz n (in_grid (col_set m) s)" for m using ok by (rule in_grid_ok) (rule grid_moves)
  show ?thesis
  proof (cases "sz_cols sz < w")
    case True
    then show ?thesis using ok z by (simp add: draw_width_def)
  next
    case False
    have "returns (draw_wrapped cw c w (g_pos ?g) s) (screen_ok sz n)" if "\<not> (mode MODE_NO_AUTOWRAP s \<and> sz_cols sz - w < cur_col ?g)"
      using that False by (intro draw_wrapped_returns [OF ok c w]) auto
    moreover have "returns (draw_wrapped cw c w (g_pos ?g) (in_grid (col_set (sz_cols sz - 1)) s)) (screen_ok sz n)" if "\<not> 1 < w"
      using that False z(4) by (intro draw_wrapped_returns [OF clamp c w]) (auto simp: col_set_def z size_ok_def)
    ultimately show ?thesis unfolding draw_width_def Let_def z(1) using False clamp by (intro returns_if fast) auto
  qed
qed

lemma draw_returns:
  assumes "screen_ok sz n s" and "is_scalar c" and "width_fun_ok cw"
  shows "returns (draw cw c s) (screen_ok sz n)"
  using assms draw_width_returns [OF assms(1,2)] char_width_of [OF assms(3)] char_width_none
  by (auto simp: draw_def draw_inner_def split: option.splits)

section \<open>Modes\<close>

lemma mode_alternate: "mode MODE_ALTERNATE_SCREEN s = bit (sc_modes s) 3"
  unfolding mode_def MODE_ALTERNATE_SCREEN_def by (rule and_bit) simp

lemma alternate_set: "j < 16 \<Longrightarrow> mode MODE_ALTERNATE_SCREEN (set_mode (push_bit j 1) s) = (j = 3 \<or> mode MODE_ALTERNATE_SCREEN s)"
  by (auto simp: mode_alternate set_mode_def bit_simps simp del: push_bit_of_1)

lemma alternate_clear: "j < 16 \<Longrightarrow> mode MODE_ALTERNATE_SCREEN (clear_mode (push_bit j 1) s) = (j \<noteq> 3 \<and> mode MODE_ALTERNATE_SCREEN s)"
  by (auto simp: mode_alternate clear_mode_def bit_simps simp del: push_bit_of_1)

lemmas mode_defs = MODE_APPLICATION_KEYPAD_def MODE_APPLICATION_CURSOR_def MODE_HIDE_CURSOR_def MODE_BRACKETED_PASTE_def
  MODE_INSERT_def MODE_NEWLINE_def MODE_NO_AUTOWRAP_def MODE_FOCUS_EVENTS_def MODE_REVERSE_VIDEO_def

definition other_mode :: "16 word \<Rightarrow> bool" where
  "other_mode b \<longleftrightarrow> (\<exists>j<16. j \<noteq> 3 \<and> b = push_bit j 1)"

lemma other_modes [simp]:
  "other_mode MODE_APPLICATION_KEYPAD" "other_mode MODE_APPLICATION_CURSOR" "other_mode MODE_HIDE_CURSOR" "other_mode MODE_BRACKETED_PASTE"
  "other_mode MODE_INSERT" "other_mode MODE_NEWLINE" "other_mode MODE_NO_AUTOWRAP" "other_mode MODE_FOCUS_EVENTS" "other_mode MODE_REVERSE_VIDEO"
  by (auto simp: other_mode_def mode_defs simp del: push_bit_of_1 intro: exI [of _ 0] exI [of _ 1] exI [of _ 2] exI [of _ 4] exI [of _ 5]
      exI [of _ 6] exI [of _ 7] exI [of _ 8] exI [of _ 9])

lemma screen_ok_modes:
  "screen_ok sz n s \<Longrightarrow> other_mode b \<Longrightarrow> screen_ok sz n (set_mode b s)"
  "screen_ok sz n s \<Longrightarrow> other_mode b \<Longrightarrow> screen_ok sz n (clear_mode b s)"
proof -
  assume s: "screen_ok sz n s" and "other_mode b"
  then obtain j where j: "j < 16" "j \<noteq> 3" "b = push_bit j 1" by (auto simp: other_mode_def)
  have "mode MODE_ALTERNATE_SCREEN (set_mode b s) = mode MODE_ALTERNATE_SCREEN s"
    "mode MODE_ALTERNATE_SCREEN (clear_mode b s) = mode MODE_ALTERNATE_SCREEN s"
    using alternate_set [of j s] alternate_clear [of j s] j by auto
  then show "screen_ok sz n (set_mode b s)" "screen_ok sz n (clear_mode b s)"
    using s unfolding screen_ok_def by (simp_all add: pen_ok_def set_mode_def clear_mode_def)
qed

text \<open>Fields that the invariant does not mention.\<close>

lemma screen_ok_fields [simp]:
  "screen_ok sz n (s\<lparr>sc_last_cluster_live := b\<rparr>) = screen_ok sz n s" "screen_ok sz n (s\<lparr>sc_compact_skip := k\<rparr>) = screen_ok sz n s"
  "screen_ok sz n (s\<lparr>sc_compact_delay := k\<rparr>) = screen_ok sz n s" "screen_ok sz n (s\<lparr>sc_cursor_style := u\<rparr>) = screen_ok sz n s"
  "screen_ok sz n (s\<lparr>sc_mouse_mode := m\<rparr>) = screen_ok sz n s" "screen_ok sz n (s\<lparr>sc_mouse_encoding := e\<rparr>) = screen_ok sz n s"
  by (simp_all add: screen_ok_def pen_ok_def mode_def)

lemma screen_ok_mouse:
  "screen_ok sz n s \<Longrightarrow> screen_ok sz n (set_mouse_mode m s)" "screen_ok sz n s \<Longrightarrow> screen_ok sz n (clear_mouse_mode m s)"
  "screen_ok sz n s \<Longrightarrow> screen_ok sz n (set_mouse_encoding e s)" "screen_ok sz n s \<Longrightarrow> screen_ok sz n (clear_mouse_encoding e s)"
  by (simp_all add: set_mouse_mode_def clear_mouse_mode_def set_mouse_encoding_def clear_mouse_encoding_def)

lemma screen_ok_pen:
  "screen_ok sz n s \<Longrightarrow> linked (length (sc_hyperlinks s)) a \<Longrightarrow> screen_ok sz n (s\<lparr>sc_attrs := a\<rparr>)"
  "screen_ok sz n s \<Longrightarrow> linked (length (sc_hyperlinks s)) a \<Longrightarrow> screen_ok sz n (s\<lparr>sc_saved_attrs := a\<rparr>)"
  "screen_ok sz n s \<Longrightarrow> charsets_ok ch \<Longrightarrow> screen_ok sz n (s\<lparr>sc_charsets := ch\<rparr>)"
  "screen_ok sz n s \<Longrightarrow> charsets_ok ch \<Longrightarrow> screen_ok sz n (s\<lparr>sc_saved_charsets := ch\<rparr>)"
  "screen_ok sz n s \<Longrightarrow> title_ok t \<Longrightarrow> screen_ok sz n (s\<lparr>sc_title := t\<rparr>)"
  "screen_ok sz n s \<Longrightarrow> is_scalar c \<Longrightarrow> screen_ok sz n (s\<lparr>sc_last_base := c\<rparr>)"
  "screen_ok sz n s \<Longrightarrow> list_all is_scalar cs \<Longrightarrow> screen_ok sz n (s\<lparr>sc_last_marks := cs\<rparr>)"
  by (simp_all add: screen_ok_def pen_ok_def mode_def)

lemma pen_facts:
  assumes "screen_ok sz n s"
  shows "linked (length (sc_hyperlinks s)) (sc_attrs s)" "linked (length (sc_hyperlinks s)) (sc_saved_attrs s)"
    "charsets_ok (sc_charsets s)" "charsets_ok (sc_saved_charsets s)" "is_scalar (sc_last_base s)" "list_all is_scalar (sc_last_marks s)"
    "length (sc_hyperlinks s) \<le> MAX_HYPERLINKS" "list_all link_ok (sc_hyperlinks s)"
  using assms by (simp_all add: screen_ok_def pen_ok_def)

lemma erase_linked: "linked k (for_erase a)" "at_hyperlink (for_erase a) = 0"
  by (simp_all add: linked_def for_erase_def default_attrs_def)

lemma sync_blank_ok: "screen_ok sz n s \<Longrightarrow> screen_ok sz n (sync_blank_attrs s)"
  using erase_linked
  by (auto simp: screen_ok_def pen_ok_def grids_ok_def alternate_ok_def sync_blank_attrs_def mode_def set_blank_attrs_def
      grid_ok_def frame_ok_def)

lemma save_restore_ok:
  assumes "screen_ok sz n s"
  shows "screen_ok sz n (save_cursor s)" "screen_ok sz n (restore_cursor s)"
proof -
  have "screen_ok sz n (in_grid grid_save_cursor s)" "screen_ok sz n (in_grid grid_restore_cursor s)"
    by (rule in_grid_ok [OF assms], rule grid_moves, assumption)+
  then show "screen_ok sz n (save_cursor s)" "screen_ok sz n (restore_cursor s)"
    using pen_facts [OF assms] unfolding save_cursor_def restore_cursor_def
    by (auto intro!: screen_ok_pen sync_blank_ok)
qed

lemma clear_alternate_ok:
  assumes "screen_ok sz n s"
  shows "screen_ok sz n (s\<lparr>sc_alternate_grid := grid_clear (sc_alternate_grid s)\<rparr>)"
proof -
  have "alternate_ok b (linked k) sz lim (grid_clear g)" if "alternate_ok b (linked k) sz lim g" for b k lim g
    using that linked.grid_clear_ok(1) [of k sz lim g] linked.grid_clear_ok(2) [of k sz lim g]
    by (auto simp: alternate_ok_def grid_ok_def) (simp add: grid_clear_def)
  then show ?thesis using assms by (auto simp: screen_ok_def pen_ok_def mode_def grids_ok_def) blast
qed

lemma enter_exit_ok:
  assumes "screen_ok sz n s"
  shows "screen_ok sz n (enter_alternate_grid s)" "screen_ok sz n (exit_alternate_grid s)"
proof -
  let ?k = "length (sc_hyperlinks s)" and ?m = "sc_compact_freed_mark s"
  obtain f1 f2 where f: "grid_ok (linked ?k) sz (n, f1) (sc_grid s)"
    "alternate_ok (mode MODE_ALTERNATE_SCREEN s) (linked ?k) sz (0, f2) (sc_alternate_grid s)" "?m \<le> f1 + f2"
    using assms by (auto simp: screen_ok_def grids_ok_def)
  have exact: "grid_ok A sz lim h" if "grid_ok A sz lim g" "grid_ok B sz lim' g'" "h = set_pos_exact (g_pos g') g" for A B lim lim' g g' h
    using that by (simp add: grid_ok_def set_pos_exact_def frame_move frame_ok_def)
  have p: "pen_ok s" using assms by (simp add: screen_ok_def)
  show "screen_ok sz n (enter_alternate_grid s)"
  proof (cases "mode MODE_ALTERNATE_SCREEN s")
    case False
    let ?g = "set_scrollback 0 (sc_grid s)"
    have g: "grid_ok (linked ?k) sz (n, f1) ?g" using f(1) by (rule linked.set_scrollback_ok)
    have "grid_ok (linked ?k) sz (0, f2) (allocate_rows (sc_alternate_grid s))"
      using f(2) by (intro linked.grid_new_ok) (auto simp: alternate_ok_def)
    from exact [OF this g refl] g f(3)
    have "grids_ok ?k True sz n ?m ?g (set_pos_exact (g_pos ?g) (allocate_rows (sc_alternate_grid s)))"
      by (auto simp: grids_ok_def alternate_shown)
    then show ?thesis using False p alternate_set [of 3 s]
      by (simp add: enter_alternate_grid_def Let_def in_grid_def screen_ok_def pen_ok_def set_mode_def mode_def)
        (simp add: MODE_ALTERNATE_SCREEN_def)
  qed (use assms in \<open>simp add: enter_alternate_grid_def\<close>)
  show "screen_ok sz n (exit_alternate_grid s)"
  proof (cases "mode MODE_ALTERNATE_SCREEN s")
    case True
    have a: "grid_ok (linked ?k) sz (0, f2) (sc_alternate_grid s)" using f(2) True by (simp add: alternate_shown)
    from exact [OF f(1) a refl] alternate_hide [OF a] f(3)
    have "grids_ok ?k False sz n ?m (set_pos_exact (g_pos (sc_alternate_grid s)) (sc_grid s)) (sc_alternate_grid s)"
      by (auto simp: grids_ok_def)
    then show ?thesis using True p alternate_clear [of 3 s]
      by (simp add: exit_alternate_grid_def screen_ok_def pen_ok_def clear_mode_def mode_def MODE_ALTERNATE_SCREEN_def)
  qed (use assms in \<open>simp add: exit_alternate_grid_def\<close>)
qed

section \<open>Hyperlinks\<close>

text \<open>A grid is good for another class of attributes when all its cells and its blank are in it.\<close>

lemma row_ok_class: "row_ok A m r \<Longrightarrow> (\<forall>c\<in>set (rw_cells r). B (ce_attrs c)) \<Longrightarrow> row_ok B m r"
  by (auto simp: row_ok_def)

lemma rows_class:
  assumes "\<forall>c\<in>set (grid_cells g). B (ce_attrs c)"
  shows "r \<in> set (g_rows g) \<Longrightarrow> row_ok A m r \<Longrightarrow> row_ok B m r" "r \<in> set (g_scrollback g) \<Longrightarrow> row_ok A m r \<Longrightarrow> row_ok B m r"
proof -
  have "c \<in> set (grid_cells g)" if "c \<in> set (rw_cells r)" "r \<in> set (g_rows g) \<union> set (g_scrollback g)" for c
    using that by (auto simp: grid_cells_def)
  then show "r \<in> set (g_rows g) \<Longrightarrow> row_ok A m r \<Longrightarrow> row_ok B m r" "r \<in> set (g_scrollback g) \<Longrightarrow> row_ok A m r \<Longrightarrow> row_ok B m r"
    using assms row_ok_class by blast+
qed

lemma grid_class:
  assumes "\<forall>c\<in>set (grid_cells g). B (ce_attrs c)" and "\<And>a. at_hyperlink a = 0 \<Longrightarrow> B a"
  shows "frame_ok A sz lim g \<Longrightarrow> frame_ok B sz lim g" "rows_ok A sz (g_rows g) \<Longrightarrow> rows_ok B sz (g_rows g)"
proof -
  show "rows_ok A sz (g_rows g) \<Longrightarrow> rows_ok B sz (g_rows g)" using rows_class(1) [OF assms(1), of _ A] by (simp add: rows_ok_def)
  have "\<forall>r\<in>set (g_scrollback g). line_ok A r \<longrightarrow> line_ok B r" using rows_class(2) [OF assms(1), of _ A] by blast
  then show "frame_ok A sz lim g \<Longrightarrow> frame_ok B sz lim g" using assms(2) by (simp add: frame_ok_def)
qed

lemma map_cells_row:
  assumes "row_ok A m r" and "\<And>c. cell_ok c \<Longrightarrow> A (ce_attrs c) \<Longrightarrow> cell_ok (f c) \<and> same_flags c (f c) \<and> B (ce_attrs (f c))"
  shows "row_ok B m (r\<lparr>rw_cells := map f (rw_cells r)\<rparr>)"
proof -
  have "list_all2 same_flags (rw_cells r) (map f (rw_cells r))" using assms by (auto simp: list_all2_conv_all_nth row_ok_def)
  then have "paired (map f (rw_cells r))" using assms(1) paired_flags [of "rw_cells r"] by (simp add: row_ok_def)
  then show ?thesis using assms by (auto simp: row_ok_def)
qed

lemma map_cells_frame:
  assumes "\<And>c. cell_ok c \<Longrightarrow> A (ce_attrs c) \<Longrightarrow> cell_ok (f c) \<and> same_flags c (f c) \<and> B (ce_attrs (f c))"
    and "\<And>a. at_hyperlink a = 0 \<Longrightarrow> B a"
  shows "frame_ok A sz lim g \<Longrightarrow> frame_ok B sz lim (map_grid_cells f g)"
    "rows_ok A sz (g_rows g) \<Longrightarrow> rows_ok B sz (g_rows (map_grid_cells f g))"
proof -
  note r = map_cells_row [where f = f and A = A and B = B, OF _ assms(1)]
  show "rows_ok A sz (g_rows g) \<Longrightarrow> rows_ok B sz (g_rows (map_grid_cells f g))"
    using r by (auto simp: rows_ok_def map_grid_cells_def Let_def)
  have "line_ok B (x\<lparr>rw_cells := map f (rw_cells x)\<rparr>)" if "line_ok A x" for x using r [OF that] by simp
  then show "frame_ok A sz lim g \<Longrightarrow> frame_ok B sz lim (map_grid_cells f g)"
    using assms(2) by (auto simp: frame_ok_def map_grid_cells_def Let_def)
qed

subsection \<open>Compaction\<close>

lemma keep_live_spec:
  assumes "length ls = length es" and "k + length es \<le> u32_max"
  shows "length (snd (keep_live es ls k)) = length es \<and> length (fst (keep_live es ls k)) \<le> length es \<and> set (fst (keep_live es ls k)) \<subseteq> set es
    \<and> (\<forall>j<length es. let i = snd (keep_live es ls k) ! j in
         if ls ! j then k < i \<and> i \<le> k + length (fst (keep_live es ls k)) \<and> fst (keep_live es ls k) ! (i - k - 1) = es ! j else i = 0)"
  using assms
proof (induction es ls k rule: keep_live.induct)
  case (1 e es l ls k)
  show ?case
  proof (cases l)
    case True
    let ?q = "keep_live es ls (k + 1)"
    have ih: "length (snd ?q) = length es" "length (fst ?q) \<le> length es" "set (fst ?q) \<subseteq> set es"
      "\<And>j. j < length es \<Longrightarrow> (let i = snd ?q ! j in
         if ls ! j then k + 1 < i \<and> i \<le> k + 1 + length (fst ?q) \<and> fst ?q ! (i - (k + 1) - 1) = es ! j else i = 0)"
      using 1(1) [OF True] 1(3,4) by auto
    have q: "keep_live (e # es) (l # ls) k = (e # fst ?q, (k + 1) # snd ?q)" using True 1(4) by (simp add: case_prod_beta Let_def)
    have "(let i = ((k + 1) # snd ?q) ! j in if (l # ls) ! j then k < i \<and> i \<le> k + length (e # fst ?q) \<and> (e # fst ?q) ! (i - k - 1) = (e # es) ! j else i = 0)"
      if "j < length (e # es)" for j
    proof (cases j)
      case 0
      then show ?thesis using True by simp
    next
      case (Suc m)
      then have m: "m < length es" using that by simp
      show ?thesis
      proof (cases "ls ! m")
        case True
        then have i: "k + 1 < snd ?q ! m" "snd ?q ! m \<le> k + 1 + length (fst ?q)" "fst ?q ! (snd ?q ! m - (k + 1) - 1) = es ! m"
          using ih(4) [OF m] by (simp_all add: Let_def)
        then have "snd ?q ! m - k - 1 = Suc (snd ?q ! m - (k + 1) - 1)" by simp
        then show ?thesis using i Suc True by (simp add: Let_def)
      next
        case False
        then show ?thesis using ih(4) [OF m] Suc by (simp add: Let_def)
      qed
    qed
    moreover have "length ((k + 1) # snd ?q) = length (e # es)" "length (e # fst ?q) \<le> length (e # es)" "set (e # fst ?q) \<subseteq> set (e # es)"
      using ih(1-3) by auto
    ultimately show ?thesis unfolding q fst_conv snd_conv by blast
  next
    case False
    let ?q = "keep_live es ls k"
    have ih: "length (snd ?q) = length es" "length (fst ?q) \<le> length es" "set (fst ?q) \<subseteq> set es"
      "\<And>j. j < length es \<Longrightarrow> (let i = snd ?q ! j in
         if ls ! j then k < i \<and> i \<le> k + length (fst ?q) \<and> fst ?q ! (i - k - 1) = es ! j else i = 0)"
      using 1(2) [OF False] 1(3,4) by auto
    have q: "keep_live (e # es) (l # ls) k = (fst ?q, 0 # snd ?q)" using False by (simp add: case_prod_beta Let_def)
    have "(let i = (0 # snd ?q) ! j in if (l # ls) ! j then k < i \<and> i \<le> k + length (fst ?q) \<and> fst ?q ! (i - k - 1) = (e # es) ! j else i = 0)"
      if "j < length (e # es)" for j
    proof (cases j)
      case (Suc m)
      then show ?thesis using that ih(4) [of m] by (cases "ls ! m") (simp_all add: Let_def)
    qed (use False in simp)
    moreover have "length (0 # snd ?q) = length (e # es)" "length (fst ?q) \<le> length (e # es)" "set (fst ?q) \<subseteq> set (e # es)"
      using ih(1-3) by auto
    ultimately show ?thesis unfolding q fst_conv snd_conv by blast
  qed
qed auto

text \<open>
  What compaction does to an index that something refers to: it still names the same link, and it stays
  inside the table.
\<close>

definition compacted :: "screen \<Rightarrow> (u32 \<Rightarrow> u32) \<Rightarrow> link list \<Rightarrow> bool" where
  "compacted s f kept \<longleftrightarrow> f 0 = 0 \<and> (\<forall>i\<in>set (marked s). i \<le> length (sc_hyperlinks s) \<longrightarrow> f i \<le> length kept
     \<and> (i \<noteq> 0 \<longrightarrow> f i \<noteq> 0 \<and> kept ! (f i - 1) = sc_hyperlinks s ! (i - 1)))"

lemma live_links_nth: "j < length (sc_hyperlinks s) \<Longrightarrow> live_links s ! j \<longleftrightarrow> Suc j \<in> set (marked s)"
  by (simp add: live_links_def nth_upt del: upt_Suc)

lemma keep_live_compacted:
  assumes "length (sc_hyperlinks s) \<le> MAX_HYPERLINKS"
    and "keep_live (sc_hyperlinks s) (live_links s) 0 = (kept, rs)"
  shows "compacted s (renumber (0 # rs)) kept" "set kept \<subseteq> set (sc_hyperlinks s)" "length kept \<le> length (sc_hyperlinks s)"
    "renumber (0 # rs) i \<le> length kept"
proof -
  let ?n = "length (sc_hyperlinks s)"
  have l: "length (live_links s) = ?n" by (simp add: live_links_def del: upt_Suc)
  have "0 + ?n \<le> u32_max" using assms(1) by (simp add: MAX_HYPERLINKS_def)
  from keep_live_spec [OF l this, unfolded assms(2)] have k: "length rs = ?n" "length kept \<le> ?n" "set kept \<subseteq> set (sc_hyperlinks s)"
    "\<And>j. j < ?n \<Longrightarrow> if live_links s ! j then 0 < rs ! j \<and> rs ! j \<le> length kept \<and> kept ! (rs ! j - 1) = sc_hyperlinks s ! j else rs ! j = 0"
    by (auto simp: Let_def)
  show "set kept \<subseteq> set (sc_hyperlinks s)" "length kept \<le> ?n" using k by auto
  show "compacted s (renumber (0 # rs)) kept" unfolding compacted_def
  proof (intro conjI ballI impI)
    fix i
    assume i: "i \<in> set (marked s)" "i \<le> ?n"
    have nz: "0 < rs ! (i - 1) \<and> rs ! (i - 1) \<le> length kept \<and> kept ! (rs ! (i - 1) - 1) = sc_hyperlinks s ! (i - 1)" if "i \<noteq> 0"
      using k(4) [of "i - 1"] live_links_nth [of "i - 1" s] i that by simp
    have e: "renumber (0 # rs) i = (if i = 0 then 0 else rs ! (i - 1))" using k(1) i by (cases i) (simp_all add: renumber_def)
    show "renumber (0 # rs) i \<le> length kept" using nz e by auto
    assume "i \<noteq> 0"
    then show "renumber (0 # rs) i \<noteq> 0" "kept ! (renumber (0 # rs) i - 1) = sc_hyperlinks s ! (i - 1)" using nz e by auto
  qed (simp add: renumber_def)
  show "renumber (0 # rs) i \<le> length kept"
    using k(1) k(4) [of "i - 1"] by (cases i) (auto simp: renumber_def split: if_splits)
qed

lemma unmarked_zero:
  assumes "list_all (\<lambda>l. \<not> l) (live_links s)" and "i \<in> set (marked s)" and "i \<le> length (sc_hyperlinks s)"
  shows "i = 0"
proof (rule ccontr)
  assume "i \<noteq> 0"
  then have "live_links s ! (i - 1)" using live_links_nth [of "i - 1" s] assms(2,3) by simp
  moreover have "i - 1 < length (live_links s)" using \<open>i \<noteq> 0\<close> assms(3) by (simp add: live_links_def del: upt_Suc)
  ultimately show False using assms(1) by (simp add: list_all_length)
qed

lemma cell_marked:
  "c \<in> set (grid_cells (sc_grid s)) \<Longrightarrow> at_hyperlink (ce_attrs c) \<in> set (marked s)"
  "c \<in> set (grid_cells (sc_alternate_grid s)) \<Longrightarrow> at_hyperlink (ce_attrs c) \<in> set (marked s)"
  by (auto simp: marked_def)

lemma cells_linked:
  assumes "frame_ok A sz lim g" and "rows_ok A sz (g_rows g) \<or> g_rows g = []" and "c \<in> set (grid_cells g)"
  shows "A (ce_attrs c)" "cell_ok c"
  using assms by (auto simp: grid_cells_def frame_ok_def rows_ok_def row_ok_def)

lemma compact_returns:
  assumes "screen_ok sz n s"
  shows "screen_ok sz n (snd (compact_hyperlinks s))" "sc_compact_freed_mark (snd (compact_hyperlinks s)) = sc_compact_freed_mark s"
    "freed_rows (snd (compact_hyperlinks s)) = freed_rows s"
proof -
  let ?k = "length (sc_hyperlinks s)" and ?b = "mode MODE_ALTERNATE_SCREEN s"
  obtain f1 f2 where f: "grid_ok (linked ?k) sz (n, f1) (sc_grid s)" "alternate_ok ?b (linked ?k) sz (0, f2) (sc_alternate_grid s)"
    "sc_compact_freed_mark s \<le> f1 + f2" using assms by (auto simp: screen_ok_def grids_ok_def)
  note p = pen_facts [OF assms]
  have g: "frame_ok (linked ?k) sz (n, f1) (sc_grid s)" "rows_ok (linked ?k) sz (g_rows (sc_grid s))"
    "frame_ok (linked ?k) sz (0, f2) (sc_alternate_grid s)" using f by (auto simp: grid_ok_def alternate_ok_def)
  have all: "at_hyperlink (ce_attrs c) \<le> ?k" if "c \<in> set (grid_cells (sc_grid s)) \<union> set (grid_cells (sc_alternate_grid s))" for c
    using that cells_linked(1) [OF g(1)] cells_linked(1) [OF g(3)] g(2) f(2) by (auto simp: linked_def alternate_ok_def)
  have pen: "at_hyperlink (sc_attrs s) \<in> set (marked s)" "at_hyperlink (sc_saved_attrs s) \<in> set (marked s)" by (simp_all add: marked_def)
  show "screen_ok sz n (snd (compact_hyperlinks s))"
  proof (cases "list_all (\<lambda>l. \<not> l) (live_links s)")
    case True
    have z: "at_hyperlink (ce_attrs c) = 0" if "c \<in> set (grid_cells (sc_grid s)) \<union> set (grid_cells (sc_alternate_grid s))" for c
      using that cell_marked all unmarked_zero [OF True] by blast
    have zp: "at_hyperlink (sc_attrs s) = 0" "at_hyperlink (sc_saved_attrs s) = 0"
      using pen p(1,2) unmarked_zero [OF True] by (auto simp: linked_def)
    have c1: "\<forall>c\<in>set (grid_cells (sc_grid s)). linked 0 (ce_attrs c)" "\<forall>c\<in>set (grid_cells (sc_alternate_grid s)). linked 0 (ce_attrs c)"
      using z by (auto simp: linked_def)
    have l0: "linked 0 a" if "at_hyperlink a = 0" for a using that by (simp add: linked_def)
    have "grids_ok 0 ?b sz n (sc_compact_freed_mark s) (sc_grid s) (sc_alternate_grid s)"
      using f(3) g f(2) grid_class [OF c1(1) l0] grid_class [OF c1(2) l0] unfolding grids_ok_def grid_ok_def alternate_ok_def by blast
    then show ?thesis using assms zp True by (simp add: compact_hyperlinks_def screen_ok_def pen_ok_def mode_def linked_def)
  next
    case False
    show ?thesis
    proof (cases "list_all (\<lambda>l. l) (live_links s)")
      case True
      then show ?thesis using False assms by (simp add: compact_hyperlinks_def)
    next
      case nall: False
      obtain kept rs where k: "keep_live (sc_hyperlinks s) (live_links s) 0 = (kept, rs)" by force
      note kp = keep_live_compacted [OF p(7) k]
      let ?f = "renumber_cell (0 # rs)" and ?m = "length kept"
      have r0: "renumber (0 # rs) 0 = 0" by (simp add: renumber_def)
      have step: "cell_ok (?f c) \<and> same_flags c (?f c) \<and> linked ?m (ce_attrs (?f c))" if "cell_ok c" for c
        using that kp(4) [of "at_hyperlink (ce_attrs c)"] r0 by (auto simp: renumber_cell_def linked_def)
      have l0: "linked ?m a" if "at_hyperlink a = 0" for a using that by (simp add: linked_def)
      have mf: "frame_ok (linked ?m) sz lim (map_grid_cells ?f g)" if "frame_ok (linked ?k) sz lim g" for lim g
        by (rule map_cells_frame(1) [OF _ _ that]) (use step l0 in auto)
      have mr: "rows_ok (linked ?m) sz (g_rows (map_grid_cells ?f g))" if "rows_ok (linked ?k) sz (g_rows g)" for g
        by (rule map_cells_frame(2) [OF _ _ that]) (use step l0 in auto)
      have "grids_ok ?m ?b sz n (sc_compact_freed_mark s) (map_grid_cells ?f (sc_grid s)) (map_grid_cells ?f (sc_alternate_grid s))"
        using f(3) mf [OF g(1)] mr [OF g(2)] mf [OF g(3)] mr [of "sc_alternate_grid s"] f(2)
        unfolding grids_ok_def grid_ok_def alternate_ok_def by (auto simp: map_grid_cells_def Let_def)
      moreover have "linked ?m (renumber_attrs (0 # rs) a)" for a using kp(4) by (simp add: linked_def renumber_attrs_def)
      moreover have "list_all link_ok kept" using p(8) kp(2) by (auto simp: list_all_iff)
      ultimately show ?thesis using assms False nall k kp(3) by (simp add: compact_hyperlinks_def Let_def screen_ok_def pen_ok_def mode_def)
    qed
  qed
  show "sc_compact_freed_mark (snd (compact_hyperlinks s)) = sc_compact_freed_mark s" "freed_rows (snd (compact_hyperlinks s)) = freed_rows s"
    by (simp_all add: compact_hyperlinks_def Let_def freed_rows_def map_grid_cells_def split: prod.splits)
qed

lemma freed_mark:
  assumes "screen_ok sz n s"
  shows "sc_compact_freed_mark s \<le> freed_rows s"
  using assms by (auto simp: screen_ok_def grids_ok_def grid_ok_def alternate_ok_def frame_ok_def freed_rows_def)

lemma mark_now_ok:
  assumes "screen_ok sz n s"
  shows "screen_ok sz n (s\<lparr>sc_compact_freed_mark := freed_rows s\<rparr>)"
proof -
  let ?k = "length (sc_hyperlinks s)"
  obtain f1 f2 where f: "grid_ok (linked ?k) sz (n, f1) (sc_grid s)"
    "alternate_ok (mode MODE_ALTERNATE_SCREEN s) (linked ?k) sz (0, f2) (sc_alternate_grid s)"
    using assms by (auto simp: screen_ok_def grids_ok_def)
  then have "grid_ok (linked ?k) sz (n, g_freed_rows (sc_grid s)) (sc_grid s)"
    "alternate_ok (mode MODE_ALTERNATE_SCREEN s) (linked ?k) sz (0, g_freed_rows (sc_alternate_grid s)) (sc_alternate_grid s)"
    by (auto simp: grid_ok_def alternate_ok_def frame_ok_def)
  then have "grids_ok ?k (mode MODE_ALTERNATE_SCREEN s) sz n (freed_rows s) (sc_grid s) (sc_alternate_grid s)"
    unfolding grids_ok_def freed_rows_def by blast
  then show ?thesis using assms by (simp add: screen_ok_def pen_ok_def mode_def)
qed

lemma try_compact_returns:
  assumes "screen_ok sz n s"
  shows "returns (try_compact s) (screen_ok sz n)"
proof -
  define s1 where "s1 = (if MIN_REARM_ROWS \<le> freed_rows s - sc_compact_freed_mark s then s\<lparr>sc_compact_skip := 0, sc_compact_delay := 0\<rparr> else s)"
  have s1: "screen_ok sz n s1" using assms by (simp add: s1_def)
  obtain b s2 where c: "compact_hyperlinks s1 = (b, s2)" by force
  then have s2: "screen_ok sz n s2" using compact_returns(1) [OF s1] by simp
  have "try_compact s = (if 0 < sc_compact_skip s1 then Some (s1\<lparr>sc_compact_skip := sc_compact_skip s1 - 1\<rparr>)
      else if b then Some (s2\<lparr>sc_compact_delay := 0\<rparr>)
      else Some (s2\<lparr>sc_compact_delay := max 1 (min MAX_COMPACT_SKIP (sc_compact_delay s2 * 2)),
                   sc_compact_skip := max 1 (min MAX_COMPACT_SKIP (sc_compact_delay s2 * 2)), sc_compact_freed_mark := freed_rows s2\<rparr>))"
    using freed_mark [OF assms] c by (cases b) (simp_all add: try_compact_def checked_sub_def Let_def s1_def [symmetric])
  moreover have "screen_ok sz n (s2\<lparr>sc_compact_delay := x, sc_compact_skip := y, sc_compact_freed_mark := freed_rows s2\<rparr>)" for x y
    using mark_now_ok [of sz n "s2\<lparr>sc_compact_delay := x, sc_compact_skip := y\<rparr>"] s2 by (simp add: freed_rows_def)
  ultimately show ?thesis using s1 s2 by simp
qed

lemma linked_mono: "linked k a \<Longrightarrow> k \<le> m \<Longrightarrow> linked m a"
  by (simp add: linked_def)

lemma grids_mono: "grids_ok k b sz n m g h \<Longrightarrow> k \<le> k' \<Longrightarrow> grids_ok k' b sz n m g h"
proof -
  assume g: "grids_ok k b sz n m g h" and k: "k \<le> k'"
  have r: "row_ok (linked k') w r" if "row_ok (linked k) w r" for w r using that k by (auto simp: row_ok_def linked_def)
  have f: "frame_ok (linked k') sz lim x" if "frame_ok (linked k) sz lim x" for lim x using that r k by (auto simp: frame_ok_def linked_def)
  have "rows_ok (linked k') sz rs" if "rows_ok (linked k) sz rs" for rs using that r by (auto simp: rows_ok_def)
  then show "grids_ok k' b sz n m g h" using g f unfolding grids_ok_def grid_ok_def alternate_ok_def by blast
qed

lemma link_position_less: "link_position x xs = Some i \<Longrightarrow> i < length xs \<and> xs ! i = x"
  by (auto simp: link_position_def find_Some_iff)

lemma begin_link_ok: "screen_ok sz n s \<Longrightarrow> i < length (sc_hyperlinks s) \<Longrightarrow> screen_ok sz n (begin_link i s)"
  by (simp add: begin_link_def screen_ok_pen linked_def)

lemma end_link_ok: "screen_ok sz n s \<Longrightarrow> screen_ok sz n (end_link s)"
  by (simp add: end_link_def screen_ok_pen linked_def)

lemma push_link_ok:
  assumes "screen_ok sz n s" and "length (sc_hyperlinks s) < MAX_HYPERLINKS" and "link_ok l"
  shows "screen_ok sz n (s\<lparr>sc_hyperlinks := sc_hyperlinks s @ [l]\<rparr>)"
  using assms grids_mono [of "length (sc_hyperlinks s)" _ sz n _ _ _ "Suc (length (sc_hyperlinks s))"]
  by (auto simp: screen_ok_def pen_ok_def mode_def linked_def)

lemma osc8_returns:
  assumes "screen_ok sz n s0"
  shows "returns (osc8 params uri s0) (screen_ok sz n)"
proof -
  define s where "s = s0\<lparr>sc_last_cluster_live := False\<rparr>"
  have s: "screen_ok sz n s" using assms by (simp add: s_def)
  let ?l = "(uri, link_id params)"
  let ?bad = "uri = [] \<or> from_utf8 uri = None \<or> from_utf8 params = None \<or> MAX_URI_BYTES < length uri
     \<or> MAX_LINK_ID_BYTES < length (link_id params) \<or> has_control uri \<or> has_control (link_id params)"
  have fin: "screen_ok sz n (if MAX_HYPERLINKS \<le> length (sc_hyperlinks s1) then end_link s1
       else case link_position ?l (sc_hyperlinks s1) of Some k \<Rightarrow> begin_link k s1
          | None \<Rightarrow> begin_link (length (sc_hyperlinks s1)) (s1\<lparr>sc_hyperlinks := sc_hyperlinks s1 @ [?l]\<rparr>))"
    if "screen_ok sz n s1" "\<not> ?bad" for s1
  proof -
    have "link_ok ?l" using that(2) by (simp add: link_ok_def)
    then show ?thesis using that(1) end_link_ok [OF that(1)] push_link_ok [OF that(1)] begin_link_ok [OF that(1)]
      by (auto split: option.splits dest!: link_position_less intro!: begin_link_ok)
  qed
  have c: "returns (if MAX_HYPERLINKS \<le> length (sc_hyperlinks s) then try_compact s else Some s) (screen_ok sz n)"
    using try_compact_returns [OF s] s by simp
  show ?thesis
  proof (cases ?bad)
    case True
    then show ?thesis using end_link_ok [OF s] unfolding osc8_def s_def [symmetric] Let_def by simp
  next
    case False
    have "returns ((if MAX_HYPERLINKS \<le> length (sc_hyperlinks s) then try_compact s else Some s) \<bind> (\<lambda>s1. Some
        (if MAX_HYPERLINKS \<le> length (sc_hyperlinks s1) then end_link s1
         else case link_position ?l (sc_hyperlinks s1) of Some k \<Rightarrow> begin_link k s1
          | None \<Rightarrow> begin_link (length (sc_hyperlinks s1)) (s1\<lparr>sc_hyperlinks := sc_hyperlinks s1 @ [?l]\<rparr>)))) (screen_ok sz n)"
      by (rule returns_bind [OF c]) (use fin False in simp)
    moreover have "screen_ok sz n (begin_link k s)" if "link_position ?l (sc_hyperlinks s) = Some k" for k
      using begin_link_ok [OF s] link_position_less [OF that] by simp
    ultimately show ?thesis unfolding osc8_def s_def [symmetric] Let_def if_not_P [OF False]
      by (cases "link_position ?l (sc_hyperlinks s)") (simp_all only: option.case returns_Some)
  qed
qed

section \<open>Text and repetition\<close>

lemma charset_map_scalar:
  assumes "is_scalar c"
  shows "is_scalar (charset_map cs c)"
proof -
  have t: "list_all is_scalar dec_special_table" "length dec_special_table = 32" by (simp_all add: dec_special_table_def is_scalar_def)
  have "is_scalar (dec_special_graphics c)"
    using t assms by (auto simp: dec_special_graphics_def list_all_length)
  then show ?thesis using assms by (cases cs) (auto simp: is_scalar_def)
qed

lemma print_returns:
  assumes s: "screen_ok sz n s" and c: "is_scalar c" and cw: "width_fun_ok cw"
  shows "returns (print cw c s) (screen_ok sz n)"
proof -
  let ?ch = "sc_charsets s"
  let ?g = "case ch_single_shift ?ch of Some k \<Rightarrow> k | None \<Rightarrow> ch_gl ?ch"
  let ?s1 = "s\<lparr>sc_charsets := ?ch\<lparr>ch_single_shift := None\<rparr>\<rparr>"
  have ch: "charsets_ok ?ch" using s by (rule pen_facts)
  have s1: "screen_ok sz n ?s1" by (rule screen_ok_pen [OF s]) (use ch in \<open>simp add: charsets_ok_def\<close>)
  have "?g < length (ch_g ?ch)" using ch by (auto simp: charsets_ok_def split: option.splits)
  then obtain cset where v: "vec_get (ch_g ?ch) ?g = Some cset" by (simp add: vec_get_def)
  let ?c = "charset_map cset c"
  have sc: "is_scalar ?c" using c by (rule charset_map_scalar)
  have "returns (draw cw ?c ?s1 \<bind> (\<lambda>s2. Some (case char_width cw ?c of None \<Rightarrow> s2 | Some w \<Rightarrow>
      if w = 0 then if sc_last_cluster_live s2 then s2\<lparr>sc_last_marks := sc_last_marks s2 @ [?c]\<rparr> else s2
      else s2\<lparr>sc_last_base := ?c, sc_last_marks := [], sc_last_cluster_live := True\<rparr>))) (screen_ok sz n)"
  proof (rule returns_bind [OF draw_returns [OF s1 sc cw]])
    fix s2
    assume s2: "screen_ok sz n s2"
    then have "screen_ok sz n (s2\<lparr>sc_last_marks := sc_last_marks s2 @ [?c]\<rparr>)"
      "screen_ok sz n (s2\<lparr>sc_last_base := ?c, sc_last_marks := [], sc_last_cluster_live := True\<rparr>)"
      using sc pen_facts(6) [OF s2] by (simp_all add: screen_ok_pen)
    then show "returns (Some (case char_width cw ?c of None \<Rightarrow> s2 | Some w \<Rightarrow>
      if w = 0 then if sc_last_cluster_live s2 then s2\<lparr>sc_last_marks := sc_last_marks s2 @ [?c]\<rparr> else s2
      else s2\<lparr>sc_last_base := ?c, sc_last_marks := [], sc_last_cluster_live := True\<rparr>)) (screen_ok sz n)"
      using s2 by (simp split: option.splits)
  qed
  then have "returns (draw_text cw c s) (screen_ok sz n)" unfolding draw_text_def Let_def v bind.bind_lunit .
  then show ?thesis using s by (simp add: print_def)
qed

lemma rep_returns:
  assumes s: "screen_ok sz n s" and cw: "width_fun_ok cw"
  shows "returns (rep cw m s) (screen_ok sz n)"
proof -
  note p = pen_facts(5,6) [OF s]
  have step: "returns (draw cw (sc_last_base s) t \<bind> for_each (sc_last_marks s) (draw cw)) (screen_ok sz n)" if "screen_ok sz n t" for t
    by (rule returns_bind [OF draw_returns [OF that p(1) cw]], rule returns_for_each) (use p cw in \<open>auto simp: list_all_iff intro: draw_returns\<close>)
  have "returns (loop k (\<lambda>t. draw cw (sc_last_base s) t \<bind> for_each (sc_last_marks s) (draw cw)) (s\<lparr>sc_last_marks := []\<rparr>)
      \<bind> (\<lambda>s1. Some (s1\<lparr>sc_last_marks := sc_last_marks s, sc_last_cluster_live := False\<rparr>))) (screen_ok sz n)" for k
    by (rule returns_bind [OF returns_loop [where P = "screen_ok sz n"]], erule step) (use s p in \<open>auto intro: screen_ok_pen\<close>)
  then show ?thesis using s by (simp add: rep_def Let_def)
qed

section \<open>Every operation\<close>

lemma sgr_linked: "at_hyperlink (sgr_loop ps a) = at_hyperlink a"
proof -
  have s: "at_hyperlink (sgr_single k a) = at_hyperlink a" for k a
    by (simp add: sgr_single_def sgr_reset_def set_attr_flag_def set_underline_def set_normal_intensity_def)
  have u: "at_hyperlink (underline_of k a) = at_hyperlink a" for k a by (simp add: underline_of_def set_underline_def)
  have c: "at_hyperlink (set_color k x a) = at_hyperlink a" for k x a by (simp add: set_color_def)
  show ?thesis by (induction ps a rule: sgr_loop.induct) (simp_all add: s u c split: option.splits)
qed

lemma sgr_ok: "screen_ok sz n s \<Longrightarrow> screen_ok sz n (sgr ps s)"
  using pen_facts(1) [of sz n s]
  by (auto simp: sgr_def sgr_apply_def sgr_linked linked_def sgr_reset_def default_attrs_def intro!: sync_blank_ok screen_ok_pen)

lemma take_title_ok: "list_all (\<lambda>c. \<not> is_control c) cs \<Longrightarrow> k \<le> MAX_TITLE_BYTES
    \<Longrightarrow> k + sum_list (map len_utf8 (take_title cs k)) \<le> MAX_TITLE_BYTES \<and> list_all (\<lambda>c. \<not> is_control c) (take_title cs k)"
proof (induction cs arbitrary: k)
  case (Cons c cs)
  show ?case
  proof (cases "MAX_TITLE_BYTES < k + len_utf8 c")
    case True
    then show ?thesis using Cons.prems by simp
  next
    case False
    then have "k + len_utf8 c + sum_list (map len_utf8 (take_title cs (k + len_utf8 c))) \<le> MAX_TITLE_BYTES \<and> list_all (\<lambda>c. \<not> is_control c) (take_title cs (k + len_utf8 c))"
      using Cons.prems by (intro Cons.IH) simp_all
    then show ?thesis using False Cons.prems(1) by (simp add: add.assoc)
  qed
qed simp

lemma set_title_ok:
  assumes "screen_ok sz n s"
  shows "screen_ok sz n (set_title t s)"
  unfolding set_title_def
proof (rule screen_ok_pen(5) [OF assms])
  show "title_ok (take_title (filter (\<lambda>c. \<not> is_control c) (from_utf8_lossy t)) 0)"
  proof -
    have "list_all (\<lambda>c. \<not> is_control c) (filter (\<lambda>c. \<not> is_control c) (from_utf8_lossy t))" by (simp add: list_all_iff)
    from take_title_ok [OF this, of 0] show ?thesis unfolding title_ok_def by simp
  qed
qed

lemma charset_ops_ok:
  assumes "screen_ok sz n s"
  shows "returns (scs slot b s) (screen_ok sz n)" "k < 4 \<Longrightarrow> screen_ok sz n (shift k s)" "k < 4 \<Longrightarrow> screen_ok sz n (single_shift k s)"
    "screen_ok sz n (break_rep s)"
proof -
  have ch: "length (ch_g (sc_charsets s)) = 4" "charsets_ok (sc_charsets s)" using pen_facts(3) [OF assms] by (simp_all add: charsets_ok_def)
  show br: "screen_ok sz n (break_rep s)" using assms by (simp add: break_rep_def)
  have f: "sc_charsets (break_rep s) = sc_charsets s" by (simp add: break_rep_def)
  have put: "screen_ok sz n ((break_rep s)\<lparr>sc_charsets := c\<rparr>)" if "charsets_ok c" for c by (rule screen_ok_pen(3) [OF br that])
  show "k < 4 \<Longrightarrow> screen_ok sz n (shift k s)" "k < 4 \<Longrightarrow> screen_ok sz n (single_shift k s)"
    unfolding shift_def single_shift_def by (rule put, use ch in \<open>simp add: charsets_ok_def\<close>)+
  have "charsets_ok ((sc_charsets s)\<lparr>ch_g := (ch_g (sc_charsets s))[i := x]\<rparr>)" for i x using ch by (simp add: charsets_ok_def)
  then show "returns (scs slot b s) (screen_ok sz n)" using ch(1) br put by (simp add: scs_def Let_def vec_set_def f)
qed

lemma decstr_ok:
  assumes "screen_ok sz n s"
  shows "screen_ok sz n (decstr s)"
proof -
  let ?s1 = "s\<lparr>sc_attrs := default_attrs, sc_saved_attrs := default_attrs, sc_charsets := default_charsets,
                 sc_saved_charsets := default_charsets, sc_last_cluster_live := False, sc_cursor_style := 0\<rparr>"
  let ?b = "MODE_INSERT OR MODE_NEWLINE OR MODE_NO_AUTOWRAP OR MODE_APPLICATION_CURSOR OR MODE_APPLICATION_KEYPAD OR MODE_HIDE_CURSOR"
  have c: "charsets_ok default_charsets" by (simp add: charsets_ok_def default_charsets_def)
  have s1: "screen_ok sz n ?s1" using assms c by (simp add: screen_ok_pen linked.default_in)
  have "mode MODE_ALTERNATE_SCREEN (clear_mode ?b ?s1) = mode MODE_ALTERNATE_SCREEN ?s1"
    by (simp add: mode_alternate clear_mode_def mode_defs bit_simps del: push_bit_of_1)
  then have "screen_ok sz n (clear_mode ?b ?s1)" using s1 unfolding screen_ok_def by (simp add: pen_ok_def clear_mode_def)
  then show ?thesis unfolding decstr_def Let_def by (intro sync_blank_ok in_grid_ok linked.reset_ok)
qed

lemma fold_ok: "(\<And>p s. screen_ok sz n s \<Longrightarrow> screen_ok sz n (f p s)) \<Longrightarrow> screen_ok sz n s \<Longrightarrow> screen_ok sz n (fold f ps s)"
  by (induction ps arbitrary: s) auto

lemma mode_ops_ok:
  assumes "screen_ok sz n s"
  shows "screen_ok sz n (ansi_mode ps on s)" "screen_ok sz n (decset ps s)" "screen_ok sz n (decrst ps s)"
proof -
  show "screen_ok sz n (ansi_mode ps on s)" unfolding ansi_mode_def by (rule fold_ok [OF _ assms]) (simp add: screen_ok_modes)
  have g: "screen_ok sz n (in_grid (set_origin_mode b) t)" if "screen_ok sz n t" for b t by (rule in_grid_ok [OF that], rule grid_moves)
  have "screen_ok sz n (decset_one p t)" if t: "screen_ok sz n t" for p t
    using t g [OF t] save_restore_ok [OF t] enter_exit_ok(1) [OF t] screen_ok_mouse [OF t] screen_ok_modes [OF t]
      enter_exit_ok(1) [OF save_restore_ok(1) [OF t]] enter_exit_ok(1) [OF clear_alternate_ok [OF save_restore_ok(1) [OF t]]]
    by (simp add: decset_one_def decsc_def Let_def)
  then show "screen_ok sz n (decset ps s)" unfolding decset_def by (rule fold_ok [OF _ assms])
  have "screen_ok sz n (decrst_one p t)" if t: "screen_ok sz n t" for p t
    using t g [OF t] save_restore_ok [OF t] enter_exit_ok(2) [OF t] screen_ok_mouse [OF t] screen_ok_modes [OF t]
      save_restore_ok(2) [OF enter_exit_ok(2) [OF t]] clear_alternate_ok [OF enter_exit_ok(2) [OF t]]
    by (simp add: decrst_one_def decrc_def Let_def)
  then show "screen_ok sz n (decrst ps s)" unfolding decrst_def by (rule fold_ok [OF _ assms])
qed

lemma ris_ok: "screen_ok sz n s \<Longrightarrow> screen_ok sz n (ris s)"
proof -
  assume "screen_ok sz n s"
  then have "g_size (sc_grid s) = sz" "g_scrollback_len (sc_grid s) = n" "size_ok sz"
    by (auto simp: screen_ok_def grids_ok_def grid_ok_def frame_ok_def)
  then show ?thesis by (simp add: ris_def screen_new_ok)
qed

lemma grid_ops_ok:
  assumes "screen_ok sz n s"
  shows "screen_ok sz n (backspace s)" "screen_ok sz n (tab s)" "screen_ok sz n (cr s)" "screen_ok sz n (hts s)" "screen_ok sz n (tbc m s)"
    "screen_ok sz n (cht k s)" "screen_ok sz n (cuu k s)" "screen_ok sz n (cud k s)" "screen_ok sz n (cuf k s)" "screen_ok sz n (cub k s)"
    "screen_ok sz n (cnl k s)" "screen_ok sz n (cpl k s)"
  unfolding backspace_def tab_def cr_def hts_def tbc_def cht_def cuu_def cud_def cuf_def cub_def cnl_def cpl_def col_tab_def
  using assms by (auto intro!: in_grid_ok grid_moves tab_edits_ok)

lemma restrict_ok: "screen_ok sz n s \<Longrightarrow> screen_ok sz n (in_grid restrict_col s)"
  by (intro in_grid_ok grid_moves)

lemma lf_returns:
  assumes "screen_ok sz n s"
  shows "returns (lf s) (screen_ok sz n)" "returns (ind s) (screen_ok sz n)"
proof -
  have "screen_ok sz n (if mode MODE_NEWLINE s then cr s else s)" using assms grid_ops_ok(3) [OF assms] by simp
  then show "returns (lf s) (screen_ok sz n)" unfolding lf_def by (rule on_grid_returns) (rule linked.line_feed_returns)
  show "returns (ind s) (screen_ok sz n)" unfolding ind_def
    by (rule on_grid_returns [OF restrict_ok [OF assms]]) (auto simp: returns_map intro!: returns_mono [OF linked.row_inc_scroll_returns])
qed

lemma line_ops_return:
  assumes "screen_ok sz n s"
  shows "returns (nel s) (screen_ok sz n)" "returns (ri s) (screen_ok sz n)" "returns (decaln cw s) (screen_ok sz n)"
    "returns (cbt k s) (screen_ok sz n)" "returns (ich k s) (screen_ok sz n)" "returns (dch k s) (screen_ok sz n)"
    "returns (ech k s) (screen_ok sz n)" "returns (il k s) (screen_ok sz n)" "returns (dl k s) (screen_ok sz n)"
    "returns (su k s) (screen_ok sz n)" "returns (sd k s) (screen_ok sz n)"
proof -
  note r = restrict_ok [OF assms]
  show "returns (nel s) (screen_ok sz n)" unfolding nel_def by (rule lf_returns(2)) (rule grid_ops_ok(3) [OF assms])
  show "returns (ri s) (screen_ok sz n)" unfolding ri_def by (rule on_grid_returns [OF assms linked.reverse_index_returns])
  show "returns (decaln cw s) (screen_ok sz n)" unfolding decaln_def by (rule on_grid_returns [OF assms linked.align_test_returns])
  show "returns (cbt k s) (screen_ok sz n)" unfolding cbt_def
    by (rule on_grid_returns [OF assms], rule returns_mono [OF back_tab_returns]) auto
  show "returns (ich k s) (screen_ok sz n)" unfolding ich_def by (rule on_grid_returns [OF r insert_cells_returns])
  show "returns (dch k s) (screen_ok sz n)" unfolding dch_def by (rule on_grid_returns [OF r delete_cells_returns])
  show "returns (ech k s) (screen_ok sz n)" unfolding ech_def by (rule on_grid_returns [OF r], rule erase_row_returns, assumption, rule erase_linked)
  show "returns (il k s) (screen_ok sz n)" unfolding il_def by (rule on_grid_returns [OF assms linked.insert_lines_returns])
  show "returns (dl k s) (screen_ok sz n)" unfolding dl_def by (rule on_grid_returns [OF assms linked.delete_lines_returns])
  show "returns (su k s) (screen_ok sz n)" unfolding su_def scroll_up_discard_def
    by (rule on_grid_returns [OF assms], rule returns_mono [OF linked.scroll_region_up_returns]) auto
  show "returns (sd k s) (screen_ok sz n)" unfolding sd_def by (rule on_grid_returns [OF assms linked.scroll_down_returns])
qed

lemma erase_ops_return:
  assumes "screen_ok sz n s"
  shows "returns (ed m s) (screen_ok sz n)" "returns (el m s) (screen_ok sz n)"
proof -
  let ?a = "for_erase (sc_attrs s)"
  have e: "returns (on_grid (erase_all_forward ?a) s) (screen_ok sz n)" "returns (on_grid (erase_all_backward ?a) s) (screen_ok sz n)"
    by (rule on_grid_returns [OF assms], rule erase_all_returns, assumption, rule erase_linked)+
  have "screen_ok sz n (in_grid (erase_all ?a) s)" by (rule in_grid_ok [OF assms], rule erase_all_returns, assumption, rule erase_linked)
  with e show "returns (ed m s) (screen_ok sz n)" using assms by (simp add: ed_def Let_def)
  have "returns (on_grid (erase_row_forward ?a) s) (screen_ok sz n)" "returns (on_grid (erase_row_backward ?a) s) (screen_ok sz n)"
    "returns (on_grid (erase_row ?a) s) (screen_ok sz n)"
    by (rule on_grid_returns [OF assms], rule erase_row_returns, assumption, rule erase_linked)+
  then show "returns (el m s) (screen_ok sz n)" using assms by (simp add: el_def Let_def)
qed

text \<open>A missing or zero parameter counts as one, so the subtractions of one do not underflow.\<close>

lemma canonical_positive: "0 < d \<Longrightarrow> 0 < canonicalize_params_1 ps d" "0 < d1 \<Longrightarrow> 0 < fst (canonicalize_params_2 ps d1 d2)"
  "0 < d2 \<Longrightarrow> 0 < snd (canonicalize_params_2 ps d1 d2)" "0 < fst (canonicalize_params_decstbm ps sz)"
  "0 < sz_rows sz \<Longrightarrow> 0 < snd (canonicalize_params_decstbm ps sz)"
  by (simp_all add: canonicalize_params_1_def canonicalize_params_2_def canonicalize_params_decstbm_def Let_def)

lemma position_ops_return:
  assumes "screen_ok sz n s"
  shows "0 < k \<Longrightarrow> returns (cha k s) (screen_ok sz n)" "0 < fst p \<Longrightarrow> 0 < snd p \<Longrightarrow> returns (cup p s) (screen_ok sz n)"
    "0 < k \<Longrightarrow> returns (vpa k s) (screen_ok sz n)" "0 < fst p \<Longrightarrow> 0 < snd p \<Longrightarrow> returns (decstbm p s) (screen_ok sz n)"
proof -
  show "0 < k \<Longrightarrow> returns (cha k s) (screen_ok sz n)" "0 < fst p \<Longrightarrow> 0 < snd p \<Longrightarrow> returns (cup p s) (screen_ok sz n)"
    "0 < fst p \<Longrightarrow> 0 < snd p \<Longrightarrow> returns (decstbm p s) (screen_ok sz n)"
    using assms by (auto simp: cha_def cup_def decstbm_def checked_sub_def intro!: in_grid_ok grid_moves linked.reset_ok)
  have "screen_ok sz n (in_grid (row_set r) (in_grid restrict_col s))" for r by (rule in_grid_ok [OF restrict_ok [OF assms]]) (rule grid_moves)
  then show "0 < k \<Longrightarrow> returns (vpa k s) (screen_ok sz n)" by (simp add: vpa_def checked_sub_def)
qed

lemma csi_plain_returns:
  assumes "screen_ok sz n s" and "width_fun_ok cw"
  shows "returns (csi_plain cw ps c s) (screen_ok sz n)"
proof -
  let ?k = "canonicalize_params_1 ps 1"
  have k: "0 < ?k" by (rule canonical_positive) simp
  have p2: "returns (cup (canonicalize_params_2 ps 1 1) s) (screen_ok sz n)"
    by (rule position_ops_return(2) [OF assms(1)]; rule canonical_positive) simp_all
  have "0 < sz_rows (g_size (active_grid s))" using active_sizes(1,4) [OF assms(1)] by (simp add: size_ok_def)
  then have dm: "returns (decstbm (canonicalize_params_decstbm ps (g_size (active_grid s))) s) (screen_ok sz n)"
    by (intro position_ops_return(4) [OF assms(1)] canonical_positive)
  show ?thesis unfolding csi_plain_def Let_def
    using assms(1) k p2 dm grid_ops_ok [OF assms(1)] line_ops_return [OF assms(1)] erase_ops_return [OF assms(1)] rep_returns [OF assms]
      position_ops_return(1,3) [OF assms(1) k] mode_ops_ok(1) [OF assms(1)] save_restore_ok [OF assms(1)] sgr_ok [OF assms(1)]
    by (simp add: decsc_def decrc_def)
qed

lemma csi_dispatch_returns:
  assumes "screen_ok sz n s" and "width_fun_ok cw"
  shows "returns (csi_dispatch cw ps is c s) (screen_ok sz n)"
proof -
  define s1 where "s1 = (if c \<noteq> 0x62 then break_rep s else s)"
  have s1: "screen_ok sz n s1" using assms(1) charset_ops_ok(4) [OF assms(1)] by (simp add: s1_def)
  show ?thesis unfolding csi_dispatch_def s1_def [symmetric] Let_def
    using s1 csi_plain_returns [OF s1 assms(2)] erase_ops_return [OF s1] mode_ops_ok [OF s1] decstr_ok [OF s1]
    by (auto simp: decsed_def decsel_def decscusr_def split: list.splits)
qed

lemma esc_dispatch_returns:
  assumes "screen_ok sz n s"
  shows "returns (esc_dispatch cw is b s) (screen_ok sz n)"
proof -
  have s1: "screen_ok sz n (break_rep s)" using assms by (rule charset_ops_ok)
  show ?thesis unfolding esc_dispatch_def Let_def
    using s1 charset_ops_ok [OF s1] line_ops_return [OF s1] lf_returns [OF s1] grid_ops_ok [OF s1] save_restore_ok [OF s1]
      screen_ok_modes [OF s1] ris_ok [OF s1]
    by (simp add: decsc_def decrc_def deckpam_def deckpnm_def)
qed

lemma execute_returns:
  assumes "screen_ok sz n s"
  shows "returns (execute b s) (screen_ok sz n)"
proof -
  define s1 where "s1 = (if b \<noteq> 14 \<and> b \<noteq> 15 then break_rep s else s)"
  have s1: "screen_ok sz n s1" using assms charset_ops_ok(4) [OF assms] by (simp add: s1_def)
  show ?thesis unfolding execute_def s1_def [symmetric] Let_def
    using s1 charset_ops_ok [OF s1] lf_returns [OF s1] grid_ops_ok [OF s1] by (simp add: vt_def ff_def)
qed

lemma osc_dispatch_returns:
  assumes "screen_ok sz n s"
  shows "returns (osc_dispatch ps s) (screen_ok sz n)"
  using assms osc8_returns [OF assms] set_title_ok [OF assms] by (auto simp: osc_dispatch_def split: list.splits)

fun event_ok :: "term_event \<Rightarrow> bool" where
  "event_ok (TermPrint c) = is_scalar c"
| "event_ok _ = True"

lemma term_step_returns:
  "screen_ok sz n s \<Longrightarrow> width_fun_ok cw \<Longrightarrow> event_ok e \<Longrightarrow> returns (term_step cw e s) (screen_ok sz n)"
  by (cases e) (auto intro: print_returns execute_returns esc_dispatch_returns csi_dispatch_returns osc_dispatch_returns)

lemma term_run_returns:
  "screen_ok sz n s \<Longrightarrow> width_fun_ok cw \<Longrightarrow> list_all event_ok es \<Longrightarrow> returns (for_each es (term_step cw) s) (screen_ok sz n)"
  by (rule returns_for_each) (auto simp: list_all_iff intro: term_step_returns)

end
