(* ===== verification/Vt_Properties.thy ===== *)
theory Vt_Properties
  imports Vt_Safety
begin

text \<open>What the terminal emulator promises, for every stream of bytes.\<close>

section \<open>Lemmas\<close>

lemma process_returns:
  assumes "screen_ok sz n (pa_screen p)" and "width_fun_ok cw" and "\<And>v bs. list_all event_ok (fst (adv v bs))"
  shows "returns (process cw adv bs p) (\<lambda>q. screen_ok sz n (pa_screen q))"
proof -
  obtain out pending where t: "tokenizer_input (pa_pending_c2 p) bs = (out, pending)" by force
  obtain events v where a: "adv (pa_vte p) out = (events, v)" by force
  have "list_all event_ok events" using assms(3) [of "pa_vte p" out] a by simp
  from term_run_returns [OF assms(1,2) this]
  have "returns (for_each events (term_step cw) (pa_screen p) \<bind> (\<lambda>s. Some (p\<lparr>pa_vte := v, pa_pending_c2 := pending, pa_screen := s\<rparr>)))
      (\<lambda>q. screen_ok sz n (pa_screen q))"
    by (rule returns_bind) simp
  then show ?thesis by (simp add: process_def t a)
qed

lemma screen_cells:
  assumes "screen_ok sz n s" and "g \<in> {sc_grid s, sc_alternate_grid s}"
  shows "\<forall>r\<in>set (g_rows g). length (rw_cells r) = sz_cols sz \<and> paired (rw_cells r)"
    "\<forall>r\<in>set (g_scrollback g). paired (rw_cells r)"
    "\<forall>c\<in>set (grid_cells g). cell_ok c \<and> linked (length (sc_hyperlinks s)) (ce_attrs c)"
proof -
  obtain lim where f: "frame_ok (linked (length (sc_hyperlinks s))) sz lim g" "rows_ok (linked (length (sc_hyperlinks s))) sz (g_rows g) \<or> g_rows g = []"
    using assms by (auto simp: screen_ok_def grids_ok_def grid_ok_def alternate_ok_def)
  then show "\<forall>r\<in>set (g_rows g). length (rw_cells r) = sz_cols sz \<and> paired (rw_cells r)" "\<forall>r\<in>set (g_scrollback g). paired (rw_cells r)"
    by (auto simp: rows_ok_def row_ok_def frame_ok_def)
  show "\<forall>c\<in>set (grid_cells g). cell_ok c \<and> linked (length (sc_hyperlinks s)) (ce_attrs c)" using cells_linked [OF f] by blast
qed

lemma link_resolves: "linked (length (sc_hyperlinks s)) a \<Longrightarrow> at_hyperlink a \<noteq> 0 \<Longrightarrow> hyperlink (at_hyperlink a) s \<noteq> None"
  by (auto simp: linked_def hyperlink_def nth_opt_def)

text \<open>The tokenizer's input over a sequence of chunks.\<close>

fun input_chunks :: "bool \<Rightarrow> bytes list \<Rightarrow> bytes \<times> bool" where
  "input_chunks pending [] = ([], pending)"
| "input_chunks pending (bs # bss) =
     (let (out, p) = tokenizer_input pending bs; (rest, q) = input_chunks p bss in (out @ rest, q))"

lemma rewrite_c1_append:
  "rewrite_c1 pending (xs @ ys) = (let (out, p) = rewrite_c1 pending xs; (rest, q) = rewrite_c1 p ys in (out @ rest, q))"
  by (induction pending xs rule: rewrite_c1.induct) (auto simp: Let_def split: prod.splits)

lemma rewrite_c1_plain: "0xc2 \<notin> set bs \<Longrightarrow> rewrite_c1 False bs = (bs, False)"
  by (induction bs) auto

lemma tokenizer_input_rewrite: "tokenizer_input pending bs = rewrite_c1 pending bs"
  by (auto simp: tokenizer_input_def rewrite_c1_plain)

text \<open>
  The stream a terminal is fed, and a small tokenizer for examples: controls below 32 are executed, the
  rest is printed as ASCII.
\<close>

definition fresh_parser :: "'p \<Rightarrow> vt_size \<Rightarrow> usize \<Rightarrow> 'p parser" where
  "fresh_parser v sz sb_len = \<lparr>pa_vte = v, pa_pending_c2 = False, pa_screen = screen_new sz sb_len\<rparr>"

definition ascii_tokenizer :: "unit \<Rightarrow> bytes \<Rightarrow> term_event list \<times> unit" where
  "ascii_tokenizer v bs = (map (\<lambda>b. if b < 32 then TermExecute b else TermPrint (b mod 128)) bs, v)"

lemma ascii_tokenizer_ok: "list_all event_ok (fst (ascii_tokenizer v bs))"
  by (auto simp: ascii_tokenizer_def list_all_iff is_scalar_def)

lemma one_column_ok: "width_fun_ok (\<lambda>_. Some 1)"
  by (simp add: width_fun_ok_def)

subsection \<open>Printing\<close>

lemma drawing_cell_set:
  assumes "grid_ok A sz lim g" and "cur_col g < sz_cols sz" and that: "r = g_rows g ! cur_row g"
  shows "drawing_cell q (col_inc 1 (g\<lparr>g_rows := (g_rows g)[cur_row g := r\<lparr>rw_cells := (rw_cells r)[cur_col g := y]\<rparr>]\<rparr>))
     = (if q = g_pos g then Some y else drawing_cell q g)"
proof -
  have l: "cur_row g < length (g_rows g)" "cur_col g < length (rw_cells r)"
    using assms grid_sizes [OF assms(1)] that by (auto simp: grid_ok_def rows_ok_def row_ok_def)
  have "q = g_pos g \<longleftrightarrow> p_row q = cur_row g \<and> p_col q = cur_col g" by auto
  then show ?thesis using l that by (auto simp: drawing_cell_def nth_opt_def col_inc_def nth_list_update)
qed

subsection \<open>Compaction\<close>

lemma hyperlink_compacted:
  assumes "compacted s (renumber remap) (sc_hyperlinks s')" and "i \<in> set (marked s)" and "i \<le> length (sc_hyperlinks s)"
  shows "hyperlink (renumber remap i) s' = hyperlink i s"
proof (cases "i = 0")
  case True
  then show ?thesis using assms(1) by (simp add: compacted_def hyperlink_def)
next
  case False
  let ?f = "renumber remap i"
  have f: "?f \<le> length (sc_hyperlinks s')" "?f \<noteq> 0" "sc_hyperlinks s' ! (?f - 1) = sc_hyperlinks s ! (i - 1)"
    using assms False by (auto simp: compacted_def)
  then have "?f - 1 < length (sc_hyperlinks s')" by simp
  then show ?thesis using f False assms(3) by (simp add: hyperlink_def nth_opt_def)
qed

lemma grid_cells_map: "grid_cells (map_grid_cells f g) = map f (grid_cells g)"
  by (simp add: grid_cells_def map_grid_cells_def Let_def map_concat comp_def)

section \<open>Properties\<close>

text \<open>
  C5. The terminal never panics: whatever bytes a program writes, in whatever chunks, every index,
  every unwrap and every unsigned subtraction on the way succeeds, and the screen it leaves is well
  formed. The tokenizer is only assumed to print Unicode scalar values.
\<close>

theorem terminal_never_panics:
  assumes "size_ok sz" and "width_fun_ok cw" and "\<forall>v bs. list_all event_ok (fst (adv v bs))"
  shows "\<exists>p. for_each chunks (process cw adv) (fresh_parser v0 sz sb_len) = Some p \<and> screen_ok sz sb_len (pa_screen p)"
proof -
  have s: "screen_ok sz sb_len (pa_screen (fresh_parser v0 sz sb_len))" using screen_new_ok [OF assms(1)] by (simp add: fresh_parser_def)
  have "returns (for_each chunks (process cw adv) (fresh_parser v0 sz sb_len)) (\<lambda>p. screen_ok sz sb_len (pa_screen p))"
    by (rule returns_for_each, rule process_returns) (use assms s in auto)
  then show ?thesis by (simp add: returns_def)
qed

theorem terminal_never_panics_witness:
  "\<exists>p. for_each [[0x61, 0x0a], [0xc2]] (process (\<lambda>_. Some 1) ascii_tokenizer) (fresh_parser () \<lparr>sz_rows = 2, sz_cols = 3\<rparr> 5) = Some p
     \<and> screen_ok \<lparr>sz_rows = 2, sz_cols = 3\<rparr> 5 (pa_screen p)"
  by (rule terminal_never_panics [OF _ one_column_ok]) (simp_all add: size_ok_def ascii_tokenizer_ok)



text \<open>
  What a program stores in the screen beyond its cells is bounded and carries no control characters:
  the title has at most 1024 bytes, there are at most 4096 links, each with a URI of 1 to 8192 bytes of
  valid UTF-8 and an id of at most 256 bytes.
\<close>

theorem stored_strings_safe:
  assumes "size_ok sz" and "width_fun_ok cw" and "list_all event_ok es" and "for_each es (term_step cw) (screen_new sz sb_len) = Some s"
  shows "sum_list (map len_utf8 (sc_title s)) \<le> 1024 \<and> (\<forall>c\<in>set (sc_title s). \<not> is_control c)
    \<and> length (sc_hyperlinks s) \<le> 4096
    \<and> (\<forall>(uri, i)\<in>set (sc_hyperlinks s). uri \<noteq> [] \<and> length uri \<le> 8192 \<and> length i \<le> 256
         \<and> (\<exists>cs. from_utf8 uri = Some cs \<and> (\<forall>c\<in>set cs. \<not> is_control c)))"
proof -
  have s: "pen_ok s" using term_run_returns [OF screen_new_ok [OF assms(1), of sb_len] assms(2,3)] assms(4) by (auto simp: returns_def screen_ok_def)
  have "uri \<noteq> [] \<and> length uri \<le> 8192 \<and> length i \<le> 256 \<and> (\<exists>cs. from_utf8 uri = Some cs \<and> (\<forall>c\<in>set cs. \<not> is_control c))"
    if "(uri, i) \<in> set (sc_hyperlinks s)" for uri i
  proof -
    have "link_ok (uri, i)" using s that by (auto simp: pen_ok_def list_all_iff)
    then show ?thesis by (auto simp: link_ok_def MAX_URI_BYTES_def MAX_LINK_ID_BYTES_def has_control_def list_ex_iff)
  qed
  then show ?thesis using s by (auto simp: pen_ok_def title_ok_def MAX_TITLE_BYTES_def MAX_HYPERLINKS_def list_all_iff)
qed

theorem stored_strings_safe_witness:
  "\<exists>s. for_each [TermOsc [[0x32], [0x68, 0x69]]] (term_step (\<lambda>_. Some 1)) (screen_new \<lparr>sz_rows = 2, sz_cols = 3\<rparr> 0) = Some s
     \<and> sc_title s = [0x68, 0x69] \<and> sum_list (map len_utf8 (sc_title s)) \<le> 1024"
proof -
  let ?s = "set_title [0x68, 0x69] (screen_new \<lparr>sz_rows = 2, sz_cols = 3\<rparr> 0)"
  have e: "for_each [TermOsc [[0x32], [0x68, 0x69]]] (term_step (\<lambda>_. Some 1)) (screen_new \<lparr>sz_rows = 2, sz_cols = 3\<rparr> 0) = Some ?s"
    by (simp add: osc_dispatch_def)
  have t: "sc_title ?s = [0x68, 0x69]"
    by (simp add: set_title_def from_utf8_lossy_def utf8_step_def is_control_def len_utf8_def MAX_TITLE_BYTES_def)
  have "size_ok \<lparr>sz_rows = 2, sz_cols = 3\<rparr>" by (simp add: size_ok_def)
  from stored_strings_safe [OF this one_column_ok _ e] e t show ?thesis by simp
qed

text \<open>
  The rewriting of C1 controls does not depend on how the stream is cut into chunks: feeding it chunk
  by chunk, with the shortcut for chunks that hold no 0xC2, gives the tokenizer what rewriting the whole
  stream at once gives.
\<close>

theorem c1_rewriting_chunked: "input_chunks pending bss = rewrite_c1 pending (concat bss)"
  by (induction bss arbitrary: pending) (auto simp: tokenizer_input_rewrite rewrite_c1_append Let_def split: prod.splits)

text \<open>
  What is printed can be read back: a character one column wide, printed inside the row over a plain
  cell with insert mode off and the ASCII set in use, appears at the cursor with the current attributes,
  the cursor moves one column, and no other cell changes.
\<close>

theorem print_reads_back:
  assumes "screen_ok sz n s" and "is_scalar c" and "\<not> (0x80 \<le> c \<and> c < 0xa0)" and "c \<noteq> 0xfeff" and "char_width cw c = Some 1"
    and "width_fun_ok cw" and "\<not> mode MODE_INSERT s" and "ch_single_shift (sc_charsets s) = None"
    and "ch_g (sc_charsets s) ! ch_gl (sc_charsets s) = Ascii"
    and "cur_col (active_grid s) < sz_cols sz" and "plain_cell_at (g_pos (active_grid s)) (active_grid s)"
  shows "\<exists>s' x. print cw c s = Some s' \<and> drawing_cell (g_pos (active_grid s)) (active_grid s') = Some x
    \<and> contents x = Some [c] \<and> ce_attrs x = sc_attrs s
    \<and> g_pos (active_grid s') = (g_pos (active_grid s))\<lparr>p_col := cur_col (active_grid s) + 1\<rparr>
    \<and> (\<forall>q. q \<noteq> g_pos (active_grid s) \<longrightarrow> drawing_cell q (active_grid s') = drawing_cell q (active_grid s))"
proof -
  let ?g = "active_grid s" and ?k = "length (sc_hyperlinks s)"
  obtain lim where g: "grid_ok (linked ?k) sz lim ?g" by (rule active_ok [OF assms(1)])
  note z = grid_sizes [OF g]
  let ?r = "g_rows ?g ! cur_row ?g" and ?s1 = "s\<lparr>sc_charsets := (sc_charsets s)\<lparr>ch_single_shift := None\<rparr>\<rparr>"
  have r: "row_ok (linked ?k) (sz_cols sz) ?r" using g z by (simp add: grid_ok_def rows_ok_def)
  have i: "cur_col ?g < length (rw_cells ?r)" "cell_ok (rw_cells ?r ! cur_col ?g)" using r assms(10) by (auto simp: row_ok_def)
  obtain y where y: "cell_set cw c (sc_attrs s) (rw_cells ?r ! cur_col ?g) = Some y" "cell_ok y" "ce_attrs y = sc_attrs s" "cell_text y = encode_utf8 c"
    by (rule cell_set_ex [OF i(2) assms(2)])
  have ct: "contents y = Some [c]" using from_utf8_encode [of "[c]"] assms(2) y(4) by (simp add: contents_def)
  let ?g' = "col_inc 1 (?g\<lparr>g_rows := (g_rows ?g)[cur_row ?g := ?r\<lparr>rw_cells := (rw_cells ?r)[cur_col ?g := y]\<rparr>]\<rparr>)"
  have a1: "active_grid ?s1 = ?g" "mode b ?s1 = mode b s" "sc_attrs ?s1 = sc_attrs s" for b by (simp_all add: active_grid_def mode_def)
  have st: "map_option (col_inc 1) (on_row (cur_row ?g) (row_update (cur_col ?g) (cell_set cw c (sc_attrs s))) ?g) = Some ?g'"
    using z(1,7) i(1) y(1) by (simp add: on_row_def vec_get_def row_update_def)
  have "draw_width cw c 1 ?s1 = on_grid (\<lambda>g. map_option (col_inc 1) (on_row (cur_row ?g) (row_update (cur_col ?g) (cell_set cw c (sc_attrs s))) g)) ?s1"
    using assms(7,10,11) z(3,5) by (simp add: draw_width_def Let_def a1)
  also have "\<dots> = Some (in_grid (\<lambda>_. ?g') ?s1)" unfolding on_grid_alt a1 st by simp
  finally have d: "draw cw c ?s1 = Some (in_grid (\<lambda>_. ?g') ?s1)" using assms(4,5) by (simp add: draw_def draw_inner_def)
  have gl: "ch_gl (sc_charsets s) < length (ch_g (sc_charsets s))" using pen_facts(3) [OF assms(1)] by (simp add: charsets_ok_def)
  obtain s' where p: "print cw c s = Some s'" "active_grid s' = ?g'"
    using assms(3,5,8,9) gl d by (simp add: print_def draw_text_def Let_def vec_get_def) (simp add: active_grid_def in_grid_def mode_def)
  have q: "g_pos ?g' = (g_pos ?g)\<lparr>p_col := cur_col ?g + 1\<rparr>" using assms(10) z(11) by (simp add: col_inc_def set_col_def saturating_add_def)
  show ?thesis using p q ct y(3) drawing_cell_set [OF g assms(10) refl, of _ y] by auto
qed

theorem print_reads_back_witness:
  "\<exists>s' x. print (\<lambda>_. Some 1) 0x61 (screen_new \<lparr>sz_rows = 2, sz_cols = 2\<rparr> 0) = Some s'
     \<and> drawing_cell \<lparr>p_row = 0, p_col = 0\<rparr> (active_grid s') = Some x \<and> contents x = Some [0x61]"
proof -
  let ?s = "screen_new \<lparr>sz_rows = 2, sz_cols = 2\<rparr> 0"
  have ok: "screen_ok \<lparr>sz_rows = 2, sz_cols = 2\<rparr> 0 ?s" by (rule screen_new_ok) (simp add: size_ok_def)
  have g: "active_grid ?s = allocate_rows (grid_new \<lparr>sz_rows = 2, sz_cols = 2\<rparr> 0)" by (simp add: active_grid_def mode_def screen_new_def)
  have p: "g_pos (active_grid ?s) = \<lparr>p_row = 0, p_col = 0\<rparr>" "plain_cell_at \<lparr>p_row = 0, p_col = 0\<rparr> (active_grid ?s)"
    by (simp_all add: g allocate_rows_def grid_new_def plain_cell_at_def drawing_cell_def nth_opt_def row_new_def)
  have f: "\<not> mode MODE_INSERT ?s" "sc_charsets ?s = default_charsets" "ch_single_shift default_charsets = None" "ch_g default_charsets ! ch_gl default_charsets = Ascii"
    by (simp_all add: mode_def screen_new_def default_charsets_def)
  have "\<exists>s' x. print (\<lambda>_. Some 1) 0x61 ?s = Some s' \<and> drawing_cell (g_pos (active_grid ?s)) (active_grid s') = Some x
    \<and> contents x = Some [0x61] \<and> ce_attrs x = sc_attrs ?s
    \<and> g_pos (active_grid s') = (g_pos (active_grid ?s))\<lparr>p_col := cur_col (active_grid ?s) + 1\<rparr>
    \<and> (\<forall>q. q \<noteq> g_pos (active_grid ?s) \<longrightarrow> drawing_cell q (active_grid s') = drawing_cell q (active_grid ?s))"
    by (rule print_reads_back [OF ok _ _ _ _ one_column_ok]) (simp_all add: p f is_scalar_def char_width_def)
  then show ?thesis unfolding p by blast
qed

text \<open>
  C30. Compacting the table of hyperlinks loses and redirects nothing: afterwards every cell of both
  grids and their scrollback, and the current and saved attributes, name the same link as before.
\<close>

theorem compaction_keeps_links:
  assumes "screen_ok sz n s" and "compact_hyperlinks s = (b, s')"
  shows "map (\<lambda>c. hyperlink (at_hyperlink (ce_attrs c)) s') (grid_cells (sc_grid s')) = map (\<lambda>c. hyperlink (at_hyperlink (ce_attrs c)) s) (grid_cells (sc_grid s))
    \<and> map (\<lambda>c. hyperlink (at_hyperlink (ce_attrs c)) s') (grid_cells (sc_alternate_grid s'))
        = map (\<lambda>c. hyperlink (at_hyperlink (ce_attrs c)) s) (grid_cells (sc_alternate_grid s))
    \<and> hyperlink (at_hyperlink (sc_attrs s')) s' = hyperlink (at_hyperlink (sc_attrs s)) s
    \<and> hyperlink (at_hyperlink (sc_saved_attrs s')) s' = hyperlink (at_hyperlink (sc_saved_attrs s)) s"
proof -
  have c: "at_hyperlink (ce_attrs c) \<in> set (marked s) \<and> at_hyperlink (ce_attrs c) \<le> length (sc_hyperlinks s)"
    if "c \<in> set (grid_cells (sc_grid s)) \<or> c \<in> set (grid_cells (sc_alternate_grid s))" for c
    using that cell_marked [of c s] screen_cells(3) [OF assms(1), of "sc_grid s"] screen_cells(3) [OF assms(1), of "sc_alternate_grid s"]
    by (auto simp: linked_def)
  have p: "at_hyperlink a \<in> set (marked s) \<and> at_hyperlink a \<le> length (sc_hyperlinks s)" if "a = sc_attrs s \<or> a = sc_saved_attrs s" for a
    using that pen_facts(1,2) [OF assms(1)] by (auto simp: marked_def linked_def)
  consider "list_all (\<lambda>l. \<not> l) (live_links s)" | "\<not> list_all (\<lambda>l. \<not> l) (live_links s)" "list_all (\<lambda>l. l) (live_links s)"
    | "\<not> list_all (\<lambda>l. \<not> l) (live_links s)" "\<not> list_all (\<lambda>l. l) (live_links s)" by blast
  then show ?thesis
  proof cases
    case 1
    then have s': "s' = s\<lparr>sc_hyperlinks := []\<rparr>" using assms(2) by (simp add: compact_hyperlinks_def)
    have h: "hyperlink i s' = hyperlink i s" if "i \<in> set (marked s) \<and> i \<le> length (sc_hyperlinks s)" for i
      using that unmarked_zero [OF 1, of i] by (simp add: hyperlink_def)
    show ?thesis using s' h c p by (auto intro!: map_cong)
  next
    case 2
    then show ?thesis using assms(2) by (simp add: compact_hyperlinks_def)
  next
    case 3
    obtain kept rs where k: "keep_live (sc_hyperlinks s) (live_links s) 0 = (kept, rs)" by force
    have s': "s' = s\<lparr>sc_hyperlinks := kept, sc_attrs := renumber_attrs (0 # rs) (sc_attrs s), sc_saved_attrs := renumber_attrs (0 # rs) (sc_saved_attrs s),
        sc_grid := map_grid_cells (renumber_cell (0 # rs)) (sc_grid s), sc_alternate_grid := map_grid_cells (renumber_cell (0 # rs)) (sc_alternate_grid s)\<rparr>"
      using assms(2) 3 k by (simp add: compact_hyperlinks_def Let_def)
    have "compacted s (renumber (0 # rs)) (sc_hyperlinks s')" using keep_live_compacted(1) [OF pen_facts(7) [OF assms(1)] k] s' by simp
    note h = hyperlink_compacted [OF this]
    have hc: "hyperlink (at_hyperlink (ce_attrs (renumber_cell (0 # rs) c))) s' = hyperlink (at_hyperlink (ce_attrs c)) s"
      if "c \<in> set (grid_cells (sc_grid s)) \<or> c \<in> set (grid_cells (sc_alternate_grid s))" for c
      using h [of "at_hyperlink (ce_attrs c)"] c [OF that] by (auto simp: renumber_cell_def hyperlink_def)
    have hp: "hyperlink (at_hyperlink (renumber_attrs (0 # rs) a)) s' = hyperlink (at_hyperlink a) s" if "a = sc_attrs s \<or> a = sc_saved_attrs s" for a
      using h [of "at_hyperlink a"] p [OF that] by (simp add: renumber_attrs_def)
    have g: "sc_grid s' = map_grid_cells (renumber_cell (0 # rs)) (sc_grid s)" "sc_alternate_grid s' = map_grid_cells (renumber_cell (0 # rs)) (sc_alternate_grid s)"
      "sc_attrs s' = renumber_attrs (0 # rs) (sc_attrs s)" "sc_saved_attrs s' = renumber_attrs (0 # rs) (sc_saved_attrs s)" using s' by simp_all
    show ?thesis unfolding g grid_cells_map using hc hp by (auto simp: comp_def)
  qed
qed

theorem compaction_keeps_links_witness:
  "\<exists>b s'. compact_hyperlinks ((screen_new \<lparr>sz_rows = 2, sz_cols = 2\<rparr> 0)\<lparr>sc_hyperlinks := [([0x61], []), ([0x62], [])],
       sc_attrs := default_attrs\<lparr>at_hyperlink := 2\<rparr>\<rparr>) = (b, s') \<and> hyperlink (at_hyperlink (sc_attrs s')) s' = Some ([0x62], [])"
proof -
  let ?n = "screen_new \<lparr>sz_rows = 2, sz_cols = 2\<rparr> 0"
  let ?s2 = "?n\<lparr>sc_hyperlinks := [([0x61], []), ([0x62], [])]\<rparr>"
  let ?s = "?s2\<lparr>sc_attrs := default_attrs\<lparr>at_hyperlink := 2\<rparr>\<rparr>"
  have n: "screen_ok \<lparr>sz_rows = 2, sz_cols = 2\<rparr> 0 ?n" by (rule screen_new_ok) (simp add: size_ok_def)
  have h: "sc_hyperlinks ?n = []" by (simp add: screen_new_def)
  have l: "link_ok ([0x61], [])" "link_ok ([0x62], [])"
    by (simp_all add: link_ok_def MAX_URI_BYTES_def MAX_LINK_ID_BYTES_def from_utf8_def utf8_step_def has_control_def is_control_def)
  have "screen_ok \<lparr>sz_rows = 2, sz_cols = 2\<rparr> 0 (?n\<lparr>sc_hyperlinks := [([0x61], [])]\<rparr>)"
    using push_link_ok [OF n _ l(1)] h by (simp add: MAX_HYPERLINKS_def)
  from push_link_ok [OF this _ l(2)] have "screen_ok \<lparr>sz_rows = 2, sz_cols = 2\<rparr> 0 ?s2" by (simp add: MAX_HYPERLINKS_def)
  then have s: "screen_ok \<lparr>sz_rows = 2, sz_cols = 2\<rparr> 0 ?s" by (rule screen_ok_pen) (simp add: linked_def)
  obtain b s' where c: "compact_hyperlinks ?s = (b, s')" by force
  have "hyperlink (at_hyperlink (sc_attrs ?s)) ?s = Some ([0x62], [])" by (simp add: hyperlink_def nth_opt_def)
  with compaction_keeps_links [OF s c] c show ?thesis by simp
qed

text \<open>
  A line feed on the bottom margin of a region that starts at the top scrolls by one: the rows of
  the region move up, a blank row comes in at the bottom, the top row goes to the end of the
  scrollback, and the scrollback drops its oldest row when it is full. The cursor keeps its row.
\<close>

theorem line_feed_scrolls:
  assumes "grid_ok (linked k) sz lim g" and "g_scroll_top g = 0" and "cur_row g = g_scroll_bottom g"
  shows "\<exists>h. line_feed g = Some h
    \<and> g_rows h = take (g_scroll_bottom g) (tl (g_rows g)) @ new_row g # drop (g_scroll_bottom g + 1) (g_rows g)
    \<and> g_scrollback h = (let sb = g_scrollback g @ [hd (g_rows g)] in
         if g_scrollback_len g = 0 then g_scrollback g else drop (length sb - g_scrollback_len g) sb)
    \<and> length (g_scrollback h) \<le> g_scrollback_len g
    \<and> cur_row h = cur_row g \<and> cur_col h = min (cur_col g) (ncols g - 1)"
proof -
  note z = grid_sizes [OF assms(1)]
  let ?b = "g_scroll_bottom g"
  obtain x xs where rows: "g_rows g = x # xs" using z(6,7) by (cases "g_rows g") auto
  have b: "?b < length (g_rows g)" "?b \<le> length xs" "?b + 1 \<le> u16_max" using z rows by auto
  let ?g1 = "g\<lparr>g_rows := take ?b xs @ new_row g # drop ?b xs\<rparr>"
  have ins: "insert_remove (?b + 1) 0 (new_row g) g = Some (x, ?g1)"
    using b rows by (simp add: insert_remove_def vec_insert_def vec_remove_def)
  let ?h = "if 0 < g_scrollback_len g then push_scrollback x ?g1 else ?g1\<lparr>g_freed_rows := g_freed_rows g + 1\<rparr>"
  have one: "scroll_one True g = Some ?h" using ins assms(2) by (simp add: scroll_one_def)
  have span: "at_most_span 1 ?b 0 = Some 1" using at_most_span_returns [of 0 ?b 1] z by simp
  have up: "scroll_up 1 g = Some ?h" using one assms(2) span by (simp add: scroll_up_def scroll_region_up_def)
  have clamp: "row_clamp_bottom True (set_row (?b + 1) g) = (1, set_row ?b (set_row (?b + 1) g))" by (simp add: row_clamp_bottom_def Let_def)
  have same: "set_row ?b (set_row (?b + 1) g) = g" using assms(3) by (simp add: set_row_def)
  have "in_scroll_region g" using assms(2,3) by (simp add: in_scroll_region_def)
  moreover have "saturating_add u16_max (cur_row g) 1 = ?b + 1" using b(3) assms(3) by (simp add: saturating_add_def)
  ultimately have "row_inc_scroll 1 g = Some (1, ?h)" using clamp same up by (simp add: row_inc_scroll_def)
  then have lf: "line_feed g = Some (col_clamp ?h)" by (simp add: line_feed_def)
  have sb: "g_scrollback ?h = (let sb = g_scrollback g @ [x] in if g_scrollback_len g = 0 then g_scrollback g else drop (length sb - g_scrollback_len g) sb)"
    by (simp add: push_scrollback_def Let_def)
  have len: "length (g_scrollback ?h) \<le> g_scrollback_len g" using assms(1) unfolding sb by (auto simp: Let_def grid_ok_def frame_ok_def)
  have f: "g_rows ?h = take ?b xs @ new_row g # drop ?b xs" "g_pos ?h = g_pos g" "g_size ?h = g_size g" by simp_all
  have cc: "g_scrollback (col_clamp ?h) = g_scrollback ?h" by (simp add: col_clamp_def set_col_def)
  show ?thesis using lf sb len f cc rows by (simp add: Let_def)
qed

theorem line_feed_scrolls_witness:
  "\<exists>h. line_feed (set_row 1 (allocate_rows (grid_new \<lparr>sz_rows = 2, sz_cols = 2\<rparr> 5))) = Some h \<and> length (g_scrollback h) = 1"
proof -
  let ?g = "set_row 1 (allocate_rows (grid_new \<lparr>sz_rows = 2, sz_cols = 2\<rparr> 5))"
  have "grid_ok (linked 0) \<lparr>sz_rows = 2, sz_cols = 2\<rparr> (5, 0) (allocate_rows (grid_new \<lparr>sz_rows = 2, sz_cols = 2\<rparr> 5))"
    by (rule linked.grid_new_ok(2) [OF linked.grid_new_ok(1)]) (simp_all add: size_ok_def grid_new_def)
  then have g: "grid_ok (linked 0) \<lparr>sz_rows = 2, sz_cols = 2\<rparr> (5, 0) ?g" by (simp add: grid_ok_def frame_set_row)
  have f: "g_scroll_top ?g = 0" "cur_row ?g = g_scroll_bottom ?g" "g_scrollback ?g = []" "g_scrollback_len ?g = 5"
    by (simp_all add: allocate_rows_def grid_new_def set_row_def)
  from line_feed_scrolls [OF g f(1,2)] show ?thesis unfolding f by (auto simp: Let_def)
qed

end
