(* ===== verification/Vt_Reflow.thy ===== *)
theory Vt_Reflow
  imports Vt_Properties
begin

text \<open>
  Resizing the terminal: \<open>crates/vt100/src/grid/reflow.rs\<close> and \<open>Screen::set_size\<close>.

  \<^item> \<open>lines_buf\<close> is the struct \<open>Lines\<close>: scrollback and visible rows as one list, with the index of the first
    visible line, the cursor's row and the saved cursor's line.
  \<^item> A group is a line of text with its continuation rows. \<open>larger_group\<close> and \<open>smaller_group\<close> are the bodies of
    the loops of \<open>reflow_larger\<close> and \<open>reflow_smaller\<close>: they move the cells of a group in place.
  \<^item> \<open>None\<close> is a panic: an index out of range or an unsigned subtraction below zero. Loops whose bound depends on
    the cells take fuel; running out of it is \<open>None\<close> too, and the fuel given is shown to be enough.
  \<^item> Signed 64-bit intermediate values are integers; their operands are lengths of lists.
\<close>

section \<open>Rows\<close>

definition blank_line :: "u16 \<Rightarrow> bool \<Rightarrow> row" where
  "blank_line cols wrapped = (row_new cols)\<lparr>rw_wrapped := wrapped\<rparr>"

definition width_at :: "row \<Rightarrow> int \<Rightarrow> u8" where
  "width_at r col =
     (if col < 0 then 0
      else case vec_get (rw_cells r) (nat col) of
             None \<Rightarrow> 0
           | Some c \<Rightarrow> if is_wide_continuation c then 0 else if is_wide c then 2 else 1)"

definition has_content :: "row \<Rightarrow> usize \<Rightarrow> bool" where
  "has_content r col =
     (case vec_get (rw_cells r) col of None \<Rightarrow> False | Some c \<Rightarrow> has_contents c \<and> \<not> is_wide_continuation c)"

fun trimmed_rev :: "cell list \<Rightarrow> usize" where
  "trimmed_rev [] = 0"
| "trimmed_rev (c # cs) =
     (if has_contents c \<and> \<not> is_wide_continuation c then length cs + (if is_wide c then 2 else 1) else trimmed_rev cs)"

definition trimmed_len :: "row \<Rightarrow> usize" where
  "trimmed_len r = trimmed_rev (rev (rw_cells r))"

definition wrapped_line_trimmed_len :: "row list \<Rightarrow> usize \<Rightarrow> usize \<Rightarrow> usize option" where
  "wrapped_line_trimmed_len grp i cols =
     (if i + 1 = length grp then Some (trimmed_len (grp ! i))
      else do {
        r \<leftarrow> vec_get grp i;
        j \<leftarrow> checked_sub cols 1;
        let ends_in_null = (\<not> has_content r j \<and> width_at r (int cols - 1) = 1);
        next \<leftarrow> vec_get grp (i + 1);
        Some (if ends_in_null \<and> width_at next 0 = 2 then j else cols) })"

definition copy_cells :: "row list \<Rightarrow> usize \<Rightarrow> usize \<Rightarrow> usize \<Rightarrow> usize \<Rightarrow> usize \<Rightarrow> row list option" where
  "copy_cells grp src src_col dst dst_col len = do {
     s \<leftarrow> vec_get grp src;
     d \<leftarrow> vec_get grp dst;
     let k = min (min len (length (rw_cells s) - src_col)) (length (rw_cells d) - dst_col);
     if src_col + k \<le> length (rw_cells s)
     then let tmp = take k (drop src_col (rw_cells s))
          in Some (if k = 0 then grp
                   else grp[dst := d\<lparr>rw_cells := take dst_col (rw_cells d) @ tmp @ drop (dst_col + k) (rw_cells d)\<rparr>])
     else None }"

definition replace_cells :: "row \<Rightarrow> usize \<Rightarrow> usize \<Rightarrow> row" where
  "replace_cells r start stop =
     (let cs = rw_cells r;
          cs1 = (if 0 < start \<and> width_at r (int start - 1) = 2 then cs[start - 1 := cell_new] else cs);
          cs2 = (if stop < length cs1 \<and> 0 < stop \<and> width_at (r\<lparr>rw_cells := cs1\<rparr>) (int stop - 1) = 2 then cs1[stop := cell_new] else cs1)
      in r\<lparr>rw_cells := map (\<lambda>i. if start \<le> i \<and> i < stop then cell_new else cs2 ! i) [0..<length cs2]\<rparr>)"

fun line_lengths :: "nat \<Rightarrow> row list \<Rightarrow> usize \<Rightarrow> usize \<Rightarrow> usize \<Rightarrow> usize \<Rightarrow> usize \<Rightarrow> usize \<Rightarrow> usize list option" where
  "line_lengths 0 grp old_cols new_cols needed src_col src_line available = None"
| "line_lengths (Suc fuel) grp old_cols new_cols needed src_col src_line available =
     (if \<not> available < needed then Some []
      else if needed - available < new_cols then Some [needed - available]
      else do {
        old_trimmed \<leftarrow> wrapped_line_trimmed_len grp src_line old_cols;
        let (sc, sl) = (if old_trimmed < src_col + new_cols then (src_col + new_cols - old_trimmed, src_line + 1)
                        else (src_col + new_cols, src_line));
        let ends_with_wide = (case vec_get grp sl of Some r \<Rightarrow> width_at r (int sc - 1) = 2 | None \<Rightarrow> False);
        let len = (if ends_with_wide then new_cols - 1 else new_cols);
        rest \<leftarrow> line_lengths fuel grp old_cols new_cols needed (if ends_with_wide then sc - 1 else sc) sl (available + len);
        Some (len # rest) })"

definition new_line_lengths :: "row list \<Rightarrow> usize \<Rightarrow> usize \<Rightarrow> usize list option" where
  "new_line_lengths grp old_cols new_cols = do {
     ts \<leftarrow> map_opt (\<lambda>i. wrapped_line_trimmed_len grp i old_cols) [0..<length grp];
     line_lengths (Suc (sum_list ts)) grp old_cols new_cols (sum_list ts) 0 0 0 }"

record lines_buf =
  lb_lines :: "row list"
  lb_ybase :: usize
  lb_y :: usize
  lb_saved_y :: usize
  lb_max_len :: usize

section \<open>A wider screen\<close>

definition pull_down :: "usize \<Rightarrow> row list \<Rightarrow> usize \<Rightarrow> usize \<Rightarrow> (row list \<times> usize) option" where
  "pull_down new_cols grp dest_idx dest_col =
     (if dest_col = 0 \<and> dest_idx \<noteq> 0
      then do {
        prev \<leftarrow> vec_get grp (dest_idx - 1);
        if width_at prev (int new_cols - 1) = 2
        then do {
          g1 \<leftarrow> copy_cells grp (dest_idx - 1) (new_cols - 1) dest_idx dest_col 1;
          p \<leftarrow> vec_get g1 (dest_idx - 1);
          cs \<leftarrow> vec_set (rw_cells p) (new_cols - 1) cell_new;
          Some (g1[dest_idx - 1 := p\<lparr>rw_cells := cs\<rparr>], dest_col + 1) }
        else Some (grp, dest_col) }
      else Some (grp, dest_col))"

fun larger_copy :: "nat \<Rightarrow> usize \<Rightarrow> usize \<Rightarrow> row list \<Rightarrow> usize \<Rightarrow> usize \<Rightarrow> usize \<Rightarrow> usize \<Rightarrow> (row list \<times> usize \<times> usize) option" where
  "larger_copy 0 old_cols new_cols grp dest_idx dest_col src_idx src_col = None"
| "larger_copy (Suc fuel) old_cols new_cols grp dest_idx dest_col src_idx src_col =
     (if \<not> src_idx < length grp then Some (grp, dest_idx, dest_col)
      else do {
        src_trimmed \<leftarrow> wrapped_line_trimmed_len grp src_idx old_cols;
        src_remaining \<leftarrow> checked_sub src_trimmed src_col;
        dest_remaining \<leftarrow> checked_sub new_cols dest_col;
        let to_copy = min src_remaining dest_remaining;
        g1 \<leftarrow> copy_cells grp src_idx src_col dest_idx dest_col to_copy;
        let (di, dc) = (if dest_col + to_copy = new_cols then (dest_idx + 1, 0) else (dest_idx, dest_col + to_copy));
        let (si, sc) = (if src_col + to_copy = src_trimmed then (src_idx + 1, 0) else (src_idx, src_col + to_copy));
        (g2, dc2) \<leftarrow> pull_down new_cols g1 di dc;
        larger_copy fuel old_cols new_cols g2 di dc2 si sc })"

definition larger_group :: "usize \<Rightarrow> usize \<Rightarrow> row list \<Rightarrow> (row list \<times> usize) option" where
  "larger_group old_cols new_cols rows = do {
     let grp = map (pad_row new_cols) rows;
     dest_col \<leftarrow> wrapped_line_trimmed_len grp 0 old_cols;
     (g, di, dc) \<leftarrow> larger_copy (Suc (length grp * (new_cols + 1))) old_cols new_cols grp 0 dest_col 1 0;
     r \<leftarrow> vec_get g di;
     let g' = g[di := replace_cells r dc new_cols];
     Some (g', length (takeWhile (\<lambda>k. di < k \<or> trimmed_len (g' ! k) = 0) (rev [1..<length g']))) }"

text \<open>The scan: \<open>rest\<close> are the lines from index \<open>y\<close> on; the result is the lines and the ranges to remove.\<close>

function larger_scan :: "usize \<Rightarrow> usize \<Rightarrow> usize \<Rightarrow> usize \<Rightarrow> row list \<Rightarrow> (row list \<times> (usize \<times> usize) list) option" where
  "larger_scan old_cols new_cols abs_y y [] = Some ([], [])"
| "larger_scan old_cols new_cols abs_y y (r # rest) =
     (let tail = takeWhile rw_wrapped rest; n = Suc (length tail); after = drop (length tail) rest in
      if tail = [] \<or> y \<le> abs_y \<and> abs_y < y + n
      then map_option (\<lambda>(ls, rem). (r # tail @ ls, rem)) (larger_scan old_cols new_cols abs_y (y + n) after)
      else do {
        (g, count) \<leftarrow> larger_group old_cols new_cols (r # tail);
        (ls, rem) \<leftarrow> larger_scan old_cols new_cols abs_y (y + n) after;
        Some (g @ ls, (if 0 < count then [(y + n - count, count)] else []) @ rem) })"
  by pat_completeness auto

termination larger_scan
  by (relation "measure (\<lambda>(old_cols, new_cols, abs_y, y, ls). length ls)") auto

fun drop_removed :: "usize \<Rightarrow> usize \<Rightarrow> (usize \<times> usize) list \<Rightarrow> row list \<Rightarrow> row list \<times> usize" where
  "drop_removed idx skip rem [] = ([], 0)"
| "drop_removed idx skip rem (r # rs) =
     (let (skip1, removed1, rem1) =
            (case rem of (start, count) # rem' \<Rightarrow> if idx = start then (count, count, rem') else (skip, 0, rem) | [] \<Rightarrow> (skip, 0, rem))
      in if 0 < skip1
         then let (ks, n) = drop_removed (Suc idx) (skip1 - 1) rem1 rs in (ks, n + removed1)
         else let (ks, n) = drop_removed (Suc idx) skip1 rem1 rs in (r # ks, n + removed1))"

fun pull_up :: "nat \<Rightarrow> usize \<Rightarrow> usize \<Rightarrow> lines_buf \<Rightarrow> lines_buf" where
  "pull_up 0 new_cols new_rows b = b"
| "pull_up (Suc k) new_cols new_rows b =
     pull_up k new_cols new_rows
       (if lb_ybase b = 0
        then b\<lparr>lb_y := saturating_sub (lb_y b) 1,
               lb_lines := (if length (lb_lines b) < new_rows then lb_lines b @ [blank_line new_cols False] else lb_lines b)\<rparr>
        else b\<lparr>lb_ybase := lb_ybase b - 1\<rparr>)"

definition reflow_larger :: "usize \<Rightarrow> usize \<Rightarrow> usize \<Rightarrow> lines_buf \<Rightarrow> lines_buf option" where
  "reflow_larger old_cols new_cols new_rows b = do {
     (ls, rem) \<leftarrow> larger_scan old_cols new_cols (lb_ybase b + lb_y b) 0 (lb_lines b);
     if rem = [] then Some (b\<lparr>lb_lines := ls\<rparr>)
     else let (keep, removed) = drop_removed 0 0 rem ls;
              b1 = pull_up removed new_cols new_rows (b\<lparr>lb_lines := keep\<rparr>)
          in Some (b1\<lparr>lb_saved_y := saturating_sub (lb_saved_y b1) removed\<rparr>) }"

section \<open>A narrower screen\<close>

definition dest_at :: "usize list \<Rightarrow> int \<Rightarrow> usize" where
  "dest_at dest i = (if 0 \<le> i \<and> nat i < length dest then dest ! nat i else 0)"

fun smaller_copy :: "nat \<Rightarrow> usize \<Rightarrow> usize list \<Rightarrow> row list \<Rightarrow> int \<Rightarrow> usize \<Rightarrow> int \<Rightarrow> usize \<Rightarrow> row list option" where
  "smaller_copy 0 old_cols dest grp dest_idx dest_col src_idx src_col = None"
| "smaller_copy (Suc fuel) old_cols dest grp dest_idx dest_col src_idx src_col =
     (if src_idx < 0 then Some grp
      else if dest_idx < 0 \<or> \<not> nat dest_idx < length grp then Some grp
      else do {
        let to_copy = min src_col dest_col;
        g1 \<leftarrow> copy_cells grp (nat src_idx) (src_col - to_copy) (nat dest_idx) (dest_col - to_copy) to_copy;
        let (di, dc) = (if dest_col - to_copy = 0 then (dest_idx - 1, dest_at dest (dest_idx - 1)) else (dest_idx, dest_col - to_copy));
        (si, sc) \<leftarrow> (if src_col - to_copy = 0
                     then map_option (\<lambda>t. (src_idx - 1, t)) (wrapped_line_trimmed_len g1 (nat (max (src_idx - 1) 0)) old_cols)
                     else Some (src_idx, src_col - to_copy));
        if to_copy = 0 \<and> dc = 0 \<and> sc \<noteq> 0 \<and> di < 0 then Some g1
        else smaller_copy fuel old_cols dest g1 di dc si sc })"

fun blank_ends :: "usize \<Rightarrow> usize list \<Rightarrow> row list \<Rightarrow> row list option" where
  "blank_ends new_cols (len # dest) (r # rs) = do {
     cs \<leftarrow> (if len < new_cols then vec_set (rw_cells r) len cell_new else Some (rw_cells r));
     rs' \<leftarrow> blank_ends new_cols dest rs;
     Some (r\<lparr>rw_cells := cs\<rparr> # rs') }"
| "blank_ends new_cols dest rs = Some rs"

text \<open>The rows of a group and the number of lines it takes at the new width.\<close>

definition smaller_group :: "usize \<Rightarrow> usize \<Rightarrow> row list \<Rightarrow> (row list \<times> usize) option" where
  "smaller_group old_cols new_cols rows = do {
     let grp = map (pad_row old_cols) rows;
     let n = length grp;
     l \<leftarrow> vec_get grp (n - 1);
     let last_len = trimmed_len l;
     dest \<leftarrow> new_line_lengths grp old_cols new_cols;
     let m = length dest;
     let g0 = grp @ replicate (m - n) (blank_line new_cols True);
     let di0 = int m - 1;
     let dc0 = dest_at dest di0;
     let (di, dc) = (if dc0 = 0 then (di0 - 1, dest_at dest (di0 - 1)) else (di0, dc0));
     g1 \<leftarrow> smaller_copy (Suc (length g0 * (old_cols + 2))) old_cols dest g0 di dc (int n - 1) last_len;
     g2 \<leftarrow> blank_ends new_cols dest g1;
     Some (g2, m) }"

record smaller_state =
  ss_buf :: lines_buf
  ss_live_len :: usize
  ss_to_insert :: "(usize \<times> row list) list"
  ss_count :: usize

fun push_down :: "nat \<Rightarrow> usize \<Rightarrow> smaller_state \<Rightarrow> smaller_state" where
  "push_down 0 new_rows st = st"
| "push_down (Suc k) new_rows st =
     push_down k new_rows
       (let b = ss_buf st in
        if lb_ybase b = 0
        then (if lb_y b + 1 < new_rows
              then st\<lparr>ss_buf := b\<lparr>lb_y := lb_y b + 1\<rparr>, ss_live_len := saturating_sub (ss_live_len st) 1\<rparr>
              else st\<lparr>ss_buf := b\<lparr>lb_ybase := lb_ybase b + 1\<rparr>\<rparr>)
        else (let cap = min (lb_max_len b) (ss_live_len st + ss_count st)
              in if int (lb_ybase b) < int cap - int new_rows then st\<lparr>ss_buf := b\<lparr>lb_ybase := lb_ybase b + 1\<rparr>\<rparr> else st))"

fun group_start :: "row list \<Rightarrow> usize \<Rightarrow> usize" where
  "group_start ls 0 = 0"
| "group_start ls (Suc y) = (if rw_wrapped (ls ! Suc y) then group_start ls y else Suc y)"

lemma group_start_le: "group_start ls y \<le> y"
  by (induction y) (auto intro: le_SucI)

text \<open>One group, from row \<open>y\<close> to row \<open>end_row\<close>.\<close>

definition smaller_turn :: "usize \<Rightarrow> usize \<Rightarrow> usize \<Rightarrow> usize \<Rightarrow> usize \<Rightarrow> smaller_state \<Rightarrow> smaller_state option" where
  "smaller_turn old_cols new_cols new_rows y end_row st = do {
     let b = ss_buf st;
     let n = end_row - y + 1;
     (g, m) \<leftarrow> smaller_group old_cols new_cols (take n (drop y (lb_lines b)));
     let to_add = int m - int n;
     let trimmed = (if lb_ybase b = 0 \<and> lb_y b + 1 \<noteq> ss_live_len st
                    then max (int (lb_y b) - int (lb_max_len b) + to_add) 0
                    else max (int (ss_live_len st) - int (lb_max_len b) + to_add) 0);
     let add = nat (max to_add 0);
     let st1 = push_down (nat (to_add - trimmed)) new_rows (st\<lparr>ss_count := ss_count st + add\<rparr>);
     let b1 = ss_buf st1;
     s \<leftarrow> checked_sub (lb_ybase b1 + new_rows) 1;
     let b2 = b1\<lparr>lb_saved_y := min (lb_saved_y b1 + add) s,
                 lb_lines := take y (lb_lines b1) @ take n g @ drop (y + n) (lb_lines b1)\<rparr>;
     let extra = drop n g;
     Some (st1\<lparr>ss_buf := b2, ss_to_insert := ss_to_insert st1 @ (if extra = [] then [] else [(end_row + 1, extra)])\<rparr>) }"

function smaller_scan :: "usize \<Rightarrow> usize \<Rightarrow> usize \<Rightarrow> usize \<Rightarrow> smaller_state \<Rightarrow> smaller_state option" where
  "smaller_scan old_cols new_cols new_rows 0 st = Some st"
| "smaller_scan old_cols new_cols new_rows (Suc y) st =
     (let ls = lb_lines (ss_buf st); r = ls ! y in
      if \<not> rw_wrapped r \<and> trimmed_len r \<le> new_cols then smaller_scan old_cols new_cols new_rows y st
      else (let y0 = group_start ls y; abs_y = lb_ybase (ss_buf st) + lb_y (ss_buf st) in
            if y0 \<le> abs_y \<and> abs_y \<le> y then smaller_scan old_cols new_cols new_rows y0 st
            else case smaller_turn old_cols new_cols new_rows y0 y st of
                   None \<Rightarrow> None
                 | Some st' \<Rightarrow> smaller_scan old_cols new_cols new_rows y0 st'))"
  by pat_completeness auto

termination smaller_scan
  by (relation "measure (\<lambda>(old_cols, new_cols, new_rows, y, st). y)") (auto simp: le_imp_less_Suc group_start_le)

fun merge_inserts :: "usize \<Rightarrow> row list \<Rightarrow> (usize \<times> row list) list \<Rightarrow> row list" where
  "merge_inserts idx [] pending = concat (map snd pending)"
| "merge_inserts idx (r # rs) pending =
     r # concat (map snd (takeWhile (\<lambda>p. fst p = idx + 1) pending))
       @ merge_inserts (Suc idx) rs (dropWhile (\<lambda>p. fst p = idx + 1) pending)"

definition reflow_smaller :: "usize \<Rightarrow> usize \<Rightarrow> usize \<Rightarrow> lines_buf \<Rightarrow> lines_buf option" where
  "reflow_smaller old_cols new_cols new_rows b = do {
     st \<leftarrow> smaller_scan old_cols new_cols new_rows (length (lb_lines b))
            \<lparr>ss_buf = b, ss_live_len = length (lb_lines b), ss_to_insert = [], ss_count = 0\<rparr>;
     let b1 = ss_buf st;
     let ls = take (ss_live_len st) (lb_lines b1);
     if ss_to_insert st = [] then Some (b1\<lparr>lb_lines := ls\<rparr>)
     else let out = merge_inserts 0 ls (sort_key fst (ss_to_insert st))
          in Some (b1\<lparr>lb_lines := drop (saturating_sub (length out) (lb_max_len b1)) out\<rparr>) }"

section \<open>Resizing\<close>

fun grow_rows :: "nat \<Rightarrow> u16 \<Rightarrow> usize \<Rightarrow> usize \<Rightarrow> lines_buf \<Rightarrow> usize \<times> lines_buf" where
  "grow_rows 0 cols new_rows add_to_y b = (add_to_y, b)"
| "grow_rows (Suc k) cols new_rows add_to_y b =
     (if length (lb_lines b) < new_rows + lb_ybase b
      then if 0 < lb_ybase b \<and> length (lb_lines b) \<le> lb_ybase b + lb_y b + add_to_y + 1
           then grow_rows k cols new_rows (add_to_y + 1) (b\<lparr>lb_ybase := lb_ybase b - 1\<rparr>)
           else grow_rows k cols new_rows add_to_y (b\<lparr>lb_lines := lb_lines b @ [blank_line cols False]\<rparr>)
      else grow_rows k cols new_rows add_to_y b)"

fun shrink_rows :: "nat \<Rightarrow> usize \<Rightarrow> lines_buf \<Rightarrow> lines_buf" where
  "shrink_rows 0 new_rows b = b"
| "shrink_rows (Suc k) new_rows b =
     shrink_rows k new_rows
       (if new_rows + lb_ybase b < length (lb_lines b)
        then if lb_ybase b + lb_y b + 1 < length (lb_lines b) then b\<lparr>lb_lines := butlast (lb_lines b)\<rparr>
             else b\<lparr>lb_ybase := lb_ybase b + 1\<rparr>
        else b)"

definition trim_top :: "usize \<Rightarrow> lines_buf \<Rightarrow> usize \<times> lines_buf" where
  "trim_top old_max b =
     (let trim = saturating_sub (length (lb_lines b)) (lb_max_len b) in
      if lb_max_len b < old_max \<and> 0 < trim
      then (trim, b\<lparr>lb_lines := drop trim (lb_lines b), lb_ybase := saturating_sub (lb_ybase b) trim,
                    lb_saved_y := saturating_sub (lb_saved_y b) trim\<rparr>)
      else (0, b))"

definition crop_row :: "usize \<Rightarrow> row \<Rightarrow> row" where
  "crop_row cols r =
     (if cols < length (rw_cells r)
      then (let cs = take cols (rw_cells r)
            in r\<lparr>rw_cells := (if cs \<noteq> [] \<and> is_wide (last cs) then cs[length cs - 1 := cell_new] else cs)\<rparr>)
      else r)"

definition fit_row :: "usize \<Rightarrow> row \<Rightarrow> row" where
  "fit_row cols r = r\<lparr>rw_cells := vec_resize cols cell_new (rw_cells r)\<rparr>"

text \<open>Default tab stops from the nearest stop below the new width on.\<close>

definition resize_tab_stops :: "usize \<Rightarrow> bool list \<Rightarrow> bool list" where
  "resize_tab_stops cols stops =
     (let ts = vec_resize cols False stops;
          c = (case filter (\<lambda>i. ts ! i) [1..<cols] of [] \<Rightarrow> 0 | is \<Rightarrow> last is)
      in map (\<lambda>i. if c \<le> i \<and> (i - c) mod 8 = 0 then i \<noteq> 0 else ts ! i) [0..<cols])"

definition resize_lines :: "bool \<Rightarrow> vt_size \<Rightarrow> grid \<Rightarrow> (usize \<times> lines_buf) option" where
  "resize_lines reflow sz g =
     (let old_cols = ncols g; new_cols = sz_cols sz; new_rows = sz_rows sz; old_rows = nrows g;
          sb_len = length (g_scrollback g);
          rows1 = (if old_cols < new_cols then map (fit_row new_cols) (g_rows g) else g_rows g);
          b0 = \<lparr>lb_lines = g_scrollback g @ rows1, lb_ybase = sb_len, lb_y = cur_row g,
                lb_saved_y = (if g_saved_set g then sb_len + p_row (g_saved_pos g) else 0), lb_max_len = g_scrollback_len g + new_rows\<rparr>;
          (add_to_y, b1) = (if old_rows < new_rows then grow_rows (new_rows - old_rows) new_cols new_rows 0 b0
                            else (0, shrink_rows (old_rows - new_rows) new_rows b0));
          (trim, b2) = trim_top (g_scrollback_len g + old_rows) b1
      in do {
        last_row \<leftarrow> checked_sub new_rows 1;
        let b3 = b2\<lparr>lb_y := min (lb_y b2) last_row + add_to_y\<rparr>;
        b4 \<leftarrow> (if reflow \<and> old_cols \<noteq> new_cols \<and> 2 \<le> new_cols
               then if old_cols < new_cols then reflow_larger old_cols new_cols new_rows b3 else reflow_smaller old_cols new_cols new_rows b3
               else Some b3);
        Some (trim, b4) })"

definition grid_set_size :: "vt_size \<Rightarrow> bool \<Rightarrow> grid \<Rightarrow> grid option" where
  "grid_set_size sz reflow g =
     (if sz = g_size g then Some g
      else do {
        (trim, b) \<leftarrow> resize_lines reflow sz g;
        let new_cols = sz_cols sz;
        let new_rows = sz_rows sz;
        let cropped = map (crop_row new_cols) (lb_lines b);
        let fitted = take (lb_ybase b) cropped @ map (fit_row new_cols) (drop (lb_ybase b) cropped);
        let need = lb_ybase b + new_rows;
        let ls = take need (fitted @ replicate (need - length fitted) (blank_line new_cols False));
        last_row \<leftarrow> checked_sub new_rows 1;
        last_col \<leftarrow> checked_sub new_cols 1;
        let g1 = g\<lparr>g_freed_rows := g_freed_rows g + trim, g_scrollback := take (lb_ybase b) ls, g_rows := drop (lb_ybase b) ls,
                   g_size := sz, g_pos := \<lparr>p_row = min (lb_y b) last_row, p_col = min (cur_col g) last_col\<rparr>,
                   g_saved_pos := \<lparr>p_row = min (saturating_sub (lb_saved_y b) (lb_ybase b)) last_row,
                                   p_col = min (p_col (g_saved_pos g)) last_col\<rparr>,
                   g_scroll_top := 0, g_scroll_bottom := last_row,
                   g_scrollback_offset := min (g_scrollback_offset g) (length (take (lb_ybase b) ls)),
                   g_tab_stops := resize_tab_stops new_cols (g_tab_stops g)\<rparr>;
        Some (pad_scrollback_window g1) })"

definition screen_set_size :: "u16 \<Rightarrow> u16 \<Rightarrow> screen \<Rightarrow> screen option" where
  "screen_set_size rows cols s = do {
     let sz = \<lparr>sz_rows = rows, sz_cols = cols\<rparr>;
     g \<leftarrow> grid_set_size sz True (sc_grid s);
     a \<leftarrow> grid_set_size sz False (sc_alternate_grid s);
     Some (s\<lparr>sc_grid := g, sc_alternate_grid := a\<rparr>) }"

end
