(* ===== verification/Proto.thy ===== *)
theory Proto
  imports Engine_Properties
begin

text \<open>
  The messages of \<open>proto/tymux/v1/tymux.proto\<close> that describe sessions, panes and restart policies, and
  the conversions of \<open>crates/tymuxd/src/main.rs\<close> between them and the engine's own types.

  \<^item> An enum field of a message is the \<open>i32\<close> that goes over the wire. \<open>x as i32\<close> is \<open>x_i32\<close> and the
    generated \<open>TryFrom<i32>\<close> is \<open>x_try_from\<close>, by the numbers of the proto file.
  \<^item> The text form of a \<open>Uuid\<close> belongs to the uuid crate: \<open>show_id\<close> and \<open>parse_id\<close> are arguments of the
    definitions that use them.
  \<^item> A gRPC \<open>Status\<close> is its code and the reason of its \<open>ErrorInfo\<close>; the wording of the messages is left out.
\<close>

section \<open>Messages\<close>

datatype liveness = LivenessUnspecified | LivenessLive | LivenessDead

fun liveness_i32 :: "liveness \<Rightarrow> i32" where
  "liveness_i32 LivenessUnspecified = 0" | "liveness_i32 LivenessLive = 1" | "liveness_i32 LivenessDead = 2"

datatype proto_orientation = OrientationUnspecified | OrientationHorizontal | OrientationVertical

fun orientation_i32 :: "proto_orientation \<Rightarrow> i32" where
  "orientation_i32 OrientationUnspecified = 0" | "orientation_i32 OrientationHorizontal = 1" | "orientation_i32 OrientationVertical = 2"

definition orientation_try_from :: "i32 \<Rightarrow> proto_orientation option" where
  "orientation_try_from n = (if n = 0 then Some OrientationUnspecified else if n = 1 then Some OrientationHorizontal
     else if n = 2 then Some OrientationVertical else None)"

datatype proto_state = StateUnspecified | StateLive | StateExited | StateBackoff | StateRestarting | StateFailed | StateStopped

fun state_i32 :: "proto_state \<Rightarrow> i32" where
  "state_i32 StateUnspecified = 0" | "state_i32 StateLive = 1" | "state_i32 StateExited = 2" | "state_i32 StateBackoff = 3"
| "state_i32 StateRestarting = 4" | "state_i32 StateFailed = 5" | "state_i32 StateStopped = 6"

datatype proto_mode = ModeUnspecified | ModeNever | ModeOnFailure | ModeAlways | ModeUnlessStopped

fun mode_i32 :: "proto_mode \<Rightarrow> i32" where
  "mode_i32 ModeUnspecified = 0" | "mode_i32 ModeNever = 1" | "mode_i32 ModeOnFailure = 2" | "mode_i32 ModeAlways = 3"
| "mode_i32 ModeUnlessStopped = 4"

definition mode_try_from :: "i32 \<Rightarrow> proto_mode option" where
  "mode_try_from n = (if n = 0 then Some ModeUnspecified else if n = 1 then Some ModeNever else if n = 2 then Some ModeOnFailure
     else if n = 3 then Some ModeAlways else if n = 4 then Some ModeUnlessStopped else None)"

record proto_pane =
  xp_id :: string
  xp_rows :: u32
  xp_cols :: u32
  xp_liveness :: i32
  xp_cwd :: string
  xp_state :: i32

datatype proto_layout = ProtoLayout "proto_node option"
and proto_node = NodePane proto_pane | NodeSplit i32 "proto_child list"
and proto_child = LayoutChild "proto_layout option" fp

record proto_window =
  xw_id :: string
  xw_name :: string
  xw_layout :: "proto_layout option"

record proto_session =
  xs_id :: string
  xs_name :: string
  xs_windows :: "proto_window list"
  xs_liveness :: i32

record proto_policy =
  xr_mode :: i32
  xr_max_restarts :: "u32 option"
  xr_window_ms :: "u64 option"
  xr_initial_delay_ms :: "u64 option"
  xr_multiplier :: "fp option"
  xr_max_delay_ms :: "u64 option"
  xr_jitter :: "fp option"
  xr_healthy_after_ms :: "u64 option"

record proto_pane_status =
  xt_pane_id :: string
  xt_state :: i32
  xt_policy :: "proto_policy option"
  xt_restart_count :: u32
  xt_restarts_in_window :: u32
  xt_consecutive_failures :: u32
  xt_last_exit_code :: "i32 option"
  xt_last_exit_signal :: "i32 option"
  xt_last_exit_at :: "int option"
  xt_next_restart_at :: "int option"
  xt_started_at :: "int option"
  xt_uptime_ms :: u64
  xt_pid :: "u32 option"
  xt_now :: int

record proto_lifecycle_event =
  xe_kind :: i32
  xe_state :: i32
  xe_exit_code :: "i32 option"
  xe_exit_signal :: "i32 option"
  xe_delay_ms :: "u64 option"
  xe_next_restart_at :: "int option"
  xe_pid :: "u32 option"
  xe_restart_count :: u32
  xe_at :: int

datatype grpc_code = InvalidArgument | NotFound | FailedPrecondition | Internal

record status =
  gs_code :: grpc_code
  gs_reason :: "string option"

definition plain :: "grpc_code \<Rightarrow> status" where
  "plain c = \<lparr>gs_code = c, gs_reason = None\<rparr>"

section \<open>To the wire\<close>

definition liveness_of :: "bool \<Rightarrow> liveness" where
  "liveness_of live = (if live then LivenessLive else LivenessDead)"

fun orientation_to_proto :: "orientation \<Rightarrow> proto_orientation" where
  "orientation_to_proto Horizontal = OrientationHorizontal"
| "orientation_to_proto Vertical = OrientationVertical"

fun state_to_proto :: "lifecycle_state \<Rightarrow> proto_state" where
  "state_to_proto Live = StateLive"
| "state_to_proto Exited = StateExited"
| "state_to_proto Backoff = StateBackoff"
| "state_to_proto Restarting = StateRestarting"
| "state_to_proto Failed = StateFailed"
| "state_to_proto Stopped = StateStopped"

fun mode_to_proto :: "restart_mode \<Rightarrow> proto_mode" where
  "mode_to_proto Never = ModeNever"
| "mode_to_proto OnFailure = ModeOnFailure"
| "mode_to_proto Always = ModeAlways"
| "mode_to_proto UnlessStopped = ModeUnlessStopped"

definition policy_to_proto :: "restart_policy \<Rightarrow> proto_policy" where
  "policy_to_proto p = \<lparr>xr_mode = mode_i32 (mode_to_proto (rp_mode p)), xr_max_restarts = Some (rp_max_restarts p),
     xr_window_ms = Some (rp_window_ms p), xr_initial_delay_ms = Some (rp_initial_delay_ms p), xr_multiplier = Some (rp_multiplier p),
     xr_max_delay_ms = Some (rp_max_delay_ms p), xr_jitter = Some (rp_jitter p), xr_healthy_after_ms = Some (rp_healthy_after_ms p)\<rparr>"

text \<open>\<open>i64::try_from(ms).unwrap_or(i64::MAX)\<close>.\<close>

definition unix_ms :: "u64 \<Rightarrow> int" where
  "unix_ms ms = (if ms < 2 ^ 63 then int ms else 2 ^ 63 - 1)"

definition status_to_proto :: "(uuid \<Rightarrow> string) \<Rightarrow> pane_status \<Rightarrow> proto_pane_status" where
  "status_to_proto show_id st =
     (let v = st_view st; e = sv_last_exit v
      in \<lparr>xt_pane_id = show_id (st_pane_id st), xt_state = state_i32 (state_to_proto (sv_state v)),
          xt_policy = Some (policy_to_proto (sv_policy v)), xt_restart_count = sv_restart_count v,
          xt_restarts_in_window = sv_restarts_in_window v, xt_consecutive_failures = sv_consecutive_failures v,
          xt_last_exit_code = Option.bind e er_code, xt_last_exit_signal = Option.bind e er_signal,
          xt_last_exit_at = map_option (\<lambda>x. unix_ms (er_at_ms x)) e,
          xt_next_restart_at = map_option unix_ms (sv_next_restart_at_ms v),
          xt_started_at = map_option unix_ms (sv_started_at_ms v),
          xt_uptime_ms = (case (st_pid st, sv_started_at_ms v) of (Some _, Some started) \<Rightarrow> saturating_sub (st_now_ms st) started | _ \<Rightarrow> 0),
          xt_pid = st_pid st, xt_now = unix_ms (st_now_ms st)\<rparr>)"

fun event_kind_i32 :: "lifecycle_event_kind \<Rightarrow> i32" where
  "event_kind_i32 EvExited = 1" | "event_kind_i32 EvRestartScheduled = 2" | "event_kind_i32 EvRestarted = 3"
| "event_kind_i32 EvFailed = 4" | "event_kind_i32 EvStopped = 5"

definition lifecycle_event_to_proto :: "lifecycle_event \<Rightarrow> proto_lifecycle_event" where
  "lifecycle_event_to_proto e =
     \<lparr>xe_kind = event_kind_i32 (ev_kind e), xe_state = state_i32 (state_to_proto (ev_state e)), xe_exit_code = ev_exit_code e,
      xe_exit_signal = ev_exit_signal e, xe_delay_ms = ev_delay_ms e, xe_next_restart_at = map_option unix_ms (ev_next_restart_at_ms e),
      xe_pid = ev_pid e, xe_restart_count = ev_restart_count e, xe_at = unix_ms (ev_at_ms e)\<rparr>"

definition pane_to_proto :: "(uuid \<Rightarrow> string) \<Rightarrow> pane_info \<Rightarrow> proto_pane" where
  "pane_to_proto show_id i = \<lparr>xp_id = show_id (pi_id i), xp_rows = pi_rows i, xp_cols = pi_cols i,
     xp_liveness = liveness_i32 (liveness_of (pi_live i)), xp_cwd = pi_cwd i, xp_state = state_i32 (state_to_proto (pi_state i))\<rparr>"

fun layout_snapshot_to_proto :: "(uuid \<Rightarrow> string) \<Rightarrow> layout_snapshot \<Rightarrow> proto_layout" where
  "layout_snapshot_to_proto show_id (SLeaf i) = ProtoLayout (Some (NodePane (pane_to_proto show_id i)))"
| "layout_snapshot_to_proto show_id (SSplit o' cs) = ProtoLayout (Some (NodeSplit (orientation_i32 (orientation_to_proto o'))
     (map (\<lambda>(c, r). LayoutChild (Some (layout_snapshot_to_proto show_id c)) r) cs)))"

definition window_to_proto :: "(uuid \<Rightarrow> string) \<Rightarrow> window_snapshot \<Rightarrow> proto_window" where
  "window_to_proto show_id w = \<lparr>xw_id = show_id (ws_id w), xw_name = ws_name w,
     xw_layout = Some (layout_snapshot_to_proto show_id (ws_layout w))\<rparr>"

definition session_to_proto :: "(uuid \<Rightarrow> string) \<Rightarrow> session_snapshot \<Rightarrow> proto_session" where
  "session_to_proto show_id s = \<lparr>xs_id = show_id (sx_id s), xs_name = sx_name s, xs_windows = map (window_to_proto show_id) (sx_windows s),
     xs_liveness = liveness_i32 (liveness_of (sx_live s))\<rparr>"

section \<open>From the wire\<close>

definition parse_uuid :: "(string \<Rightarrow> uuid option) \<Rightarrow> string \<Rightarrow> status + uuid" where
  "parse_uuid parse_id s = (case parse_id s of Some u \<Rightarrow> Inr u | None \<Rightarrow> Inl (plain InvalidArgument))"

definition orientation_from_proto :: "i32 \<Rightarrow> status + orientation" where
  "orientation_from_proto n = (case orientation_try_from n of
     Some OrientationHorizontal \<Rightarrow> Inr Horizontal
   | Some OrientationVertical \<Rightarrow> Inr Vertical
   | _ \<Rightarrow> Inl (plain InvalidArgument))"

fun unwrap_or :: "'a option \<Rightarrow> 'a \<Rightarrow> 'a" where
  "unwrap_or (Some x) d = x"
| "unwrap_or None d = d"

definition mode_from_proto :: "i32 \<Rightarrow> status + restart_mode" where
  "mode_from_proto n = (case mode_try_from n of
     Some ModeNever \<Rightarrow> Inr Never
   | Some ModeOnFailure \<Rightarrow> Inr OnFailure
   | Some ModeAlways \<Rightarrow> Inr Always
   | Some ModeUnlessStopped \<Rightarrow> Inr UnlessStopped
   | _ \<Rightarrow> Inl (plain InvalidArgument))"

text \<open>Unset optional fields take the values of the default policy.\<close>

definition over_defaults :: "restart_mode \<Rightarrow> proto_policy \<Rightarrow> restart_policy" where
  "over_defaults mode p =
     (let d = default_policy
      in \<lparr>rp_mode = mode, rp_max_restarts = unwrap_or (xr_max_restarts p) (rp_max_restarts d),
          rp_window_ms = unwrap_or (xr_window_ms p) (rp_window_ms d),
          rp_initial_delay_ms = unwrap_or (xr_initial_delay_ms p) (rp_initial_delay_ms d),
          rp_multiplier = unwrap_or (xr_multiplier p) (rp_multiplier d),
          rp_max_delay_ms = unwrap_or (xr_max_delay_ms p) (rp_max_delay_ms d),
          rp_jitter = unwrap_or (xr_jitter p) (rp_jitter d),
          rp_healthy_after_ms = unwrap_or (xr_healthy_after_ms p) (rp_healthy_after_ms d)\<rparr>)"

definition policy_from_proto :: "proto_policy \<Rightarrow> status + restart_policy" where
  "policy_from_proto p =
     (case mode_from_proto (xr_mode p) of Inl e \<Rightarrow> Inl e | Inr mode \<Rightarrow>
        let policy = over_defaults mode p
        in case policy_validate policy of Inl _ \<Rightarrow> Inl (plain InvalidArgument) | Inr _ \<Rightarrow> Inr policy)"

text \<open>\<open>spec.source\<close>, the oneof of an \<open>ArgSpec\<close> message.\<close>

definition arg_spec_from_proto :: "arg_spec option \<Rightarrow> status + arg_spec" where
  "arg_spec_from_proto source = (case source of Some s \<Rightarrow> Inr s | None \<Rightarrow> Inl (plain InvalidArgument))"

section \<open>Errors\<close>

fun engine_error_to_status :: "engine_error \<Rightarrow> status" where
  "engine_error_to_status (Supervision.PaneNotFound i) = plain NotFound"
| "engine_error_to_status (SessionNotFound i) = plain NotFound"
| "engine_error_to_status (EngineBelowMinimumSize r c) = plain FailedPrecondition"
| "engine_error_to_status (EngineBelowRecommendedSize r) = plain FailedPrecondition"
| "engine_error_to_status (ReviveLaunch i m) = plain FailedPrecondition"
| "engine_error_to_status (PaneStopped i) = plain FailedPrecondition"
| "engine_error_to_status (PaneFailed i) = plain FailedPrecondition"
| "engine_error_to_status (PaneRunning i) = plain FailedPrecondition"
| "engine_error_to_status (InvalidRestartPolicy why) = plain InvalidArgument"
| "engine_error_to_status (PaneStart i m) = plain FailedPrecondition"

datatype launch_error_kind = LaunchInvalid | LaunchNotFound | LaunchPrecondition

text \<open>\<open>kind\<close> tells whether a spawn error is a \<open>LaunchError\<close>, and of which kind.\<close>

definition spawn_error_to_status :: "(string \<Rightarrow> launch_error_kind option) \<Rightarrow> create_error \<Rightarrow> status" where
  "spawn_error_to_status kind e = (case e of
     CreatePolicy _ \<Rightarrow> plain Internal
   | CreateSpawn m \<Rightarrow> (case kind m of Some LaunchInvalid \<Rightarrow> plain InvalidArgument | Some LaunchNotFound \<Rightarrow> plain NotFound
       | Some LaunchPrecondition \<Rightarrow> plain FailedPrecondition | None \<Rightarrow> plain Internal))"

definition REASON_PANE_EXITED :: string where "REASON_PANE_EXITED = ''PANE_EXITED''"
definition REASON_PANE_RESTORED_WITHOUT_SCREEN :: string where "REASON_PANE_RESTORED_WITHOUT_SCREEN = ''PANE_RESTORED_WITHOUT_SCREEN''"

definition dead_pane_status :: "engine \<Rightarrow> uuid \<Rightarrow> status" where
  "dead_pane_status g p = \<lparr>gs_code = FailedPrecondition,
     gs_reason = Some (if exited_pane g p \<noteq> None then REASON_PANE_EXITED else REASON_PANE_RESTORED_WITHOUT_SCREEN)\<rparr>"

section \<open>Which panes a request may use\<close>

definition resolve_live_pane :: "engine \<Rightarrow> uuid \<Rightarrow> status + nat" where
  "resolve_live_pane g p = (case lookup_pane g p of
     LookupLive r \<Rightarrow> Inr r | LookupDead \<Rightarrow> Inl (dead_pane_status g p) | LookupUnknown \<Rightarrow> Inl (plain NotFound))"

definition resolve_attachable_pane :: "engine \<Rightarrow> uuid \<Rightarrow> status + nat" where
  "resolve_attachable_pane g p = (case resolve_live_pane g p of Inr r \<Rightarrow> Inr r | Inl st \<Rightarrow>
     (case held_pane g p of
        Some r \<Rightarrow> (case pane_at g r of Some pp \<Rightarrow> if pn_restart_pending pp then Inr r else Inl st | None \<Rightarrow> Inl st)
      | None \<Rightarrow> Inl st))"

definition resolve_readable_pane :: "engine \<Rightarrow> uuid \<Rightarrow> status + nat" where
  "resolve_readable_pane g p = (case resolve_live_pane g p of Inr r \<Rightarrow> Inr r | Inl st \<Rightarrow>
     (case exited_pane g p of Some r \<Rightarrow> Inr r | None \<Rightarrow> Inl st))"

section \<open>Lemmas\<close>

lemma mode_from_to: "mode_from_proto (mode_i32 (mode_to_proto m)) = Inr m"
  by (cases m) (simp_all add: mode_from_proto_def mode_try_from_def)

lemma over_defaults_to: "over_defaults (rp_mode p) (policy_to_proto p) = p"
  by (simp add: over_defaults_def policy_to_proto_def)

lemma policy_from_to: "policy_validate p = Inr () \<Longrightarrow> policy_from_proto (policy_to_proto p) = Inr p"
  using mode_from_to [of "rp_mode p"] over_defaults_to [of p] by (simp add: policy_from_proto_def policy_to_proto_def)

lemma policy_from_valid: "policy_from_proto p = Inr q \<Longrightarrow> policy_validate q = Inr ()"
  by (auto simp: policy_from_proto_def Let_def split: sum.splits)

end
