(* ===== verification/Cli_Target.thy ===== *)
theory Cli_Target
  imports Proto
begin

text \<open>
  How the command line client names a pane and changes its restart policy
  (\<open>crates/tymux-cli/src/main.rs\<close>): the target \<open>session:window.pane\<close>, its resolution against the sessions the
  daemon lists, cycling through windows, the check before attaching, and the policy flags.

  Strings are the UTF-8 bytes of the source's strings; the separators are ASCII. \<open>parse_usize\<close> is
  \<open>str::parse::<usize>\<close>, which accepts a leading plus sign. Errors carry their cause, not their wording.
\<close>

section \<open>Targets\<close>

record target_string =
  ts_session :: string
  ts_window_index :: usize
  ts_pane_index :: usize

datatype target_error = NoSessionName | NoPanePart | BadWindowIndex | BadPaneIndex | NoSuchSession | NoSuchWindow | NoSuchPane

fun split_once :: "char \<Rightarrow> string \<Rightarrow> (string \<times> string) option" where
  "split_once c [] = None"
| "split_once c (x # xs) = (if x = c then Some ([], xs) else map_option (\<lambda>(a, b). (x # a, b)) (split_once c xs))"

definition digit_value :: "char \<Rightarrow> nat option" where
  "digit_value c = (if 48 \<le> (of_char c :: nat) \<and> (of_char c :: nat) \<le> 57 then Some (of_char c - 48) else None)"

fun parse_decimal :: "nat \<Rightarrow> string \<Rightarrow> usize option" where
  "parse_decimal acc [] = Some acc"
| "parse_decimal acc (c # cs) = (case digit_value c of None \<Rightarrow> None | Some d \<Rightarrow>
     if 10 * acc + d \<le> u64_max then parse_decimal (10 * acc + d) cs else None)"

definition parse_usize :: "string \<Rightarrow> usize option" where
  "parse_usize s = (let ds = (case s of c # cs \<Rightarrow> if c = CHR ''+'' then cs else s | [] \<Rightarrow> [])
     in if ds = [] then None else parse_decimal 0 ds)"

definition target_parse :: "string \<Rightarrow> target_error + target_string" where
  "target_parse s =
     (let (session, rest) = (case split_once (CHR '':'') s of Some (a, b) \<Rightarrow> (a, Some b) | None \<Rightarrow> (s, None))
      in if session = [] then Inl NoSessionName
         else case rest of
           None \<Rightarrow> Inr \<lparr>ts_session = session, ts_window_index = 0, ts_pane_index = 0\<rparr>
         | Some r \<Rightarrow>
             (case split_once (CHR ''.'') r of
                None \<Rightarrow> Inl NoPanePart
              | Some (window_str, pane_str) \<Rightarrow>
                  (case parse_usize window_str of None \<Rightarrow> Inl BadWindowIndex | Some w \<Rightarrow>
                  (case parse_usize pane_str of None \<Rightarrow> Inl BadPaneIndex | Some p \<Rightarrow>
                     Inr \<lparr>ts_session = session, ts_window_index = w, ts_pane_index = p\<rparr>))))"

section \<open>Panes of a session\<close>

fun walk :: "proto_node \<Rightarrow> proto_pane list" where
  "walk (NodePane p) = [p]"
| "walk (NodeSplit o' cs) = concat (map (\<lambda>c. case c of
     LayoutChild (Some (ProtoLayout (Some n))) _ \<Rightarrow> walk n | _ \<Rightarrow> []) cs)"

definition flatten_panes :: "proto_window \<Rightarrow> proto_pane list" where
  "flatten_panes w = (case xw_layout w of Some (ProtoLayout (Some n)) \<Rightarrow> walk n | _ \<Rightarrow> [])"

definition nth_checked :: "'a list \<Rightarrow> usize \<Rightarrow> 'a option" where
  "nth_checked xs i = (if i < length xs then Some (xs ! i) else None)"

definition target_resolve :: "target_string \<Rightarrow> proto_session \<Rightarrow> target_error + proto_pane" where
  "target_resolve t s =
     (case nth_checked (xs_windows s) (ts_window_index t) of None \<Rightarrow> Inl NoSuchWindow | Some w \<Rightarrow>
     (case nth_checked (flatten_panes w) (ts_pane_index t) of None \<Rightarrow> Inl NoSuchPane | Some p \<Rightarrow> Inr p))"

definition resolve_target :: "proto_session list \<Rightarrow> target_string \<Rightarrow> target_error + proto_pane" where
  "resolve_target sessions t =
     (case find (\<lambda>s. xs_name s = ts_session t) sessions of None \<Rightarrow> Inl NoSuchSession | Some s \<Rightarrow> target_resolve t s)"

definition first_pane_id :: "proto_session \<Rightarrow> target_error + string" where
  "first_pane_id s = (case xs_windows s of [] \<Rightarrow> Inl NoSuchWindow | w # _ \<Rightarrow>
     (case flatten_panes w of [] \<Rightarrow> Inl NoSuchPane | p # _ \<Rightarrow> Inr (xp_id p)))"

text \<open>The check before \<open>attach\<close> opens its stream: \<open>False\<close> is the error that points at \<open>tymux revive\<close>.\<close>

definition check_attach_liveness :: "proto_pane \<Rightarrow> bool" where
  "check_attach_liveness p \<longleftrightarrow> xp_liveness p \<noteq> liveness_i32 LivenessDead"

text \<open>\<open>position_of\<close>, and the pane that the next- and previous-window keys switch to.\<close>

fun position_of :: "('a \<Rightarrow> bool) \<Rightarrow> 'a list \<Rightarrow> usize option" where
  "position_of P [] = None"
| "position_of P (x # xs) = (if P x then Some 0 else map_option Suc (position_of P xs))"

definition adjacent_window_pane :: "proto_session list \<Rightarrow> string \<Rightarrow> string \<Rightarrow> bool \<Rightarrow> target_error + string option" where
  "adjacent_window_pane sessions session_name current forward =
     (case find (\<lambda>s. xs_name s = session_name) sessions of None \<Rightarrow> Inl NoSuchSession | Some s \<Rightarrow>
        let ws = xs_windows s; n = length ws
        in if n < 2 then Inr None
           else case position_of (\<lambda>w. list_ex (\<lambda>p. xp_id p = current) (flatten_panes w)) ws of
                  None \<Rightarrow> Inr None
                | Some i \<Rightarrow>
                    (let next = (if forward then (i + 1) mod n else (i + n - 1) mod n)
                     in Inr (case flatten_panes (ws ! next) of [] \<Rightarrow> None | p # _ \<Rightarrow> Some (xp_id p))))"

section \<open>Policies\<close>

datatype restart_mode_arg = ArgNever | ArgOnFailure | ArgAlways | ArgUnlessStopped

fun mode_of_arg :: "restart_mode_arg \<Rightarrow> proto_mode" where
  "mode_of_arg ArgNever = ModeNever"
| "mode_of_arg ArgOnFailure = ModeOnFailure"
| "mode_of_arg ArgAlways = ModeAlways"
| "mode_of_arg ArgUnlessStopped = ModeUnlessStopped"

record policy_flags =
  pf_mode :: "restart_mode_arg option"
  pf_max_restarts :: "u32 option"
  pf_window_ms :: "u64 option"
  pf_initial_delay_ms :: "u64 option"
  pf_multiplier :: "fp option"
  pf_max_delay_ms :: "u64 option"
  pf_jitter :: "fp option"
  pf_healthy_after_ms :: "u64 option"

definition flags_empty :: "policy_flags \<Rightarrow> bool" where
  "flags_empty f \<longleftrightarrow> pf_mode f = None \<and> pf_max_restarts f = None \<and> pf_window_ms f = None \<and> pf_initial_delay_ms f = None
     \<and> pf_multiplier f = None \<and> pf_max_delay_ms f = None \<and> pf_jitter f = None \<and> pf_healthy_after_ms f = None"

fun or_option :: "'a option \<Rightarrow> 'a option \<Rightarrow> 'a option" where
  "or_option (Some x) y = Some x"
| "or_option None y = y"

definition apply_to :: "policy_flags \<Rightarrow> proto_policy \<Rightarrow> proto_policy" where
  "apply_to f current =
     \<lparr>xr_mode = (case pf_mode f of Some m \<Rightarrow> mode_i32 (mode_of_arg m) | None \<Rightarrow> xr_mode current),
      xr_max_restarts = or_option (pf_max_restarts f) (xr_max_restarts current),
      xr_window_ms = or_option (pf_window_ms f) (xr_window_ms current),
      xr_initial_delay_ms = or_option (pf_initial_delay_ms f) (xr_initial_delay_ms current),
      xr_multiplier = or_option (pf_multiplier f) (xr_multiplier current),
      xr_max_delay_ms = or_option (pf_max_delay_ms f) (xr_max_delay_ms current),
      xr_jitter = or_option (pf_jitter f) (xr_jitter current),
      xr_healthy_after_ms = or_option (pf_healthy_after_ms f) (xr_healthy_after_ms current)\<rparr>"

definition state_label :: "i32 \<Rightarrow> string" where
  "state_label n = (if n = 1 then ''LIVE'' else if n = 2 then ''EXITED'' else if n = 3 then ''BACKOFF'' else if n = 4 then ''RESTARTING''
     else if n = 5 then ''FAILED'' else if n = 6 then ''STOPPED'' else ''UNKNOWN'')"

definition mode_label :: "i32 \<Rightarrow> string" where
  "mode_label n = (case mode_try_from n of Some ModeNever \<Rightarrow> ''never'' | Some ModeOnFailure \<Rightarrow> ''on-failure''
     | Some ModeAlways \<Rightarrow> ''always'' | Some ModeUnlessStopped \<Rightarrow> ''unless-stopped'' | _ \<Rightarrow> ''unknown'')"

definition ls_status_label :: "proto_session \<Rightarrow> string" where
  "ls_status_label s = xs_name s @ (if xs_liveness s = liveness_i32 LivenessDead
     then '' [restored '' @ [CHR 0xe2, CHR 0x80, CHR 0x94] @ '' not running]'' else '' [live]'')"

section \<open>Reference\<close>

text \<open>The leaves of a layout snapshot from left to right, and a policy with the given flags laid over it.\<close>

fun snapshot_leaves :: "layout_snapshot \<Rightarrow> pane_info list" where
  "snapshot_leaves (SLeaf i) = [i]"
| "snapshot_leaves (SSplit o' cs) = concat (map (\<lambda>(c, _). snapshot_leaves c) cs)"

definition with_flags :: "policy_flags \<Rightarrow> restart_policy \<Rightarrow> restart_policy" where
  "with_flags f p = \<lparr>rp_mode = (case pf_mode f of None \<Rightarrow> rp_mode p | Some ArgNever \<Rightarrow> Never | Some ArgOnFailure \<Rightarrow> OnFailure
       | Some ArgAlways \<Rightarrow> Always | Some ArgUnlessStopped \<Rightarrow> UnlessStopped),
     rp_max_restarts = unwrap_or (pf_max_restarts f) (rp_max_restarts p), rp_window_ms = unwrap_or (pf_window_ms f) (rp_window_ms p),
     rp_initial_delay_ms = unwrap_or (pf_initial_delay_ms f) (rp_initial_delay_ms p),
     rp_multiplier = unwrap_or (pf_multiplier f) (rp_multiplier p), rp_max_delay_ms = unwrap_or (pf_max_delay_ms f) (rp_max_delay_ms p),
     rp_jitter = unwrap_or (pf_jitter f) (rp_jitter p), rp_healthy_after_ms = unwrap_or (pf_healthy_after_ms f) (rp_healthy_after_ms p)\<rparr>"

section \<open>Lemmas\<close>

lemma split_once_found: "c \<notin> set a \<Longrightarrow> split_once c (a @ c # b) = Some (a, b)"
  by (induction a) auto

lemma split_once_None: "split_once c s = None \<longleftrightarrow> c \<notin> set s"
  by (induction s) auto

lemma split_once_SomeD: "split_once c s = Some (a, b) \<Longrightarrow> c \<notin> set a \<and> s = a @ c # b"
  by (induction s arbitrary: a) (auto split: if_splits)

lemma parse_digits_append:
  "parse_decimal acc (xs @ ys) = (case parse_decimal acc xs of None \<Rightarrow> None | Some a \<Rightarrow> parse_decimal a ys)"
  by (induction xs arbitrary: acc) (auto split: option.splits)

lemma digit_value_char: "d < 10 \<Longrightarrow> digit_value (digit_char d) = Some d"
  by (simp add: digit_value_def digit_char_def)

lemma decimal_digits: "\<exists>ds. decimal n = map digit_char ds \<and> ds \<noteq> [] \<and> (\<forall>d\<in>set ds. d < 10)"
proof (induction n rule: decimal.induct)
  case (1 n)
  show ?case
  proof (cases "n < 10")
    case True
    then show ?thesis by (intro exI [of _ "[n]"]) (simp add: decimal.simps)
  next
    case False
    with 1 obtain ds where "decimal (n div 10) = map digit_char ds" "ds \<noteq> []" "\<forall>d\<in>set ds. d < 10" by blast
    with False show ?thesis by (intro exI [of _ "ds @ [n mod 10]"]) (simp add: decimal.simps [of n])
  qed
qed

lemma digit_char_not: "d < 10 \<Longrightarrow> digit_char d \<noteq> CHR ''+'' \<and> digit_char d \<noteq> CHR ''.'' \<and> digit_char d \<noteq> CHR '':''"
proof -
  assume "d < 10"
  then have "(of_char (digit_char d) :: nat) = 48 + d" by (simp add: digit_char_def)
  then show ?thesis using \<open>d < 10\<close> by auto
qed

lemma parse_digits_decimal: "n \<le> u64_max \<Longrightarrow> parse_decimal 0 (decimal n) = Some n"
proof (induction n rule: decimal.induct)
  case (1 n)
  show ?case
  proof (cases "n < 10")
    case True
    then show ?thesis using 1(2) by (simp add: decimal.simps digit_value_char)
  next
    case False
    have "parse_decimal 0 (decimal (n div 10)) = Some (n div 10)" using 1 False by simp
    with False 1(2) show ?thesis by (simp add: decimal.simps [of n] parse_digits_append digit_value_char)
  qed
qed

lemma parse_usize_decimal:
  assumes "n \<le> u64_max"
  shows "parse_usize (decimal n) = Some n"
proof -
  obtain d ds where "decimal n = digit_char d # ds" "d < 10" using decimal_digits [of n] by (metis list.map_sel list.set_intros(1) list.exhaust list.simps(9))
  then show ?thesis using digit_char_not [of d] parse_digits_decimal [OF assms] by (simp add: parse_usize_def)
qed

lemma decimal_no_dot: "CHR ''.'' \<notin> set (decimal n)"
proof -
  obtain ds where "decimal n = map digit_char ds" "\<forall>d\<in>set ds. d < 10" using decimal_digits [of n] by blast
  then show ?thesis using digit_char_not by (auto simp: image_iff) metis
qed

lemma target_session_shape: "target_parse s = Inr t \<Longrightarrow> ts_session t \<noteq> [] \<and> CHR '':'' \<notin> set (ts_session t)"
  by (auto simp: target_parse_def Let_def split_once_None dest!: split_once_SomeD split: option.splits if_splits prod.splits)

subsection \<open>Panes\<close>

lemma walk_snapshot:
  "(case layout_snapshot_to_proto show_id l of ProtoLayout (Some n) \<Rightarrow> walk n | ProtoLayout None \<Rightarrow> []) = map (pane_to_proto show_id) (snapshot_leaves l)"
proof (induction l rule: snapshot_leaves.induct)
  case (2 o' cs)
  have "(case (case x of (c, r) \<Rightarrow> LayoutChild (Some (layout_snapshot_to_proto show_id c)) r) of
      LayoutChild (Some (ProtoLayout (Some n))) _ \<Rightarrow> walk n | _ \<Rightarrow> []) = map (pane_to_proto show_id) (snapshot_leaves (fst x))"
    if "x \<in> set cs" for x
    using 2 [OF that, of "fst x" "snd x"] by (auto split: proto_layout.splits option.splits prod.splits)
  then show ?case by (simp add: map_concat comp_def case_prod_unfold cong: map_cong)
qed simp

lemma flatten_window: "flatten_panes (window_to_proto show_id w) = map (pane_to_proto show_id) (snapshot_leaves (ws_layout w))"
  using walk_snapshot [of show_id "ws_layout w"] by (auto simp: flatten_panes_def window_to_proto_def split: proto_layout.splits option.splits)

lemma leaves_snapshot: "snapshot_leaves (layout_to_snapshot g l) = map (leaf_info g) (leaves l)"
proof (induction l rule: leaves.induct)
  case (2 o' cs)
  then show ?case by (auto simp: map_concat comp_def case_prod_unfold intro!: arg_cong [where f = concat] map_cong)
qed simp


lemma session_windows:
  "xs_windows (session_to_proto show_id (session_to_snapshot g s))
     = map (\<lambda>w. window_to_proto show_id \<lparr>ws_id = wd_id w, ws_name = wd_name w, ws_layout = layout_to_snapshot g (wd_layout w)\<rparr>) (ss_windows s)"
  by (simp add: session_to_proto_def session_to_snapshot_def Let_def)

lemma session_panes_listed:
  "map flatten_panes (xs_windows (session_to_proto show_id (session_to_snapshot g s)))
     = map (\<lambda>w. map (\<lambda>p. pane_to_proto show_id (leaf_info g p)) (leaves (wd_layout w))) (ss_windows s)"
  by (simp add: session_windows flatten_window leaves_snapshot comp_def)

lemma session_proto_name: "xs_name (session_to_proto show_id (session_to_snapshot g s)) = ss_name s"
  by (simp add: session_to_proto_def session_to_snapshot_def Let_def)

lemma leaf_info_id: "pi_id (leaf_info g p) = p"
  by (simp add: leaf_info_def Let_def split: prod.split)

lemma position_first:
  "i < length xs \<Longrightarrow> P (xs ! i) \<Longrightarrow> (\<And>j. j < i \<Longrightarrow> \<not> P (xs ! j)) \<Longrightarrow> position_of P xs = Some i"
proof (induction xs arbitrary: i)
  case (Cons x xs)
  show ?case
  proof (cases i)
    case (Suc k)
    have "\<not> P (xs ! j)" if "j < k" for j using Cons.prems(3) [of "Suc j"] that Suc by simp
    then have "position_of P xs = Some k" using Cons.prems(1,2) Suc by (intro Cons.IH) simp_all
    moreover have "\<not> P x" using Cons.prems(3) [of 0] Suc by simp
    ultimately show ?thesis by (simp add: Suc)
  qed (use Cons.prems in simp)
qed simp

text \<open>Where the keys for the next and the previous window lead, when no pane is listed in two windows.\<close>

lemma adjacent_window:
  assumes f: "find (\<lambda>x. xs_name x = name) sessions = Some s" and n: "2 \<le> length (xs_windows s)" and i: "i < length (xs_windows s)"
    and own: "\<And>j k p q. j < length (xs_windows s) \<Longrightarrow> k < length (xs_windows s) \<Longrightarrow> p \<in> set (flatten_panes (xs_windows s ! j))
       \<Longrightarrow> q \<in> set (flatten_panes (xs_windows s ! k)) \<Longrightarrow> xp_id p = xp_id q \<Longrightarrow> j = k"
    and c: "c \<in> set (flatten_panes (xs_windows s ! i))" and full: "\<And>w. w \<in> set (xs_windows s) \<Longrightarrow> flatten_panes w \<noteq> []"
  shows "adjacent_window_pane sessions name (xp_id c) forward = Inr (Some (xp_id (hd (flatten_panes (xs_windows s !
     (if forward then (i + 1) mod length (xs_windows s) else (i + length (xs_windows s) - 1) mod length (xs_windows s)))))))"
proof -
  let ?ws = "xs_windows s"
  let ?next = "if forward then (i + 1) mod length ?ws else (i + length ?ws - 1) mod length ?ws"
  have "position_of (\<lambda>w. list_ex (\<lambda>p. xp_id p = xp_id c) (flatten_panes w)) ?ws = Some i"
  proof (rule position_first [OF i])
    show "list_ex (\<lambda>p. xp_id p = xp_id c) (flatten_panes (?ws ! i))" using c by (auto simp: list_ex_iff)
    show "\<not> list_ex (\<lambda>p. xp_id p = xp_id c) (flatten_panes (?ws ! j))" if "j < i" for j
      using own [of j i _ c] that i c by (auto simp: list_ex_iff)
  qed
  moreover have "0 < length ?ws" using n by linarith
  then have "?next < length ?ws" by simp
  then have "flatten_panes (?ws ! ?next) \<noteq> []" using full nth_mem by blast
  ultimately show ?thesis using f n by (cases forward) (auto simp: adjacent_window_pane_def Let_def split: list.split)
qed

lemma leaves_nonempty: "wf_layout l \<Longrightarrow> leaves l \<noteq> []"
proof (induction l rule: leaves.induct)
  case (2 o' cs)
  then obtain a p b q where "cs = [(a, p), (b, q)]" "wf_layout a" by (auto simp: wf_layout_Split)
  with 2(1) [of "(a, p)"] show ?case by simp
qed simp

lemma windows_apart:
  assumes ok: "engine_ok g" and s: "eg_sessions g sid = Some s" and jk: "j < length (ss_windows s)" "k < length (ss_windows s)"
    and p: "p \<in> set (leaves (wd_layout (ss_windows s ! j)))" "p \<in> set (leaves (wd_layout (ss_windows s ! k)))"
  shows "j = k"
proof -
  have "wd_id (ss_windows s ! j) = wd_id (ss_windows s ! k)"
    using contrib_uniq [OF engine_okD(1) [OF ok] s _ s, of p "wd_id (ss_windows s ! j)" "wd_id (ss_windows s ! k)"] p jk
    by (metis contrib_def nth_mem)
  moreover have "distinct (map wd_id (ss_windows s))" using core_session [OF engine_okD(1) [OF ok] s] by (simp add: session_ok_def)
  ultimately show ?thesis using jk by (metis length_map nth_eq_iff_index_eq nth_map)
qed

lemma windows_full:
  assumes ok: "engine_ok g" and s: "eg_sessions g sid = Some s" and w: "w \<in> set (ss_windows s)"
  shows "leaves (wd_layout w) \<noteq> []"
  using core_session [OF engine_okD(1) [OF ok] s] w leaves_nonempty by (auto simp: session_ok_def window_ok_def list_all_iff)

lemma unwrap_or_option: "unwrap_or (or_option x (Some y)) d = unwrap_or x y"
  by (cases x) simp_all

lemma over_defaults_flags: "over_defaults (rp_mode q) (apply_to f (policy_to_proto p)) = q" if "q = with_flags f p"
  by (simp add: that over_defaults_def apply_to_def policy_to_proto_def with_flags_def unwrap_or_option)

lemma mode_flags: "mode_from_proto (xr_mode (apply_to f (policy_to_proto p))) = Inr (rp_mode (with_flags f p))"
proof (cases "pf_mode f")
  case None
  then show ?thesis by (simp add: apply_to_def policy_to_proto_def with_flags_def mode_from_to)
next
  case (Some m)
  then show ?thesis by (cases m) (simp_all add: apply_to_def with_flags_def mode_from_proto_def mode_try_from_def)
qed

definition held_example :: engine where
  "held_example = engine_new\<lparr>eg_panes := [5 \<mapsto> LivePane 0],
     eg_sup := (eg_sup engine_new)\<lparr>sn_heap := [0 \<mapsto> (pane_new 5 None)\<lparr>pn_exited := True, pn_restart_pending := True\<rparr>]\<rparr>\<rparr>"

definition two_windows :: engine where
  "two_windows = snd (create_window example_powi example_env 7 18 no_meta (Inr \<lparr>sw_addr = 1, sw_id = 19, sw_pid = None\<rparr>) example_engine)"

definition two_session :: session_state where
  "two_session = \<lparr>ss_id = 7, ss_name = ''main'', ss_windows = [new_window 8 ''0'' 9, new_window 18 ''1'' 19], ss_active_window_id = 18,
     ss_default_restart_policy = default_policy\<rparr>"

lemma two_windows_reachable: "reachable engine_init (engine_step example_powi) two_windows"
  unfolding two_windows_def
  by (rule reachable.reach_step [OF example_engine_reachable], rule engine_step.create_window)
    (use example_engine_heap [of 1] in \<open>simp_all add: fresh_spawn_def example_engine_simps\<close>)

lemma two_windows_session: "eg_sessions two_windows 7 = Some two_session"
proof -
  have "digit_char 1 = CHR ''1''" using char_of_char [of "CHR ''1''", where 'a = nat] by (simp add: digit_char_def)
  then show ?thesis
    by (simp add: two_windows_def create_window_def example_engine_simps example_session_def two_session_def engine_parts decimal.simps Let_def)
qed

section \<open>Properties\<close>



text \<open>
  The keys for the next and the previous window walk through the windows of the session in a circle:
  from any pane of window \<open>i\<close> they lead to the first pane of the window after and of the window before it,
  and going forward and back again ends at the first pane of window \<open>i\<close>.
\<close>

theorem window_keys_cycle:
  assumes reach: "reachable engine_init (engine_step pw) g" and s: "eg_sessions g sid = Some s" and ids: "\<And>u. parse_id (show_id u) = Some (u :: uuid)"
    and f: "find (\<lambda>x. xs_name x = ss_name s) sessions = Some (session_to_proto show_id (session_to_snapshot g s))"
    and n: "n = length (ss_windows s)" "2 \<le> n" and i: "i < n" and p: "p \<in> set (leaves (wd_layout (ss_windows s ! i)))"
  shows "\<exists>first. (\<forall>j<n. first j = hd (leaves (wd_layout (ss_windows s ! j))) \<and> first j \<in> set (leaves (wd_layout (ss_windows s ! j))))
    \<and> adjacent_window_pane sessions (ss_name s) (show_id p) True = Inr (Some (show_id (first ((i + 1) mod n))))
    \<and> adjacent_window_pane sessions (ss_name s) (show_id p) False = Inr (Some (show_id (first ((i + n - 1) mod n))))
    \<and> adjacent_window_pane sessions (ss_name s) (show_id (first ((i + 1) mod n))) False = Inr (Some (show_id (first i)))"
proof -
  have ok: "engine_ok g" by (rule reachable_ok [OF reach])
  have inj: "show_id u = show_id v \<Longrightarrow> u = v" for u v by (metis ids option.inject)
  let ?s = "session_to_proto show_id (session_to_snapshot g s)"
  let ?first = "\<lambda>j. hd (leaves (wd_layout (ss_windows s ! j)))"
  have len: "length (xs_windows ?s) = n" by (simp add: session_windows n)
  have fl: "flatten_panes (xs_windows ?s ! j) = map (\<lambda>p. pane_to_proto show_id (leaf_info g p)) (leaves (wd_layout (ss_windows s ! j)))"
    if "j < n" for j using that by (simp add: session_windows flatten_window leaves_snapshot comp_def n)
  have id: "xp_id (pane_to_proto show_id (leaf_info g q)) = show_id q" for q by (simp add: pane_to_proto_def leaf_info_id)
  have ne: "leaves (wd_layout (ss_windows s ! j)) \<noteq> []" if "j < n" for j using windows_full [OF ok s] that n by simp
  have step: "adjacent_window_pane sessions (ss_name s) (show_id q) b = Inr (Some (show_id (?first (if b then (k + 1) mod n else (k + n - 1) mod n))))"
    if k: "k < n" and q: "q \<in> set (leaves (wd_layout (ss_windows s ! k)))" for k q b
  proof -
    let ?c = "pane_to_proto show_id (leaf_info g q)"
    have own: "j = l" if "j < n" "l < n" "a \<in> set (flatten_panes (xs_windows ?s ! j))" "c \<in> set (flatten_panes (xs_windows ?s ! l))" "xp_id a = xp_id c"
      for j l a c using that windows_apart [OF ok s, of j l] by (auto simp: fl id n dest!: inj)
    have full: "flatten_panes w \<noteq> []" if "w \<in> set (xs_windows ?s)" for w
      using that ne fl by (metis in_set_conv_nth len list.map_disc_iff)
    have "?c \<in> set (flatten_panes (xs_windows ?s ! k))" using q fl [OF k] by auto
    note a = adjacent_window [where forward = b, OF f _ _ _ this, unfolded len, OF n(2) k own full]
    have "(if b then (k + 1) mod n else (k + n - 1) mod n) < n" using n(2) by auto
    with a show ?thesis using fl ne by (simp add: id hd_map)
  qed
  have mem: "?first j \<in> set (leaves (wd_layout (ss_windows s ! j)))" if "j < n" for j using ne [OF that] by simp
  have nx: "(i + 1) mod n < n" using n(2) by simp
  have ret: "((i + 1) mod n + n - 1) mod n = i"
    using i n(2) by (cases "i + 1 = n") auto
  show ?thesis using step [OF i p, of True] step [OF i p, of False] step [OF nx mem [OF nx], of False] ret mem
    by (intro exI [of _ ?first]) simp
qed

theorem window_keys_cycle_witness:
  "adjacent_window_pane [session_to_proto (\<lambda>u. replicate u CHR ''x'') (session_to_snapshot two_windows two_session)] ''main''
     (replicate 19 CHR ''x'') True = Inr (Some (replicate 9 CHR ''x''))"
proof -
  let ?show = "\<lambda>u. replicate u CHR ''x''"
  have "find (\<lambda>x. xs_name x = ss_name two_session) [session_to_proto ?show (session_to_snapshot two_windows two_session)]
      = Some (session_to_proto ?show (session_to_snapshot two_windows two_session))" by (simp add: session_proto_name)
  note c = window_keys_cycle [OF two_windows_reachable two_windows_session _ this, of "\<lambda>s. Some (length s)" 2 1 19]
  show ?thesis using c by (auto simp: two_session_def new_window_def)
qed

text \<open>
  Sessions a target cannot name: whatever is typed, a target never names a session whose name is empty
  or has a colon in it, although the daemon creates such sessions.
\<close>

theorem unaddressable_sessions:
  assumes "target_parse s = Inr t" and "name = [] \<or> CHR '':'' \<in> set name"
  shows "ts_session t \<noteq> name"
  using target_session_shape [OF assms(1)] assms(2) by auto

theorem unaddressable_sessions_witness: "ts_session \<lparr>ts_session = ''a'', ts_window_index = 0, ts_pane_index = 0\<rparr> \<noteq> ''a:b''"
proof (rule unaddressable_sessions)
  show "target_parse ''a'' = Inr \<lparr>ts_session = ''a'', ts_window_index = 0, ts_pane_index = 0\<rparr>" by (simp add: target_parse_def)
qed simp

text \<open>
  Changing a policy from the command line: laying flags over the policy the daemon reports, and
  reading the result on the daemon, gives the pane's policy with exactly the flagged fields replaced, or an
  invalid-argument error exactly when that policy is not valid. Without flags the policy comes back as it was.
\<close>

theorem policy_flags_overlay:
  "policy_from_proto (apply_to f (policy_to_proto p))
     = (case policy_validate (with_flags f p) of Inr _ \<Rightarrow> Inr (with_flags f p) | Inl _ \<Rightarrow> Inl (plain InvalidArgument))
   \<and> (if flags_empty f then with_flags f p = p else True)"
  using over_defaults_flags [OF refl, of f p]
  by (auto simp: policy_from_proto_def mode_flags flags_empty_def with_flags_def Let_def split: sum.splits)

text \<open>
  The command line refuses what the daemon allows: a pane whose process is gone and whose restart is on
  its way can be attached to by the daemon's rule, but the check of the client sees it as dead and fails.
\<close>

theorem backoff_attach_refused:
  assumes "eg_panes g p = Some (LivePane r)" and "pane_at g r = Some pp" and "pn_exited pp" and "pn_restart_pending pp"
  shows "resolve_attachable_pane g p = Inr r \<and> \<not> check_attach_liveness (pane_to_proto show_id (leaf_info g p))"
  using assms by (simp add: resolve_attachable_pane_def resolve_live_pane_def lookup_pane_def live_exited_def held_pane_def
    check_attach_liveness_def pane_to_proto_def leaf_info_def liveness_of_def Let_def)

theorem backoff_attach_refused_witness:
  "resolve_attachable_pane held_example 5 = Inr 0 \<and> \<not> check_attach_liveness (pane_to_proto decimal (leaf_info held_example 5))"
  by (rule backoff_attach_refused [of held_example 5 0 "(pane_new 5 None)\<lparr>pn_exited := True, pn_restart_pending := True\<rparr>"])
    (simp_all add: held_example_def pane_at_def)

end
