(* ===== verification/Cli_Config.thy ===== *)
theory Cli_Config
  imports Prelude
begin

text \<open>
  The key bindings of the command-line client (\<open>crates/tymux-cli/src/config.rs\<close>) and its status bar
  (\<open>status_bar.rs\<close>). Text is a list of characters by code point. The \<open>toml\<close> crate is an argument: it
  gives the raw table of a file, or nothing when the file is not valid TOML. A key is a character with
  or without Control, which is all the client builds; for such keys the equality of \<open>crossterm\<close> is
  equality of both.
\<close>

section \<open>Bindings\<close>

type_synonym chars = "nat list"

definition lit :: "string \<Rightarrow> chars" where "lit s = map of_char s"

datatype action =
    Detach | EnterCopyMode | ExitCopyMode | SplitHorizontal | SplitVertical
  | NewWindow | NextWindow | PrevWindow | KillPane | SendPrefixLiteral

fun short_label :: "action \<Rightarrow> chars" where
  "short_label Detach = lit ''detach''"
| "short_label EnterCopyMode = lit ''copy-mode''"
| "short_label ExitCopyMode = lit ''exit-copy-mode''"
| "short_label SplitHorizontal = lit ''split-h''"
| "short_label SplitVertical = lit ''split-v''"
| "short_label NewWindow = lit ''new-window''"
| "short_label NextWindow = lit ''next-window''"
| "short_label PrevWindow = lit ''prev-window''"
| "short_label KillPane = lit ''kill-pane''"
| "short_label SendPrefixLiteral = lit ''literal-prefix''"

definition BINDABLE_ACTIONS :: "(action \<times> chars \<times> chars) list" where
  "BINDABLE_ACTIONS =
     [(Detach, lit ''detach'', lit ''C-b d''),
      (EnterCopyMode, lit ''copy_mode'', lit ''C-b [''),
      (SplitHorizontal, lit ''split_horizontal'', lit ''C-b %''),
      (SplitVertical, lit ''split_vertical'', lit ''C-b \"''),
      (NewWindow, lit ''new_window'', lit ''C-b c''),
      (NextWindow, lit ''next_window'', lit ''C-b n''),
      (PrevWindow, lit ''prev_window'', lit ''C-b p''),
      (KillPane, lit ''kill_pane'', lit ''C-b x'')]"

record key_event =
  ke_char :: nat
  ke_control :: bool

record key_binding =
  kb_sequence :: "key_event list"
  kb_action :: action

record raw_config =
  rc_leader :: "chars option"
  rc_keybindings :: "chars \<Rightarrow> chars option"

record tymux_config =
  tc_leader :: chars
  tc_bindings :: "key_binding list"

section \<open>Parsing\<close>

text \<open>The characters with the property White\_Space of Unicode, and \<open>split_whitespace\<close>.\<close>

definition is_whitespace :: "nat \<Rightarrow> bool" where
  "is_whitespace c \<longleftrightarrow> 0x9 \<le> c \<and> c \<le> 0xd \<or> 0x2000 \<le> c \<and> c \<le> 0x200a
     \<or> c \<in> {0x20, 0x85, 0xa0, 0x1680, 0x2028, 0x2029, 0x202f, 0x205f, 0x3000}"

fun split_words :: "chars \<Rightarrow> chars \<Rightarrow> chars list" where
  "split_words [] w = (if w = [] then [] else [w])"
| "split_words (c # cs) w = (if is_whitespace c then (if w = [] then [] else [w]) @ split_words cs [] else split_words cs (w @ [c]))"

definition split_whitespace :: "chars \<Rightarrow> chars list" where
  "split_whitespace cs = split_words cs []"

definition strip_prefix :: "chars \<Rightarrow> chars \<Rightarrow> chars option" where
  "strip_prefix p s = (if take (length p) s = p then Some (drop (length p) s) else None)"

definition parse_key_token :: "chars \<Rightarrow> chars \<Rightarrow> chars + key_event" where
  "parse_key_token token raw =
     (case strip_prefix (lit ''C-'') token of
        Some rest \<Rightarrow> (case rest of [c] \<Rightarrow> Inr \<lparr>ke_char = c, ke_control = True\<rparr> | _ \<Rightarrow> Inl raw)
      | None \<Rightarrow> (case token of [c] \<Rightarrow> Inr \<lparr>ke_char = c, ke_control = False\<rparr> | _ \<Rightarrow> Inl raw))"

text \<open>\<open>collect\<close> into a \<open>Result\<close> stops at the first error.\<close>

fun collect_keys :: "chars list \<Rightarrow> chars \<Rightarrow> chars + key_event list" where
  "collect_keys [] raw = Inr []"
| "collect_keys (t # ts) raw =
     (case parse_key_token t raw of
        Inl e \<Rightarrow> Inl e
      | Inr k \<Rightarrow> (case collect_keys ts raw of Inl e \<Rightarrow> Inl e | Inr ks \<Rightarrow> Inr (k # ks)))"

definition parse_key_sequence :: "chars \<Rightarrow> chars + key_event list" where
  "parse_key_sequence raw = collect_keys (split_whitespace raw) raw"

section \<open>Loading\<close>

text \<open>The hardcoded default of a binding; it panics if it does not parse.\<close>

definition default_sequence :: "chars \<Rightarrow> key_event list option" where
  "default_sequence seq = (case parse_key_sequence seq of Inr ks \<Rightarrow> Some ks | Inl _ \<Rightarrow> None)"

fun default_bindings :: "(action \<times> chars \<times> chars) list \<Rightarrow> key_binding list option" where
  "default_bindings [] = Some []"
| "default_bindings ((a, key, seq) # rest) =
     do { ks \<leftarrow> default_sequence seq; bs \<leftarrow> default_bindings rest; Some (\<lparr>kb_sequence = ks, kb_action = a\<rparr> # bs) }"

definition config_defaults :: "tymux_config option" where
  "config_defaults = do { bs \<leftarrow> default_bindings BINDABLE_ACTIONS; Some \<lparr>tc_leader = lit ''C-b'', tc_bindings = bs\<rparr> }"

fun merged_bindings :: "(chars \<Rightarrow> chars option) \<Rightarrow> (action \<times> chars \<times> chars) list \<Rightarrow> key_binding list option" where
  "merged_bindings table [] = Some []"
| "merged_bindings table ((a, key, seq) # rest) =
     do { ks \<leftarrow> (case table key of
                    None \<Rightarrow> default_sequence seq
                  | Some raw \<Rightarrow> (case parse_key_sequence raw of Inr ks \<Rightarrow> Some ks | Inl _ \<Rightarrow> default_sequence seq));
          bs \<leftarrow> merged_bindings table rest;
          Some (\<lparr>kb_sequence = ks, kb_action = a\<rparr> # bs) }"

definition from_toml_str :: "(chars \<Rightarrow> raw_config option) \<Rightarrow> chars \<Rightarrow> tymux_config option" where
  "from_toml_str toml text_contents =
     (case toml text_contents of
        None \<Rightarrow> config_defaults
      | Some raw \<Rightarrow>
          do { bs \<leftarrow> merged_bindings (rc_keybindings raw) BINDABLE_ACTIONS;
               Some \<lparr>tc_leader = (case rc_leader raw of Some l \<Rightarrow> l | None \<Rightarrow> lit ''C-b''), tc_bindings = bs\<rparr> })"

text \<open>\<open>contents\<close> is what reading the configuration file gives.\<close>

definition load_or_default :: "(chars \<Rightarrow> raw_config option) \<Rightarrow> chars option \<Rightarrow> tymux_config option" where
  "load_or_default toml contents = (case contents of Some c \<Rightarrow> from_toml_str toml c | None \<Rightarrow> config_defaults)"

section \<open>The status bar\<close>

definition RESERVED_ROWS :: u16 where "RESERVED_ROWS = 1"

datatype display_mode = DisplayNormal | PrefixArmed | DisplayCopyMode

record status_bar_config =
  sb_enabled :: bool
  sb_no_color :: bool

definition pty_rows :: "u16 \<Rightarrow> status_bar_config \<Rightarrow> u16" where
  "pty_rows term_rows cfg = (if sb_enabled cfg then max (saturating_sub term_rows RESERVED_ROWS) 1 else term_rows)"

fun decimal_chars :: "nat \<Rightarrow> chars" where
  "decimal_chars n = (if n < 10 then [0x30 + n] else decimal_chars (n div 10) @ [0x30 + n mod 10])"

definition decstbm_reserve :: "u16 \<Rightarrow> status_bar_config \<Rightarrow> chars" where
  "decstbm_reserve term_rows cfg =
     (if \<not> sb_enabled cfg then [] else [0x1b] @ lit ''[1;'' @ decimal_chars (pty_rows term_rows cfg) @ lit ''r'')"

fun join_chars :: "chars \<Rightarrow> chars list \<Rightarrow> chars" where
  "join_chars sep [] = []"
| "join_chars sep [x] = x"
| "join_chars sep (x # y # xs) = x @ sep @ join_chars sep (y # xs)"

definition hint :: "key_binding \<Rightarrow> chars list" where
  "hint b = (case kb_sequence b of _ # k # _ \<Rightarrow> [[ke_char k] @ lit '':'' @ short_label (kb_action b)] | _ \<Rightarrow> [])"

fun render_hint_line :: "display_mode \<Rightarrow> tymux_config \<Rightarrow> chars \<Rightarrow> chars" where
  "render_hint_line DisplayNormal cfg session_name = lit ''['' @ session_name @ lit '']''"
| "render_hint_line PrefixArmed cfg session_name = lit ''-- PREFIX -- '' @ join_chars (lit ''  '') (concat (map hint (tc_bindings cfg)))"
| "render_hint_line DisplayCopyMode cfg session_name = lit ''-- COPY MODE -- h/j/k/l:move  v:select  y:yank  q/Esc:exit''"

definition colorize :: "chars \<Rightarrow> status_bar_config \<Rightarrow> chars" where
  "colorize line cfg = (if sb_no_color cfg \<or> line = [] then line else [0x1b] @ lit ''[7m'' @ line @ [0x1b] @ lit ''[0m'')"

section \<open>Lemmas\<close>

definition ctrl_b :: key_event where "ctrl_b = \<lparr>ke_char = 0x62, ke_control = True\<rparr>"

lemma default_sequences:
  "(a, key, seq) \<in> set BINDABLE_ACTIONS \<Longrightarrow> \<exists>c. parse_key_sequence seq = Inr [ctrl_b, \<lparr>ke_char = c, ke_control = False\<rparr>]"
  by (auto simp: BINDABLE_ACTIONS_def lit_def parse_key_sequence_def split_whitespace_def is_whitespace_def parse_key_token_def
    strip_prefix_def ctrl_b_def)

lemma default_sequence_some: "(a, key, seq) \<in> set BINDABLE_ACTIONS \<Longrightarrow> \<exists>ks. default_sequence seq = Some ks \<and> parse_key_sequence seq = Inr ks"
  using default_sequences by (fastforce simp: default_sequence_def)

text \<open>The binding of an action when a configuration file gives it the text \<open>table key\<close>.\<close>

definition binding_for :: "(chars \<Rightarrow> chars option) \<Rightarrow> action \<times> chars \<times> chars \<Rightarrow> key_binding \<Rightarrow> bool" where
  "binding_for table row b \<longleftrightarrow> (case row of (a, key, seq) \<Rightarrow> kb_action b = a
     \<and> Inr (kb_sequence b) = (case table key of Some raw \<Rightarrow> (case parse_key_sequence raw of Inr ks \<Rightarrow> Inr ks | Inl _ \<Rightarrow> parse_key_sequence seq)
         | None \<Rightarrow> parse_key_sequence seq))"

lemma merged_bindings_spec:
  "set rows \<subseteq> set BINDABLE_ACTIONS \<Longrightarrow> \<exists>bs. merged_bindings table rows = Some bs \<and> list_all2 (binding_for table) rows bs"
proof (induction rows)
  case (Cons row rows)
  obtain a key seq where r: "row = (a, key, seq)" by (cases row)
  obtain ks where ks: "default_sequence seq = Some ks" "parse_key_sequence seq = Inr ks" using default_sequence_some [of a key seq] Cons.prems r by auto
  obtain bs where "merged_bindings table rows = Some bs" "list_all2 (binding_for table) rows bs" using Cons by auto
  then show ?case using ks
    by (cases "table key"; cases "parse_key_sequence (the (table key))") (auto simp: r binding_for_def [of table "(a, key, seq)"])
qed simp

lemma default_merged: "default_bindings rows = merged_bindings Map.empty rows"
  by (induction rows) auto

section \<open>Properties\<close>

text \<open>
  A configuration file never stops the client: whatever the TOML parser makes of it, loading returns,
  with one binding for each of the eight bindable actions in their fixed order; an action takes the
  keys the file gives it when they parse, and its built-in keys otherwise, whatever else the file holds.
\<close>

theorem config_total:
  "\<exists>cfg. load_or_default toml contents = Some cfg
     \<and> list_all2 (binding_for (case Option.bind contents toml of Some raw \<Rightarrow> rc_keybindings raw | None \<Rightarrow> Map.empty)) BINDABLE_ACTIONS (tc_bindings cfg)"
proof -
  let ?t = "case Option.bind contents toml of Some raw \<Rightarrow> rc_keybindings raw | None \<Rightarrow> Map.empty"
  obtain bs where "merged_bindings ?t BINDABLE_ACTIONS = Some bs" "list_all2 (binding_for ?t) BINDABLE_ACTIONS bs"
    using merged_bindings_spec [of BINDABLE_ACTIONS ?t] by blast
  then show ?thesis
    by (cases contents) (auto simp: load_or_default_def from_toml_str_def config_defaults_def default_merged split: option.splits)
qed

end
