(* ===== verification/Cli_Input.thy ===== *)
theory Cli_Input
  imports Cli_Config "HOL-Library.Sublist"
begin

text \<open>
  Turning raw input bytes into actions and bytes for the pane (\<open>crates/tymux-cli/src/input.rs\<close>): the
  state machine of \<open>KeystrokeReassembler\<close>, which recognises two-key bindings and bracketed pastes over
  arbitrarily split reads. The lemmas compare it with a reference that looks at the whole input.
\<close>

section \<open>The state machine\<close>

definition PASTE_START :: bytes where "PASTE_START = [0x1b, 0x5b, 0x32, 0x30, 0x30, 0x7e]"
definition PASTE_END :: bytes where "PASTE_END = [0x1b, 0x5b, 0x32, 0x30, 0x31, 0x7e]"

datatype reassembled_output = Forward bytes | Act action

datatype scan_state = ScanNormal | MatchingPasteStart bytes | InPaste bytes

record reassembler =
  ra_bindings :: "key_binding list"
  ra_leader :: key_event
  ra_armed :: "(bytes \<times> key_event) option"
  ra_scan :: scan_state

definition classify_byte :: "u8 \<Rightarrow> key_event" where
  "classify_byte b = (if 1 \<le> b \<and> b \<le> 26 then \<lparr>ke_char = 0x61 + b - 1, ke_control = True\<rparr> else \<lparr>ke_char = b, ke_control = False\<rparr>)"

definition parse_leader :: "chars \<Rightarrow> key_event" where
  "parse_leader raw =
     (case strip_prefix (lit ''C-'') raw of
        Some (c # _) \<Rightarrow> \<lparr>ke_char = c, ke_control = True\<rparr>
      | _ \<Rightarrow> \<lparr>ke_char = 0x62, ke_control = True\<rparr>)"

definition reassembler_new :: "tymux_config \<Rightarrow> reassembler" where
  "reassembler_new cfg = \<lparr>ra_bindings = tc_bindings cfg, ra_leader = parse_leader (tc_leader cfg), ra_armed = None, ra_scan = ScanNormal\<rparr>"

definition is_armed :: "reassembler \<Rightarrow> bool" where
  "is_armed r \<longleftrightarrow> ra_armed r \<noteq> None"

definition arms :: "reassembler \<Rightarrow> key_event \<Rightarrow> bool" where
  "arms r k \<longleftrightarrow> k = ra_leader r \<or> list_ex (\<lambda>b. case kb_sequence b of k' # _ \<Rightarrow> k' = k | [] \<Rightarrow> False) (ra_bindings r)"

definition bound :: "reassembler \<Rightarrow> key_event \<Rightarrow> key_event \<Rightarrow> action option" where
  "bound r k1 k2 = map_option kb_action (find (\<lambda>b. kb_sequence b = [k1, k2]) (ra_bindings r))"

definition handle_normal_byte :: "u8 \<Rightarrow> reassembler \<Rightarrow> reassembled_output list \<times> reassembler" where
  "handle_normal_byte b r =
     (let key = classify_byte b; r0 = r\<lparr>ra_armed := None\<rparr>
      in case ra_armed r of
           None \<Rightarrow> if arms r key then ([], r0\<lparr>ra_armed := Some ([b], key)\<rparr>) else ([Forward [b]], r0)
         | Some (armed_bytes, armed_key) \<Rightarrow>
             if key = armed_key then ([Forward [b]], r0)
             else case bound r armed_key key of
                    Some a \<Rightarrow> ([Act a], r0)
                  | None \<Rightarrow> ([Forward (armed_bytes @ [b])], r0))"

definition process_byte :: "u8 \<Rightarrow> reassembler \<Rightarrow> reassembled_output list \<times> reassembler" where
  "process_byte b r =
     (case ra_scan r of
        ScanNormal \<Rightarrow> if b = 0x1b then ([], r\<lparr>ra_scan := MatchingPasteStart [b]\<rparr>) else handle_normal_byte b r
      | MatchingPasteStart buf0 \<Rightarrow>
          (let buf = buf0 @ [b]
           in if buf = PASTE_START then ([], r\<lparr>ra_scan := InPaste []\<rparr>)
              else if \<not> prefix buf PASTE_START then ([Forward buf], r\<lparr>ra_scan := ScanNormal\<rparr>)
              else ([], r\<lparr>ra_scan := MatchingPasteStart buf\<rparr>))
      | InPaste buf0 \<Rightarrow>
          (let buf = buf0 @ [b]
           in if suffix PASTE_END buf
              then (let content = take (length buf - length PASTE_END) buf
                    in (if content = [] then [] else [Forward content], r\<lparr>ra_scan := ScanNormal\<rparr>))
              else if length PASTE_END < length buf
              then (let keep = length PASTE_END - 1; flush_upto = length buf - keep
                    in ([Forward (take flush_upto buf)], r\<lparr>ra_scan := InPaste (drop flush_upto buf)\<rparr>))
              else ([], r\<lparr>ra_scan := InPaste buf\<rparr>)))"

fun ks_process :: "bytes \<Rightarrow> reassembler \<Rightarrow> reassembled_output list \<times> reassembler" where
  "ks_process [] r = ([], r)"
| "ks_process (b # bs) r = (let (o1, r1) = process_byte b r; (o2, r2) = ks_process bs r1 in (o1 @ o2, r2))"

section \<open>Reference\<close>

text \<open>What two keys typed one after the other mean, and the meaning of a whole input without escape bytes.\<close>

definition two_keys :: "reassembler \<Rightarrow> u8 \<Rightarrow> u8 \<Rightarrow> reassembled_output" where
  "two_keys r b c = (if classify_byte c = classify_byte b then Forward [c]
     else case bound r (classify_byte b) (classify_byte c) of Some a \<Rightarrow> Act a | None \<Rightarrow> Forward [b, c])"

fun meaning :: "reassembler \<Rightarrow> bytes \<Rightarrow> reassembled_output list \<times> bytes" where
  "meaning r [] = ([], [])"
| "meaning r [b] = (if arms r (classify_byte b) then ([], [b]) else ([Forward [b]], []))"
| "meaning r (b # c # bs) =
     (if arms r (classify_byte b) then (let (os, held) = meaning r bs in (two_keys r b c # os, held))
      else (let (os, held) = meaning r (c # bs) in (Forward [b] # os, held)))"

fun forwarded :: "reassembled_output list \<Rightarrow> bytes" where
  "forwarded [] = []"
| "forwarded (Forward bs # os) = bs @ forwarded os"
| "forwarded (Act a # os) = forwarded os"

fun is_forward :: "reassembled_output \<Rightarrow> bool" where
  "is_forward (Forward bs) = True"
| "is_forward (Act a) = False"

section \<open>Lemmas\<close>

lemma ks_process_append:
  "ks_process (xs @ ys) r = (let (o1, r1) = ks_process xs r; (o2, r2) = ks_process ys r1 in (o1 @ o2, r2))"
  by (induction xs arbitrary: r) (auto simp: Let_def split: prod.splits)

lemma forwarded_append: "forwarded (xs @ ys) = forwarded xs @ forwarded ys"
  by (induction xs rule: forwarded.induct) auto

lemma handle_normal_fixed:
  "handle_normal_byte b r = (os, r') \<Longrightarrow> ra_bindings r' = ra_bindings r \<and> ra_leader r' = ra_leader r \<and> ra_scan r' = ra_scan r"
  by (auto simp: handle_normal_byte_def Let_def split: option.splits if_splits)

lemma process_byte_fixed: "process_byte b r = (os, r') \<Longrightarrow> ra_bindings r' = ra_bindings r \<and> ra_leader r' = ra_leader r"
  by (auto simp: process_byte_def Let_def dest: handle_normal_fixed split: scan_state.splits if_splits)

text \<open>The reassembler with the byte \<open>held\<close> armed, or idle.\<close>

definition with_held :: "bytes \<Rightarrow> reassembler \<Rightarrow> reassembler" where
  "with_held held r = r\<lparr>ra_armed := (case held of [] \<Rightarrow> None | b # _ \<Rightarrow> Some (held, classify_byte b))\<rparr>"

lemma normal_process:
  assumes "0x1b \<notin> set bs" and "ra_scan r = ScanNormal" and "ra_armed r = None"
  shows "ks_process bs r = (let (os, held) = meaning r bs in (os, with_held held r))"
  using assms
proof (induction r bs rule: meaning.induct)
  case (1 r)
  then show ?case by (simp add: with_held_def)
next
  case (2 r b)
  then show ?case by (simp add: process_byte_def handle_normal_byte_def with_held_def Let_def)
next
  case (3 r b c bs)
  show ?case
  proof (cases "arms r (classify_byte b)")
    case True
    let ?r = "r\<lparr>ra_armed := Some ([b], classify_byte b)\<rparr>"
    have b: "process_byte b r = ([], ?r)" using 3 True by (simp add: process_byte_def handle_normal_byte_def Let_def)
    have "process_byte c ?r = ([two_keys r b c], r)"
      using 3 by (auto simp: process_byte_def handle_normal_byte_def two_keys_def bound_def Let_def split: option.splits)
    then show ?thesis using 3 True b by (simp add: Let_def split: prod.splits)
  next
    case False
    have "process_byte b r = ([Forward [b]], r)" using 3 False by (simp add: process_byte_def handle_normal_byte_def Let_def)
    then show ?thesis using 3 False by (simp add: Let_def split: prod.splits)
  qed
qed

subsection \<open>Pastes\<close>

lemma paste_bytes:
  assumes "ra_scan r = InPaste buf" and "length buf \<le> 6" and "\<not> sublist PASTE_END (buf @ bs)"
  shows "\<exists>os buf'. ks_process bs r = (os, r\<lparr>ra_scan := InPaste buf'\<rparr>) \<and> list_all is_forward os \<and> forwarded os @ buf' = buf @ bs
    \<and> (os = [] \<or> 5 \<le> length buf') \<and> length buf' \<le> 6"
  using assms
proof (induction bs arbitrary: r buf)
  case Nil
  then show ?case by (intro exI [of _ "[]"] exI [of _ buf]) simp
next
  case (Cons b bs)
  let ?b = "buf @ [b]"
  have no: "\<not> suffix PASTE_END ?b"
  proof
    assume "suffix PASTE_END ?b"
    then obtain zs where "?b = zs @ PASTE_END" by (auto simp: suffix_def)
    then have "buf @ b # bs = zs @ PASTE_END @ bs" by simp
    then show False using Cons.prems(3) by (metis sublist_appendI)
  qed
  show ?case
  proof (cases "length PASTE_END < length ?b")
    case True
    let ?k = "length ?b - (length PASTE_END - 1)"
    define t where "t = take ?k ?b"
    define d where "d = drop ?k ?b"
    have l: "length d = 5" using True by (simp add: PASTE_END_def d_def)
    have "buf @ b # bs = ?b @ bs" by simp
    also have "\<dots> = t @ (d @ bs)" by (metis append.assoc append_take_drop_id t_def d_def)
    finally have e: "buf @ b # bs = t @ (d @ bs)" .
    have "\<not> sublist PASTE_END (d @ bs)" using Cons.prems(3) unfolding e using sublist_append_leftI sublist_order.order_trans by blast
    from Cons.IH [OF _ _ this, of "r\<lparr>ra_scan := InPaste d\<rparr>"] l
    obtain os buf' where os: "ks_process bs (r\<lparr>ra_scan := InPaste d\<rparr>) = (os, r\<lparr>ra_scan := InPaste buf'\<rparr>)"
        "list_all is_forward os" "forwarded os @ buf' = d @ bs" "os = [] \<or> 5 \<le> length buf'" "length buf' \<le> 6"
      by auto
    have "process_byte b r = ([Forward t], r\<lparr>ra_scan := InPaste d\<rparr>)"
      by (simp only: process_byte_def Cons.prems(1) scan_state.case Let_def no True if_True if_False t_def d_def)
    then have "ks_process (b # bs) r = (Forward t # os, r\<lparr>ra_scan := InPaste buf'\<rparr>)" using os(1) by simp
    moreover have "5 \<le> length buf'"
    proof (cases "os = []")
      case True
      then have "buf' = d @ bs" using os(3) by simp
      then show ?thesis using l by simp
    qed (use os(4) in simp)
    moreover have "forwarded (Forward t # os) @ buf' = buf @ b # bs" unfolding e using os(3) by (metis append.assoc forwarded.simps(2))
    moreover have "list_all is_forward (Forward t # os)" using os(2) by simp
    ultimately show ?thesis using os(5) by blast
  next
    case False
    then have l: "length ?b \<le> 6" by (simp add: PASTE_END_def)
    have "process_byte b r = ([], r\<lparr>ra_scan := InPaste ?b\<rparr>)" by (simp only: process_byte_def Cons.prems(1) scan_state.case Let_def no False if_False)
    moreover have "\<not> sublist PASTE_END (?b @ bs)" using Cons.prems(3) by simp
    ultimately show ?thesis using Cons.IH [of "r\<lparr>ra_scan := InPaste ?b\<rparr>" ?b] l by auto
  qed
qed

lemma no_early_end:
  assumes "\<not> sublist PASTE_END content"
  shows "\<not> sublist PASTE_END (content @ butlast PASTE_END)"
proof
  assume "sublist PASTE_END (content @ butlast PASTE_END)"
  then obtain xs ys where "content @ butlast PASTE_END = xs @ PASTE_END @ ys" by (auto simp: sublist_def)
  then have e: "(xs @ PASTE_END) @ ys = content @ butlast PASTE_END" by simp
  consider us where "xs @ PASTE_END = content @ us" "us @ ys = butlast PASTE_END" | us where "(xs @ PASTE_END) @ us = content"
    using iffD1 [OF append_eq_append_conv2 e] by blast
  then show False
  proof cases
    case (1 us)
    show ?thesis
    proof (cases "us = []")
      case True
      then show ?thesis using 1(1) assms by (metis append_Nil2 sublist_appendI)
    next
      case False
      then have "last us = last PASTE_END" using 1(1) by (metis PASTE_END_def last_append list.distinct(1))
      then have "0x7e \<in> set us" using False by (metis PASTE_END_def last.simps last_in_set list.distinct(1))
      then have "0x7e \<in> set (butlast PASTE_END)" using 1(2) by (metis Un_iff set_append)
      then show ?thesis by (simp add: PASTE_END_def)
    qed
  next
    case (2 us)
    then show ?thesis using assms by (metis append.assoc sublist_appendI)
  qed
qed

lemma paste_start_bytes:
  assumes "ra_scan r = ScanNormal"
  shows "ks_process PASTE_START r = ([], r\<lparr>ra_scan := InPaste []\<rparr>)"
proof -
  have "process_byte 0x1b r = ([], r\<lparr>ra_scan := MatchingPasteStart [0x1b]\<rparr>)" using assms by (simp add: process_byte_def)
  moreover have "process_byte b (r\<lparr>ra_scan := MatchingPasteStart buf\<rparr>) = ([], r\<lparr>ra_scan := MatchingPasteStart (buf @ [b])\<rparr>)"
    if "prefix (buf @ [b]) PASTE_START" "buf @ [b] \<noteq> PASTE_START" for b buf
    using that by (simp add: process_byte_def Let_def)
  moreover have "process_byte 0x7e (r\<lparr>ra_scan := MatchingPasteStart [0x1b, 0x5b, 0x32, 0x30, 0x30]\<rparr>) = ([], r\<lparr>ra_scan := InPaste []\<rparr>)"
    by (simp add: process_byte_def PASTE_START_def)
  ultimately show ?thesis by (simp add: PASTE_START_def)
qed

lemma paste_run:
  assumes "ra_scan r = ScanNormal" and "\<not> sublist PASTE_END content"
  shows "\<exists>os. ks_process (PASTE_START @ content @ PASTE_END) r = (os, r) \<and> list_all is_forward os \<and> forwarded os = content"
proof -
  let ?r = "r\<lparr>ra_scan := InPaste []\<rparr>"
  obtain os buf where os: "ks_process (content @ butlast PASTE_END) ?r = (os, r\<lparr>ra_scan := InPaste buf\<rparr>)" "list_all is_forward os"
      "forwarded os @ buf = content @ butlast PASTE_END" "os = [] \<or> 5 \<le> length buf" "length buf \<le> 6"
    using paste_bytes [of ?r "[]" "content @ butlast PASTE_END"] no_early_end [OF assms(2)] by auto
  have l5: "length (butlast PASTE_END) = 5" by (simp add: PASTE_END_def)
  have "5 \<le> length buf"
  proof (cases "os = []")
    case True
    then have "buf = content @ butlast PASTE_END" using os(3) by simp
    then show ?thesis using l5 by simp
  qed (use os(4) in simp)
  define c where "c = take (length buf - 5) buf"
  have "length (drop (length buf - 5) buf) = length (butlast PASTE_END)" using \<open>5 \<le> length buf\<close> l5 by simp
  moreover have "(forwarded os @ c) @ drop (length buf - 5) buf = content @ butlast PASTE_END" using os(3) by (simp add: c_def)
  ultimately have cd: "forwarded os @ c = content" "drop (length buf - 5) buf = butlast PASTE_END"
    using append_eq_append_conv [of "forwarded os @ c" content "drop (length buf - 5) buf" "butlast PASTE_END"] by blast+
  then have c: "buf = c @ butlast PASTE_END" "forwarded os @ c = content" by (metis c_def append_take_drop_id, simp)
  have pe: "butlast PASTE_END @ [0x7e] = PASTE_END" by (simp add: PASTE_END_def)
  then have b7: "buf @ [0x7e] = c @ PASTE_END" using c(1) by simp
  have "process_byte 0x7e (r\<lparr>ra_scan := InPaste buf\<rparr>) = (if c = [] then [] else [Forward c], r)"
    using assms(1) by (auto simp: process_byte_def b7 Let_def suffix_def)
  then have "ks_process [0x7e] (r\<lparr>ra_scan := InPaste buf\<rparr>) = (if c = [] then [] else [Forward c], r)" by simp
  with os(1) have "ks_process ((content @ butlast PASTE_END) @ [0x7e]) ?r = (os @ (if c = [] then [] else [Forward c]), r)"
    unfolding ks_process_append by simp
  then have "ks_process (PASTE_START @ content @ PASTE_END) r = (os @ (if c = [] then [] else [Forward c]), r)"
    using paste_start_bytes [OF assms(1)] pe by (simp add: ks_process_append)
  moreover have "forwarded (os @ (if c = [] then [] else [Forward c])) = content" using c(2) by (auto simp: forwarded_append)
  ultimately show ?thesis using os(2) by (intro exI conjI) (auto simp: list_all_append)
qed

subsection \<open>Actions\<close>

text \<open>The keys of \<open>a\<close> were typed: a two-key binding of it whose keys are in the input, in order.\<close>

definition typed :: "key_binding list \<Rightarrow> bytes \<Rightarrow> action \<Rightarrow> bool" where
  "typed bindings bs a \<longleftrightarrow> (\<exists>b\<in>set bindings. \<exists>i j. kb_action b = a \<and> i < j \<and> j < length bs
     \<and> kb_sequence b = [classify_byte (bs ! i), classify_byte (bs ! j)])"

lemma typed_mono: "typed bindings bs a \<Longrightarrow> typed bindings (bs @ cs) a"
proof -
  assume "typed bindings bs a"
  then obtain b i j where b: "b \<in> set bindings" "kb_action b = a" "i < j" "j < length bs" "kb_sequence b = [classify_byte (bs ! i), classify_byte (bs ! j)]"
    unfolding typed_def by blast
  then show ?thesis unfolding typed_def by (intro bexI [of _ b] exI [of _ i] exI [of _ j]) (simp_all add: nth_append)
qed

lemma bound_member: "bound r k1 k2 = Some a \<Longrightarrow> \<exists>b\<in>set (ra_bindings r). kb_action b = a \<and> kb_sequence b = [k1, k2]"
  by (auto simp: bound_def find_Some_iff)

lemma ks_process_typed:
  assumes "ra_armed r = None" and "ks_process bs r = (os, r')"
  shows "(\<forall>a. Act a \<in> set os \<longrightarrow> typed (ra_bindings r) bs a) \<and> ra_bindings r' = ra_bindings r
    \<and> (\<forall>x k. ra_armed r' = Some (x, k) \<longrightarrow> (\<exists>i < length bs. classify_byte (bs ! i) = k))"
  using assms(2)
proof (induction bs arbitrary: os r' rule: rev_induct)
  case Nil
  then show ?case using assms(1) by simp
next
  case (snoc b bs)
  obtain o1 r1 where 1: "ks_process bs r = (o1, r1)" by force
  obtain o2 where 2: "process_byte b r1 = (o2, r')" and os: "os = o1 @ o2" using snoc.prems by (auto simp: ks_process_append 1 Let_def split: prod.splits)
  note ih = snoc.IH [OF 1]
  have bind: "ra_bindings r' = ra_bindings r" using process_byte_fixed [OF 2] ih by simp
  show ?case
  proof (cases "ra_scan r1 = ScanNormal \<and> b \<noteq> 0x1b")
    case True
    then have h: "handle_normal_byte b r1 = (o2, r')" using 2 by (simp add: process_byte_def)
    have "typed (ra_bindings r) (bs @ [b]) a" if act: "Act a \<in> set o2" for a
    proof -
      obtain x k where k: "ra_armed r1 = Some (x, k)" "bound r1 k (classify_byte b) = Some a"
        using h act by (auto simp: handle_normal_byte_def Let_def split: option.splits if_splits)
      obtain i where "i < length bs" "classify_byte (bs ! i) = k" using ih k(1) by blast
      moreover obtain c where "c \<in> set (ra_bindings r)" "kb_action c = a" "kb_sequence c = [k, classify_byte b]"
        using bound_member [OF k(2)] ih by auto
      ultimately show ?thesis unfolding typed_def by (intro bexI [of _ c] exI [of _ i] exI [of _ "length bs"]) (simp_all add: nth_append)
    qed
    moreover have "\<exists>i < length (bs @ [b]). classify_byte ((bs @ [b]) ! i) = k" if "ra_armed r' = Some (x, k)" for x k
      using h that by (intro exI [of _ "length bs"]) (auto simp: handle_normal_byte_def Let_def split: option.splits if_splits)
    ultimately show ?thesis using ih bind os typed_mono by (metis Un_iff set_append)
  next
    case False
    then have "\<forall>a. Act a \<notin> set o2" and "ra_armed r' = ra_armed r1"
      using 2 by (auto simp: process_byte_def Let_def split: scan_state.splits if_splits)
    then show ?thesis using ih bind os typed_mono
      by (metis (no_types, lifting) Un_iff length_append less_Suc_eq length_append_singleton nth_append set_append)
  qed
qed

section \<open>Properties\<close>

text \<open>
  A paste is inert: whatever bytes are pasted between the paste markers, as long as they do not
  contain the end marker, no action fires, exactly the pasted bytes go to the pane, and the state of the
  keyboard is what it was before.
\<close>

theorem paste_inert:
  assumes "ra_scan r = ScanNormal" and "\<not> sublist PASTE_END content"
  shows "\<exists>os. ks_process (PASTE_START @ content @ PASTE_END) r = (os, r) \<and> list_all is_forward os \<and> forwarded os = content"
  using paste_run [OF assms] .

theorem paste_inert_witness:
  "\<exists>os. ks_process (PASTE_START @ [2, 0x64] @ PASTE_END) (reassembler_new \<lparr>tc_leader = [], tc_bindings = []\<rparr>)
      = (os, reassembler_new \<lparr>tc_leader = [], tc_bindings = []\<rparr>) \<and> forwarded os = [2, 0x64]"
proof -
  have "\<not> sublist PASTE_END [2, 0x64]" by (auto dest!: sublist_length_le simp: PASTE_END_def)
  then show ?thesis using paste_inert [of "reassembler_new \<lparr>tc_leader = [], tc_bindings = []\<rparr>" "[2, 0x64]"] by (auto simp: reassembler_new_def)
qed



text \<open>
  An action fires only when its keys were typed: whatever the input, every action in the output has a
  binding of exactly two keys, and both were typed, in that order.
\<close>

theorem action_needs_its_keys:
  assumes "Act a \<in> set (fst (ks_process bs (reassembler_new cfg)))"
  shows "typed (tc_bindings cfg) bs a"
proof -
  obtain os r' where p: "ks_process bs (reassembler_new cfg) = (os, r')" by force
  then have "Act a \<in> set os" using assms by simp
  then show ?thesis using ks_process_typed [OF _ p] by (simp add: reassembler_new_def)
qed

theorem action_needs_its_keys_witness:
  "typed [\<lparr>kb_sequence = [\<lparr>ke_char = 0x62, ke_control = True\<rparr>, \<lparr>ke_char = 0x64, ke_control = False\<rparr>], kb_action = Detach\<rparr>] [2, 0x64] Detach"
proof -
  let ?cfg = "\<lparr>tc_leader = [], tc_bindings = [\<lparr>kb_sequence = [\<lparr>ke_char = 0x62, ke_control = True\<rparr>, \<lparr>ke_char = 0x64, ke_control = False\<rparr>], kb_action = Detach\<rparr>]\<rparr>"
  have "Act Detach \<in> set (fst (ks_process [2, 0x64] (reassembler_new ?cfg)))"
    by (simp add: process_byte_def handle_normal_byte_def arms_def bound_def classify_byte_def reassembler_new_def parse_leader_def Let_def)
  from action_needs_its_keys [OF this] show ?thesis by simp
qed

text \<open>
  Input can leave in another order than it was typed: a prefix key stays armed while the escape
  sequence of a cursor key goes by, so prefix, cursor up, \<open>z\<close> reaches the pane as cursor up, prefix,
  \<open>z\<close>; and a lone escape byte is not passed on until another byte follows.
\<close>

theorem prefix_overtaken:
  "forwarded (fst (ks_process [2, 0x1b, 0x5b, 0x41, 0x7a] (reassembler_new \<lparr>tc_leader = lit ''C-b'', tc_bindings = []\<rparr>))) = [0x1b, 0x5b, 0x41, 2, 0x7a]
   \<and> fst (ks_process [0x1b] (reassembler_new cfg)) = []"
  by (simp add: process_byte_def handle_normal_byte_def arms_def bound_def classify_byte_def reassembler_new_def parse_leader_def
    strip_prefix_def lit_def PASTE_START_def Let_def)

end
