(* ===== verification/Cli_Copy_Mode.thy ===== *)
theory Cli_Copy_Mode
  imports Engine_Ops
begin

text \<open>
  Copy mode of the command line client (\<open>crates/tymux-cli/src/copy_mode.rs\<close>): the cursor, the
  scrollback offset and the selection one byte at a time, and the text of a selection.

  A cell of the captured grid is the text it shows. Positions are \<open>u16\<close>; the plain additions of the
  source can overflow (\<open>None\<close>), and the indices of the grid are cut to sixteen bits as it does.
\<close>

section \<open>State and keys\<close>

record cell_pos =
  po_row :: u16
  po_col :: u16

datatype copy_mode_event = Redraw | Exit | Yanked | Consumed

record copy_mode_state =
  cm_scrollback_offset :: usize
  cm_cursor :: cell_pos
  cm_selecting_from :: "cell_pos option"
  cm_yanked :: bytes
  cm_rows :: u16
  cm_cols :: u16

definition copy_mode_new :: "u16 \<Rightarrow> u16 \<Rightarrow> copy_mode_state" where
  "copy_mode_new rows cols = \<lparr>cm_scrollback_offset = 0, cm_cursor = \<lparr>po_row = 0, po_col = 0\<rparr>, cm_selecting_from = None,
     cm_yanked = [], cm_rows = rows, cm_cols = cols\<rparr>"

definition cm_set_row :: "u16 \<Rightarrow> copy_mode_state \<Rightarrow> copy_mode_state" where
  "cm_set_row r cs = cs\<lparr>cm_cursor := (cm_cursor cs)\<lparr>po_row := r\<rparr>\<rparr>"

definition cm_set_col :: "u16 \<Rightarrow> copy_mode_state \<Rightarrow> copy_mode_state" where
  "cm_set_col c cs = cs\<lparr>cm_cursor := (cm_cursor cs)\<lparr>po_col := c\<rparr>\<rparr>"

definition handle_byte :: "u8 \<Rightarrow> copy_mode_state \<Rightarrow> (copy_mode_event \<times> copy_mode_state) option" where
  "handle_byte b cs =
     (let row = po_row (cm_cursor cs); col = po_col (cm_cursor cs)
      in if b = 0x71 \<or> b = 0x1b then Some (Exit, cs)
         else if b = 0x68 then Some (Redraw, cm_set_col (saturating_sub col 1) cs)
         else if b = 0x6c then do { c \<leftarrow> checked_add u16_max col 1; Some (Redraw, cm_set_col (min c (saturating_sub (cm_cols cs) 1)) cs) }
         else if b = 0x6b then
           (if row = 0 then do { k \<leftarrow> checked_add u64_max (cm_scrollback_offset cs) 1; Some (Redraw, cs\<lparr>cm_scrollback_offset := k\<rparr>) }
            else do { r \<leftarrow> checked_sub row 1; Some (Redraw, cm_set_row r cs) })
         else if b = 0x6a then
           do { below \<leftarrow> checked_add u16_max row 1;
                (if cm_rows cs \<le> below then Some (Redraw, cs\<lparr>cm_scrollback_offset := saturating_sub (cm_scrollback_offset cs) 1\<rparr>)
                 else Some (Redraw, cm_set_row below cs)) }
         else if b = 0x76 then Some (Consumed, cs\<lparr>cm_selecting_from := Some (cm_cursor cs)\<rparr>)
         else if b = 0x79 then Some (if cm_selecting_from cs \<noteq> None then Yanked else Consumed, cs)
         else Some (Consumed, cs))"

section \<open>The selected text\<close>

definition pos_le :: "cell_pos \<Rightarrow> cell_pos \<Rightarrow> bool" where
  "pos_le p q \<longleftrightarrow> po_row p < po_row q \<or> po_row p = po_row q \<and> po_col p \<le> po_col q"

text \<open>\<open>enumerate\<close>, with the indices cut to \<open>u16\<close>.\<close>

definition numbered16 :: "'a list \<Rightarrow> (u16 \<times> 'a) list" where
  "numbered16 xs = zip (map (\<lambda>i. i mod 65536) [0..<length xs]) xs"

definition row_text :: "cell_pos \<Rightarrow> cell_pos \<Rightarrow> u16 \<Rightarrow> bytes list \<Rightarrow> bytes" where
  "row_text start_pos end_pos row_idx row =
     (let col_start = (if row_idx = po_row start_pos then po_col start_pos else 0);
          col_end = (if row_idx = po_row end_pos then po_col end_pos else saturating_sub (length row) 1 mod 65536)
      in concat (map (\<lambda>(col_idx, cell). if col_start \<le> col_idx \<and> col_idx \<le> col_end then cell else []) (numbered16 row))
         @ (if row_idx \<noteq> po_row end_pos then [0x0a] else []))"

definition extract_selection :: "bytes list list \<Rightarrow> cell_pos \<Rightarrow> cell_pos \<Rightarrow> bytes" where
  "extract_selection grid from_pos to_pos =
     (let (start_pos, end_pos) = (if pos_le from_pos to_pos then (from_pos, to_pos) else (to_pos, from_pos))
      in concat (map (\<lambda>(row_idx, row). if row_idx < po_row start_pos \<or> po_row end_pos < row_idx then []
                                        else row_text start_pos end_pos row_idx row) (numbered16 grid)))"

definition render_status_line :: "bool \<Rightarrow> usize \<Rightarrow> string" where
  "render_status_line live offset = (if live then ''-- COPY MODE -- offset '' @ decimal offset @ '' -- q/Escape to exit''
     else ''-- COPY MODE [exited] -- offset '' @ decimal offset @ '' -- q/Escape to exit'')"

section \<open>Reference\<close>

text \<open>
  What a selection should be: on a screen of \<open>cols\<close> columns, number the cells row by row; the cells from
  the first to the last position, with a line break after the last cell of each row but the last.
\<close>

definition flat :: "nat \<Rightarrow> cell_pos \<Rightarrow> nat" where
  "flat cols p = po_row p * cols + po_col p"

definition cells_with_breaks :: "nat \<Rightarrow> bytes list list \<Rightarrow> bytes list" where
  "cells_with_breaks cols grid = concat (map (\<lambda>row. butlast row @ [last row @ [0x0a]]) grid)"

definition selection :: "nat \<Rightarrow> bytes list list \<Rightarrow> nat \<Rightarrow> nat \<Rightarrow> bytes" where
  "selection cols grid a b = concat (take (b - a) (drop a (cells_with_breaks cols grid))) @ concat grid ! b"

section \<open>Lemmas\<close>

definition in_view :: "copy_mode_state \<Rightarrow> bool" where
  "in_view cs \<longleftrightarrow> po_row (cm_cursor cs) < cm_rows cs \<and> po_col (cm_cursor cs) < cm_cols cs
     \<and> (\<forall>p. cm_selecting_from cs = Some p \<longrightarrow> po_row p < cm_rows cs \<and> po_col p < cm_cols cs)
     \<and> cm_rows cs \<le> u16_max \<and> cm_cols cs \<le> u16_max"

fun run_bytes :: "bytes \<Rightarrow> copy_mode_state \<Rightarrow> copy_mode_state option" where
  "run_bytes [] cs = Some cs"
| "run_bytes (b # bs) cs = do { (_, cs') \<leftarrow> handle_byte b cs; run_bytes bs cs' }"

lemma handle_byte_returns:
  assumes "in_view cs" and "cm_scrollback_offset cs < u64_max"
  shows "\<exists>e cs'. handle_byte b cs = Some (e, cs') \<and> in_view cs' \<and> cm_scrollback_offset cs' \<le> cm_scrollback_offset cs + 1
    \<and> cm_rows cs' = cm_rows cs \<and> cm_cols cs' = cm_cols cs"
  using assms unfolding handle_byte_def Let_def
  by (auto simp: in_view_def cm_set_row_def cm_set_col_def arith_defs)

lemma run_bytes_returns:
  assumes "in_view cs" and "cm_scrollback_offset cs + length bs \<le> u64_max"
  shows "\<exists>cs'. run_bytes bs cs = Some cs' \<and> in_view cs' \<and> cm_rows cs' = cm_rows cs \<and> cm_cols cs' = cm_cols cs"
  using assms
proof (induction bs arbitrary: cs)
  case (Cons b bs)
  have "cm_scrollback_offset cs < u64_max" using Cons.prems(2) by simp
  then obtain e cs1 where h: "handle_byte b cs = Some (e, cs1)" "in_view cs1" "cm_scrollback_offset cs1 \<le> cm_scrollback_offset cs + 1"
    "cm_rows cs1 = cm_rows cs" "cm_cols cs1 = cm_cols cs"
    using handle_byte_returns [OF Cons.prems(1)] by blast
  have "cm_scrollback_offset cs1 + length bs \<le> u64_max" using h(3) Cons.prems(2) by simp
  with Cons.IH [OF h(2)] h show ?case by auto
qed simp

subsection \<open>Selections\<close>

lemma numbered16_small: "length xs \<le> 65536 \<Longrightarrow> numbered16 xs = map (\<lambda>i. (i, xs ! i)) [0..<length xs]"
  by (rule nth_equalityI) (simp_all add: numbered16_def)

text \<open>The rows of a grid, cell by cell, are the cells in order.\<close>

lemma upt_rows: "[0..<n * k] = concat (map (\<lambda>r. map (\<lambda>c. r * k + c) [0..<k]) [0..<n])"
proof (induction n)
  case (Suc n)
  have "[0..<Suc n * k] = [0..<n * k] @ [n * k..<n * k + k]" by (metis add.commute mult_Suc upt_add_eq_append zero_le)
  moreover have "[n * k..<n * k + k] = map (\<lambda>c. n * k + c) [0..<k]" by (simp add: map_add_upt add.commute)
  ultimately show ?case using Suc.IH by simp
qed simp

lemma concat_rows_nth:
  assumes "\<forall>row\<in>set rows. length row = k" and "r < length rows" and "c < k"
  shows "concat rows ! (r * k + c) = rows ! r ! c"
  using assms
proof (induction rows arbitrary: r)
  case (Cons row rows)
  show ?case
  proof (cases r)
    case 0
    with Cons.prems show ?thesis by (simp add: nth_append)
  next
    case (Suc r')
    have "concat rows ! (r' * k + c) = rows ! r' ! c" using Cons.prems Suc by (intro Cons.IH) auto
    then show ?thesis using Cons.prems(1) Suc by (simp add: nth_append)
  qed
qed simp

lemma length_concat_rows: "\<forall>row\<in>set rows. length row = k \<Longrightarrow> length (concat rows) = length rows * k"
  by (induction rows) auto

lemma take_drop_concat:
  assumes "a \<le> b" and "b < length ws" and "length ws = length cs"
  shows "concat (take (b - a) (drop a ws)) @ cs ! b
    = concat (map (\<lambda>i. if a \<le> i \<and> i < b then ws ! i else if i = b then cs ! i else []) [0..<length ws])" (is "_ = concat (map ?f _)")
proof -
  have "[0..<length ws] = [0..<a] @ [a..<b] @ b # [Suc b..<length ws]"
    using assms(1,2) by (metis less_imp_le_nat upt_add_eq_append upt_conv_Cons le_Suc_ex zero_le append_assoc le_add1)
  moreover have "concat (map ?f [0..<a]) = []" "concat (map ?f [Suc b..<length ws]) = []" using assms(1) by auto
  moreover have "map ?f [a..<b] = take (b - a) (drop a ws)"
    using assms(1,2) by (intro nth_equalityI) auto
  ultimately show ?thesis using assms(1) by (simp only: map_append concat_append list.map concat.simps) simp
qed

lemma flat_less: "c < k \<Longrightarrow> c' < k \<Longrightarrow> r * k + c < r' * k + c' \<longleftrightarrow> r < r' \<or> r = r' \<and> c < (c' :: nat)"
proof -
  assume k: "c < k" "c' < k"
  have less: "x * k + d < y * k + d'" if "x < y" "d < k" for x y d d'
  proof -
    have "x * k + d < Suc x * k" using that(2) by simp
    also have "\<dots> \<le> y * k" using that(1) by (intro mult_le_mono1) simp
    finally show ?thesis by simp
  qed
  show ?thesis using less [of r r' c c'] less [of r' r c' c] k by (cases r r' rule: linorder_cases) auto
qed

text \<open>One row of the selection, as the source builds it and as part of the numbered cells.\<close>

lemma row_contribution:
  assumes "length row = k" and "k \<le> 65536" and "0 < k" and "po_col e < k" and "po_col s < k" and "pos_le s e"
  shows "(if r < po_row s \<or> po_row e < r then [] else row_text s e r row)
    = concat (map (\<lambda>c. if flat k s \<le> r * k + c \<and> r * k + c < flat k e then row ! c @ (if c = k - 1 then [0x0a] else [])
        else if r * k + c = flat k e then row ! c else []) [0..<k])" (is "?l = concat (map ?f _)")
proof -
  have ge: "flat k s \<le> r * k + c \<longleftrightarrow> po_row s < r \<or> po_row s = r \<and> po_col s \<le> c" if "c < k" for c
    unfolding flat_def using flat_less [OF that assms(5), of r "po_row s"] by (auto simp: not_less[symmetric])
  have le: "r * k + c < flat k e \<longleftrightarrow> r < po_row e \<or> r = po_row e \<and> c < po_col e" if "c < k" for c
    unfolding flat_def by (rule flat_less [OF that assms(4)])
  have eq: "r * k + c = flat k e \<longleftrightarrow> r = po_row e \<and> c = po_col e" if "c < k" for c
    using flat_less [OF that assms(4), of r "po_row e"] flat_less [OF assms(4) that, of "po_row e" r] unfolding flat_def by (auto simp: neq_iff)
  have f: "?f c = (if (po_row s < r \<or> po_row s = r \<and> po_col s \<le> c) \<and> (r < po_row e \<or> r = po_row e \<and> c < po_col e)
      then row ! c @ (if c = k - 1 then [0x0a] else []) else if r = po_row e \<and> c = po_col e then row ! c else [])" if "c < k" for c
    by (simp only: ge [OF that] le [OF that] eq [OF that])
  have n: "numbered16 row = map (\<lambda>i. (i, row ! i)) [0..<k]" using numbered16_small [of row] assms(1,2) by simp
  have last: "saturating_sub (length row) 1 mod 65536 = k - 1" using assms(1-3) by (simp add: arith_defs)
  consider "r < po_row s \<or> po_row e < r" | "po_row s \<le> r" "r = po_row e" | "po_row s \<le> r" "r < po_row e" by linarith
  then show ?thesis
  proof cases
    case 1
    then have "\<forall>c<k. ?f c = []" using assms(6) f by (auto simp: pos_le_def)
    then show ?thesis using 1 by auto
  next
    case 2
    have "?f c = (if (if r = po_row s then po_col s else 0) \<le> c \<and> c \<le> po_col e then row ! c else [])" if "c < k" for c
      unfolding f [OF that] using 2 assms(4,6) that
      by (cases "po_row s = r"; cases "c < po_col e"; cases "c = po_col e") (simp_all add: pos_le_def)
    then have m: "map ?f [0..<k] = map (\<lambda>c. if (if r = po_row s then po_col s else 0) \<le> c \<and> c \<le> po_col e then row ! c else []) [0..<k]"
      by (intro map_cong) auto
    have "?l = concat (map (\<lambda>c. if (if r = po_row s then po_col s else 0) \<le> c \<and> c \<le> po_col e then row ! c else []) [0..<k])"
      using 2 by (simp add: row_text_def n comp_def)
    then show ?thesis by (simp only: m)
  next
    case 3
    let ?g = "\<lambda>c. if (if r = po_row s then po_col s else 0) \<le> c \<and> c \<le> k - 1 then row ! c else []"
    have sp: "[0..<k] = [0..<k - 1] @ [k - 1]" using assms(3) by (metis Suc_diff_1 upt_Suc zero_le)
    have "?f c = ?g c" if "c < k - 1" for c using f [of c] 3 that by (cases "po_row s = r") simp_all
    then have "map ?f [0..<k - 1] = map ?g [0..<k - 1]" by (intro map_cong) auto
    moreover have "?f (k - 1) = ?g (k - 1) @ [0x0a]" using f [of "k - 1"] 3 assms(3,5) by (cases "po_row s = r") simp_all
    ultimately have "concat (map ?f [0..<k]) = concat (map ?g [0..<k]) @ [0x0a]"
      unfolding sp map_append concat_append list.map concat.simps by (simp only: append_assoc append_Nil2)
    moreover have "?l = concat (map ?g [0..<k]) @ [0x0a]" using 3 by (simp add: row_text_def n last [simplified] comp_def)
    ultimately show ?thesis by (simp only:)
  qed
qed


lemma extract_is_selection:
  assumes "\<forall>row\<in>set grid. length row = k" and "0 < k" and "k \<le> 65536" and "length grid \<le> 65536"
    and "po_row s < length grid" "po_row e < length grid" and "po_col s < k" "po_col e < k"
  shows "extract_selection grid s e = selection k grid (min (flat k s) (flat k e)) (max (flat k s) (flat k e))"
proof -
  have main: "concat (map (\<lambda>(r, row). if r < po_row s \<or> po_row e < r then [] else row_text s e r row) (numbered16 grid))
      = selection k grid (flat k s) (flat k e)" (is "?l = _")
    if le: "pos_le s e" and b: "po_row s < length grid" "po_row e < length grid" "po_col s < k" "po_col e < k" for s e
  proof -
    let ?W = "cells_with_breaks k grid"
    let ?rows = "map (\<lambda>row. butlast row @ [last row @ [0x0a]]) grid"
    have lr: "\<forall>row\<in>set ?rows. length row = k" using assms(1,2) by auto
    have lw: "length ?W = length grid * k" using length_concat_rows [OF lr] by (simp add: cells_with_breaks_def)
    have lg: "length (concat grid) = length grid * k" by (rule length_concat_rows [OF assms(1)])
    have wn: "?W ! (r * k + c) = grid ! r ! c @ (if c = k - 1 then [0x0a] else [])" if "r < length grid" "c < k" for r c
    proof -
      have "length (grid ! r) = k" using assms(1) that(1) by simp
      moreover have "?W ! (r * k + c) = ?rows ! r ! c" unfolding cells_with_breaks_def by (rule concat_rows_nth [OF lr]) (use that in simp_all)
      moreover have "last (grid ! r) = grid ! r ! (k - 1)" using calculation(1) assms(2) by (subst last_conv_nth) auto
      ultimately show ?thesis using that assms(2) by (auto simp: nth_append nth_butlast)
    qed
    have gn: "concat grid ! (r * k + c) = grid ! r ! c" if "r < length grid" "c < k" for r c
      by (rule concat_rows_nth [OF assms(1) that])
    have ab: "flat k s \<le> flat k e" "flat k e < length ?W"
      using flat_less [OF b(4,3), of "po_row e" "po_row s"] le flat_less [OF b(4), of 0 "po_row e" "length grid"] b lw assms(2)
      by (auto simp: flat_def pos_le_def not_less [symmetric])
    let ?f = "\<lambda>i. if flat k s \<le> i \<and> i < flat k e then ?W ! i else if i = flat k e then concat grid ! i else []"
    have "selection k grid (flat k s) (flat k e) = concat (map ?f [0..<length grid * k])"
      using take_drop_concat [OF ab] lw lg by (simp add: selection_def)
    also have "\<dots> = concat (map (\<lambda>r. concat (map (\<lambda>c. ?f (r * k + c)) [0..<k])) [0..<length grid])"
    proof -
      have "concat (concat (map g rs)) = concat (map (\<lambda>r. concat (g r)) rs)" for g :: "nat \<Rightarrow> bytes list" and rs by (induction rs) auto
      then show ?thesis unfolding upt_rows map_concat by (simp add: comp_def)
    qed
    also have "\<dots> = concat (map (\<lambda>r. if r < po_row s \<or> po_row e < r then [] else row_text s e r (grid ! r)) [0..<length grid])"
    proof (intro arg_cong [where f = concat] map_cong refl)
      fix r assume "r \<in> set [0..<length grid]"
      then have r: "r < length grid" by simp
      have "map (\<lambda>c. ?f (r * k + c)) [0..<k] = map (\<lambda>c. if flat k s \<le> r * k + c \<and> r * k + c < flat k e
          then grid ! r ! c @ (if c = k - 1 then [0x0a] else []) else if r * k + c = flat k e then grid ! r ! c else []) [0..<k]"
      proof (intro map_cong refl)
        fix c assume "c \<in> set [0..<k]"
        then have c: "c < k" by simp
        show "?f (r * k + c) = (if flat k s \<le> r * k + c \<and> r * k + c < flat k e
          then grid ! r ! c @ (if c = k - 1 then [0x0a] else []) else if r * k + c = flat k e then grid ! r ! c else [])"
          by (simp only: wn [OF r c] gn [OF r c])
      qed
      moreover have "(if r < po_row s \<or> po_row e < r then [] else row_text s e r (grid ! r)) = concat (map (\<lambda>c. if flat k s \<le> r * k + c \<and> r * k + c < flat k e
          then grid ! r ! c @ (if c = k - 1 then [0x0a] else []) else if r * k + c = flat k e then grid ! r ! c else []) [0..<k])"
        by (rule row_contribution) (use assms(1-3) r b le in simp_all)
      ultimately show "concat (map (\<lambda>c. ?f (r * k + c)) [0..<k]) = (if r < po_row s \<or> po_row e < r then [] else row_text s e r (grid ! r))"
        by (simp only:)
    qed
    also have "\<dots> = ?l" using assms(4) by (simp add: numbered16_small comp_def)
    finally show ?thesis ..
  qed
  have cmp: "flat k s \<le> flat k e \<longleftrightarrow> pos_le s e"
    using flat_less [OF assms(8,7), of "po_row e" "po_row s"] by (auto simp: flat_def pos_le_def not_less [symmetric])
  show ?thesis
  proof (cases "pos_le s e")
    case True
    then show ?thesis using main [of s e] assms(5-8) cmp by (simp add: extract_selection_def min_def max_def)
  next
    case False
    then have "pos_le e s" by (auto simp: pos_le_def)
    then show ?thesis using main [of e s] assms(5-8) cmp False by (simp add: extract_selection_def min_def max_def)
  qed
qed


section \<open>Properties\<close>

text \<open>
  C38. The text of a selection is the cells from its first to its last position, read row by row, with a
  line break after each row but the last, whichever end was marked first.
\<close>

theorem selection_text:
  assumes "\<forall>row\<in>set grid. length row = k" and "0 < k" and "k \<le> 65536" and "length grid \<le> 65536"
    and "po_row p < length grid" "po_row q < length grid" and "po_col p < k" "po_col q < k"
  shows "extract_selection grid p q = selection k grid (min (flat k p) (flat k q)) (max (flat k p) (flat k q))"
  using extract_is_selection [OF assms] .

theorem selection_text_witness:
  "extract_selection [[[0x61], [0x62]], [[0x63], [0x64]]] \<lparr>po_row = 1, po_col = 0\<rparr> \<lparr>po_row = 0, po_col = 1\<rparr>
     = [0x62, 0x0a, 0x63]"
  using selection_text [of "[[[0x61], [0x62]], [[0x63], [0x64]]]" 2 "\<lparr>po_row = 1, po_col = 0\<rparr>" "\<lparr>po_row = 0, po_col = 1\<rparr>"]
  by (simp add: selection_def flat_def cells_with_breaks_def)

text \<open>
  Whatever is typed in copy mode, nothing panics and the cursor and the start of the selection stay on
  the screen, so a selection taken there is always within the captured grid.
\<close>

theorem copy_mode_in_view:
  assumes "0 < rows" and "rows \<le> u16_max" and "0 < cols" and "cols \<le> u16_max" and "length bs \<le> u64_max"
  shows "\<exists>cs. run_bytes bs (copy_mode_new rows cols) = Some cs \<and> po_row (cm_cursor cs) < rows \<and> po_col (cm_cursor cs) < cols
    \<and> (\<forall>p. cm_selecting_from cs = Some p \<longrightarrow> po_row p < rows \<and> po_col p < cols)"
proof -
  have "in_view (copy_mode_new rows cols)" using assms(1-4) by (simp add: in_view_def copy_mode_new_def)
  then show ?thesis using run_bytes_returns [of "copy_mode_new rows cols" bs] assms(5)
    by (auto simp: in_view_def copy_mode_new_def)
qed

theorem copy_mode_in_view_witness:
  "\<exists>cs. run_bytes [0x6a, 0x6c, 0x76, 0x6a] (copy_mode_new 2 3) = Some cs \<and> po_row (cm_cursor cs) < 2 \<and> po_col (cm_cursor cs) < 3"
  using copy_mode_in_view [of 2 3 "[0x6a, 0x6c, 0x76, 0x6a]"] by auto

end
