(* ===== verification/Pane_Snapshot.thy ===== *)
theory Pane_Snapshot
  imports Vt_Properties
begin

text \<open>
  What the daemon reads out of a pane's screen (\<open>crates/tymux-core/src/pane.rs\<close>): the packing of
  colours and attributes, \<open>snapshot_from_screen\<close> with its own table of hyperlinks, capturing at a
  scrollback offset, and the search through the scrollback. The lemmas show that every cell of a
  snapshot carries the text, the rendition and the link of the cell on the screen, and that reading
  does not disturb the screen.
\<close>

unbundle bit_operations_syntax

section \<open>Packing\<close>

fun pack_color :: "vt_color \<Rightarrow> u32" where
  "pack_color ColorDefault = 0"
| "pack_color (ColorIdx i) = 0x01000000 OR i"
| "pack_color (ColorRgb r g b) = 0x02000000 OR push_bit 16 r OR push_bit 8 g OR b"

definition ATTR_BOLD :: u32 where "ATTR_BOLD = 1"
definition ATTR_UNDERLINE :: u32 where "ATTR_UNDERLINE = 2"
definition ATTR_REVERSE :: u32 where "ATTR_REVERSE = 4"
definition ATTR_ITALIC :: u32 where "ATTR_ITALIC = 8"
definition ATTR_FAINT :: u32 where "ATTR_FAINT = 16"
definition ATTR_STRIKE :: u32 where "ATTR_STRIKE = 32"
definition ATTR_BLINK :: u32 where "ATTR_BLINK = 64"
definition ATTR_CONCEAL :: u32 where "ATTR_CONCEAL = 128"
definition ATTR_OVERLINE :: u32 where "ATTR_OVERLINE = 256"

fun pack_underline_style :: "underline_style \<Rightarrow> u32" where
  "pack_underline_style ULSingle = 0"
| "pack_underline_style ULDouble = 1"
| "pack_underline_style ULCurly = 2"
| "pack_underline_style ULDotted = 3"
| "pack_underline_style ULDashed = 4"

definition attr_bits :: "(16 word \<times> u32) list" where
  "attr_bits = [(TEXT_MODE_BOLD, ATTR_BOLD), (TEXT_MODE_UNDERLINE, ATTR_UNDERLINE), (TEXT_MODE_INVERSE, ATTR_REVERSE),
     (TEXT_MODE_ITALIC, ATTR_ITALIC), (TEXT_MODE_DIM, ATTR_FAINT), (TEXT_MODE_STRIKETHROUGH, ATTR_STRIKE),
     (TEXT_MODE_BLINK, ATTR_BLINK), (TEXT_MODE_CONCEAL, ATTR_CONCEAL), (TEXT_MODE_OVERLINE, ATTR_OVERLINE)]"

definition pack_attrs :: "attrs \<Rightarrow> u32" where
  "pack_attrs a = fold (\<lambda>(flag, bit) n. if attr_flag flag a then n OR bit else n) attr_bits 0"

section \<open>Snapshots\<close>

record terminal_modes =
  tm_app_cursor_keys :: bool
  tm_app_keypad :: bool
  tm_bracketed_paste :: bool
  tm_focus_events :: bool
  tm_mouse_mode :: u32
  tm_mouse_encoding :: u32
  tm_reverse_video :: bool
  tm_origin :: bool
  tm_no_autowrap :: bool
  tm_insert :: bool
  tm_newline :: bool

definition terminal_modes_of :: "screen \<Rightarrow> terminal_modes" where
  "terminal_modes_of s = \<lparr>
     tm_app_cursor_keys = mode MODE_APPLICATION_CURSOR s,
     tm_app_keypad = mode MODE_APPLICATION_KEYPAD s,
     tm_bracketed_paste = mode MODE_BRACKETED_PASTE s,
     tm_focus_events = mode MODE_FOCUS_EVENTS s,
     tm_mouse_mode = (case sc_mouse_mode s of MouseOff \<Rightarrow> 0 | Press \<Rightarrow> 1 | PressRelease \<Rightarrow> 2 | ButtonMotion \<Rightarrow> 3 | AnyMotion \<Rightarrow> 4),
     tm_mouse_encoding = (case sc_mouse_encoding s of EncDefault \<Rightarrow> 0 | EncUtf8 \<Rightarrow> 1 | EncSgr \<Rightarrow> 2 | EncUrxvt \<Rightarrow> 3),
     tm_reverse_video = mode MODE_REVERSE_VIDEO s,
     tm_origin = g_origin_mode (active_grid s),
     tm_no_autowrap = mode MODE_NO_AUTOWRAP s,
     tm_insert = mode MODE_INSERT s,
     tm_newline = mode MODE_NEWLINE s\<rparr>"

record cell_snapshot =
  cs_text :: "nat list"
  cs_fg :: u32
  cs_bg :: u32
  cs_attrs :: u32
  cs_underline_style :: u32
  cs_underline_color :: u32
  cs_hyperlink :: u32

record pane_snapshot =
  sp_rows :: u32
  sp_cols :: u32
  sp_grid :: "cell_snapshot list list"
  sp_cursor_row :: u32
  sp_cursor_col :: u32
  sp_cursor_pending_wrap :: bool
  sp_hyperlinks :: "link list"
  sp_title :: "nat list"
  sp_modes :: terminal_modes
  sp_cursor_hidden :: bool
  sp_cursor_style :: u32
  sp_alt_screen :: bool
  sp_scroll_top :: u32
  sp_scroll_bottom :: u32
  sp_tab_stops :: "u32 list"
  sp_charsets :: "u32 list \<times> u32"

fun charset_id :: "charset \<Rightarrow> u8" where
  "charset_id Ascii = 0"
| "charset_id DecSpecial = 1"
| "charset_id Uk = 2"

definition charsets_of :: "screen \<Rightarrow> u8 list \<times> u8" where
  "charsets_of s = (map charset_id (ch_g (sc_charsets s)), if ch_gl (sc_charsets s) < 256 then ch_gl (sc_charsets s) else 0)"

definition cursor_pending_wrap :: "screen \<Rightarrow> bool" where
  "cursor_pending_wrap s \<longleftrightarrow> ncols (active_grid s) \<le> cur_col (active_grid s)"

text \<open>
  The links a snapshot has met so far: its own table, and the map from the screen's link numbers into
  it. An index is assigned the first time a link is met.
\<close>

type_synonym link_table = "link list \<times> (u32 \<Rightarrow> u32 option)"

definition snap_link :: "screen \<Rightarrow> u32 \<Rightarrow> link_table \<Rightarrow> u32 \<times> link_table" where
  "snap_link s i t =
     (let (links, idx) = t
      in if i = 0 then (0, t)
         else case idx i of
           Some k \<Rightarrow> (k, t)
         | None \<Rightarrow> (case hyperlink i s of
               Some l \<Rightarrow> let k = length links + 1 in (k, (links @ [l], idx(i \<mapsto> k)))
             | None \<Rightarrow> (0, (links, idx(i \<mapsto> 0)))))"

definition no_cell :: cell_snapshot where
  "no_cell = \<lparr>cs_text = [], cs_fg = 0, cs_bg = 0, cs_attrs = 0, cs_underline_style = 0, cs_underline_color = 0, cs_hyperlink = 0\<rparr>"

definition snap_cell :: "screen \<Rightarrow> u16 \<Rightarrow> u16 \<Rightarrow> link_table \<Rightarrow> (cell_snapshot \<times> link_table) option" where
  "snap_cell s r c t =
     do { found \<leftarrow> cell_at r c s;
          case found of
            None \<Rightarrow> Some (no_cell, t)
          | Some x \<Rightarrow>
              let a = ce_attrs x; (h, t') = snap_link s (at_hyperlink a) t
              in do { txt \<leftarrow> contents x;
                      Some (\<lparr>cs_text = txt, cs_fg = pack_color (at_fgcolor a), cs_bg = pack_color (at_bgcolor a),
                             cs_attrs = pack_attrs a, cs_underline_style = pack_underline_style (at_underline_style a),
                             cs_underline_color = pack_color (at_ulcolor a), cs_hyperlink = h\<rparr>, t') } }"

fun snap_cells :: "screen \<Rightarrow> u16 \<Rightarrow> u16 list \<Rightarrow> link_table \<Rightarrow> (cell_snapshot list \<times> link_table) option" where
  "snap_cells s r [] t = Some ([], t)"
| "snap_cells s r (c # cs) t =
     do { (x, t1) \<leftarrow> snap_cell s r c t; (xs, t2) \<leftarrow> snap_cells s r cs t1; Some (x # xs, t2) }"

fun snap_rows :: "screen \<Rightarrow> u16 list \<Rightarrow> u16 list \<Rightarrow> link_table \<Rightarrow> (cell_snapshot list list \<times> link_table) option" where
  "snap_rows s cols [] t = Some ([], t)"
| "snap_rows s cols (r # rs) t =
     do { (x, t1) \<leftarrow> snap_cells s r cols t; (xs, t2) \<leftarrow> snap_rows s cols rs t1; Some (x # xs, t2) }"

definition snapshot_from_screen :: "screen \<Rightarrow> pane_snapshot option" where
  "snapshot_from_screen s =
     (let g = active_grid s; rows = nrows g; cols = ncols g
      in do { (grid, links, _) \<leftarrow> snap_rows s [0..<cols] [0..<rows] ([], Map.empty);
              (scroll_top, scroll_bottom) \<leftarrow> scroll_region g;
              let (gs, gl) = charsets_of s;
              Some \<lparr>sp_rows = rows, sp_cols = cols, sp_grid = grid, sp_cursor_row = cur_row g,
                    sp_cursor_col = min (cur_col g) (saturating_sub cols 1), sp_cursor_pending_wrap = cursor_pending_wrap s,
                    sp_hyperlinks = links, sp_title = sc_title s, sp_modes = terminal_modes_of s,
                    sp_cursor_hidden = mode MODE_HIDE_CURSOR s, sp_cursor_style = sc_cursor_style s,
                    sp_alt_screen = mode MODE_ALTERNATE_SCREEN s, sp_scroll_top = scroll_top, sp_scroll_bottom = scroll_bottom,
                    sp_tab_stops = grid_tab_stops g, sp_charsets = (gs, gl)\<rparr> })"

text \<open>Capturing leaves the view at the live screen.\<close>

definition snapshot_at_offset :: "usize \<Rightarrow> screen \<Rightarrow> (pane_snapshot \<times> screen) option" where
  "snapshot_at_offset offset s =
     (let s1 = screen_set_scrollback offset s
      in do { snap \<leftarrow> snapshot_from_screen s1; Some (snap, screen_set_scrollback 0 s1) })"

section \<open>Searching\<close>

text \<open>The text of the top row of the view, as the search reads it.\<close>

definition top_line :: "screen \<Rightarrow> nat list option" where
  "top_line s = map_option concat (map_opt (\<lambda>c. do { found \<leftarrow> cell_at 0 c s; case found of None \<Rightarrow> Some [] | Some x \<Rightarrow> contents x })
     [0..<ncols (active_grid s)])"

fun search_from :: "nat list \<Rightarrow> usize list \<Rightarrow> screen \<Rightarrow> ((usize \<times> nat list) option \<times> screen) option" where
  "search_from pattern [] s = Some (None, s)"
| "search_from pattern (k # ks) s =
     (let s1 = screen_set_scrollback k s
      in do { line \<leftarrow> top_line s1;
              (if sublist pattern line then Some (Some (k, line), s1) else search_from pattern ks s1) })"

text \<open>\<open>usize::MAX\<close> is clamped to the length of the scrollback, so the search starts from its oldest line's offset.\<close>

definition search_scrollback :: "nat list \<Rightarrow> usize \<Rightarrow> screen \<Rightarrow> ((usize \<times> nat list) option \<times> screen) option" where
  "search_scrollback pattern start s =
     (if pattern = [] then Some (None, s)
      else let s1 = screen_set_scrollback u64_max s; max_offset = g_scrollback_offset (active_grid s1)
           in do { (found, s2) \<leftarrow> search_from pattern [start..<max_offset + 1] s1; Some (found, screen_set_scrollback 0 s2) })"

section \<open>Lemmas\<close>

subsection \<open>Colours\<close>

text \<open>How a client reads a packed colour: the top byte is the kind.\<close>

definition unpack_color :: "u32 \<Rightarrow> vt_color" where
  "unpack_color n = (if drop_bit 24 n = 0 then ColorDefault
     else if drop_bit 24 n = 1 then ColorIdx (take_bit 8 n)
     else ColorRgb (take_bit 8 (drop_bit 16 n)) (take_bit 8 (drop_bit 8 n)) (take_bit 8 n))"

fun color_ok :: "vt_color \<Rightarrow> bool" where
  "color_ok ColorDefault = True"
| "color_ok (ColorIdx i) = (i < 256)"
| "color_ok (ColorRgb r g b) = (r < 256 \<and> g < 256 \<and> b < 256)"

lemma or_low:
  fixes a b :: nat
  assumes "b < 2 ^ k"
  shows "push_bit k a OR b = a * 2 ^ k + b"
proof -
  have "b = take_bit k b" using assms by (simp add: take_bit_nat_eq_self)
  moreover have "push_bit k a AND take_bit k b = 0"
    by (rule bit_eqI) (simp add: bit_simps)
  ultimately have "push_bit k a AND b = 0" by simp
  then show ?thesis by (simp add: push_bit_eq_mult flip: disjunctive_add_eq_or)
qed

lemma pack_color_sum:
  "i < 256 \<Longrightarrow> pack_color (ColorIdx i) = 0x01000000 + i"
  "r < 256 \<Longrightarrow> g < 256 \<Longrightarrow> b < 256 \<Longrightarrow> pack_color (ColorRgb r g b) = 0x02000000 + r * 0x10000 + g * 0x100 + b"
proof -
  show "pack_color (ColorIdx i) = 0x01000000 + i" if "i < 256"
    using or_low [of i 24 1] that by (simp add: push_bit_eq_mult)
  assume b: "r < 256" "g < 256" "b < 256"
  have 1: "push_bit 8 g OR b = g * 256 + b" using or_low [of b 8 g] b by simp
  have 2: "push_bit 16 r OR (g * 256 + b) = r * 0x10000 + (g * 256 + b)" using or_low [of "g * 256 + b" 16 r] b by simp
  have 3: "0x02000000 OR (r * 0x10000 + (g * 256 + b)) = 0x02000000 + (r * 0x10000 + (g * 256 + b))"
    using or_low [of "r * 0x10000 + (g * 256 + b)" 24 2] b by (simp add: push_bit_eq_mult)
  show "pack_color (ColorRgb r g b) = 0x02000000 + r * 0x10000 + g * 0x100 + b"
    by (simp add: or.assoc 1 2 3)
qed

lemma byte_digit:
  fixes x b :: nat
  assumes "b < 256"
  shows "(x * 256 + b) div 256 = x" and "(x * 256 + b) mod 256 = b"
  using assms by simp_all

lemma unpack_pack: "color_ok c \<Longrightarrow> unpack_color (pack_color c) = c"
proof (cases c)
  case (ColorRgb r g b)
  assume "color_ok c"
  then have b: "r < 256" "g < 256" "b < 256" using ColorRgb by auto
  define n where "n = ((2 * 256 + r) * 256 + g) * 256 + b"
  have d1: "n div 256 = (2 * 256 + r) * 256 + g" "n mod 256 = b" unfolding n_def by (rule byte_digit [OF b(3)])+
  have "n div 65536 = n div 256 div 256" using div_mult2_eq [of n 256 256] by simp
  then have d2: "n div 65536 = 2 * 256 + r" unfolding d1 by (simp only: byte_digit [OF b(2)])
  have "n div 16777216 = n div 65536 div 256" using div_mult2_eq [of n 65536 256] by simp
  then have d3: "n div 16777216 = 2" unfolding d2 by (simp only: byte_digit [OF b(1)])
  have m: "(2 * 256 + r) mod 256 = r" "((2 * 256 + r) * 256 + g) mod 256 = g" by (rule byte_digit [OF b(1)], rule byte_digit [OF b(2)])
  have "pack_color c = n" using pack_color_sum(2) [OF b] by (simp add: ColorRgb n_def del: pack_color.simps)
  then show ?thesis
    unfolding unpack_color_def drop_bit_eq_div take_bit_eq_mod using d1 d2 d3 m ColorRgb by simp
next
  case (ColorIdx i)
  assume "color_ok c"
  then have "i < 256" using ColorIdx by simp
  then show ?thesis using pack_color_sum(1) [of i]
    by (simp add: ColorIdx unpack_color_def drop_bit_eq_div take_bit_eq_mod mod_add_eq [symmetric] del: pack_color.simps)
qed (simp add: unpack_color_def)

subsection \<open>Reading cells\<close>

lemma active_grid_ok: "screen_ok sz n s \<Longrightarrow> \<exists>lim. grid_ok (linked (length (sc_hyperlinks s))) sz lim (active_grid s)"
  by (auto simp: screen_ok_def grids_ok_def active_grid_def alternate_ok_def grid_ok_def)

lemma active_grid_member: "active_grid s \<in> {sc_grid s, sc_alternate_grid s}"
  by (simp add: active_grid_def)

lemma nth_opt_in: "nth_opt xs i = Some x \<Longrightarrow> x \<in> set xs"
  by (auto simp: nth_opt_def split: if_splits)

lemma visible_cell_in:
  assumes "visible_cell p g = Some (Some x)"
  shows "x \<in> set (grid_cells g)"
proof -
  obtain rs r where rs: "visible_rows g = Some rs" and r: "nth_opt rs (p_row p) = Some r" and x: "nth_opt (rw_cells r) (p_col p) = Some x"
    using assms by (auto simp: visible_cell_def bind_Some_conv)
  have "set rs \<subseteq> set (g_scrollback g) \<union> set (g_rows g)"
    using rs by (auto simp: visible_rows_def bind_Some_conv dest!: in_set_takeD in_set_dropD)
  then have "r \<in> set (g_scrollback g) \<union> set (g_rows g)" using nth_opt_in [OF r] by blast
  then show ?thesis using nth_opt_in [OF x] by (auto simp: grid_cells_def)
qed

lemma cell_at_returns:
  assumes "screen_ok sz n s"
  shows "returns (cell_at r c s) (\<lambda>found. \<forall>x. found = Some x \<longrightarrow> cell_ok x \<and> linked (length (sc_hyperlinks s)) (ce_attrs x))"
proof -
  obtain lim where g: "grid_ok (linked (length (sc_hyperlinks s))) sz lim (active_grid s)" using active_grid_ok [OF assms] ..
  then have "g_scrollback_offset (active_grid s) \<le> length (g_scrollback (active_grid s))" by (simp add: grid_ok_def frame_ok_def)
  then obtain rs where rs: "visible_rows (active_grid s) = Some rs" by (simp add: visible_rows_def checked_sub_def)
  then obtain found where f: "cell_at r c s = Some found" by (simp add: cell_at_def visible_cell_def)
  have "cell_ok x \<and> linked (length (sc_hyperlinks s)) (ce_attrs x)" if "found = Some x" for x
  proof -
    have "x \<in> set (grid_cells (active_grid s))" using visible_cell_in f that by (auto simp: cell_at_def)
    then show ?thesis using screen_cells(3) [OF assms active_grid_member] by blast
  qed
  then show ?thesis using f by (simp add: returns_def)
qed

subsection \<open>The link table of a snapshot\<close>

definition table_ok :: "screen \<Rightarrow> link_table \<Rightarrow> bool" where
  "table_ok s t \<longleftrightarrow> (\<forall>i k. snd t i = Some k \<longrightarrow> 0 < k \<and> k \<le> length (fst t) \<and> hyperlink i s = Some (fst t ! (k - 1)))"

text \<open>A cell of the screen and its image in a snapshot with the links \<open>links\<close>.\<close>

definition shows_cell :: "screen \<Rightarrow> link list \<Rightarrow> cell option \<Rightarrow> cell_snapshot \<Rightarrow> bool" where
  "shows_cell s links found x \<longleftrightarrow> (case found of
     None \<Rightarrow> x = no_cell
   | Some c \<Rightarrow> contents c = Some (cs_text x)
       \<and> cs_fg x = pack_color (at_fgcolor (ce_attrs c)) \<and> cs_bg x = pack_color (at_bgcolor (ce_attrs c))
       \<and> cs_underline_color x = pack_color (at_ulcolor (ce_attrs c)) \<and> cs_attrs x = pack_attrs (ce_attrs c)
       \<and> cs_underline_style x = pack_underline_style (at_underline_style (ce_attrs c))
       \<and> (if at_hyperlink (ce_attrs c) = 0 then cs_hyperlink x = 0
          else 0 < cs_hyperlink x \<and> cs_hyperlink x \<le> length links
             \<and> hyperlink (at_hyperlink (ce_attrs c)) s = Some (links ! (cs_hyperlink x - 1))))"

lemma shows_cell_more: "shows_cell s links found x \<Longrightarrow> shows_cell s (links @ rest) found x"
  by (auto simp: shows_cell_def nth_append split: option.splits if_splits)

lemma snap_link_spec:
  assumes "table_ok s t" and "linked (length (sc_hyperlinks s)) a" and "snap_link s (at_hyperlink a) t = (h, t')"
  shows "table_ok s t' \<and> (\<exists>rest. fst t' = fst t @ rest)
    \<and> (if at_hyperlink a = 0 then h = 0
       else 0 < h \<and> h \<le> length (fst t') \<and> hyperlink (at_hyperlink a) s = Some (fst t' ! (h - 1)))"
proof -
  obtain links idx where t: "t = (links, idx)" by force
  let ?i = "at_hyperlink a"
  show ?thesis
  proof (cases "?i = 0")
    case True
    then show ?thesis using assms by (auto simp: snap_link_def)
  next
    case nz: False
    show ?thesis
    proof (cases "idx ?i")
      case (Some k)
      then have "h = k" "t' = t" using assms(3) nz t by (auto simp: snap_link_def)
      then show ?thesis using assms(1) Some t nz by (auto simp: table_ok_def)
    next
      case None
      obtain l where l: "hyperlink ?i s = Some l" using link_resolves [OF assms(2) nz] by blast
      then have e: "h = length links + 1" "t' = (links @ [l], idx(?i \<mapsto> length links + 1))"
        using assms(3) nz t None by (auto simp: snap_link_def Let_def)
      have "table_ok s t'" using assms(1) l by (force simp: e t table_ok_def nth_append)
      then show ?thesis using l nz by (auto simp: e t nth_append)
    qed
  qed
qed

lemma snap_cell_returns:
  assumes "screen_ok sz n s" and "table_ok s t"
  shows "returns (snap_cell s r c t) (\<lambda>(x, t'). table_ok s t' \<and> (\<exists>rest. fst t' = fst t @ rest)
     \<and> (\<exists>found. cell_at r c s = Some found \<and> shows_cell s (fst t') found x))"
proof -
  obtain found where f: "cell_at r c s = Some found"
      and ok: "\<forall>x. found = Some x \<longrightarrow> cell_ok x \<and> linked (length (sc_hyperlinks s)) (ce_attrs x)"
    using cell_at_returns [OF assms(1), of r c] unfolding returns_def by blast
  show ?thesis
  proof (cases found)
    case None
    then show ?thesis using f assms(2) by (simp add: snap_cell_def returns_def shows_cell_def)
  next
    case (Some x)
    obtain w where w: "contents x = Some w" using ok Some contents_returns by (fastforce simp: returns_def)
    obtain h t' where h: "snap_link s (at_hyperlink (ce_attrs x)) t = (h, t')" by (metis surj_pair)
    have "linked (length (sc_hyperlinks s)) (ce_attrs x)" using ok Some by blast
    note l = snap_link_spec [OF assms(2) this h]
    let ?a = "ce_attrs x"
    let ?x = "\<lparr>cs_text = w, cs_fg = pack_color (at_fgcolor ?a), cs_bg = pack_color (at_bgcolor ?a), cs_attrs = pack_attrs ?a,
        cs_underline_style = pack_underline_style (at_underline_style ?a), cs_underline_color = pack_color (at_ulcolor ?a), cs_hyperlink = h\<rparr>"
    have "snap_cell s r c t = Some (?x, t')" by (simp add: snap_cell_def f Some w h Let_def)
    moreover have "shows_cell s (fst t') found ?x" using l by (simp add: shows_cell_def Some w)
    ultimately show ?thesis using l f by (simp add: returns_def)
  qed
qed

lemma snap_cells_returns:
  assumes "screen_ok sz n s" and "table_ok s t"
  shows "returns (snap_cells s r cs t) (\<lambda>(xs, t'). table_ok s t' \<and> (\<exists>rest. fst t' = fst t @ rest) \<and> length xs = length cs
     \<and> (\<forall>j < length cs. \<exists>found. cell_at r (cs ! j) s = Some found \<and> shows_cell s (fst t') found (xs ! j)))"
  using assms(2)
proof (induction cs arbitrary: t)
  case (Cons c cs)
  obtain x t1 where x: "snap_cell s r c t = Some (x, t1)" "table_ok s t1" "\<exists>rest. fst t1 = fst t @ rest"
      "\<exists>found. cell_at r c s = Some found \<and> shows_cell s (fst t1) found x"
    using snap_cell_returns [OF assms(1) Cons.prems, of r c] by (auto simp: returns_def)
  obtain xs t2 where xs: "snap_cells s r cs t1 = Some (xs, t2)" "table_ok s t2" "\<exists>rest. fst t2 = fst t1 @ rest" "length xs = length cs"
      "\<forall>j < length cs. \<exists>found. cell_at r (cs ! j) s = Some found \<and> shows_cell s (fst t2) found (xs ! j)"
    using Cons.IH [OF x(2)] by (auto simp: returns_def)
  have "\<exists>found. cell_at r ((c # cs) ! j) s = Some found \<and> shows_cell s (fst t2) found ((x # xs) ! j)" if "j < Suc (length cs)" for j
    using x(4) xs(3,5) that shows_cell_more by (cases j) (simp, metis, simp)
  then show ?case using x xs by (auto simp: returns_def)
qed (simp add: returns_def)

lemma snap_rows_returns:
  assumes "screen_ok sz n s" and "table_ok s t"
  shows "returns (snap_rows s cs rs t) (\<lambda>(xs, t'). table_ok s t' \<and> (\<exists>rest. fst t' = fst t @ rest) \<and> length xs = length rs
     \<and> (\<forall>i < length rs. length (xs ! i) = length cs
          \<and> (\<forall>j < length cs. \<exists>found. cell_at (rs ! i) (cs ! j) s = Some found \<and> shows_cell s (fst t') found (xs ! i ! j))))"
  using assms(2)
proof (induction rs arbitrary: t)
  case (Cons r rs)
  obtain x t1 where x: "snap_cells s r cs t = Some (x, t1)" "table_ok s t1" "\<exists>rest. fst t1 = fst t @ rest" "length x = length cs"
      "\<forall>j < length cs. \<exists>found. cell_at r (cs ! j) s = Some found \<and> shows_cell s (fst t1) found (x ! j)"
    using snap_cells_returns [OF assms(1) Cons.prems, of r cs] by (auto simp: returns_def)
  obtain xs t2 where xs: "snap_rows s cs rs t1 = Some (xs, t2)" "table_ok s t2" "\<exists>rest. fst t2 = fst t1 @ rest" "length xs = length rs"
      "\<forall>i < length rs. length (xs ! i) = length cs
          \<and> (\<forall>j < length cs. \<exists>found. cell_at (rs ! i) (cs ! j) s = Some found \<and> shows_cell s (fst t2) found (xs ! i ! j))"
    using Cons.IH [OF x(2)] by (auto simp: returns_def)
  have row: "\<forall>j < length cs. \<exists>found. cell_at r (cs ! j) s = Some found \<and> shows_cell s (fst t2) found (x ! j)"
    using x(5) xs(3) shows_cell_more by metis
  have "length ((x # xs) ! i) = length cs
      \<and> (\<forall>j < length cs. \<exists>found. cell_at ((r # rs) ! i) (cs ! j) s = Some found \<and> shows_cell s (fst t2) found ((x # xs) ! i ! j))"
    if "i < Suc (length rs)" for i
    using row x(4) xs(5) that by (cases i) simp_all
  then show ?case using x xs by (auto simp: returns_def)
qed (simp add: returns_def)

lemma scroll_region_returns: "grid_ok A sz lim g \<Longrightarrow> returns (scroll_region g) (\<lambda>_. True)"
  using grid_sizes [of A sz lim g] by (auto simp: scroll_region_def returns_def checked_add_def)

subsection \<open>Moving the view\<close>

lemma screen_set_scrollback_ok: "screen_ok sz n s \<Longrightarrow> screen_ok sz n (screen_set_scrollback k s)"
  unfolding screen_set_scrollback_def by (rule in_grid_ok) (auto intro: linked.set_scrollback_ok)

text \<open>A row that may have been filled up on the right with unused cells.\<close>

definition widened :: "row \<Rightarrow> row \<Rightarrow> bool" where
  "widened r r' \<longleftrightarrow> (\<exists>k. r' = r\<lparr>rw_cells := rw_cells r @ replicate k cell_new\<rparr>)"

lemma widened_refl: "widened r r"
  unfolding widened_def by (rule exI [of _ 0]) simp

lemma widened_trans: "widened a b \<Longrightarrow> widened b c \<Longrightarrow> widened a c"
proof (unfold widened_def, elim exE)
  fix j k assume "b = a\<lparr>rw_cells := rw_cells a @ replicate j cell_new\<rparr>" "c = b\<lparr>rw_cells := rw_cells b @ replicate k cell_new\<rparr>"
  then have "c = a\<lparr>rw_cells := rw_cells a @ replicate (j + k) cell_new\<rparr>" by (simp add: replicate_add)
  then show "\<exists>k. c = a\<lparr>rw_cells := rw_cells a @ replicate k cell_new\<rparr>" ..
qed

lemma pad_row_widened: "widened r (pad_row n r)"
  using widened_refl by (auto simp: pad_row_def vec_resize_def widened_def)

lemma set_scrollback_widened:
  "list_all2 widened (g_scrollback g) (g_scrollback (set_scrollback k g))"
  "(set_scrollback k g)\<lparr>g_scrollback := [], g_scrollback_offset := 0\<rparr> = g\<lparr>g_scrollback := [], g_scrollback_offset := 0\<rparr>"
  "g_scrollback_offset (set_scrollback k g) = min k (length (g_scrollback g))"
proof -
  let ?m = "length (g_scrollback g) - min (min k (length (g_scrollback g))) (length (g_scrollback g))"
  let ?sb = "g_scrollback g"
  have "?sb = take ?m ?sb @ take (length (g_rows g)) (drop ?m ?sb) @ drop (length (g_rows g)) (drop ?m ?sb)" by (simp only: append_take_drop_id)
  moreover have "list_all2 widened xs xs" and "list_all2 widened xs (map (pad_row n) xs)" for xs n
    by (simp_all add: list.rel_refl widened_refl list_all2_conv_all_nth pad_row_widened)
  ultimately have "list_all2 widened ?sb (take ?m ?sb @ map (pad_row (ncols g)) (take (length (g_rows g)) (drop ?m ?sb))
      @ drop (length (g_rows g)) (drop ?m ?sb))"
    by (metis list_all2_appendI)
  then show "list_all2 widened (g_scrollback g) (g_scrollback (set_scrollback k g))"
    by (simp add: set_scrollback_def pad_scrollback_window_def Let_def)
qed (simp_all add: set_scrollback_def pad_scrollback_window_def Let_def)

lemma snapshot_returns:
  assumes "screen_ok sz n s"
  shows "returns (snapshot_from_screen s) (\<lambda>snap. sp_rows snap = sz_rows sz \<and> sp_cols snap = sz_cols sz
    \<and> length (sp_grid snap) = sz_rows sz
    \<and> (\<forall>i < sz_rows sz. length (sp_grid snap ! i) = sz_cols sz
         \<and> (\<forall>j < sz_cols sz. \<exists>found. cell_at i j s = Some found \<and> shows_cell s (sp_hyperlinks snap) found (sp_grid snap ! i ! j)))
    \<and> sp_cursor_col snap < sz_cols sz \<and> sp_cursor_row snap < sz_rows sz)"
proof -
  obtain lim where g: "grid_ok (linked (length (sc_hyperlinks s))) sz lim (active_grid s)" using active_grid_ok [OF assms] ..
  note sizes = grid_sizes [OF g]
  obtain t b where tb: "scroll_region (active_grid s) = Some (t, b)" using scroll_region_returns [OF g] by (auto simp: returns_def)
  have "table_ok s ([], Map.empty)" by (simp add: table_ok_def)
  from snap_rows_returns [OF assms this, of "[0..<sz_cols sz]" "[0..<sz_rows sz]"]
  obtain xs links idx where xs: "snap_rows s [0..<sz_cols sz] [0..<sz_rows sz] ([], Map.empty) = Some (xs, links, idx)" "length xs = sz_rows sz"
      "\<forall>i < sz_rows sz. length (xs ! i) = sz_cols sz
         \<and> (\<forall>j < sz_cols sz. \<exists>found. cell_at i j s = Some found \<and> shows_cell s links found (xs ! i ! j))"
    by (auto simp: returns_def)
  show ?thesis using xs sizes by (simp add: returns_def snapshot_from_screen_def tb Let_def split_beta saturating_sub_def)
qed

section \<open>Properties\<close>

text \<open>
  A packed colour reads back: for every colour the terminal can hold, the 32-bit value the daemon
  sends determines the colour, its kind in the top byte.
\<close>

theorem color_roundtrip:
  "color_ok c \<Longrightarrow> unpack_color (pack_color c) = c \<and> pack_color c < 2 ^ 32"
proof -
  assume c: "color_ok c"
  have "pack_color c < 2 ^ 32"
  proof (cases c)
    case (ColorIdx i)
    then show ?thesis using c pack_color_sum(1) [of i] by simp
  next
    case (ColorRgb r g b)
    then show ?thesis using c pack_color_sum(2) [of r g b] by simp
  qed simp
  then show ?thesis using unpack_pack [OF c] by simp
qed

theorem color_roundtrip_witness: "unpack_color (pack_color (ColorRgb 1 2 3)) = ColorRgb 1 2 3"
  using color_roundtrip [of "ColorRgb 1 2 3"] by simp



text \<open>
  Capturing is only a look: at any offset \<open>snapshot_at_offset\<close> returns, leaves a well-formed screen
  with the view back at the live rows, and changes nothing in it but filling old scrollback rows up on
  the right with unused cells.
\<close>

theorem capture_leaves_screen:
  assumes "screen_ok sz n s"
  shows "\<exists>snap s'. snapshot_at_offset k s = Some (snap, s') \<and> screen_ok sz n s' \<and> g_scrollback_offset (active_grid s') = 0
    \<and> list_all2 widened (g_scrollback (active_grid s)) (g_scrollback (active_grid s'))
    \<and> (active_grid s')\<lparr>g_scrollback := [], g_scrollback_offset := 0\<rparr> = (active_grid s)\<lparr>g_scrollback := [], g_scrollback_offset := 0\<rparr>
    \<and> s' = in_grid (\<lambda>_. active_grid s') s"
proof -
  let ?s1 = "screen_set_scrollback k s" and ?g = "active_grid s"
  let ?s2 = "screen_set_scrollback 0 ?s1"
  have ok: "screen_ok sz n ?s1" "screen_ok sz n ?s2" using assms by (simp_all add: screen_set_scrollback_ok)
  obtain snap where snap: "snapshot_from_screen ?s1 = Some snap" using snapshot_returns [OF ok(1)] by (auto simp: returns_def)
  have g2: "active_grid ?s2 = set_scrollback 0 (set_scrollback k ?g)" by (simp add: screen_set_scrollback_def)
  have "list_all2 widened (g_scrollback ?g) (g_scrollback (active_grid ?s2))"
    unfolding g2 by (rule list_all2_trans [OF widened_trans set_scrollback_widened(1) set_scrollback_widened(1)])
  moreover have "?s2 = in_grid (\<lambda>_. active_grid ?s2) s"
    unfolding g2 by (simp add: screen_set_scrollback_def in_grid_def active_grid_def mode_def)
  ultimately show ?thesis using ok(2) snap set_scrollback_widened(2,3) by (simp add: snapshot_at_offset_def g2)
qed

theorem capture_leaves_screen_witness:
  "\<exists>snap s'. snapshot_at_offset 7 (screen_new \<lparr>sz_rows = 2, sz_cols = 3\<rparr> 5) = Some (snap, s') \<and> g_scrollback_offset (active_grid s') = 0"
  using capture_leaves_screen [OF screen_new_ok [of "\<lparr>sz_rows = 2, sz_cols = 3\<rparr>" 5], of 7] by (auto simp: size_ok_def)

end
