(* ===== verification/Pane_Stream.thy ===== *)
theory Pane_Stream
  imports Pane_Snapshot Replay Terminal_Query
begin

text \<open>
  A pane's output stream and its delivery to an attached client: the reader thread of
  \<open>crates/tymux-core/src/pane.rs\<close> (\<open>start_reader\<close>, \<open>inject_output\<close>) and the \<open>attach\<close> handler of
  \<open>crates/tymuxd/src/main.rs\<close> (priming, replay, forwarding).

  \<^item> \<open>stream\<close> holds the fields of \<open>Pane\<close> the reader changes. \<open>st_sent\<close> is everything given to the
    broadcast channel so far, and \<open>st_log\<close> the data of every numbered chunk as the replay buffer was
    given it; both are histories no operation reads.
  \<^item> The reader's critical section and \<open>inject_output\<close> are one step each: both run under the parser
    lock, and the replay push and the new sequence number become visible together.
  \<^item> The broadcast channel is tokio's. A client sees it as the results of \<open>recv\<close>; \<open>delivered\<close> states what
    its documentation promises of them: every value in order, or an error that tells how many were
    skipped.
\<close>

section \<open>The stream\<close>

definition DEFAULT_SCROLLBACK_LINES :: usize where "DEFAULT_SCROLLBACK_LINES = 5000"
definition MIN_SCROLLBACK_LINES :: usize where "MIN_SCROLLBACK_LINES = 100"
definition GLOBAL_SCROLLBACK_BUDGET_LINES :: usize where "GLOBAL_SCROLLBACK_BUDGET_LINES = 50000"

definition allocate_scrollback_budget :: "usize \<Rightarrow> usize \<times> usize" where
  "allocate_scrollback_budget used =
     (let remaining = saturating_sub GLOBAL_SCROLLBACK_BUDGET_LINES used;
          granted = min DEFAULT_SCROLLBACK_LINES (max remaining MIN_SCROLLBACK_LINES)
      in (granted, used + granted))"

definition release_scrollback_budget :: "usize \<Rightarrow> usize \<Rightarrow> usize" where
  "release_scrollback_budget used lines = used - lines"

record ('v, 'p) stream =
  st_parser :: "'v parser"
  st_seq :: u64
  st_replay :: replay_buffer
  st_scanner :: "'p query_scanner"
  st_held :: bytes
  st_clients :: client_registry
  st_daemon_answers :: bool
  st_sent :: "chunk list"
  st_log :: "bytes list"

text \<open>The part of \<open>assemble\<close> that sets the stream up for a fresh process.\<close>

definition stream_new :: "'v \<Rightarrow> 'p \<Rightarrow> vt_size \<Rightarrow> usize \<Rightarrow> usize \<Rightarrow> ('v, 'p) stream" where
  "stream_new v p sz scrollback_lines replay_budget =
     \<lparr>st_parser = fresh_parser v sz scrollback_lines, st_seq = 0, st_replay = rb_new replay_budget,
      st_scanner = scanner_new p, st_held = [], st_clients = [], st_daemon_answers = False, st_sent = [], st_log = []\<rparr>"

text \<open>The replay push and the bump of \<open>output_seq\<close>, under the replay lock.\<close>

definition push_bump :: "bytes \<Rightarrow> ('v, 'p) stream \<Rightarrow> (u64 \<times> ('v, 'p) stream) option" where
  "push_bump dat st =
     do { next \<leftarrow> checked_add u64_max (st_seq st) 1;
          b \<leftarrow> rb_push (st_replay st) next dat;
          Some (next, st\<lparr>st_replay := b, st_seq := st_seq st + 1, st_log := st_log st @ [dat]\<rparr>) }"

definition broadcast :: "u64 \<Rightarrow> bytes \<Rightarrow> ('v, 'p) stream \<Rightarrow> ('v, 'p) stream" where
  "broadcast seq payload st = st\<lparr>st_sent := st_sent st @ [(seq, payload)]\<rparr>"

text \<open>The reader thread with the \<open>n\<close> bytes \<open>buf\<close> it has read.\<close>

definition reader_chunk :: "width_fun \<Rightarrow> ('v \<Rightarrow> bytes \<Rightarrow> term_event list \<times> 'v) \<Rightarrow> 'p vte \<Rightarrow> bytes \<Rightarrow> ('v, 'p) stream \<Rightarrow> ('v, 'p) stream option" where
  "reader_chunk cw tok adv buf st =
     do { next \<leftarrow> checked_add u64_max (st_seq st) 1;
          let daemon_answers = (\<not> has_answerer (st_clients st) next);
          p \<leftarrow> process cw tok buf (st_parser st);
          (scanned, q) \<leftarrow> feed adv (st_scanner st) buf;
          (seq, st1) \<leftarrow> push_bump (stripped scanned)
             (st\<lparr>st_daemon_answers := daemon_answers, st_parser := p, st_scanner := q, st_held := qs_held q\<rparr>);
          let payload = snd (chunk_payload (st_clients st) next scanned);
          Some (if payload = [] then st1 else broadcast seq payload st1) }"

text \<open>At the end of the pty a sequence that is still open is released.\<close>

definition reader_eof :: "('v, 'p) stream \<Rightarrow> ('v, 'p) stream option" where
  "reader_eof st =
     (let (rest, q) = take_held (st_scanner st); st0 = st\<lparr>st_scanner := q\<rparr>
      in if rest = [] then Some st0
         else do { (seq, st1) \<leftarrow> push_bump rest st0; Some (broadcast seq rest st1) })"

text \<open>\<open>inject_output\<close>, for the markers of the supervisor.\<close>

definition stream_inject :: "width_fun \<Rightarrow> ('v \<Rightarrow> bytes \<Rightarrow> term_event list \<times> 'v) \<Rightarrow> bytes \<Rightarrow> ('v, 'p) stream \<Rightarrow> ('v, 'p) stream option" where
  "stream_inject cw tok dat st =
     do { p \<leftarrow> process cw tok dat (st_parser st);
          (seq, st1) \<leftarrow> push_bump dat (st\<lparr>st_parser := p\<rparr>);
          Some (broadcast seq dat st1) }"

text \<open>
  A new reader starts with a fresh scanner, which is fed the bytes a previous daemon image held back
  (none after a respawn).
\<close>

definition start_reader :: "'p vte \<Rightarrow> 'p \<Rightarrow> bytes \<Rightarrow> ('v, 'p) stream \<Rightarrow> ('v, 'p) stream option" where
  "start_reader adv p adopted st =
     do { (_, q) \<leftarrow> feed adv (scanner_new p) adopted; Some (st\<lparr>st_scanner := q, st_held := qs_held q\<rparr>) }"

definition stream_replay_since :: "u64 \<Rightarrow> ('v, 'p) stream \<Rightarrow> replay_outcome" where
  "stream_replay_since k st = replay_since (st_replay st) k (st_seq st)"

definition snapshot_with_seq :: "('v, 'p) stream \<Rightarrow> ((pane_snapshot \<times> u64) \<times> ('v, 'p) stream) option" where
  "snapshot_with_seq st =
     do { (snap, s) \<leftarrow> snapshot_at_offset 0 (pa_screen (st_parser st));
          Some ((snap, st_seq st), st\<lparr>st_parser := (st_parser st)\<lparr>pa_screen := s\<rparr>\<rparr>) }"

text \<open>Everything else a pane does to its stream, interleaved with a client that attaches.\<close>

inductive stream_step :: "width_fun \<Rightarrow> ('v \<Rightarrow> bytes \<Rightarrow> term_event list \<times> 'v) \<Rightarrow> 'p vte \<Rightarrow> ('v, 'p) stream \<Rightarrow> ('v, 'p) stream \<Rightarrow> bool"
  for cw tok adv where
  chunk: "reader_chunk cw tok adv buf st = Some st' \<Longrightarrow> stream_step cw tok adv st st'"
| eof: "reader_eof st = Some st' \<Longrightarrow> stream_step cw tok adv st st'"
| inject: "stream_inject cw tok dat st = Some st' \<Longrightarrow> stream_step cw tok adv st st'"
| reader: "start_reader adv p adopted st = Some st' \<Longrightarrow> stream_step cw tok adv st st'"
| look: "snapshot_with_seq st = Some (x, st') \<Longrightarrow> stream_step cw tok adv st st'"
| clients: "stream_step cw tok adv st (st\<lparr>st_clients := cs\<rparr>)"

section \<open>Attaching\<close>

datatype attach_event =
    EvSnapshot pane_snapshot
  | EvOutput bytes
  | EvOutputChunk u64 bytes
  | EvOutputGap
  | EvGapExceeded u64

datatype resume_outcome = ResumedFromBuffer | GapExceededFallback | NoResumeTokenFullAttach

record priming =
  pr_events :: "attach_event list"
  pr_threshold :: u64
  pr_emit_chunk :: bool
  pr_replay :: "chunk list"
  pr_outcome :: resume_outcome

text \<open>The three ways \<open>attach\<close> primes a client, by what it asked to resume from.\<close>

definition attach_prime :: "u64 option \<Rightarrow> ('v, 'p) stream \<Rightarrow> (priming \<times> ('v, 'p) stream) option" where
  "attach_prime resume_from_seq st =
     (case resume_from_seq of
        Some k \<Rightarrow>
          (case stream_replay_since k st of
             InWindow chunks tail_seq \<Rightarrow>
               Some (\<lparr>pr_events = [], pr_threshold = tail_seq, pr_emit_chunk = True, pr_replay = chunks,
                      pr_outcome = ResumedFromBuffer\<rparr>, st)
           | GapExceeded oldest \<Rightarrow>
               do { ((snap, seq), st1) \<leftarrow> snapshot_with_seq st;
                    Some (\<lparr>pr_events = [EvGapExceeded (case oldest of Some o' \<Rightarrow> o' | None \<Rightarrow> 0), EvSnapshot snap],
                           pr_threshold = seq, pr_emit_chunk = True, pr_replay = [], pr_outcome = GapExceededFallback\<rparr>, st1) })
      | None \<Rightarrow>
          do { ((snap, seq), st1) \<leftarrow> snapshot_with_seq st;
               Some (\<lparr>pr_events = [EvSnapshot snap], pr_threshold = seq, pr_emit_chunk = False, pr_replay = [],
                      pr_outcome = NoResumeTokenFullAttach\<rparr>, st1) })"

text \<open>A result of \<open>output_rx.recv()\<close>.\<close>

datatype recv = Received u64 bytes | Lagged u64 | Closed

datatype forward_step = Emit attach_event | Skip | End

fun forward_step_for_output_result :: "recv \<Rightarrow> u64 \<Rightarrow> bool \<Rightarrow> forward_step" where
  "forward_step_for_output_result (Received seq dat) threshold emit_output_chunk =
     (if seq \<le> threshold then Skip else if emit_output_chunk then Emit (EvOutputChunk seq dat) else Emit (EvOutput dat))"
| "forward_step_for_output_result (Lagged n) threshold emit_output_chunk = Emit EvOutputGap"
| "forward_step_for_output_result Closed threshold emit_output_chunk = End"

text \<open>
  The output branch of the forwarding loop over the results it receives, and whether the stream is
  still open; and the mark a client slot carries after each result.
\<close>

fun forward_loop :: "u64 \<Rightarrow> bool \<Rightarrow> recv list \<Rightarrow> attach_event list \<times> bool" where
  "forward_loop threshold chunked [] = ([], True)"
| "forward_loop threshold chunked (r # rs) =
     (case forward_step_for_output_result r threshold chunked of
        Emit e \<Rightarrow> (let (es, live) = forward_loop threshold chunked rs in (e # es, live))
      | Skip \<Rightarrow> forward_loop threshold chunked rs
      | End \<Rightarrow> ([], False))"

fun lag_mark :: "recv \<Rightarrow> client_slot \<Rightarrow> client_slot" where
  "lag_mark (Lagged n) c = set_lagged True c"
| "lag_mark (Received seq dat) c = set_lagged False c"
| "lag_mark Closed c = c"

text \<open>What a client is sent: the priming events, the replay backlog, then the live output.\<close>

definition attach_events :: "priming \<Rightarrow> recv list \<Rightarrow> attach_event list" where
  "attach_events pr rs = pr_events pr @ map (\<lambda>(seq, dat). EvOutputChunk seq dat) (pr_replay pr)
     @ fst (forward_loop (pr_threshold pr) (pr_emit_chunk pr) rs)"

section \<open>What the channel promises\<close>

fun delivered :: "recv list \<Rightarrow> chunk list \<Rightarrow> bool" where
  "delivered [] cs = True"
| "delivered (Received seq dat # rs) cs = (case cs of c # cs' \<Rightarrow> c = (seq, dat) \<and> delivered rs cs' | [] \<Rightarrow> False)"
| "delivered (Lagged n # rs) cs = (0 < n \<and> n \<le> length cs \<and> delivered rs (drop n cs))"
| "delivered (Closed # rs) cs = (cs = [] \<and> rs = [])"

fun received :: "recv list \<Rightarrow> nat" where
  "received [] = 0"
| "received (Received seq dat # rs) = Suc (received rs)"
| "received (Lagged n # rs) = n + received rs"
| "received (Closed # rs) = 0"

section \<open>The invariant\<close>

definition tokenizers_ok :: "width_fun \<Rightarrow> ('v \<Rightarrow> bytes \<Rightarrow> term_event list \<times> 'v) \<Rightarrow> 'p vte \<Rightarrow> bool" where
  "tokenizers_ok cw tok adv \<longleftrightarrow> width_fun_ok cw \<and> (\<forall>v bs. list_all event_ok (fst (tok v bs))) \<and> well_tokenized adv"

definition stream_inv :: "vt_size \<Rightarrow> usize \<Rightarrow> usize \<Rightarrow> ('v, 'p) stream \<Rightarrow> bool" where
  "stream_inv sz n budget st \<longleftrightarrow> screen_ok sz n (pa_screen (st_parser st)) \<and> st_seq st = length (st_log st)
     \<and> rb_push_all (rb_new budget) (numbered (st_log st)) = Some (st_replay st)
     \<and> sorted_wrt (<) (map fst (st_sent st)) \<and> (\<forall>c\<in>set (st_sent st). fst c \<le> st_seq st)"

text \<open>What a step may add to a stream.\<close>

definition extends :: "('v, 'p) stream \<Rightarrow> ('v, 'p) stream \<Rightarrow> bool" where
  "extends st st' \<longleftrightarrow> (\<exists>new. st_sent st' = st_sent st @ new \<and> (\<forall>c\<in>set new. st_seq st < fst c))
     \<and> (\<exists>new. st_log st' = st_log st @ new) \<and> st_seq st \<le> st_seq st'"

lemma extends_refl: "st_sent st' = st_sent st \<Longrightarrow> st_log st' = st_log st \<Longrightarrow> st_seq st' = st_seq st \<Longrightarrow> extends st st'"
  by (simp add: extends_def)

lemma extends_trans:
  assumes "extends a b" and "extends b c"
  shows "extends a c"
proof -
  obtain x y where x: "st_sent b = st_sent a @ x" "\<forall>c\<in>set x. st_seq a < fst c" and y: "st_sent c = st_sent b @ y" "\<forall>c\<in>set y. st_seq b < fst c"
    using assms unfolding extends_def by blast
  have le: "st_seq a \<le> st_seq b" "st_seq b \<le> st_seq c" using assms by (simp_all add: extends_def)
  have "st_sent c = st_sent a @ (x @ y)" "\<forall>c\<in>set (x @ y). st_seq a < fst c" using x y le by fastforce+
  moreover have "\<exists>new. st_log c = st_log a @ new" using assms by (auto simp: extends_def)
  ultimately show ?thesis using le unfolding extends_def by (meson order_trans)
qed

lemma rb_push_all_append: "rb_push_all b (xs @ ys) = rb_push_all b xs \<bind> (\<lambda>b. rb_push_all b ys)"
  by (induction xs arbitrary: b) (auto split: option.splits bind_splits)

lemma numbered_snoc: "numbered (ds @ [d]) = numbered ds @ [(Suc (length ds), d)]"
  by (simp add: numbered_def enumerate_append_eq)

lemma push_bump_spec:
  assumes "stream_inv sz n budget st" and "push_bump dat st = Some (seq, st')"
  shows "stream_inv sz n budget st'" "seq = Suc (st_seq st)" "st_seq st' = seq" "st_sent st' = st_sent st" "st_log st' = st_log st @ [dat]"
    "st_clients st' = st_clients st" "st_scanner st' = st_scanner st"
proof -
  show "stream_inv sz n budget st'"
    using assms by (fastforce simp: push_bump_def bind_Some_conv stream_inv_def numbered_snoc rb_push_all_append dest!: checked_add_SomeD)
qed (use assms in \<open>auto simp: push_bump_def bind_Some_conv dest!: checked_add_SomeD\<close>)

lemma push_bump_returns:
  assumes "stream_inv sz n budget st" and "st_seq st < u64_max"
  shows "push_bump dat st \<noteq> None"
proof -
  obtain b where "rb_push_all (rb_new budget) (numbered (st_log st @ [dat])) = Some b" using rb_push_all_suffix by blast
  then have "rb_push (st_replay st) (Suc (st_seq st)) dat \<noteq> None"
    using assms(1) by (auto simp: stream_inv_def numbered_snoc rb_push_all_append split: bind_splits option.splits)
  then show ?thesis using assms(2) by (auto simp: push_bump_def checked_add_def)
qed

lemma broadcast_inv:
  assumes "stream_inv sz n budget st" and "push_bump dat st = Some (seq, st')"
  shows "stream_inv sz n budget (broadcast seq payload st') \<and> extends st (broadcast seq payload st')"
  using push_bump_spec [OF assms] assms(1) by (auto simp: stream_inv_def broadcast_def extends_def sorted_wrt_append le_imp_less_Suc)

lemma process_keeps_ok:
  assumes "tokenizers_ok cw tok adv" and "screen_ok sz n (pa_screen p)"
  shows "\<exists>q. process cw tok bs p = Some q \<and> screen_ok sz n (pa_screen q)"
  using process_returns [OF assms(2)] assms(1) by (fastforce simp: tokenizers_ok_def returns_def)

lemma stream_inv_side:
  "stream_inv sz n budget st \<Longrightarrow> stream_inv sz n budget (st\<lparr>st_scanner := q\<rparr>)"
  "stream_inv sz n budget st \<Longrightarrow> stream_inv sz n budget (st\<lparr>st_scanner := q, st_held := h\<rparr>)"
  "stream_inv sz n budget st \<Longrightarrow> stream_inv sz n budget (st\<lparr>st_clients := cs\<rparr>)"
  "stream_inv sz n budget st \<Longrightarrow> screen_ok sz n (pa_screen p) \<Longrightarrow> stream_inv sz n budget (st\<lparr>st_parser := p\<rparr>)"
  "stream_inv sz n budget st \<Longrightarrow> screen_ok sz n (pa_screen p)
     \<Longrightarrow> stream_inv sz n budget (st\<lparr>st_daemon_answers := d, st_parser := p, st_scanner := q, st_held := h\<rparr>)"
  by (auto simp: stream_inv_def)

lemma extends_side: "extends (st\<lparr>st_scanner := q\<rparr>) = extends st" "extends (st\<lparr>st_parser := p\<rparr>) = extends st"
    "extends (st\<lparr>st_daemon_answers := d, st_parser := p, st_scanner := q, st_held := h\<rparr>) = extends st"
  by (simp_all add: extends_def fun_eq_iff)

lemma pushed_only:
  assumes "stream_inv sz n budget st" and "push_bump dat st = Some (seq, st')"
  shows "stream_inv sz n budget st' \<and> extends st st'"
  using push_bump_spec [OF assms] by (simp add: extends_def)

lemma reader_chunk_inv:
  assumes "tokenizers_ok cw tok adv" and "stream_inv sz n budget st" and "reader_chunk cw tok adv buf st = Some st'"
  shows "stream_inv sz n budget st' \<and> extends st st'"
proof -
  have "screen_ok sz n (pa_screen (st_parser st))" using assms(2) by (simp add: stream_inv_def)
  then obtain p where p: "process cw tok buf (st_parser st) = Some p" "screen_ok sz n (pa_screen p)"
    using process_keeps_ok [OF assms(1)] by blast
  obtain k where k: "checked_add u64_max (st_seq st) 1 = Some k" using assms(3) by (auto simp: reader_chunk_def bind_Some_conv)
  obtain sc q where f: "feed adv (st_scanner st) buf = Some (sc, q)" using assms(3) by (auto simp: reader_chunk_def bind_Some_conv p Let_def)
  let ?st = "st\<lparr>st_daemon_answers := \<not> has_answerer (st_clients st) k, st_parser := p, st_scanner := q, st_held := qs_held q\<rparr>"
  have i: "stream_inv sz n budget ?st" by (rule stream_inv_side(5) [OF assms(2) p(2)])
  obtain seq st1 where b: "push_bump (stripped sc) ?st = Some (seq, st1)" using assms(3) by (auto simp: reader_chunk_def bind_Some_conv p k [simplified] f Let_def)
  define payload where "payload = snd (chunk_payload (st_clients st) k sc)"
  have "st' = (if payload = [] then st1 else broadcast seq payload st1)"
    using assms(3) by (auto simp: reader_chunk_def p k [simplified] f b Let_def payload_def)
  then show ?thesis using pushed_only [OF i b] broadcast_inv [OF i b, of payload] by (simp add: extends_side)
qed

lemma stream_step_inv:
  assumes "tokenizers_ok cw tok adv" and "stream_inv sz n budget st" and "stream_step cw tok adv st st'"
  shows "stream_inv sz n budget st' \<and> extends st st'"
  using assms(3)
proof cases
  case (chunk buf)
  then show ?thesis by (rule reader_chunk_inv [OF assms(1,2)])
next
  case eof
  obtain rest q where t: "take_held (st_scanner st) = (rest, q)" by (metis surj_pair)
  have i: "stream_inv sz n budget (st\<lparr>st_scanner := q\<rparr>)" by (rule stream_inv_side(1) [OF assms(2)])
  show ?thesis
  proof (cases "rest = []")
    case True
    then show ?thesis using eof i by (auto simp: reader_eof_def t intro!: extends_refl)
  next
    case False
    obtain seq st1 where b: "push_bump rest (st\<lparr>st_scanner := q\<rparr>) = Some (seq, st1)" using eof False by (auto simp: reader_eof_def t bind_Some_conv)
    then have "st' = broadcast seq rest st1" using eof False by (simp add: reader_eof_def t)
    then show ?thesis using broadcast_inv [OF i b, of rest] by (simp add: extends_side)
  qed
next
  case (inject dat)
  have "screen_ok sz n (pa_screen (st_parser st))" using assms(2) by (simp add: stream_inv_def)
  then obtain p where p: "process cw tok dat (st_parser st) = Some p" "screen_ok sz n (pa_screen p)"
    using process_keeps_ok [OF assms(1)] by blast
  have i: "stream_inv sz n budget (st\<lparr>st_parser := p\<rparr>)" by (rule stream_inv_side(4) [OF assms(2) p(2)])
  obtain seq st1 where b: "push_bump dat (st\<lparr>st_parser := p\<rparr>) = Some (seq, st1)" using inject by (auto simp: stream_inject_def p bind_Some_conv)
  then have "st' = broadcast seq dat st1" using inject by (simp add: stream_inject_def p)
  then show ?thesis using broadcast_inv [OF i b, of dat] by (simp add: extends_side)
next
  case (reader p adopted)
  then obtain q where "st' = st\<lparr>st_scanner := q, st_held := qs_held q\<rparr>" by (auto simp: start_reader_def bind_Some_conv)
  then show ?thesis using stream_inv_side(2) [OF assms(2)] by (simp add: extends_refl)
next
  case (look x)
  have ok: "screen_ok sz n (pa_screen (st_parser st))" using assms(2) by (simp add: stream_inv_def)
  obtain snap s where s: "snapshot_at_offset 0 (pa_screen (st_parser st)) = Some (snap, s)" "st' = st\<lparr>st_parser := (st_parser st)\<lparr>pa_screen := s\<rparr>\<rparr>"
    using look by (auto simp: snapshot_with_seq_def bind_Some_conv)
  have "screen_ok sz n s"
    using s(1) screen_set_scrollback_ok [OF screen_set_scrollback_ok [OF ok]] by (auto simp: snapshot_at_offset_def Let_def bind_Some_conv)
  then show ?thesis using s(2) stream_inv_side(4) [OF assms(2)] by (simp add: extends_refl)
next
  case (clients cs)
  then show ?thesis using stream_inv_side(3) [OF assms(2)] by (simp add: extends_refl)
qed

lemma stream_steps_inv:
  assumes "tokenizers_ok cw tok adv" and "(stream_step cw tok adv)\<^sup>*\<^sup>* st st'" and "stream_inv sz n budget st"
  shows "stream_inv sz n budget st' \<and> extends st st'"
  using assms(2)
proof (induction rule: rtranclp_induct)
  case (step y z)
  then show ?case using stream_step_inv [OF assms(1)] extends_trans by blast
qed (simp add: assms(3) extends_refl)

lemma stream_new_inv: "size_ok sz \<Longrightarrow> stream_inv sz n budget (stream_new v p sz n budget)"
  by (simp add: stream_inv_def stream_new_def fresh_parser_def screen_new_ok numbered_def)

section \<open>Delivery\<close>

lemma forward_delivered:
  assumes "delivered rs cs" and "EvOutputGap \<notin> set (fst (forward_loop threshold chunked rs))"
  shows "fst (forward_loop threshold chunked rs)
     = map (\<lambda>(seq, dat). if chunked then EvOutputChunk seq dat else EvOutput dat) (filter (\<lambda>c. threshold < fst c) (take (received rs) cs))"
  using assms
proof (induction rs cs rule: delivered.induct)
  case (2 seq dat rs cs)
  then show ?case by (cases cs) (auto simp: Let_def split_beta split: if_splits)
qed (auto simp: Let_def split_beta)

lemma received_bound: "delivered rs cs \<Longrightarrow> received rs \<le> length cs"
  by (induction rs cs rule: delivered.induct) (auto split: list.splits)

lemma filter_take_old:
  assumes "\<forall>c\<in>set old. fst c \<le> (t :: nat)"
  shows "filter (\<lambda>c. t < fst c) (take (length old + k) (old @ new)) = filter (\<lambda>c. t < fst c) (take k new)"
  using assms by (auto simp: filter_empty_conv not_less)

lemma replay_since_tail: "replay_since b k m = InWindow cs t \<Longrightarrow> t = m"
  by (auto simp: replay_since_def Let_def split: if_splits)

lemma attach_prime_cases:
  assumes "attach_prime resume st = Some (pr, st')"
  shows "pr_threshold pr = st_seq st
    \<and> (pr_outcome pr = ResumedFromBuffer \<and> pr_events pr = [] \<and> pr_emit_chunk pr \<and> st' = st
         \<and> (\<exists>k. resume = Some k \<and> replay_since (st_replay st) k (st_seq st) = InWindow (pr_replay pr) (st_seq st))
       \<or> pr_outcome pr \<noteq> ResumedFromBuffer \<and> pr_replay pr = [] \<and> pr_emit_chunk pr = (resume \<noteq> None)
         \<and> (\<exists>snap. snapshot_with_seq st = Some ((snap, st_seq st), st') \<and> last (pr_events pr) = EvSnapshot snap
              \<and> set (pr_events pr) \<subseteq> insert (EvSnapshot snap) (range EvGapExceeded)))"
proof (cases "\<exists>k cs t. resume = Some k \<and> stream_replay_since k st = InWindow cs t")
  case True
  then obtain k cs t where k: "resume = Some k" "stream_replay_since k st = InWindow cs t" by blast
  then have "t = st_seq st" using replay_since_tail by (simp add: stream_replay_since_def)
  then show ?thesis using assms k by (auto simp: attach_prime_def stream_replay_since_def)
next
  case False
  then obtain snap st1 where s: "snapshot_with_seq st = Some ((snap, st_seq st), st1)"
    using assms by (auto simp: attach_prime_def snapshot_with_seq_def bind_Some_conv split: option.splits replay_outcome.splits)
  show ?thesis using assms False by (auto simp: attach_prime_def s split: option.splits replay_outcome.splits)
qed

lemma replay_window_filter:
  assumes "stream_inv sz n budget st" and "replay_since (st_replay st) k (st_seq st) = InWindow cs t"
  shows "cs = filter (\<lambda>c. k < fst c \<and> fst c \<le> st_seq st) (numbered (st_log st))"
proof -
  have s: "suffix (rb_entries (st_replay st)) (numbered (st_log st))" "numbered (st_log st) \<noteq> [] \<longrightarrow> rb_entries (st_replay st) \<noteq> []"
    using rb_push_all_suffix [of budget "numbered (st_log st)"] assms(1) by (auto simp: stream_inv_def)
  have c: "cs = filter (\<lambda>(s, _). k < s \<and> s \<le> st_seq st) (rb_entries (st_replay st))"
    using assms(2) by (auto simp: replay_since_def Let_def split: if_splits)
  show ?thesis
  proof (cases "rb_entries (st_replay st)")
    case Nil
    then show ?thesis using s(2) c by (metis filter.simps(1))
  next
    case (Cons e es)
    then have "fst (hd (rb_entries (st_replay st))) \<le> Suc k"
      using assms(2) by (cases e) (auto simp: replay_since_def oldest_seq_def Let_def split: if_splits)
    then show ?thesis using filter_numbered_suffix [OF s(1), of k "st_seq st"] Cons c by (simp add: case_prod_unfold)
  qed
qed

lemma numbered_fst: "map fst (numbered ds) = [1..<Suc (length ds)]"
  by (simp add: numbered_def)

lemma numbered_old: "filter (\<lambda>c. k < fst c \<and> fst c \<le> length xs) (numbered (xs @ ys)) = filter (\<lambda>c. k < fst c \<and> fst c \<le> length xs) (numbered xs)"
  by (auto simp: numbered_def enumerate_append_eq filter_empty_conv in_set_enumerate_eq)

lemma sorted_seqs_filter: "sorted_wrt (<) (map fst cs) \<Longrightarrow> sorted_wrt (<) (map fst (filter P cs))"
  by (induction cs) auto

lemma sorted_seqs_take: "sorted_wrt (<) (map fst cs) \<Longrightarrow> sorted_wrt (<) (map fst (take k cs))"
  by (metis sorted_wrt_take take_map)

text \<open>A client that subscribed at \<open>st0\<close>, was primed at \<open>st1\<close> and has received \<open>rs\<close> by \<open>st2\<close>.\<close>

lemma live_part:
  assumes "extends st0 st1" and "extends st1 st2" and "stream_inv sz n budget st0"
    and "delivered rs (drop (length (st_sent st0)) (st_sent st2))" and "EvOutputGap \<notin> set (fst (forward_loop (st_seq st1) chunked rs))"
  shows "fst (forward_loop (st_seq st1) chunked rs) = map (\<lambda>(seq, dat). if chunked then EvOutputChunk seq dat else EvOutput dat)
    (filter (\<lambda>c. st_seq st1 < fst c) (take (length (st_sent st0) + received rs) (st_sent st2)))"
proof -
  obtain new where new: "st_sent st2 = st_sent st0 @ new" using extends_trans [OF assms(1,2)] by (auto simp: extends_def)
  have "\<forall>c\<in>set (st_sent st0). fst c \<le> st_seq st1" using assms(1,3) unfolding stream_inv_def extends_def by (meson order_trans)
  from filter_take_old [OF this, of "received rs" new] show ?thesis
    using forward_delivered [OF assms(4,5)] by (simp add: new)
qed

lemma attach_states:
  assumes "tokenizers_ok cw tok adv" and "size_ok sz"
    and "(stream_step cw tok adv)\<^sup>*\<^sup>* (stream_new v p sz n budget) st0" and "(stream_step cw tok adv)\<^sup>*\<^sup>* st0 st1"
    and "attach_prime resume st1 = Some (pr, st1')" and "(stream_step cw tok adv)\<^sup>*\<^sup>* st1' st2"
  shows "stream_inv sz n budget st0" "stream_inv sz n budget st1" "stream_inv sz n budget st2" "extends st0 st1" "extends st1 st2"
proof -
  note run = stream_steps_inv [OF assms(1)]
  show 0: "stream_inv sz n budget st0" using run [OF assms(3) stream_new_inv [OF assms(2)]] by blast
  show 1: "stream_inv sz n budget st1" "extends st0 st1" using run [OF assms(4) 0] by auto
  have "stream_step cw tok adv st1 st1' \<or> st1' = st1" using attach_prime_cases [OF assms(5)] by (auto intro: look)
  then have "(stream_step cw tok adv)\<^sup>*\<^sup>* st1 st2" using assms(6) by (auto intro: converse_rtranclp_into_rtranclp)
  then show "stream_inv sz n budget st2" "extends st1 st2" using run [OF _ 1(1)] by auto
qed

section \<open>Progress\<close>

lemma inject_returns:
  assumes "tokenizers_ok cw tok adv" and "stream_inv sz n budget st" and "st_seq st < u64_max"
  shows "\<exists>st'. stream_inject cw tok dat st = Some st' \<and> st_seq st' = Suc (st_seq st) \<and> st_sent st' = st_sent st @ [(Suc (st_seq st), dat)]
    \<and> st_log st' = st_log st @ [dat] \<and> rb_push (st_replay st) (Suc (st_seq st)) dat = Some (st_replay st')"
proof -
  have "screen_ok sz n (pa_screen (st_parser st))" using assms(2) by (simp add: stream_inv_def)
  then obtain p where p: "process cw tok dat (st_parser st) = Some p" "screen_ok sz n (pa_screen p)"
    using process_keeps_ok [OF assms(1)] by blast
  have i: "stream_inv sz n budget (st\<lparr>st_parser := p\<rparr>)" by (rule stream_inv_side(4) [OF assms(2) p(2)])
  obtain seq st1 where b: "push_bump dat (st\<lparr>st_parser := p\<rparr>) = Some (seq, st1)"
    using push_bump_returns [OF i, of dat] assms(3) by auto
  then have "rb_push (st_replay st) (Suc (st_seq st)) dat = Some (st_replay st1)"
    by (auto simp: push_bump_def bind_Some_conv dest!: checked_add_SomeD)
  then show ?thesis using push_bump_spec [OF i b] by (simp add: stream_inject_def p b broadcast_def)
qed

lemma reader_chunk_returns:
  assumes "tokenizers_ok cw tok adv" and "stream_inv sz n budget st" and "st_seq st < u64_max"
  shows "reader_chunk cw tok adv buf st \<noteq> None"
proof -
  have "screen_ok sz n (pa_screen (st_parser st))" using assms(2) by (simp add: stream_inv_def)
  then obtain p where p: "process cw tok buf (st_parser st) = Some p" "screen_ok sz n (pa_screen p)"
    using process_keeps_ok [OF assms(1)] by blast
  obtain sc q where f: "feed adv (st_scanner st) buf = Some (sc, q)" using feed_total assms(1) by (force simp: tokenizers_ok_def)
  let ?st = "st\<lparr>st_daemon_answers := \<not> has_answerer (st_clients st) (Suc (st_seq st)), st_parser := p, st_scanner := q, st_held := qs_held q\<rparr>"
  have "stream_inv sz n budget ?st" by (rule stream_inv_side(5) [OF assms(2) p(2)])
  then obtain seq st1 where "push_bump (stripped sc) ?st = Some (seq, st1)" using push_bump_returns [of sz n budget ?st "stripped sc"] assms(3) by auto
  then show ?thesis using assms(3) by (simp add: reader_chunk_def p f checked_add_def Let_def)
qed

lemma reader_eof_returns:
  assumes "stream_inv sz n budget st" and "st_seq st < u64_max"
  shows "reader_eof st \<noteq> None"
proof -
  obtain rest q where t: "take_held (st_scanner st) = (rest, q)" by (metis surj_pair)
  have "push_bump rest (st\<lparr>st_scanner := q\<rparr>) \<noteq> None" by (rule push_bump_returns [OF stream_inv_side(1) [OF assms(1)]]) (simp add: assms(2))
  then show ?thesis by (auto simp: reader_eof_def t Let_def)
qed

lemma attach_prime_returns:
  assumes "stream_inv sz n budget st"
  shows "attach_prime resume st \<noteq> None"
proof -
  have "screen_ok sz n (pa_screen (st_parser st))" using assms by (simp add: stream_inv_def)
  from snapshot_returns [OF screen_set_scrollback_ok [OF this, of 0]] obtain snap s where "snapshot_at_offset 0 (pa_screen (st_parser st)) = Some (snap, s)"
    by (auto simp: returns_def snapshot_at_offset_def Let_def)
  then show ?thesis by (auto simp: attach_prime_def snapshot_with_seq_def split: option.splits replay_outcome.splits)
qed

lemma example_tokenizers: "tokenizers_ok (\<lambda>_. Some 1) ascii_tokenizer osc_only"
  using one_column_ok by (simp add: tokenizers_ok_def ascii_tokenizer_ok osc_only_well_tokenized)

section \<open>Properties\<close>





text \<open>
  The reader thread survives its input: in every state a pane's stream can reach, with fewer than
  \<open>2 ^ 64 - 1\<close> chunks so far, feeding any bytes to the screen, the query scanner and the replay buffer
  returns, and so do the release of held bytes at the end of the pty, injecting a marker and priming a
  client.
\<close>

theorem reader_never_panics:
  assumes "tokenizers_ok cw tok adv" and "size_ok sz"
    and "(stream_step cw tok adv)\<^sup>*\<^sup>* (stream_new v p sz n budget) st" and "st_seq st < u64_max"
  shows "reader_chunk cw tok adv buf st \<noteq> None \<and> reader_eof st \<noteq> None \<and> stream_inject cw tok dat st \<noteq> None
    \<and> attach_prime resume st \<noteq> None"
proof -
  have i: "stream_inv sz n budget st" using stream_steps_inv [OF assms(1,3) stream_new_inv [OF assms(2)]] by blast
  show ?thesis
    using reader_chunk_returns [OF assms(1) i assms(4)] reader_eof_returns [OF i assms(4)] inject_returns [OF assms(1) i assms(4), of dat]
      attach_prime_returns [OF i, of resume] by blast
qed

theorem reader_never_panics_witness:
  "reader_chunk (\<lambda>_. Some 1) ascii_tokenizer osc_only [0x1b, 0x61] (stream_new () [] \<lparr>sz_rows = 2, sz_cols = 3\<rparr> 5 10) \<noteq> None"
proof -
  have sz: "size_ok \<lparr>sz_rows = 2, sz_cols = 3\<rparr>" by (simp add: size_ok_def)
  have "st_seq (stream_new () ([] :: bytes) \<lparr>sz_rows = 2, sz_cols = 3\<rparr> 5 10) < u64_max" by (simp add: stream_new_def)
  from reader_never_panics [OF example_tokenizers sz rtranclp.rtrancl_refl this] show ?thesis by blast
qed

text \<open>
  The scrollback budget is a floor, not a ceiling: a pane always gets at least 100 lines, so once the
  50000 lines of the global budget are granted the total goes on growing by 100 lines with every pane.
\<close>

theorem scrollback_budget_grows:
  assumes "GLOBAL_SCROLLBACK_BUDGET_LINES \<le> used"
  shows "((\<lambda>u. snd (allocate_scrollback_budget u)) ^^ k) used = used + k * MIN_SCROLLBACK_LINES"
  using assms by (induction k)
    (simp_all add: allocate_scrollback_budget_def saturating_sub_def Let_def GLOBAL_SCROLLBACK_BUDGET_LINES_def MIN_SCROLLBACK_LINES_def
      DEFAULT_SCROLLBACK_LINES_def)

theorem scrollback_budget_grows_witness:
  "((\<lambda>u. snd (allocate_scrollback_budget u)) ^^ 20) 50000 = 52000"
  using scrollback_budget_grows [of 50000 20] by (simp add: GLOBAL_SCROLLBACK_BUDGET_LINES_def MIN_SCROLLBACK_LINES_def)

end
