(* ===== verification/Cli_Attach.thy ===== *)
theory Cli_Attach
  imports Cli_Target Cli_Input Cli_Copy_Mode Pane_Stream
begin

text \<open>
  The attach loop of the command line client (\<open>attach\<close> in \<open>crates/tymux-cli/src/main.rs\<close>): one handler for
  each branch of its \<open>select!\<close>, a resize of the terminal, an event of the stream and a read of the keyboard.

  A handler returns what it does to the outside, in order, and how the loop goes on. The answers of the
  daemon and of the terminal to the calls of one handler are its argument \<open>cli_env\<close>; a failed call is
  \<open>None\<close>. Writing to the terminal and sending on the stream are taken to succeed.
\<close>

section \<open>State, answers and effects\<close>

record attach_state =
  at_reassembler :: reassembler
  at_copy :: "copy_mode_state option"
  at_mode :: display_mode

record cli_env =
  ce_capture :: "usize \<Rightarrow> (pane_snapshot \<times> i32) option"
  ce_sessions :: "proto_session list option"
  ce_term_size :: "(u16 \<times> u16) option"

record attach_args =
  aa_pane :: string
  aa_session_name :: string
  aa_config :: tymux_config
  aa_status_bar :: status_bar_config

datatype attach_effect =
    SendInput bytes
  | SendResize u32 u32
  | WriteBytes bytes
  | ClearScreen
  | WriteRow "bytes list"
  | CopyStatus string
  | StatusLine u16 chars
  | Reserve chars
  | Message string
  | CallSplitPane orientation
  | CallClosePane
  | CallCreateWindow string

datatype attach_outcome = Done | SwitchTo string

datatype attach_result = Continue attach_state | Finished attach_outcome | AttachError

section \<open>Drawing\<close>

definition render_plain_grid :: "pane_snapshot \<Rightarrow> attach_effect list" where
  "render_plain_grid snap = ClearScreen # map (\<lambda>row. WriteRow (map (\<lambda>c. if cs_text c = [] then [0x20] else cs_text c) row)) (sp_grid snap)"

definition redraw_status_line :: "attach_args \<Rightarrow> u16 \<Rightarrow> display_mode \<Rightarrow> attach_effect list" where
  "redraw_status_line a term_rows dmode =
     (if \<not> sb_enabled (aa_status_bar a) then []
      else [StatusLine term_rows (colorize (render_hint_line dmode (aa_config a) (lit (aa_session_name a))) (aa_status_bar a))])"

definition redraw_copy_mode :: "cli_env \<Rightarrow> copy_mode_state \<Rightarrow> attach_effect list option" where
  "redraw_copy_mode env cs =
     map_option (\<lambda>(snap, live). render_plain_grid snap
        @ [CopyStatus (render_status_line (live \<noteq> liveness_i32 LivenessDead) (cm_scrollback_offset cs))])
       (ce_capture env (cm_scrollback_offset cs mod 2 ^ 32))"

definition send_resize_and_repaint :: "attach_args \<Rightarrow> cli_env \<Rightarrow> display_mode \<Rightarrow> attach_effect list" where
  "send_resize_and_repaint a env dmode =
     (case ce_term_size env of None \<Rightarrow> [] | Some (cols, term_rows) \<Rightarrow>
        SendResize (pty_rows term_rows (aa_status_bar a)) cols
        # (if sb_enabled (aa_status_bar a)
           then Reserve (decstbm_reserve term_rows (aa_status_bar a)) # redraw_status_line a term_rows dmode else []))"

section \<open>The branches of the loop\<close>

definition on_resize :: "attach_args \<Rightarrow> cli_env \<Rightarrow> attach_state \<Rightarrow> attach_effect list \<times> attach_result" where
  "on_resize a env st = (send_resize_and_repaint a env (at_mode st), Continue st)"

datatype cli_event = StreamClosed | StreamFailed | Streamed attach_event | StreamExited | StreamOther

definition crlf :: string where "crlf = [CHR 0x0D, CHR 0x0A]"

fun chrome_message_for_event :: "cli_event \<Rightarrow> string option" where
  "chrome_message_for_event StreamExited = Some (crlf @ ''[tymux: pane exited]'' @ [CHR 0x0A])"
| "chrome_message_for_event (Streamed EvOutputGap) = Some (crlf @ ''[tymux: output dropped]'' @ crlf)"
| "chrome_message_for_event _ = None"

fun on_event :: "cli_event \<Rightarrow> attach_state \<Rightarrow> attach_effect list \<times> attach_result" where
  "on_event StreamFailed st = ([], AttachError)"
| "on_event StreamClosed st = ([], Finished Done)"
| "on_event (Streamed (EvOutput dat)) st = (if at_copy st = None then [WriteBytes dat] else [], Continue st)"
| "on_event StreamExited st = ([Message (the (chrome_message_for_event StreamExited) @ [CHR 0x0A])], Finished Done)"
| "on_event (Streamed EvOutputGap) st = (if at_copy st = None then [Message (the (chrome_message_for_event (Streamed EvOutputGap)))] else [], Continue st)"
| "on_event (Streamed _) st = ([], Continue st)"
| "on_event StreamOther st = ([], Continue st)"

text \<open>The bytes of one read in copy mode: whether it ends, whether to redraw, and the range to yank.\<close>

fun copy_bytes :: "bytes \<Rightarrow> bool \<Rightarrow> copy_mode_state \<Rightarrow> (bool \<times> bool \<times> (cell_pos \<times> cell_pos) option \<times> copy_mode_state) option" where
  "copy_bytes [] redraw cs = Some (False, redraw, None, cs)"
| "copy_bytes (b # bs) redraw cs =
     do { (e, cs') \<leftarrow> handle_byte b cs;
          (case e of
             Exit \<Rightarrow> Some (True, redraw, None, cs')
           | Redraw \<Rightarrow> copy_bytes bs True cs'
           | Yanked \<Rightarrow> Some (True, redraw, map_option (\<lambda>p. (p, cm_cursor cs')) (cm_selecting_from cs'), cs')
           | Consumed \<Rightarrow> copy_bytes bs redraw cs') }"

definition do_yank :: "cli_env \<Rightarrow> (cell_pos \<times> cell_pos) option \<Rightarrow> copy_mode_state \<Rightarrow> copy_mode_state" where
  "do_yank env yank_range cs = (case yank_range of None \<Rightarrow> cs | Some (from_pos, to_pos) \<Rightarrow>
     (case ce_capture env (cm_scrollback_offset cs mod 2 ^ 32) of None \<Rightarrow> cs
      | Some (snap, _) \<Rightarrow> cs\<lparr>cm_yanked := extract_selection (map (map cs_text) (sp_grid snap)) from_pos to_pos\<rparr>))"

definition copy_read :: "attach_args \<Rightarrow> cli_env \<Rightarrow> bytes \<Rightarrow> copy_mode_state \<Rightarrow> attach_state \<Rightarrow> (attach_effect list \<times> attach_result) option" where
  "copy_read a env bs cs st =
     do { (should_exit, should_redraw, yank_range, cs1) \<leftarrow> copy_bytes bs False cs;
          let cs2 = do_yank env yank_range cs1;
          (if should_exit then
             (let st' = st\<lparr>at_copy := None, at_mode := DisplayNormal\<rparr>;
                  grid = (case ce_capture env 0 of Some (snap, _) \<Rightarrow> render_plain_grid snap | None \<Rightarrow> []);
                  status = (case ce_term_size env of Some (_, term_rows) \<Rightarrow> redraw_status_line a term_rows DisplayNormal | None \<Rightarrow> [])
              in Some (grid @ status, Continue st'))
           else if should_redraw then
             (case redraw_copy_mode env cs2 of
                None \<Rightarrow> Some ([], AttachError)
              | Some es \<Rightarrow> Some (es, Continue (st\<lparr>at_copy := Some cs2\<rparr>)))
           else Some ([], Continue (st\<lparr>at_copy := Some cs2\<rparr>))) }"

text \<open>One output of the reassembler: what it does and how the loop over the outputs goes on.\<close>

fun do_action :: "attach_args \<Rightarrow> cli_env \<Rightarrow> action \<Rightarrow> attach_state \<Rightarrow> attach_effect list \<times> attach_result" where
  "do_action a env Detach st = ([Message (crlf @ ''[tymux: detached]'' @ [CHR 0x0A])], Finished Done)"
| "do_action a env EnterCopyMode st =
     (case ce_capture env 0 of None \<Rightarrow> ([], Continue st) | Some (snap, _) \<Rightarrow>
        let cs = copy_mode_new (sp_rows snap mod 65536) (sp_cols snap mod 65536)
        in case redraw_copy_mode env cs of
             None \<Rightarrow> ([], AttachError)
           | Some es \<Rightarrow> (es, Continue (st\<lparr>at_copy := Some cs, at_mode := DisplayCopyMode\<rparr>)))"
| "do_action a env SplitHorizontal st = ([CallSplitPane Horizontal], Continue st)"
| "do_action a env SplitVertical st = ([CallSplitPane Vertical], Continue st)"
| "do_action a env KillPane st = ([CallClosePane], Continue st)"
| "do_action a env NewWindow st =
     (case ce_sessions env of None \<Rightarrow> ([], Continue st) | Some sessions \<Rightarrow>
        (case find (\<lambda>s. xs_name s = aa_session_name a) sessions of
           None \<Rightarrow> ([], Continue st) | Some s \<Rightarrow> ([CallCreateWindow (xs_id s)], Continue st)))"
| "do_action a env NextWindow st =
     (case ce_sessions env of None \<Rightarrow> ([], Continue st) | Some sessions \<Rightarrow>
        (case adjacent_window_pane sessions (aa_session_name a) (aa_pane a) True of
           Inr (Some p) \<Rightarrow> ([], Finished (SwitchTo p)) | _ \<Rightarrow> ([], Continue st)))"
| "do_action a env PrevWindow st =
     (case ce_sessions env of None \<Rightarrow> ([], Continue st) | Some sessions \<Rightarrow>
        (case adjacent_window_pane sessions (aa_session_name a) (aa_pane a) False of
           Inr (Some p) \<Rightarrow> ([], Finished (SwitchTo p)) | _ \<Rightarrow> ([], Continue st)))"
| "do_action a env ExitCopyMode st = ([], Continue st)"
| "do_action a env SendPrefixLiteral st = ([], Continue st)"

fun do_output :: "attach_args \<Rightarrow> cli_env \<Rightarrow> reassembled_output \<Rightarrow> attach_state \<Rightarrow> attach_effect list \<times> attach_result" where
  "do_output a env (Forward fwd) st = ([SendInput fwd], Continue st)"
| "do_output a env (Act x) st = do_action a env x st"

fun do_outputs :: "attach_args \<Rightarrow> cli_env \<Rightarrow> reassembled_output list \<Rightarrow> attach_state \<Rightarrow> attach_effect list \<times> attach_result" where
  "do_outputs a env [] st = ([], Continue st)"
| "do_outputs a env (x # xs) st =
     (case do_output a env x st of
        (es, Continue st') \<Rightarrow> (let (es', r) = do_outputs a env xs st' in (es @ es', r))
      | (es, r) \<Rightarrow> (es, r))"

definition normal_read :: "attach_args \<Rightarrow> cli_env \<Rightarrow> bytes \<Rightarrow> attach_state \<Rightarrow> attach_effect list \<times> attach_result" where
  "normal_read a env bs st =
     (let was_armed = is_armed (at_reassembler st); (os, r) = ks_process bs (at_reassembler st)
      in case do_outputs a env os (st\<lparr>at_reassembler := r\<rparr>) of
           (es, Continue st1) \<Rightarrow>
             if is_armed r \<noteq> was_armed
             then (let dmode = (if is_armed r then PrefixArmed else DisplayNormal);
                       status = (case ce_term_size env of Some (_, term_rows) \<Rightarrow> redraw_status_line a term_rows dmode | None \<Rightarrow> [])
                   in (es @ status, Continue (st1\<lparr>at_mode := dmode\<rparr>)))
             else (es, Continue st1)
         | (es, res) \<Rightarrow> (es, res))"

text \<open>A read of the keyboard; \<open>None\<close> for \<open>bs\<close> is the end of the input.\<close>

definition on_stdin :: "attach_args \<Rightarrow> cli_env \<Rightarrow> bytes option \<Rightarrow> attach_state \<Rightarrow> (attach_effect list \<times> attach_result) option" where
  "on_stdin a env input st =
     (case input of None \<Rightarrow> Some ([], Finished Done) | Some bs \<Rightarrow>
        (case at_copy st of Some cs \<Rightarrow> copy_read a env bs cs st | None \<Rightarrow> Some (normal_read a env bs st)))"

definition attach_start :: "attach_args \<Rightarrow> attach_state" where
  "attach_start a = \<lparr>at_reassembler = reassembler_new (aa_config a), at_copy = None, at_mode = DisplayNormal\<rparr>"

text \<open>
  One turn of the loop takes one branch with the answers of that turn; the loop runs over a list of turns,
  and \<open>attach\<close> draws and sends the size first. Switching to another window attaches again to its first pane.
\<close>

datatype branch = Winch | FromStream cli_event | FromStdin "bytes option"

fun attach_turn :: "attach_args \<Rightarrow> branch \<Rightarrow> cli_env \<Rightarrow> attach_state \<Rightarrow> (attach_effect list \<times> attach_result) option" where
  "attach_turn a Winch env st = Some (on_resize a env st)"
| "attach_turn a (FromStream e) env st = Some (on_event e st)"
| "attach_turn a (FromStdin input) env st = on_stdin a env input st"

fun attach_loop :: "attach_args \<Rightarrow> (branch \<times> cli_env) list \<Rightarrow> attach_state \<Rightarrow> (attach_effect list \<times> attach_result) option" where
  "attach_loop a [] st = Some ([], Continue st)"
| "attach_loop a ((b, env) # turns) st =
     do { (es, r) \<leftarrow> attach_turn a b env st;
          (case r of
             Continue st' \<Rightarrow> do { (es', r') \<leftarrow> attach_loop a turns st'; Some (es @ es', r') }
           | _ \<Rightarrow> Some (es, r)) }"

definition cli_attach :: "attach_args \<Rightarrow> cli_env \<Rightarrow> (branch \<times> cli_env) list \<Rightarrow> (attach_effect list \<times> attach_result) option" where
  "cli_attach a env turns =
     do { (es, r) \<leftarrow> attach_loop a turns (attach_start a);
          Some (send_resize_and_repaint a env DisplayNormal @ es, r) }"

fun attach_and_follow :: "attach_args \<Rightarrow> (cli_env \<times> (branch \<times> cli_env) list) list \<Rightarrow> (attach_effect list \<times> attach_result) option" where
  "attach_and_follow a [] = Some ([], Continue (attach_start a))"
| "attach_and_follow a ((env, turns) # rounds) =
     do { (es, r) \<leftarrow> cli_attach a env turns;
          (case r of
             Finished (SwitchTo next_pane_id) \<Rightarrow>
               do { (es', r') \<leftarrow> attach_and_follow (a\<lparr>aa_pane := next_pane_id\<rparr>) rounds; Some (es @ es', r') }
           | _ \<Rightarrow> Some (es, r)) }"

section \<open>Lemmas\<close>

fun sent :: "attach_effect list \<Rightarrow> bytes" where
  "sent [] = []"
| "sent (SendInput bs # es) = bs @ sent es"
| "sent (_ # es) = sent es"

lemma sent_append: "sent (xs @ ys) = sent xs @ sent ys"
  by (induction xs rule: sent.induct) auto

lemma sent_drawing:
  "sent (render_plain_grid snap) = []" "sent (redraw_status_line a rows dmode) = []"
  "redraw_copy_mode env cs = Some es \<Longrightarrow> sent es = []"
proof -
  have rows: "sent (map (\<lambda>row. WriteRow (f row)) grid) = []" for f :: "'a \<Rightarrow> bytes list" and grid by (induction grid) auto
  then show grid: "sent (render_plain_grid snap) = []" for snap by (simp add: render_plain_grid_def)
  show "sent (redraw_status_line a rows dmode) = []" by (simp add: redraw_status_line_def)
  show "redraw_copy_mode env cs = Some es \<Longrightarrow> sent es = []" by (auto simp: redraw_copy_mode_def sent_append grid)
qed

lemma do_action_sends_nothing: "do_action a env x st = (es, r) \<Longrightarrow> sent es = []"
  by (cases "(a, env, x, st)" rule: do_action.cases)
    (auto simp: Let_def sent_drawing split: option.splits prod.splits sum.splits)


lemma do_outputs_sends:
  "do_outputs a env os st = (es, Continue st') \<Longrightarrow> sent es = forwarded os"
proof (induction os arbitrary: st es)
  case (Cons x xs)
  then show ?case
    by (cases x) (auto simp: Let_def sent_append dest: do_action_sends_nothing split: prod.splits attach_result.splits)
qed simp

lemma do_action_fields: "do_action a env x st = (es, Continue st') \<Longrightarrow> at_reassembler st' = at_reassembler st"
  by (cases "(a, env, x, st)" rule: do_action.cases) (auto simp: Let_def split: option.splits prod.splits sum.splits)

lemma do_outputs_fields: "do_outputs a env os st = (es, Continue st') \<Longrightarrow> at_reassembler st' = at_reassembler st"
proof (induction os arbitrary: st es)
  case (Cons x xs)
  then show ?case
    by (cases x) (auto simp: Let_def dest: do_action_fields split: prod.splits attach_result.splits)
qed simp

text \<open>The hint line claims no state the client is not in.\<close>

definition hint_ok :: "attach_state \<Rightarrow> bool" where
  "hint_ok st \<longleftrightarrow> (at_mode st = PrefixArmed \<longrightarrow> is_armed (at_reassembler st)) \<and> (at_mode st = DisplayCopyMode \<longrightarrow> at_copy st \<noteq> None)"

lemma do_action_mode:
  "do_action a env x st = (es, Continue st') \<Longrightarrow> at_mode st' = at_mode st \<and> at_copy st' = at_copy st \<or> at_mode st' = DisplayCopyMode \<and> at_copy st' \<noteq> None"
  by (cases "(a, env, x, st)" rule: do_action.cases) (auto simp: Let_def split: option.splits prod.splits sum.splits)

lemma do_outputs_mode:
  "do_outputs a env os st = (es, Continue st') \<Longrightarrow> at_mode st' = at_mode st \<and> at_copy st' = at_copy st \<or> at_mode st' = DisplayCopyMode \<and> at_copy st' \<noteq> None"
proof (induction os arbitrary: st es)
  case (Cons x xs)
  show ?case
  proof -
    obtain es1 st1 where 1: "do_output a env x st = (es1, Continue st1)" and 2: "\<exists>es2. do_outputs a env xs st1 = (es2, Continue st')"
      using Cons.prems by (auto simp: Let_def split: prod.splits attach_result.splits)
    have "at_mode st1 = at_mode st \<and> at_copy st1 = at_copy st \<or> at_mode st1 = DisplayCopyMode \<and> at_copy st1 \<noteq> None"
      using 1 by (cases x) (auto dest: do_action_mode)
    then show ?thesis using Cons.IH 2 by fastforce
  qed
qed simp

lemma normal_read_hint:
  assumes "normal_read a env bs st = (es, Continue st')" and "hint_ok st"
  shows "hint_ok st'"
proof -
  obtain os r where o: "ks_process bs (at_reassembler st) = (os, r)" by force
  obtain es1 st1 where d: "do_outputs a env os (st\<lparr>at_reassembler := r\<rparr>) = (es1, Continue st1)"
      and st': "st' = (if is_armed r \<noteq> is_armed (at_reassembler st) then st1\<lparr>at_mode := if is_armed r then PrefixArmed else DisplayNormal\<rparr> else st1)"
    using assms(1) o by (auto simp: normal_read_def Let_def split: prod.splits attach_result.splits if_splits)
  show ?thesis using do_outputs_fields [OF d] do_outputs_mode [OF d] assms(2) by (auto simp: st' hint_ok_def)
qed

lemma on_event_state: "on_event e st = (es, Continue st') \<Longrightarrow> st' = st"
  by (cases "(e, st)" rule: on_event.cases) auto

lemma attach_turn_hint:
  assumes "attach_turn a b env st = Some (es, Continue st')" and "hint_ok st"
  shows "hint_ok st'"
proof (cases b)
  case (FromStdin input)
  then show ?thesis using assms
    by (auto simp: on_stdin_def copy_read_def Let_def bind_Some_conv hint_ok_def
      dest!: normal_read_hint split: option.splits prod.splits if_splits)
qed (use assms in \<open>auto simp: on_resize_def dest: on_event_state\<close>)

lemma attach_loop_hint:
  "attach_loop a turns st = Some (es, Continue st') \<Longrightarrow> hint_ok st \<Longrightarrow> hint_ok st'"
proof (induction turns arbitrary: st es)
  case (Cons t turns)
  obtain b env where t: "t = (b, env)" by force
  obtain es1 r where 1: "attach_turn a b env st = Some (es1, r)" using Cons.prems(1) by (auto simp: t bind_Some_conv)
  with Cons.prems(1) obtain st1 es2 where "r = Continue st1" "attach_loop a turns st1 = Some (es2, Continue st')"
    by (cases r) (auto simp: t bind_Some_conv)
  with 1 show ?case using Cons.IH attach_turn_hint Cons.prems(2) by blast
qed simp

definition example_args :: attach_args where
  "example_args = \<lparr>aa_pane = ''p'', aa_session_name = ''main'',
     aa_config = \<lparr>tc_leader = lit ''C-b'', tc_bindings = [\<lparr>kb_sequence = [ctrl_b, \<lparr>ke_char = 0x5b, ke_control = False\<rparr>], kb_action = EnterCopyMode\<rparr>]\<rparr>,
     aa_status_bar = \<lparr>sb_enabled = True, sb_no_color = True\<rparr>\<rparr>"

lemma example_processes:
  defines "r0 \<equiv> reassembler_new (aa_config example_args)"
  shows "ks_process [0x68, 0x69] r0 = ([Forward [0x68], Forward [0x69]], r0)"
    "ks_process [2] r0 = ([], r0\<lparr>ra_armed := Some ([2], ctrl_b)\<rparr>)"
    "ks_process [0x5b] (r0\<lparr>ra_armed := Some ([2], ctrl_b)\<rparr>) = ([Act EnterCopyMode], r0)"
    "ks_process [2, 0x5b, 0x68] r0 = ([Act EnterCopyMode, Forward [0x68]], r0)"
    "is_armed (r0\<lparr>ra_armed := Some ([2], ctrl_b)\<rparr>)" "\<not> is_armed r0"
  by (simp_all add: r0_def example_args_def reassembler_new_def process_byte_def handle_normal_byte_def arms_def bound_def classify_byte_def
    parse_leader_def strip_prefix_def lit_def ctrl_b_def Let_def is_armed_def)

definition blank_snapshot :: "bytes \<Rightarrow> pane_snapshot" where
  "blank_snapshot txt' = \<lparr>sp_rows = 1, sp_cols = 1, sp_grid = [[no_cell\<lparr>cs_text := txt'\<rparr>]], sp_cursor_row = 0, sp_cursor_col = 0, sp_cursor_pending_wrap = False,
     sp_hyperlinks = [], sp_title = [], sp_modes = \<lparr>tm_app_cursor_keys = False, tm_app_keypad = False, tm_bracketed_paste = False, tm_focus_events = False,
       tm_mouse_mode = 0, tm_mouse_encoding = 0, tm_reverse_video = False, tm_origin = False, tm_no_autowrap = False, tm_insert = False, tm_newline = False\<rparr>, sp_cursor_hidden = False, sp_cursor_style = 0, sp_alt_screen = False, sp_scroll_top = 0,
     sp_scroll_bottom = 0, sp_tab_stops = [], sp_charsets = ([], 0)\<rparr>"

definition example_answers :: cli_env where
  "example_answers = \<lparr>ce_capture = (\<lambda>_. Some (blank_snapshot [0x61], 1)), ce_sessions = None, ce_term_size = None\<rparr>"

section \<open>Properties\<close>



text \<open>
  The text a selection copies is lost: whatever the cells hold that a yank reads, the client does the
  same and goes on in the same state, which has left copy mode.
\<close>

theorem yank_discarded:
  assumes "at_copy st = Some cs" and "copy_bytes bs False cs = Some (True, redraw, Some sel, cs')"
    and "ce_capture env 0 = ce_capture env' 0" and "ce_term_size env = ce_term_size env'"
  shows "on_stdin a env (Some bs) st = on_stdin a env' (Some bs) st
    \<and> (\<exists>es. on_stdin a env (Some bs) st = Some (es, Continue (st\<lparr>at_copy := None, at_mode := DisplayNormal\<rparr>)))"
  using assms by (simp add: on_stdin_def copy_read_def Let_def)

theorem yank_discarded_witness:
  "\<exists>es. on_stdin example_args example_answers (Some [0x76, 0x79]) ((attach_start example_args)\<lparr>at_copy := Some (copy_mode_new 1 1)\<rparr>)
     = Some (es, Continue (attach_start example_args))"
proof -
  let ?st = "(attach_start example_args)\<lparr>at_copy := Some (copy_mode_new 1 1)\<rparr>"
  let ?p = "\<lparr>po_row = 0, po_col = 0\<rparr>"
  have "copy_bytes [0x76, 0x79] False (copy_mode_new 1 1) = Some (True, False, Some (?p, ?p), (copy_mode_new 1 1)\<lparr>cm_selecting_from := Some ?p\<rparr>)"
    by (simp add: handle_byte_def copy_mode_new_def)
  from yank_discarded [of ?st, OF _ this refl refl] show ?thesis by (simp add: attach_start_def)
qed

text \<open>
  The hint line after entering copy mode: when the prefix key and the key for copy mode come in two reads,
  the client is in copy mode but its hint line is set back to the normal one, although it has a hint line for copy mode.
\<close>

theorem copy_mode_hint_lost:
  "\<exists>es1 st1 es2 st2. on_stdin example_args example_answers (Some [2]) (attach_start example_args) = Some (es1, Continue st1)
    \<and> on_stdin example_args example_answers (Some [0x5b]) st1 = Some (es2, Continue st2)
    \<and> at_copy st2 \<noteq> None \<and> at_mode st2 = DisplayNormal"
proof -
  let ?st = "attach_start example_args"
  let ?r = "(at_reassembler ?st)\<lparr>ra_armed := Some ([2], ctrl_b)\<rparr>"
  have 1: "ks_process [2] (at_reassembler ?st) = ([], ?r)" "ks_process [0x5b] ?r = ([Act EnterCopyMode], at_reassembler ?st)"
    and a: "is_armed ?r" "\<not> is_armed (at_reassembler ?st)"
    using example_processes by (simp_all add: attach_start_def)
  have "on_stdin example_args example_answers (Some [2]) ?st = Some ([], Continue (?st\<lparr>at_reassembler := ?r, at_mode := PrefixArmed\<rparr>))"
    using 1 a by (simp add: on_stdin_def normal_read_def Let_def example_answers_def attach_start_def)
  moreover have "\<exists>es2 st2. on_stdin example_args example_answers (Some [0x5b]) (?st\<lparr>at_reassembler := ?r, at_mode := PrefixArmed\<rparr>) = Some (es2, Continue st2)
      \<and> at_copy st2 \<noteq> None \<and> at_mode st2 = DisplayNormal"
    using 1 a by (simp add: on_stdin_def normal_read_def Let_def example_answers_def attach_start_def redraw_copy_mode_def)
  ultimately show ?thesis by blast
qed

text \<open>
  The hint line claims no state the client is not in: after any turns of the loop, if it says the prefix
  key is pressed then it is, and if it says copy mode then the client is in copy mode.
\<close>

theorem hint_never_ahead:
  assumes "cli_attach a env turns = Some (es, Continue st)"
  shows "(at_mode st = PrefixArmed \<longrightarrow> is_armed (at_reassembler st)) \<and> (at_mode st = DisplayCopyMode \<longrightarrow> at_copy st \<noteq> None)"
proof -
  obtain es' where l: "attach_loop a turns (attach_start a) = Some (es', Continue st)" using assms by (auto simp: cli_attach_def bind_Some_conv)
  have "hint_ok (attach_start a)" by (simp add: hint_ok_def attach_start_def)
  from attach_loop_hint [OF l this] show ?thesis by (simp add: hint_ok_def)
qed

theorem hint_never_ahead_witness:
  "\<exists>es st. cli_attach example_args example_answers [(FromStdin (Some [2]), example_answers)] = Some (es, Continue st)
     \<and> at_mode st = PrefixArmed \<and> is_armed (at_reassembler st)"
proof -
  have "\<exists>es st. cli_attach example_args example_answers [(FromStdin (Some [2]), example_answers)] = Some (es, Continue st) \<and> at_mode st = PrefixArmed"
    by (simp add: cli_attach_def on_stdin_def normal_read_def Let_def attach_start_def example_processes del: ks_process.simps)
  then obtain es st where st: "cli_attach example_args example_answers [(FromStdin (Some [2]), example_answers)] = Some (es, Continue st)"
      "at_mode st = PrefixArmed" by blast
  show ?thesis using hint_never_ahead [OF st(1)] st by blast
qed

text \<open>
  Copy mode does not own the rest of the read that enters it: with the prefix key, the key for copy mode
  and a third key in one read, the client ends in copy mode and has sent the third key to the pane.
\<close>

theorem copy_mode_leak:
  "\<exists>es st. on_stdin example_args example_answers (Some [2, 0x5b, 0x68]) (attach_start example_args) = Some (es, Continue st)
    \<and> at_copy st \<noteq> None \<and> sent es = [0x68]"
  by (simp add: on_stdin_def normal_read_def Let_def example_answers_def attach_start_def example_processes redraw_copy_mode_def
    sent_append sent_drawing del: ks_process.simps)

text \<open>
  What a client sees of the pane: attached without a resume token and outside copy mode, it writes
  nothing for the priming snapshot the daemon sends first, and then exactly the live output, with a message
  for every gap. What was on the screen before the attach is not drawn.
\<close>

theorem attach_shows_live_output:
  assumes "attach_prime None stream = Some (pr, stream')" and "at_copy st = None"
  shows "concat (map (\<lambda>e. fst (on_event (Streamed e) st)) (attach_events pr rs))
     = List.map_filter (\<lambda>e. case e of EvOutput dat \<Rightarrow> Some (WriteBytes dat) | EvOutputGap \<Rightarrow> Some (Message (crlf @ ''[tymux: output dropped]'' @ crlf)) | _ \<Rightarrow> None)
        (fst (forward_loop (pr_threshold pr) False rs))
   \<and> (\<forall>e\<in>set (attach_events pr rs). snd (on_event (Streamed e) st) = Continue st)"
proof -
  have p: "\<exists>snap. pr_events pr = [EvSnapshot snap]" "pr_replay pr = []" "pr_emit_chunk pr = False"
    using assms(1) by (auto simp: attach_prime_def bind_Some_conv)
  have e: "fst (on_event (Streamed e) st) = (case e of EvOutput dat \<Rightarrow> [WriteBytes dat] | EvOutputGap \<Rightarrow> [Message (crlf @ ''[tymux: output dropped]'' @ crlf)] | _ \<Rightarrow> [])"
    "snd (on_event (Streamed e) st) = Continue st" for e using assms(2) by (cases e; simp)+
  have c: "concat (map (\<lambda>e. fst (on_event (Streamed e) st)) es) = List.map_filter (\<lambda>e. case e of EvOutput dat \<Rightarrow> Some (WriteBytes dat)
      | EvOutputGap \<Rightarrow> Some (Message (crlf @ ''[tymux: output dropped]'' @ crlf)) | _ \<Rightarrow> None) es" for es
    by (induction es) (auto simp: e(1) List.map_filter_simps split: attach_event.split)
  show ?thesis using p e(2) by (auto simp: attach_events_def c)
qed

theorem attach_shows_live_output_witness:
  "\<exists>pr. concat (map (\<lambda>e. fst (on_event (Streamed e) (attach_start example_args))) (attach_events pr [Received 1 [0x61], Lagged 3]))
     = [WriteBytes [0x61], Message (crlf @ ''[tymux: output dropped]'' @ crlf)]"
proof -
  let ?sz = "\<lparr>sz_rows = 2, sz_cols = 3\<rparr>"
  let ?st0 = "stream_new () [] ?sz 5 10 :: (unit, bytes) stream"
  have sz: "size_ok ?sz" by (simp add: size_ok_def)
  obtain pr st1 where pr: "attach_prime None ?st0 = Some (pr, st1)"
    using attach_prime_returns [OF stream_new_inv [OF sz], of None] by fastforce
  have t: "pr_threshold pr = 0" using attach_prime_cases [OF pr] by (auto simp: stream_new_def)
  show ?thesis using attach_shows_live_output [OF pr, of "attach_start example_args" "[Received 1 [0x61], Lagged 3]"]
    by (intro exI [of _ pr]) (simp add: t attach_start_def List.map_filter_simps)
qed

end
