(* ===== verification/Daemon.thy ===== *)
theory Daemon
  imports Proto Pane_Stream
begin

text \<open>
  The requests of the daemon (\<open>impl TymuxService for TymuxDaemon\<close> in \<open>crates/tymuxd/src/main.rs\<close>) over the
  engine and the output streams of its panes, and the bookkeeping of open attach streams: the gauge, the
  resume counters, the disconnect tracker and the deferred cleanup of viewports.

  \<^item> A handler returns its answer and the new state, or \<open>None\<close> where the source panics. What the
    operating system, the uuid crate and the clock answer is its argument \<open>dv\<close>.
  \<^item> \<open>dm_output r\<close> is the output stream of the pane at address \<open>r\<close>, \<open>dm_pty r\<close> what was written to its pty by
    clients. An attach has two tasks: one forwards output (\<open>ak_forwarding\<close>), one reads requests (\<open>ak_reading\<close>).
  \<^item> Waiting for a signalled process (\<open>StopPane\<close>, \<open>RestartPane\<close>) lets other steps happen: the handler is the part
    up to the wait, \<open>wait_turn\<close> one round of the wait, and the answer is that of \<open>GetPaneStatus\<close>.
\<close>

section \<open>State\<close>

record attach_stream =
  ak_pane :: uuid
  ak_addr :: nat
  ak_window :: "uuid option"
  ak_client :: u64
  ak_priming :: priming
  ak_forwarding :: bool
  ak_reading :: bool

record deferred_cleanup =
  df_window :: uuid
  df_client :: u64
  df_due :: u64

record resume_outcome_counters =
  rc_resumed_from_buffer :: int
  rc_gap_exceeded_fallback :: int
  rc_no_resume_token_full_attach :: int

record ('v, 'p) daemon =
  dm_engine :: engine
  dm_output :: "nat \<Rightarrow> ('v, 'p) stream"
  dm_pty :: "nat \<Rightarrow> bytes"
  dm_tracker :: "uuid \<Rightarrow> u64 option"
  dm_gauge :: int
  dm_counters :: resume_outcome_counters
  dm_streams :: "attach_stream list"
  dm_deferred :: "deferred_cleanup list"
  dm_warned :: "uuid list"
  dm_regression_window :: u64
  dm_grace :: u64

text \<open>What the surroundings answer during one request.\<close>

record daemon_env =
  dv_op :: op_env
  dv_instant :: u64
  dv_session_id :: uuid
  dv_window_id :: uuid
  dv_spawn :: "string option \<Rightarrow> launch \<Rightarrow> string option \<Rightarrow> pane_meta \<times> (string + spawned)"
  dv_start :: "uuid \<Rightarrow> string + spawned"
  dv_prepare :: "launch \<Rightarrow> string option"
  dv_kind :: "string \<Rightarrow> launch_error_kind option"
  dv_show :: "uuid \<Rightarrow> string"
  dv_parse :: "string \<Rightarrow> uuid option"
  dv_order :: "uuid list"
  dv_entry_order :: "uuid list"
  dv_dirty_order :: "uuid list"
  dv_write_ok :: bool

definition counters_new :: resume_outcome_counters where
  "counters_new = \<lparr>rc_resumed_from_buffer = 0, rc_gap_exceeded_fallback = 0, rc_no_resume_token_full_attach = 0\<rparr>"

fun record_resume_outcome :: "resume_outcome \<Rightarrow> resume_outcome_counters \<Rightarrow> resume_outcome_counters" where
  "record_resume_outcome ResumedFromBuffer c = c\<lparr>rc_resumed_from_buffer := rc_resumed_from_buffer c + 1\<rparr>"
| "record_resume_outcome GapExceededFallback c = c\<lparr>rc_gap_exceeded_fallback := rc_gap_exceeded_fallback c + 1\<rparr>"
| "record_resume_outcome NoResumeTokenFullAttach c = c\<lparr>rc_no_resume_token_full_attach := rc_no_resume_token_full_attach c + 1\<rparr>"

definition DEFAULT_DISCONNECT_REGRESSION_WINDOW :: u64 where "DEFAULT_DISCONNECT_REGRESSION_WINDOW = 300"
definition DEFAULT_GRACE_PERIOD :: u64 where "DEFAULT_GRACE_PERIOD = 60000"

definition daemon_new :: "u64 option \<Rightarrow> u64 option \<Rightarrow> engine \<Rightarrow> (nat \<Rightarrow> ('v, 'p) stream) \<Rightarrow> ('v, 'p) daemon" where
  "daemon_new regression_ms grace_ms g out =
     \<lparr>dm_engine = g, dm_output = out, dm_pty = (\<lambda>_. []), dm_tracker = (\<lambda>_. None), dm_gauge = 0, dm_counters = counters_new,
      dm_streams = [], dm_deferred = [], dm_warned = [],
      dm_regression_window = unwrap_or regression_ms DEFAULT_DISCONNECT_REGRESSION_WINDOW,
      dm_grace = unwrap_or grace_ms DEFAULT_GRACE_PERIOD\<rparr>"

section \<open>Requests\<close>

type_synonym ('v, 'p, 'a) handler = "daemon_env \<Rightarrow> ('v, 'p) daemon \<Rightarrow> ((status + 'a) \<times> ('v, 'p) daemon) option"

text \<open>\<open>result.map_err(engine_error_to_status)?\<close> around a call of the engine.\<close>

definition with_engine :: "('v, 'p) daemon \<Rightarrow> (engine_error + 'b) \<times> engine \<Rightarrow> ('b \<Rightarrow> engine \<Rightarrow> status + 'a) \<Rightarrow> (status + 'a) \<times> ('v, 'p) daemon" where
  "with_engine d res k = (case res of (Inl e, g) \<Rightarrow> (Inl (engine_error_to_status e), d\<lparr>dm_engine := g\<rparr>)
     | (Inr x, g) \<Rightarrow> (k x g, d\<lparr>dm_engine := g\<rparr>))"

definition with_uuid :: "daemon_env \<Rightarrow> string \<Rightarrow> (uuid \<Rightarrow> ((status + 'a) \<times> ('v, 'p) daemon) option) \<Rightarrow> ('v, 'p) daemon
    \<Rightarrow> ((status + 'a) \<times> ('v, 'p) daemon) option" where
  "with_uuid dv s f d = (case parse_uuid (dv_parse dv) s of Inl e \<Rightarrow> Some (Inl e, d) | Inr i \<Rightarrow> f i)"

definition non_empty :: "string \<Rightarrow> string option" where
  "non_empty s = (if s = [] then None else Some s)"

record create_session_request =
  cq_name :: string
  cq_command :: string
  cq_cwd :: string
  cq_args :: "string list"
  cq_env :: "(string \<times> string) list"
  cq_arg_specs :: "arg_spec option list"
  cq_stderr_path :: string
  cq_stdin_path :: string
  cq_stdin_stream :: bool
  cq_restart_policy :: "proto_policy option"

fun collect_specs :: "arg_spec option list \<Rightarrow> status + arg_spec list" where
  "collect_specs [] = Inr []"
| "collect_specs (s # ss) = (case arg_spec_from_proto s of Inl e \<Rightarrow> Inl e | Inr a \<Rightarrow>
     (case collect_specs ss of Inl e \<Rightarrow> Inl e | Inr as' \<Rightarrow> Inr (a # as')))"

definition request_policy :: "proto_policy option \<Rightarrow> status + restart_policy" where
  "request_policy p = (case p of None \<Rightarrow> Inr default_policy | Some q \<Rightarrow> policy_from_proto q)"

definition rpc_create_session :: "powi_fun \<Rightarrow> create_session_request \<Rightarrow> ('v, 'p, proto_session) handler" where
  "rpc_create_session pw req dv d =
     (case request_policy (cq_restart_policy req) of Inl e \<Rightarrow> Some (Inl e, d) | Inr policy \<Rightarrow>
      (case collect_specs (cq_arg_specs req) of Inl e \<Rightarrow> Some (Inl e, d) | Inr specs \<Rightarrow>
        let launch = \<lparr>la_args = cq_args req, la_env = cq_env req, la_arg_specs = specs, la_stderr_path = non_empty (cq_stderr_path req),
                      la_stdin_path = non_empty (cq_stdin_path req), la_stdin_stream = cq_stdin_stream req\<rparr>;
            (m, spawn) = dv_spawn dv (non_empty (cq_command req)) launch (non_empty (cq_cwd req))
        in (case create_session_supervised pw (dv_op dv) (dv_session_id dv) (dv_window_id dv) (cq_name req) policy m spawn (dm_engine d) of
              (Inl e, g) \<Rightarrow> Some (Inl (spawn_error_to_status (dv_kind dv) e), d\<lparr>dm_engine := g\<rparr>)
            | (Inr i, g) \<Rightarrow> Some (case get_session_snapshot g i of
                  None \<Rightarrow> Inl (plain Internal) | Some info \<Rightarrow> Inr (session_to_proto (dv_show dv) info), d\<lparr>dm_engine := g\<rparr>))))"

definition rpc_list_sessions :: "('v, 'p, proto_session list) handler" where
  "rpc_list_sessions dv d = Some (Inr (map (session_to_proto (dv_show dv)) (list_sessions (dm_engine d) (dm_engine d) (dv_order dv))), d)"

fun collect_leaf_pane_ids :: "layout_snapshot \<Rightarrow> uuid list" where
  "collect_leaf_pane_ids (SLeaf i) = [pi_id i]"
| "collect_leaf_pane_ids (SSplit o' cs) = concat (map (\<lambda>(c, _). collect_leaf_pane_ids c) cs)"

definition purge_disconnect_tracker :: "uuid \<Rightarrow> (uuid \<Rightarrow> u64 option) \<Rightarrow> (uuid \<Rightarrow> u64 option)" where
  "purge_disconnect_tracker p t = t(p := None)"

definition rpc_kill_session :: "string \<Rightarrow> ('v, 'p, unit) handler" where
  "rpc_kill_session session_id dv d = with_uuid dv session_id (\<lambda>i.
     let pane_ids = (case get_session_snapshot (dm_engine d) i of None \<Rightarrow> []
           | Some snap \<Rightarrow> concat (map (\<lambda>w. collect_leaf_pane_ids (ws_layout w)) (sx_windows snap)))
     in (case kill_session (dv_op dv) i (dm_engine d) of
           (Inl e, g) \<Rightarrow> Some (Inl (plain NotFound), d\<lparr>dm_engine := g\<rparr>)
         | (Inr _, g) \<Rightarrow> Some (Inr (), d\<lparr>dm_engine := g, dm_tracker := fold purge_disconnect_tracker pane_ids (dm_tracker d)\<rparr>))) d"

definition rpc_revive_session :: "powi_fun \<Rightarrow> string \<Rightarrow> ('v, 'p, bool \<times> u32 \<times> proto_session option) handler" where
  "rpc_revive_session pw session_id dv d = with_uuid dv session_id (\<lambda>i. Some (
     with_engine d (revive_session pw (dv_op dv) (dv_prepare dv) (dv_start dv) i (dm_engine d)) (\<lambda>out g.
       let session = map_option (session_to_proto (dv_show dv)) (find (\<lambda>s. sx_id s = i) (list_sessions g g (dv_order dv)))
       in Inr (case out of AlreadyLive \<Rightarrow> (True, 0, session) | Revived n \<Rightarrow> (False, n mod 2 ^ 32, session))))) d"

text \<open>\<open>snapshot_to_proto\<close>: the snapshot under the id of its pane, with the state and exit code the handler fills in.\<close>

record proto_snapshot =
  xq_pane_id :: string
  xq_liveness :: i32
  xq_state :: i32
  xq_exit_code :: "i32 option"
  xq_screen :: pane_snapshot

definition snapshot_to_proto :: "string \<Rightarrow> pane_snapshot \<Rightarrow> bool \<Rightarrow> proto_snapshot" where
  "snapshot_to_proto pane_id snap live = \<lparr>xq_pane_id = pane_id, xq_liveness = liveness_i32 (liveness_of live),
     xq_state = state_i32 StateUnspecified, xq_exit_code = None, xq_screen = snap\<rparr>"

definition look_at :: "nat \<Rightarrow> screen \<Rightarrow> ('v, 'p) daemon \<Rightarrow> ('v, 'p) daemon" where
  "look_at r s d = (let st = dm_output d r
     in d\<lparr>dm_output := (dm_output d)(r := st\<lparr>st_parser := (st_parser st)\<lparr>pa_screen := s\<rparr>\<rparr>)\<rparr>)"

definition rpc_capture_pane :: "string \<Rightarrow> u32 \<Rightarrow> ('v, 'p, proto_snapshot) handler" where
  "rpc_capture_pane pane_id offset dv d = with_uuid dv pane_id (\<lambda>p.
     case resolve_readable_pane (dm_engine d) p of Inl e \<Rightarrow> Some (Inl e, d) | Inr r \<Rightarrow>
       do { let live = \<not> live_exited (dm_engine d) r;
            (snap, s) \<leftarrow> snapshot_at_offset offset (pa_screen (st_parser (dm_output d r)));
            let msg = snapshot_to_proto pane_id snap live;
            let code = (if live then None else Option.bind (pane_at (dm_engine d) r) pn_exit_code);
            let state = (case state_of (eg_sup (dm_engine d)) p of None \<Rightarrow> StateUnspecified | Some st \<Rightarrow> state_to_proto st);
            Some (Inr (msg\<lparr>xq_exit_code := code, xq_state := state_i32 state\<rparr>), look_at r s d) }) d"

definition rpc_search_scrollback :: "string \<Rightarrow> bytes \<Rightarrow> u32 \<Rightarrow> ('v, 'p, bool \<times> u32 \<times> bytes) handler" where
  "rpc_search_scrollback pane_id pattern start_offset dv d = with_uuid dv pane_id (\<lambda>p.
     case resolve_readable_pane (dm_engine d) p of Inl e \<Rightarrow> Some (Inl e, d) | Inr r \<Rightarrow>
       do { (found, s) \<leftarrow> search_scrollback pattern start_offset (pa_screen (st_parser (dm_output d r)));
            Some (Inr (case found of Some (off, line) \<Rightarrow> (True, off mod 2 ^ 32, line) | None \<Rightarrow> (False, 0, [])), look_at r s d) }) d"

definition rpc_split_pane :: "powi_fun \<Rightarrow> string \<Rightarrow> i32 \<Rightarrow> string \<Rightarrow> ('v, 'p, proto_session) handler" where
  "rpc_split_pane pw pane_id o' command dv d = with_uuid dv pane_id (\<lambda>p.
     case orientation_from_proto o' of Inl e \<Rightarrow> Some (Inl e, d) | Inr orient \<Rightarrow>
       let (m, spawn) = dv_spawn dv (non_empty command) default_launch None
       in do { res \<leftarrow> split_pane pw (dv_op dv) p orient m spawn (dm_engine d);
               Some (with_engine d res (\<lambda>s g. Inr (session_to_proto (dv_show dv) s))) }) d"

record close_pane_response =
  cr_window_closed :: "string \<times> string"
  cr_session_closed :: "string \<times> string"
  cr_session :: "proto_session option"

definition close_response :: "(uuid \<Rightarrow> string) \<Rightarrow> close_pane_outcome \<Rightarrow> close_pane_response" where
  "close_response show_id out =
     (let named = (\<lambda>x. case x of Some (i, n) \<Rightarrow> (show_id i, n) | None \<Rightarrow> ([], []))
      in \<lparr>cr_window_closed = named (cp_window_closed out), cr_session_closed = named (cp_session_closed out),
          cr_session = map_option (session_to_proto show_id) (cp_session out)\<rparr>)"

definition rpc_close_pane :: "string \<Rightarrow> ('v, 'p, close_pane_response) handler" where
  "rpc_close_pane pane_id dv d = with_uuid dv pane_id (\<lambda>p.
     do { res \<leftarrow> close_pane (dv_op dv) p (dm_engine d);
          (case res of
             (Inl e, g) \<Rightarrow> Some (Inl (engine_error_to_status e), d\<lparr>dm_engine := g\<rparr>)
           | (Inr out, g) \<Rightarrow> Some (Inr (close_response (dv_show dv) out),
                d\<lparr>dm_engine := g, dm_tracker := purge_disconnect_tracker p (dm_tracker d)\<rparr>)) }) d"

definition rpc_create_window :: "powi_fun \<Rightarrow> string \<Rightarrow> string \<Rightarrow> ('v, 'p, proto_session) handler" where
  "rpc_create_window pw session_id command dv d = with_uuid dv session_id (\<lambda>i.
     let (m, spawn) = dv_spawn dv (non_empty command) default_launch None
     in Some (with_engine d (create_window pw (dv_op dv) i (dv_window_id dv) m spawn (dm_engine d))
          (\<lambda>s g. Inr (session_to_proto (dv_show dv) s)))) d"

datatype policy_target = TargetPane string | TargetSession string

definition rpc_set_restart_policy :: "policy_target option \<Rightarrow> proto_policy option \<Rightarrow> bool \<Rightarrow> ('v, 'p, proto_pane_status option) handler" where
  "rpc_set_restart_policy tgt policy apply_to_existing dv d =
     (case (case policy of None \<Rightarrow> Inl (plain InvalidArgument) | Some q \<Rightarrow> policy_from_proto q) of
        Inl e \<Rightarrow> Some (Inl e, d)
      | Inr pol \<Rightarrow>
          (case tgt of
             Some (TargetPane s) \<Rightarrow> with_uuid dv s (\<lambda>p. Some (
               with_engine d (set_restart_policy (dv_op dv) p pol (dm_engine d)) (\<lambda>st g. Inr (Some (status_to_proto (dv_show dv) st))))) d
           | Some (TargetSession s) \<Rightarrow> with_uuid dv s (\<lambda>i. Some (
               with_engine d (set_session_restart_policy (dv_op dv) i pol apply_to_existing (dm_engine d)) (\<lambda>_ g. Inr None))) d
           | None \<Rightarrow> Some (Inl (plain InvalidArgument), d)))"

definition pane_status_of :: "daemon_env \<Rightarrow> uuid \<Rightarrow> engine \<Rightarrow> status + proto_pane_status" where
  "pane_status_of dv p g = (case sn_status (eg_sup g) p (oe_now (dv_op dv)) of
     Some st \<Rightarrow> Inr (status_to_proto (dv_show dv) st) | None \<Rightarrow> Inl (plain NotFound))"

definition rpc_get_pane_status :: "string \<Rightarrow> ('v, 'p, proto_pane_status) handler" where
  "rpc_get_pane_status pane_id dv d = with_uuid dv pane_id (\<lambda>p. Some (pane_status_of dv p (dm_engine d), d)) d"

definition rpc_restart_pane :: "powi_fun \<Rightarrow> string \<Rightarrow> bool \<Rightarrow> ('v, 'p, signal_outcome \<times> u64) handler" where
  "rpc_restart_pane pw pane_id reset_backoff dv d = with_uuid dv pane_id (\<lambda>p.
     let generation_before = (case held_pane (dm_engine d) p of None \<Rightarrow> 0
           | Some r \<Rightarrow> (case pane_at (dm_engine d) r of None \<Rightarrow> 0 | Some pp \<Rightarrow> pn_generation pp))
     in Some (with_engine d (restart_pane pw (dv_op dv) p reset_backoff (dv_start dv p) (dm_engine d))
          (\<lambda>out g. Inr (out, generation_before)))) d"

definition rpc_stop_pane :: "string \<Rightarrow> ('v, 'p, signal_outcome) handler" where
  "rpc_stop_pane pane_id dv d = with_uuid dv pane_id (\<lambda>p. Some (
     with_engine d (stop_pane (dv_op dv) p (dm_engine d)) (\<lambda>out g. Inr out))) d"

definition rpc_start_pane :: "powi_fun \<Rightarrow> string \<Rightarrow> ('v, 'p, proto_pane_status) handler" where
  "rpc_start_pane pw pane_id dv d = with_uuid dv pane_id (\<lambda>p. Some (
     with_engine d (start_pane pw (dv_op dv) p (dv_start dv p) (dm_engine d)) (\<lambda>_ g. pane_status_of dv p g))) d"

definition rpc_reset_restart_budget :: "string \<Rightarrow> ('v, 'p, proto_pane_status) handler" where
  "rpc_reset_restart_budget pane_id dv d = with_uuid dv pane_id (\<lambda>p. Some (
     with_engine d (reset_restart_budget (dv_op dv) p (dm_engine d)) (\<lambda>_ g. pane_status_of dv p g))) d"

text \<open>One round of \<open>wait_for_restart\<close>: whether the new process is there, after running the supervisor once the old one is gone.\<close>

definition pane_generation :: "engine \<Rightarrow> nat \<Rightarrow> u64" where
  "pane_generation g r = (case pane_at g r of None \<Rightarrow> 0 | Some pp \<Rightarrow> pn_generation pp)"

definition wait_turn :: "powi_fun \<Rightarrow> daemon_env \<Rightarrow> nat \<Rightarrow> u64 \<Rightarrow> ('v, 'p) daemon \<Rightarrow> (bool \<times> ('v, 'p) daemon) option" where
  "wait_turn pw dv r generation_before d =
     (if pane_generation (dm_engine d) r > generation_before then Some (True, d)
      else if live_exited (dm_engine d) r
      then do { (_, g) \<leftarrow> supervise_tick pw (dv_op dv) (dv_entry_order dv) (dv_dirty_order dv) (dm_engine d);
                Some (pane_generation g r > generation_before, d\<lparr>dm_engine := g\<rparr>) }
      else Some (False, d))"

section \<open>Attaching\<close>

datatype attach_payload = PaneIdMsg string | InputMsg bytes | ResizeMsg u32 u32 | NoPayload

record attach_request =
  aq_payload :: attach_payload
  aq_resume_from_seq :: "u64 option"

definition rpc_attach :: "attach_request option \<Rightarrow> ('v, 'p, nat) handler" where
  "rpc_attach first dv d =
     (case first of None \<Rightarrow> Some (Inl (plain InvalidArgument), d) | Some req \<Rightarrow>
      (case aq_payload req of
         PaneIdMsg s \<Rightarrow> with_uuid dv s (\<lambda>p.
           case resolve_attachable_pane (dm_engine d) p of Inl e \<Rightarrow> Some (Inl e, d) | Inr r \<Rightarrow>
             let wid = eg_pane_window (dm_engine d) p; (client, g) = new_client_id (dm_engine d)
             in do { (pr, st) \<leftarrow> attach_prime (aq_resume_from_seq req) (dm_output d r);
                     Some (Inr (length (dm_streams d)),
                       d\<lparr>dm_engine := g, dm_output := (dm_output d)(r := st), dm_gauge := dm_gauge d + 1,
                         dm_counters := record_resume_outcome (pr_outcome pr) (dm_counters d),
                         dm_streams := dm_streams d @ [\<lparr>ak_pane = p, ak_addr = r, ak_window = wid, ak_client = client,
                           ak_priming = pr, ak_forwarding = True, ak_reading = True\<rparr>]\<rparr>) }) d
       | _ \<Rightarrow> Some (Inl (plain InvalidArgument), d)))"

text \<open>A message on an open stream; the first component is what \<open>write_input\<close> put into the pty.\<close>

definition saturate16 :: "u32 \<Rightarrow> u16" where
  "saturate16 n = (if n \<le> u16_max then n else u16_max)"

fun attach_input :: "daemon_env \<Rightarrow> attach_stream \<Rightarrow> attach_payload \<Rightarrow> ('v, 'p) daemon \<Rightarrow> ('v, 'p) daemon option" where
  "attach_input dv a (InputMsg bs) d =
     Some (if live_exited (dm_engine d) (ak_addr a) \<or> \<not> dv_write_ok dv then d
           else d\<lparr>dm_pty := (dm_pty d)(ak_addr a := dm_pty d (ak_addr a) @ bs)\<rparr>)"
| "attach_input dv a (ResizeMsg rows cols) d =
     (case ak_window a of None \<Rightarrow> Some d | Some w \<Rightarrow>
        do { (_, g) \<leftarrow> report_viewport_and_recompute (dv_op dv) w (ak_client a) (saturate16 rows) (saturate16 cols) (dm_engine d);
             Some (d\<lparr>dm_engine := g\<rparr>) })"
| "attach_input dv a _ d = Some d"

text \<open>The request stream ended: the client detached or vanished.\<close>

definition input_ended :: "daemon_env \<Rightarrow> nat \<Rightarrow> attach_stream \<Rightarrow> ('v, 'p) daemon \<Rightarrow> ('v, 'p) daemon" where
  "input_ended dv i a d =
     (let t = (if live_exited (dm_engine d) (ak_addr a) then dm_tracker d else (dm_tracker d)(ak_pane a \<mapsto> dv_instant dv));
          df = (case ak_window a of None \<Rightarrow> dm_deferred d
                | Some w \<Rightarrow> dm_deferred d @ [\<lparr>df_window = w, df_client = ak_client a, df_due = dv_instant dv + dm_grace d\<rparr>])
      in d\<lparr>dm_tracker := t, dm_deferred := df, dm_streams := (dm_streams d)[i := a\<lparr>ak_reading := False\<rparr>]\<rparr>)"

definition warn_if_exit_follows_disconnect :: "u64 \<Rightarrow> uuid \<Rightarrow> ('v, 'p) daemon \<Rightarrow> ('v, 'p) daemon" where
  "warn_if_exit_follows_disconnect now p d =
     (case dm_tracker d p of None \<Rightarrow> d | Some at_ms \<Rightarrow>
        d\<lparr>dm_tracker := (dm_tracker d)(p := None),
          dm_warned := (if saturating_sub now at_ms \<le> dm_regression_window d then dm_warned d @ [p] else dm_warned d)\<rparr>)"

text \<open>The forwarding task ends, with an exit event or because the client is gone; its guard lowers the gauge.\<close>

definition forward_ended :: "daemon_env \<Rightarrow> bool \<Rightarrow> nat \<Rightarrow> attach_stream \<Rightarrow> ('v, 'p) daemon \<Rightarrow> ('v, 'p) daemon" where
  "forward_ended dv exited i a d =
     (let d1 = (if exited then warn_if_exit_follows_disconnect (dv_instant dv) (ak_pane a) d else d)
      in d1\<lparr>dm_gauge := dm_gauge d1 - 1, dm_streams := (dm_streams d1)[i := a\<lparr>ak_forwarding := False\<rparr>]\<rparr>)"

text \<open>\<open>Engine::window_snapshot\<close>, and the cleanup that was put off by the grace period.\<close>

definition window_snapshot_of :: "engine \<Rightarrow> uuid list \<Rightarrow> uuid \<Rightarrow> window_snapshot option" where
  "window_snapshot_of g order w =
     map_option (\<lambda>x. \<lparr>ws_id = wd_id x, ws_name = wd_name x, ws_layout = layout_to_snapshot g (wd_layout x)\<rparr>)
       (find (\<lambda>x. wd_id x = w) (concat (map ss_windows (List.map_filter (eg_sessions g) order))))"

definition run_deferred :: "daemon_env \<Rightarrow> deferred_cleanup \<Rightarrow> ('v, 'p) daemon \<Rightarrow> ('v, 'p) daemon option" where
  "run_deferred dv c d =
     (if window_snapshot_of (dm_engine d) (dv_order dv) (df_window c) = None then Some d
      else do { (_, g) \<leftarrow> recompute_window_geometry (dv_op dv) (df_window c) (unregister_viewport (df_window c) (df_client c) (dm_engine d));
                Some (d\<lparr>dm_engine := g\<rparr>) })"

section \<open>The daemon as a whole\<close>

datatype request =
    CreateSession create_session_request
  | ListSessions
  | KillSession string
  | ReviveSession string
  | CapturePane string u32
  | SearchScrollback string bytes u32
  | SplitPane string i32 string
  | ClosePane string
  | CreateWindow string string
  | SetRestartPolicy "policy_target option" "proto_policy option" bool
  | GetPaneStatus string
  | RestartPane string bool
  | StopPane string
  | StartPane string
  | ResetRestartBudget string
  | Attach "attach_request option"

datatype response =
    SessionMsg proto_session
  | SessionsMsg "proto_session list"
  | KilledMsg
  | RevivedMsg bool u32 "proto_session option"
  | SnapshotMsg proto_snapshot
  | FoundMsg bool u32 bytes
  | ClosedMsg close_pane_response
  | PolicyMsg "proto_pane_status option"
  | StatusMsg proto_pane_status
  | SignalMsg signal_outcome
  | RestartMsg signal_outcome u64
  | StreamMsg nat

definition answer :: "('a \<Rightarrow> response) \<Rightarrow> ((status + 'a) \<times> 'd) option \<Rightarrow> ((status + response) \<times> 'd) option" where
  "answer f = map_option (apfst (map_sum id f))"

fun handle :: "powi_fun \<Rightarrow> request \<Rightarrow> ('v, 'p, response) handler" where
  "handle pw (CreateSession req) dv d = answer SessionMsg (rpc_create_session pw req dv d)"
| "handle pw ListSessions dv d = answer SessionsMsg (rpc_list_sessions dv d)"
| "handle pw (KillSession s) dv d = answer (\<lambda>_. KilledMsg) (rpc_kill_session s dv d)"
| "handle pw (ReviveSession s) dv d = answer (\<lambda>(a, n, x). RevivedMsg a n x) (rpc_revive_session pw s dv d)"
| "handle pw (CapturePane p k) dv d = answer SnapshotMsg (rpc_capture_pane p k dv d)"
| "handle pw (SearchScrollback p pat k) dv d = answer (\<lambda>(a, n, x). FoundMsg a n x) (rpc_search_scrollback p pat k dv d)"
| "handle pw (SplitPane p o' c) dv d = answer SessionMsg (rpc_split_pane pw p o' c dv d)"
| "handle pw (ClosePane p) dv d = answer ClosedMsg (rpc_close_pane p dv d)"
| "handle pw (CreateWindow s c) dv d = answer SessionMsg (rpc_create_window pw s c dv d)"
| "handle pw (SetRestartPolicy tgt q b) dv d = answer PolicyMsg (rpc_set_restart_policy tgt q b dv d)"
| "handle pw (GetPaneStatus p) dv d = answer StatusMsg (rpc_get_pane_status p dv d)"
| "handle pw (RestartPane p b) dv d = answer (\<lambda>(o', n). RestartMsg o' n) (rpc_restart_pane pw p b dv d)"
| "handle pw (StopPane p) dv d = answer SignalMsg (rpc_stop_pane p dv d)"
| "handle pw (StartPane p) dv d = answer StatusMsg (rpc_start_pane pw p dv d)"
| "handle pw (ResetRestartBudget p) dv d = answer StatusMsg (rpc_reset_restart_budget p dv d)"
| "handle pw (Attach first) dv d = answer StreamMsg (rpc_attach first dv d)"

text \<open>
  What holds of the surroundings: a new process lives at a free address under an id of its own, a new
  session or window gets an id that was never used, and the orders are those of the maps they run over.
\<close>

definition env_ok :: "daemon_env \<Rightarrow> engine \<Rightarrow> bool" where
  "env_ok dv g \<longleftrightarrow>
     (\<forall>cmd l cwd m sp. dv_spawn dv cmd l cwd = (m, Inr sp) \<longrightarrow> fresh_spawn g sp)
   \<and> (\<forall>ps. spawns_apart g (dv_start dv) ps)
   \<and> eg_sessions g (dv_session_id dv) = None \<and> eg_window_session g (dv_window_id dv) = None \<and> eg_viewports g (dv_window_id dv) = None
   \<and> set (dv_order dv) = dom (eg_sessions g)
   \<and> distinct (dv_entry_order dv) \<and> set (dv_entry_order dv) = dom (sn_entries (eg_sup g))
   \<and> oe_now (dv_op dv) < u64_max"

inductive daemon_step :: "powi_fun \<Rightarrow> width_fun \<Rightarrow> ('v \<Rightarrow> bytes \<Rightarrow> term_event list \<times> 'v) \<Rightarrow> 'p vte \<Rightarrow> ('v, 'p) daemon \<Rightarrow> ('v, 'p) daemon \<Rightarrow> bool"
  for pw cw tok adv where
  request: "env_ok dv (dm_engine d) \<Longrightarrow> handle pw req dv d = Some (res, d') \<Longrightarrow> daemon_step pw cw tok adv d d'"
| input_msg: "i < length (dm_streams d) \<Longrightarrow> ak_reading (dm_streams d ! i) \<Longrightarrow>
     attach_input dv (dm_streams d ! i) msg d = Some d' \<Longrightarrow> daemon_step pw cw tok adv d d'"
| input_end: "i < length (dm_streams d) \<Longrightarrow> ak_reading (dm_streams d ! i) \<Longrightarrow>
     daemon_step pw cw tok adv d (input_ended dv i (dm_streams d ! i) d)"
| forward_end: "i < length (dm_streams d) \<Longrightarrow> ak_forwarding (dm_streams d ! i) \<Longrightarrow>
     exited \<longrightarrow> (\<exists>pp. pane_at (dm_engine d) (ak_addr (dm_streams d ! i)) = Some pp \<and> final_exit pp) \<Longrightarrow>
     daemon_step pw cw tok adv d (forward_ended dv exited i (dm_streams d ! i) d)"
| cleanup: "i < length (dm_deferred d) \<Longrightarrow> df_due (dm_deferred d ! i) \<le> dv_instant dv \<Longrightarrow> env_ok dv (dm_engine d) \<Longrightarrow>
     run_deferred dv (dm_deferred d ! i) d = Some d' \<Longrightarrow>
     daemon_step pw cw tok adv d (d'\<lparr>dm_deferred := take i (dm_deferred d') @ drop (Suc i) (dm_deferred d')\<rparr>)"
| wait: "env_ok dv (dm_engine d) \<Longrightarrow> wait_turn pw dv r k d = Some (b, d') \<Longrightarrow> daemon_step pw cw tok adv d d'"
| tick: "env_ok dv (dm_engine d) \<Longrightarrow>
     supervise_tick pw (dv_op dv) (dv_entry_order dv) (dv_dirty_order dv) (dm_engine d) = Some (next_due, g) \<Longrightarrow>
     daemon_step pw cw tok adv d (d\<lparr>dm_engine := g\<rparr>)"
| process: "reader_step pw (dm_engine d) g \<Longrightarrow> daemon_step pw cw tok adv d (d\<lparr>dm_engine := g\<rparr>)"
| pane_output: "stream_step cw tok adv (dm_output d r) st \<Longrightarrow> daemon_step pw cw tok adv d (d\<lparr>dm_output := (dm_output d)(r := st)\<rparr>)"

text \<open>The daemon starts with the sessions it loaded, before any client is attached, and with fresh output streams.\<close>

definition daemon_init :: "powi_fun \<Rightarrow> ('v, 'p) daemon \<Rightarrow> bool" where
  "daemon_init pw d \<longleftrightarrow> (\<exists>a b g out. d = daemon_new a b g out \<and> reachable engine_init (engine_step pw) g \<and> eg_viewports g = Map.empty
     \<and> (\<forall>r. \<exists>v p sz n budget. size_ok sz \<and> out r = stream_new v p sz n budget))"

end
