(* ===== verification/Daemon_Properties.thy ===== *)
theory Daemon_Properties
  imports Daemon
begin

text \<open>
  What the daemon keeps: its engine part is a run of the engine, no request panics, the gauge and the
  counters count, every viewport of a window has a client behind it or a cleanup ahead, and an answer that
  blames the request leaves the daemon as it was.
\<close>

section \<open>What requests do to windows and viewports\<close>

text \<open>Only the windows in \<open>W\<close> are new, and no viewport is touched.\<close>

definition quiet :: "uuid set \<Rightarrow> engine \<Rightarrow> engine \<Rightarrow> bool" where
  "quiet W g g' \<longleftrightarrow> eg_viewports g' = eg_viewports g \<and> dom (eg_window_session g') \<subseteq> dom (eg_window_session g) \<union> W"

lemma quiet_refl [simp]: "quiet W g g"
  by (simp add: quiet_def)

lemma quiet_same: "eg_viewports g' = eg_viewports g \<Longrightarrow> eg_window_session g' = eg_window_session g \<Longrightarrow> quiet W g g'"
  by (simp add: quiet_def)

lemma quiet_create_session: "quiet {wid} g (snd (create_session_supervised pw env sid wid name policy m spawn g))"
  by (auto simp: quiet_def create_session_supervised_def Let_def engine_parts split: sum.splits)

lemma quiet_create_window: "quiet {wid} g (snd (create_window pw env sid wid m spawn g))"
  by (auto simp: quiet_def create_window_def Let_def engine_parts split: sum.splits option.splits)

lemma quiet_split: "split_pane pw env p o' m spawn g = Some (res, g') \<Longrightarrow> quiet W g g'"
  by (auto simp: quiet_def split_pane_def split_layout_def split_finish_def Let_def engine_parts
      split: sum.splits option.splits prod.splits if_splits)

lemma quiet_close: "close_pane env p g = Some (res, g') \<Longrightarrow> quiet W g g'"
  by (auto simp: quiet_def close_pane_def close_layout_def Let_def engine_parts
      split: sum.splits option.splits prod.splits if_splits remove_outcome.splits list.splits)

lemma quiet_kill: "quiet W g (snd (kill_session env sid g))"
  by (auto simp: quiet_def kill_session_def kill_index_def Let_def remove_panes_simps remove_windows_simps split: option.splits if_splits)

lemma start_inner_same:
  "eg_viewports (snd (start_pane_inner pw env p fb spawn g)) = eg_viewports g"
  "eg_window_session (snd (start_pane_inner pw env p fb spawn g)) = eg_window_session g"
  by (auto simp: start_pane_inner_def Let_def engine_parts case_prod_beta split: option.splits pane_entry.splits sum.splits)

lemma start_all_same:
  "eg_viewports (snd (start_all pw env fb spawn ps g)) = eg_viewports g \<and> eg_window_session (snd (start_all pw env fb spawn ps g)) = eg_window_session g"
proof (induction ps arbitrary: g)
  case (Cons p ps)
  have "snd (start_all pw env fb spawn (p # ps) g) = snd (start_all pw env fb spawn ps (snd (start_pane_inner pw env p fb (spawn p) g)))"
    by (auto simp: Let_def case_prod_beta split: sum.split)
  then show ?case using Cons.IH [of "snd (start_pane_inner pw env p fb (spawn p) g)"] start_inner_same by simp
qed simp

lemma quiet_revive: "quiet W g (snd (revive_session pw env prepare spawn sid g))"
  by (auto simp: revive_session_def Let_def case_prod_beta start_all_same intro!: quiet_same split: option.splits)

lemma quiet_supervised: "quiet W g (snd (supervised_op env p f g))"
  by (auto simp: supervised_op_def Let_def case_prod_beta intro!: quiet_same split: sum.splits)

lemma quiet_set_policy: "quiet W g (snd (set_restart_policy env p policy g))"
  using quiet_supervised [of W g env p "\<lambda>sn. sn_set_policy sn p policy (oe_now env)"]
  by (auto simp: set_restart_policy_def split: prod.splits sum.splits option.splits)

lemma quiet_set_session_policy: "quiet W g (snd (set_session_restart_policy env sid policy b g))"
  by (auto simp: set_session_restart_policy_def Let_def case_prod_beta engine_parts intro!: quiet_same split: sum.splits option.splits)

lemma quiet_start: "quiet W g (snd (start_pane pw env p spawn g))"
  using start_inner_same [of pw env p default_policy spawn g]
  by (auto simp: start_pane_def intro!: quiet_same split: sum.splits prod.splits)

lemma quiet_restart: "quiet W g (snd (restart_pane pw env p reset spawn g))"
  using start_inner_same [of pw env p default_policy spawn g]
  by (auto simp: restart_pane_def Let_def case_prod_beta intro!: quiet_same split: sum.splits prod.splits option.splits pane_entry.splits)

lemma persist_fold_same:
  "eg_viewports (fold (persist_session env) is g) = eg_viewports g" "eg_window_session (fold (persist_session env) is g) = eg_window_session g"
  by (induction "is" arbitrary: g) auto

lemma quiet_tick: "supervise_tick pw env order dirty g = Some (next_due, g') \<Longrightarrow> quiet W g g'"
  by (auto simp: supervise_tick_def persist_dirty_def Let_def persist_fold_same on_sup_def intro!: quiet_same split: option.splits prod.splits)

lemma quiet_reader: "reader_step pw g g' \<Longrightarrow> quiet W g g'"
  unfolding reader_step_def by (metis quiet_same engine.select_convs engine.surjective engine.update_convs(8))

lemma quiet_client: "quiet W g (snd (new_client_id g))"
  by (auto simp: new_client_id_def intro!: quiet_same)

lemmas quiet_ops = quiet_create_session quiet_create_window quiet_kill quiet_revive quiet_supervised quiet_set_policy
  quiet_set_session_policy quiet_start quiet_restart quiet_client

section \<open>What requests do to the daemon\<close>

lemma with_engine_state [simp]: "snd (with_engine d res k) = d\<lparr>dm_engine := snd res\<rparr>"
  by (auto simp: with_engine_def split: prod.splits sum.splits)

lemma with_engine_D: "with_engine d res k = (x, d') \<Longrightarrow> d' = d\<lparr>dm_engine := snd res\<rparr>"
  by (metis snd_conv with_engine_state)

lemma with_uuid_cases:
  assumes "with_uuid dv s f d = Some (x, d')"
  obtains "x = Inl (plain InvalidArgument)" "d' = d" | i where "dv_parse dv s = Some i" "f i = Some (x, d')"
  using assms by (auto simp: with_uuid_def parse_uuid_def split: option.splits)

lemma answer_Some: "answer f r = Some (x, d') \<longleftrightarrow> (\<exists>y. r = Some (y, d') \<and> x = map_sum id f y)"
  by (auto simp: answer_def)

text \<open>A screen was looked at: its scrollback offset moved and came back.\<close>

definition looked :: "('v, 'p) daemon \<Rightarrow> ('v, 'p) daemon \<Rightarrow> bool" where
  "looked d d' \<longleftrightarrow> (\<forall>r. \<exists>p. dm_output d' r = (dm_output d r)\<lparr>st_parser := p\<rparr>
     \<and> (\<forall>sz n. screen_ok sz n (pa_screen (st_parser (dm_output d r))) \<longrightarrow> screen_ok sz n (pa_screen p)))"

lemma looked_same: "dm_output d' = dm_output d \<Longrightarrow> looked d d'"
  by (auto simp: looked_def intro!: exI [of _ "st_parser (dm_output d _)"])

definition touches :: "powi_fun \<Rightarrow> uuid set \<Rightarrow> ('v, 'p) daemon \<Rightarrow> ('v, 'p) daemon \<Rightarrow> bool" where
  "touches pw W d d' \<longleftrightarrow> (dm_engine d' = dm_engine d \<or> engine_step pw (dm_engine d) (dm_engine d')) \<and> quiet W (dm_engine d) (dm_engine d')
     \<and> dm_streams d' = dm_streams d \<and> dm_gauge d' = dm_gauge d \<and> dm_counters d' = dm_counters d \<and> dm_deferred d' = dm_deferred d
     \<and> looked d d'"

lemma touches_refl [simp]: "touches pw W d d"
  by (simp add: touches_def looked_same)

lemma touches_engine:
  "engine_step pw (dm_engine d) g \<Longrightarrow> quiet W (dm_engine d) g \<Longrightarrow> touches pw W d (d\<lparr>dm_engine := g\<rparr>)"
  "engine_step pw (dm_engine d) g \<Longrightarrow> quiet W (dm_engine d) g \<Longrightarrow> touches pw W d (d\<lparr>dm_engine := g, dm_tracker := t\<rparr>)"
  by (simp_all add: touches_def looked_same)

lemma touches_uuid:
  assumes "with_uuid dv s f d = Some (x, d')" and "\<And>i. f i = Some (x, d') \<Longrightarrow> touches pw W d d'"
  shows "touches pw W d d'"
  using assms(1) by (cases rule: with_uuid_cases) (use assms(2) in auto)

text \<open>Searching moves the scrollback offset and leaves the screen well formed.\<close>

lemma map_opt_total: "(\<And>x. \<exists>w. f x = Some w) \<Longrightarrow> \<exists>ys. map_opt f xs = Some ys"
proof (induction xs)
  case (Cons x xs)
  then obtain w ys where "f x = Some w" "map_opt f xs = Some ys" by blast
  then show ?case by simp
qed simp

lemma top_line_returns:
  assumes "screen_ok sz n s"
  shows "\<exists>line. top_line s = Some line"
proof -
  have "\<exists>w. (cell_at 0 c s \<bind> (\<lambda>found. case found of None \<Rightarrow> Some [] | Some x \<Rightarrow> contents x)) = Some w" for c
  proof -
    obtain found where "cell_at 0 c s = Some found" "\<And>x. found = Some x \<Longrightarrow> cell_ok x"
      using cell_at_returns [OF assms, of 0 c] unfolding returns_def by blast
    then show ?thesis using contents_returns by (cases found) (fastforce simp: returns_def)+
  qed
  from map_opt_total [OF this] show ?thesis by (simp add: top_line_def)
qed

lemma search_from_returns:
  "screen_ok sz n s \<Longrightarrow> \<exists>found s'. search_from pat ks s = Some (found, s') \<and> screen_ok sz n s'"
proof (induction ks arbitrary: s)
  case (Cons k ks)
  have ok: "screen_ok sz n (screen_set_scrollback k s)" by (rule screen_set_scrollback_ok [OF Cons.prems])
  obtain line where "top_line (screen_set_scrollback k s) = Some line" using top_line_returns [OF ok] by blast
  then show ?case using Cons.IH [OF ok] ok by (auto simp: Let_def)
qed simp

lemma search_returns:
  assumes "screen_ok sz n s"
  shows "\<exists>found s'. search_scrollback pat k s = Some (found, s') \<and> screen_ok sz n s'"
proof (cases "pat = []")
  case False
  have "screen_ok sz n (screen_set_scrollback u64_max s)" by (rule screen_set_scrollback_ok [OF assms])
  from search_from_returns [OF this] obtain found s' where
    "search_from pat [k..<g_scrollback_offset (active_grid (screen_set_scrollback u64_max s)) + 1] (screen_set_scrollback u64_max s) = Some (found, s')"
    "screen_ok sz n s'" by blast
  then show ?thesis using False screen_set_scrollback_ok by (auto simp: search_scrollback_def Let_def)
qed (use assms in \<open>simp add: search_scrollback_def\<close>)

lemma capture_returns:
  assumes "screen_ok sz n s"
  shows "\<exists>snap s'. snapshot_at_offset k s = Some (snap, s') \<and> screen_ok sz n s'"
  using snapshot_returns [OF screen_set_scrollback_ok [OF assms, of k]] screen_set_scrollback_ok [OF screen_set_scrollback_ok [OF assms]]
  by (auto simp: snapshot_at_offset_def returns_def Let_def)

lemma touches_look:
  assumes "\<And>sz n. screen_ok sz n (pa_screen (st_parser (dm_output d r))) \<Longrightarrow> screen_ok sz n s"
  shows "touches pw W d (look_at r s d)"
proof -
  have "looked d (look_at r s d)"
    unfolding looked_def
  proof
    fix q
    show "\<exists>p. dm_output (look_at r s d) q = (dm_output d q)\<lparr>st_parser := p\<rparr>
        \<and> (\<forall>sz n. screen_ok sz n (pa_screen (st_parser (dm_output d q))) \<longrightarrow> screen_ok sz n (pa_screen p))"
      using assms by (cases "q = r") (auto simp: look_at_def Let_def intro: exI [of _ "(st_parser (dm_output d r))\<lparr>pa_screen := s\<rparr>"]
          intro: exI [of _ "st_parser (dm_output d q)"])
  qed
  then show ?thesis by (simp add: touches_def look_at_def Let_def)
qed

lemma touches_capture: "rpc_capture_pane p k dv d = Some (x, d') \<Longrightarrow> touches pw W d d'"
  unfolding rpc_capture_pane_def
  by (erule touches_uuid) (auto simp: Let_def bind_Some_conv dest: capture_returns intro!: touches_look split: sum.splits option.splits, 
    (metis capture_returns option.inject prod.inject)+)

lemma touches_search: "rpc_search_scrollback p pat k dv d = Some (x, d') \<Longrightarrow> touches pw W d d'"
  unfolding rpc_search_scrollback_def
  by (erule touches_uuid) (auto simp: Let_def bind_Some_conv intro!: touches_look split: sum.splits option.splits, 
    (metis search_returns option.inject prod.inject)+)

lemma env_okD:
  assumes "env_ok dv g"
  shows "dv_spawn dv cmd l cwd = (m, Inr sp) \<Longrightarrow> fresh_spawn g sp" "spawns_apart g (dv_start dv) ps"
    "eg_sessions g (dv_session_id dv) = None" "eg_window_session g (dv_window_id dv) = None" "eg_viewports g (dv_window_id dv) = None"
    "dv_start dv p = Inr sp \<Longrightarrow> sn_heap (eg_sup g) (sw_addr sp) = None \<and> sw_id sp = p"
  using assms spawns_apartD(1,2) [of g "dv_start dv" "[p]" p sp] unfolding env_ok_def by auto

lemma touches_create:
  assumes "rpc_create_session pw req dv d = Some (x, d')" and ok: "env_ok dv (dm_engine d)"
  shows "touches pw {dv_window_id dv} d d'"
proof (cases "\<exists>e. request_policy (cq_restart_policy req) = Inl e \<or> collect_specs (cq_arg_specs req) = Inl e")
  case True
  then show ?thesis using assms(1) by (auto simp: rpc_create_session_def split: sum.splits)
next
  case False
  then obtain policy specs where p: "request_policy (cq_restart_policy req) = Inr policy" "collect_specs (cq_arg_specs req) = Inr specs"
    by (metis sum.exhaust)
  let ?l = "\<lparr>la_args = cq_args req, la_env = cq_env req, la_arg_specs = specs, la_stderr_path = non_empty (cq_stderr_path req),
      la_stdin_path = non_empty (cq_stdin_path req), la_stdin_stream = cq_stdin_stream req\<rparr>"
  obtain m spawn where sp: "dv_spawn dv (non_empty (cq_command req)) ?l (non_empty (cq_cwd req)) = (m, spawn)" by fastforce
  let ?g = "snd (create_session_supervised pw (dv_op dv) (dv_session_id dv) (dv_window_id dv) (cq_name req) policy m spawn (dm_engine d))"
  have "engine_step pw (dm_engine d) ?g"
    by (rule engine_step.create_session) (use env_okD [OF ok] sp in auto)
  moreover have "d' = d\<lparr>dm_engine := ?g\<rparr>" using assms(1) p sp
    by (auto simp: rpc_create_session_def split: prod.splits sum.splits)
  ultimately show ?thesis using touches_engine(1) quiet_create_session by metis
qed

lemma touches_create_window:
  assumes "rpc_create_window pw s c dv d = Some (x, d')" and ok: "env_ok dv (dm_engine d)"
  shows "touches pw {dv_window_id dv} d d'"
  using assms(1) unfolding rpc_create_window_def
proof (rule touches_uuid)
  fix i
  obtain m spawn where sp: "dv_spawn dv (non_empty c) default_launch None = (m, spawn)" by fastforce
  let ?g = "snd (create_window pw (dv_op dv) i (dv_window_id dv) m spawn (dm_engine d))"
  assume "(let (m, spawn) = dv_spawn dv (non_empty c) default_launch None in Some (with_engine d (create_window pw (dv_op dv) i (dv_window_id dv) m spawn (dm_engine d))
          (\<lambda>s g. Inr (session_to_proto (dv_show dv) s)))) = Some (x, d')"
  then have "d' = d\<lparr>dm_engine := ?g\<rparr>" using sp by (auto dest: with_engine_D)
  moreover have "engine_step pw (dm_engine d) ?g"
    by (rule engine_step.create_window) (use env_okD [OF ok] sp in auto)
  ultimately show "touches pw {dv_window_id dv} d d'" using touches_engine(1) quiet_create_window by metis
qed

lemma touches_split:
  assumes "rpc_split_pane pw s o' c dv d = Some (x, d')" and ok: "env_ok dv (dm_engine d)"
  shows "touches pw W d d'"
  using assms(1) unfolding rpc_split_pane_def
proof (rule touches_uuid)
  fix p
  obtain m spawn where sp: "dv_spawn dv (non_empty c) default_launch None = (m, spawn)" by fastforce
  assume res: "(case orientation_from_proto o' of Inl e \<Rightarrow> Some (Inl e, d) | Inr orient \<Rightarrow>
       let (m, spawn) = dv_spawn dv (non_empty c) default_launch None
       in do { res \<leftarrow> split_pane pw (dv_op dv) p orient m spawn (dm_engine d);
               Some (with_engine d res (\<lambda>s g. Inr (session_to_proto (dv_show dv) s))) }) = Some (x, d')"
  then show "touches pw W d d'"
  proof (cases "orientation_from_proto o'")
    case (Inr orient)
    with res sp obtain res g where r: "split_pane pw (dv_op dv) p orient m spawn (dm_engine d) = Some (res, g)"
        "with_engine d (res, g) (\<lambda>s g. Inr (session_to_proto (dv_show dv) s)) = (x, d')"
      by (auto simp: bind_Some_conv)
    have "engine_step pw (dm_engine d) g" by (rule engine_step.split [OF _ r(1)]) (use env_okD(1) [OF ok] sp in auto)
    then show ?thesis using touches_engine(1) [OF _ quiet_split [OF r(1)]] with_engine_D [OF r(2)] by simp
  qed simp
qed

lemma touches_close:
  assumes "rpc_close_pane s dv d = Some (x, d')"
  shows "touches pw W d d'"
  using assms unfolding rpc_close_pane_def
proof (rule touches_uuid)
  fix p
  assume "do { res \<leftarrow> close_pane (dv_op dv) p (dm_engine d);
          (case res of
             (Inl e, g) \<Rightarrow> Some (Inl (engine_error_to_status e), d\<lparr>dm_engine := g\<rparr>)
           | (Inr out, g) \<Rightarrow> Some (Inr (close_response (dv_show dv) out),
                d\<lparr>dm_engine := g, dm_tracker := purge_disconnect_tracker p (dm_tracker d)\<rparr>)) } = Some (x, d')"
  then obtain res g where "close_pane (dv_op dv) p (dm_engine d) = Some (res, g)"
      "d' = d\<lparr>dm_engine := g\<rparr> \<or> d' = d\<lparr>dm_engine := g, dm_tracker := purge_disconnect_tracker p (dm_tracker d)\<rparr>"
    by (auto simp: bind_Some_conv split: sum.splits) (metis old.sum.exhaust)+
  then show "touches pw W d d'" using touches_engine engine_step.close quiet_close by metis
qed

lemma touches_kill:
  assumes "rpc_kill_session s dv d = Some (x, d')"
  shows "touches pw W d d'"
  using assms unfolding rpc_kill_session_def
proof (rule touches_uuid)
  fix i
  let ?ids = "case get_session_snapshot (dm_engine d) i of None \<Rightarrow> [] | Some snap \<Rightarrow> concat (map (\<lambda>w. collect_leaf_pane_ids (ws_layout w)) (sx_windows snap))"
  assume "(let pane_ids = ?ids
     in (case kill_session (dv_op dv) i (dm_engine d) of
           (Inl e, g) \<Rightarrow> Some (Inl (plain NotFound), d\<lparr>dm_engine := g\<rparr>)
         | (Inr _, g) \<Rightarrow> Some (Inr (), d\<lparr>dm_engine := g, dm_tracker := fold purge_disconnect_tracker pane_ids (dm_tracker d)\<rparr>))) = Some (x, d')"
  then have "d' = d\<lparr>dm_engine := snd (kill_session (dv_op dv) i (dm_engine d))\<rparr>
      \<or> d' = d\<lparr>dm_engine := snd (kill_session (dv_op dv) i (dm_engine d)), dm_tracker := fold purge_disconnect_tracker ?ids (dm_tracker d)\<rparr>"
    by (auto simp: Let_def split: prod.splits sum.splits)
  then show "touches pw W d d'" using touches_engine [OF engine_step.kill quiet_kill] by metis
qed

text \<open>The requests that only call the engine.\<close>

lemma touches_engine_call:
  assumes "with_uuid dv s (\<lambda>i. Some (with_engine d (call i) (k i))) d = Some (x, d')"
    and "\<And>i. engine_step pw (dm_engine d) (snd (call i)) \<and> quiet W (dm_engine d) (snd (call i))"
  shows "touches pw W d d'"
  using assms(1)
proof (rule touches_uuid)
  fix i
  assume "Some (with_engine d (call i) (k i)) = Some (x, d')"
  then have "d' = d\<lparr>dm_engine := snd (call i)\<rparr>" by (auto dest: with_engine_D)
  then show "touches pw W d d'" using touches_engine(1) assms(2) by metis
qed

lemma touches_revive:
  assumes "rpc_revive_session pw s dv d = Some (x, d')" and "env_ok dv (dm_engine d)"
  shows "touches pw W d d'"
  using assms(1) unfolding rpc_revive_session_def
  by (rule touches_engine_call) (use env_okD(2) [OF assms(2)] in \<open>auto intro: engine_step.revive quiet_revive\<close>)

lemma touches_set_policy: "rpc_set_restart_policy tgt q b dv d = Some (x, d') \<Longrightarrow> touches pw W d d'"
  by (auto simp: rpc_set_restart_policy_def intro: engine_step.set_policy engine_step.set_session_policy quiet_set_policy quiet_set_session_policy
    elim!: touches_engine_call split: sum.splits option.splits policy_target.splits)

lemma touches_restart:
  assumes "rpc_restart_pane pw s b dv d = Some (x, d')" and "env_ok dv (dm_engine d)"
  shows "touches pw W d d'"
  using assms(1) unfolding rpc_restart_pane_def Let_def
  by (rule touches_engine_call) (use env_okD(6) [OF assms(2)] in \<open>auto intro: engine_step.restart quiet_restart\<close>)

lemma touches_start:
  assumes "rpc_start_pane pw s dv d = Some (x, d')" and "env_ok dv (dm_engine d)"
  shows "touches pw W d d'"
  using assms(1) unfolding rpc_start_pane_def
  by (rule touches_engine_call) (use env_okD(6) [OF assms(2)] in \<open>auto intro: engine_step.start quiet_start\<close>)

lemma touches_stop: "rpc_stop_pane s dv d = Some (x, d') \<Longrightarrow> touches pw W d d'"
  unfolding rpc_stop_pane_def
  by (erule touches_engine_call) (auto simp: stop_pane_def quiet_supervised intro: engine_step.stop [unfolded stop_pane_def])

lemma touches_reset: "rpc_reset_restart_budget s dv d = Some (x, d') \<Longrightarrow> touches pw W d d'"
  unfolding rpc_reset_restart_budget_def
  by (erule touches_engine_call) (auto simp: reset_restart_budget_def quiet_supervised intro: engine_step.reset_budget [unfolded reset_restart_budget_def])

lemma touches_status: "rpc_get_pane_status s dv d = Some (x, d') \<Longrightarrow> touches pw W d d'"
  unfolding rpc_get_pane_status_def by (erule touches_uuid) auto

lemma handle_touches:
  assumes "handle pw req dv d = Some (x, d')" and "env_ok dv (dm_engine d)" and "\<And>first. req \<noteq> Attach first"
  shows "touches pw {dv_window_id dv} d d'"
  using assms
  by (cases req) (auto simp: answer_Some rpc_list_sessions_def
    intro: touches_create touches_kill touches_revive touches_capture touches_search touches_split touches_close touches_create_window
      touches_set_policy touches_status touches_restart touches_stop touches_start touches_reset)

text \<open>What attaching does.\<close>

definition new_stream :: "engine \<Rightarrow> uuid \<Rightarrow> nat \<Rightarrow> priming \<Rightarrow> attach_stream" where
  "new_stream g p r pr = \<lparr>ak_pane = p, ak_addr = r, ak_window = eg_pane_window g p, ak_client = eg_next_client g,
     ak_priming = pr, ak_forwarding = True, ak_reading = True\<rparr>"

lemma attach_cases:
  assumes "rpc_attach first dv d = Some (x, d')"
  obtains "d' = d" "\<exists>e. x = Inl e"
  | p r pr st resume where "resolve_attachable_pane (dm_engine d) p = Inr r" "attach_prime resume (dm_output d r) = Some (pr, st)"
      "x = Inr (length (dm_streams d))"
      "d' = d\<lparr>dm_engine := snd (new_client_id (dm_engine d)), dm_output := (dm_output d)(r := st), dm_gauge := dm_gauge d + 1,
         dm_counters := record_resume_outcome (pr_outcome pr) (dm_counters d), dm_streams := dm_streams d @ [new_stream (dm_engine d) p r pr]\<rparr>"
proof (cases "\<exists>req s. first = Some req \<and> aq_payload req = PaneIdMsg s")
  case False
  then show ?thesis using assms that(1) by (auto simp: rpc_attach_def split: option.splits attach_payload.splits)
next
  case True
  then obtain req s where f: "first = Some req" "aq_payload req = PaneIdMsg s" by blast
  show ?thesis
  proof (cases "dv_parse dv s")
    case None
    then show ?thesis using assms f that(1) by (auto simp: rpc_attach_def with_uuid_def parse_uuid_def)
  next
    case (Some p)
    show ?thesis
    proof (cases "resolve_attachable_pane (dm_engine d) p")
      case (Inl e)
      then have "d' = d" "x = Inl e" using assms f Some by (auto simp: rpc_attach_def with_uuid_def parse_uuid_def)
      then show ?thesis using that(1) by simp
    next
      case (Inr r)
      have "rpc_attach first dv d = do { (pr, st) \<leftarrow> attach_prime (aq_resume_from_seq req) (dm_output d r);
          Some (Inr (length (dm_streams d)), d\<lparr>dm_engine := snd (new_client_id (dm_engine d)), dm_output := (dm_output d)(r := st), dm_gauge := dm_gauge d + 1,
           dm_counters := record_resume_outcome (pr_outcome pr) (dm_counters d), dm_streams := dm_streams d @ [new_stream (dm_engine d) p r pr]\<rparr>) }"
        using f Some Inr by (simp add: rpc_attach_def with_uuid_def parse_uuid_def new_client_id_def new_stream_def)
      then obtain pr st where "attach_prime (aq_resume_from_seq req) (dm_output d r) = Some (pr, st)" "x = Inr (length (dm_streams d))"
          "d' = d\<lparr>dm_engine := snd (new_client_id (dm_engine d)), dm_output := (dm_output d)(r := st), dm_gauge := dm_gauge d + 1,
           dm_counters := record_resume_outcome (pr_outcome pr) (dm_counters d), dm_streams := dm_streams d @ [new_stream (dm_engine d) p r pr]\<rparr>"
        using assms by (cases "attach_prime (aq_resume_from_seq req) (dm_output d r)") auto
      then show ?thesis by (rule that(2) [OF Inr])
    qed
  qed
qed

section \<open>The invariant\<close>

definition backed :: "attach_stream list \<Rightarrow> deferred_cleanup list \<Rightarrow> uuid \<Rightarrow> u64 \<Rightarrow> bool" where
  "backed as fs w c \<longleftrightarrow> (\<exists>a\<in>set as. ak_reading a \<and> ak_window a = Some w \<and> ak_client a = c) \<or> (\<exists>f\<in>set fs. df_window f = w \<and> df_client f = c)"

definition accounted :: "('v, 'p) daemon \<Rightarrow> bool" where
  "accounted d \<longleftrightarrow> (\<forall>w cs c x. eg_viewports (dm_engine d) w = Some cs \<longrightarrow> (c, x) \<in> set cs \<longrightarrow> eg_window_session (dm_engine d) w \<noteq> None
     \<longrightarrow> backed (dm_streams d) (dm_deferred d) w c)"

lemma accountedI:
  "(\<And>w cs c x. eg_viewports (dm_engine d) w = Some cs \<Longrightarrow> (c, x) \<in> set cs \<Longrightarrow> eg_window_session (dm_engine d) w \<noteq> None
     \<Longrightarrow> backed (dm_streams d) (dm_deferred d) w c) \<Longrightarrow> accounted d"
  unfolding accounted_def by blast

lemma accountedD:
  "accounted d \<Longrightarrow> eg_viewports (dm_engine d) w = Some cs \<Longrightarrow> (c, x) \<in> set cs \<Longrightarrow> eg_window_session (dm_engine d) w \<noteq> None
     \<Longrightarrow> backed (dm_streams d) (dm_deferred d) w c"
  unfolding accounted_def by blast

lemma accounted_same:
  "dm_engine d' = dm_engine d \<Longrightarrow> (\<And>w c. backed (dm_streams d) (dm_deferred d) w c \<Longrightarrow> backed (dm_streams d') (dm_deferred d') w c)
     \<Longrightarrow> accounted d \<Longrightarrow> accounted d'"
  by (rule accountedI) (auto dest: accountedD)

definition counted :: "('v, 'p) daemon \<Rightarrow> bool" where
  "counted d \<longleftrightarrow> dm_gauge d = int (length (filter ak_forwarding (dm_streams d)))
     \<and> rc_resumed_from_buffer (dm_counters d) + rc_gap_exceeded_fallback (dm_counters d) + rc_no_resume_token_full_attach (dm_counters d)
       = int (length (dm_streams d))"

definition outputs_ok :: "('v, 'p) daemon \<Rightarrow> bool" where
  "outputs_ok d \<longleftrightarrow> (\<forall>r. \<exists>sz n budget. stream_inv sz n budget (dm_output d r))"

definition daemon_inv :: "powi_fun \<Rightarrow> ('v, 'p) daemon \<Rightarrow> bool" where
  "daemon_inv pw d \<longleftrightarrow> reachable engine_init (engine_step pw) (dm_engine d) \<and> outputs_ok d \<and> counted d \<and> accounted d"

lemma accounted_quiet:
  assumes "accounted d" and "quiet W (dm_engine d) (dm_engine d')" and "\<And>w. w \<in> W \<Longrightarrow> eg_viewports (dm_engine d) w = None"
    and "set (dm_streams d) \<subseteq> set (dm_streams d')" and "set (dm_deferred d) \<subseteq> set (dm_deferred d')"
  shows "accounted d'"
proof (rule accountedI)
  fix w cs c x
  assume h: "eg_viewports (dm_engine d') w = Some cs" "(c, x) \<in> set cs" "eg_window_session (dm_engine d') w \<noteq> None"
  have v: "eg_viewports (dm_engine d) w = Some cs" using h(1) assms(2) by (simp add: quiet_def)
  then have "w \<notin> W" using assms(3) by force
  then have "eg_window_session (dm_engine d) w \<noteq> None" using h(3) assms(2) by (auto simp: quiet_def dom_def)
  then show "backed (dm_streams d') (dm_deferred d') w c"
    using accountedD [OF assms(1) v h(2)] assms(4,5) unfolding backed_def by blast
qed

lemma looked_ok: "outputs_ok d \<Longrightarrow> looked d d' \<Longrightarrow> outputs_ok d'"
  unfolding outputs_ok_def looked_def by (metis stream_inv_def stream_inv_side(4))

lemma engine_moves: "reachable engine_init (engine_step pw) g \<Longrightarrow> g' = g \<or> engine_step pw g g' \<Longrightarrow> reachable engine_init (engine_step pw) g'"
  by (auto intro: reachable.reach_step)

lemma touches_inv:
  assumes "daemon_inv pw d" and "touches pw W d d'" and "\<And>w. w \<in> W \<Longrightarrow> eg_viewports (dm_engine d) w = None"
  shows "daemon_inv pw d'"
  using assms engine_moves [of pw "dm_engine d" "dm_engine d'"] looked_ok [of d d'] accounted_quiet [of d W d']
  by (auto simp: daemon_inv_def touches_def counted_def)

lemma counters_sum:
  "rc_resumed_from_buffer (record_resume_outcome out c) + rc_gap_exceeded_fallback (record_resume_outcome out c)
     + rc_no_resume_token_full_attach (record_resume_outcome out c)
   = rc_resumed_from_buffer c + rc_gap_exceeded_fallback c + rc_no_resume_token_full_attach c + 1"
  by (cases out) simp_all

lemma attach_inv:
  fixes tok :: "'v \<Rightarrow> bytes \<Rightarrow> term_event list \<times> 'v" and adv :: "'p vte" and d :: "('v, 'p) daemon"
  assumes t: "tokenizers_ok cw tok adv" and "daemon_inv pw d" and "rpc_attach first dv d = Some (x, d')"
  shows "daemon_inv pw d'"
  using assms(3)
proof (cases rule: attach_cases)
  case 1
  then show ?thesis using assms(2) by simp
next
  case (2 p r pr st resume)
  have "stream_step cw tok adv (dm_output d r) st \<or> st = dm_output d r" using attach_prime_cases [OF 2(2)] by (auto intro: look)
  then have "outputs_ok d'" using assms(2) stream_step_inv [OF t] unfolding outputs_ok_def daemon_inv_def 2(4) by fastforce
  moreover have "accounted d'" using assms(2) by (intro accounted_quiet [of d "{}" d']) (auto simp: daemon_inv_def 2(4) quiet_client)
  moreover have "counted d'" using assms(2) counters_sum by (simp add: daemon_inv_def counted_def 2(4) new_stream_def)
  moreover have "reachable engine_init (engine_step pw) (dm_engine d')" using assms(2) 2(4) engine_moves engine_step.client by (simp add: daemon_inv_def) blast
  ultimately show ?thesis by (simp add: daemon_inv_def)
qed

lemma recompute_same:
  "recompute_window_geometry env wid g = Some (res, g') \<Longrightarrow> eg_viewports g' = eg_viewports g \<and> eg_window_session g' = eg_window_session g"
proof -
  have f: "eg_window_session (fold (resize_leaf env) rects h) = eg_window_session h" for rects h
  proof (induction rects arbitrary: h)
    case (Cons x rects)
    have "eg_window_session (resize_leaf env x h) = eg_window_session h" by (cases x) (auto simp: resize_leaf_def split: option.splits pane_entry.splits)
    then show ?case using Cons.IH [of "resize_leaf env x h"] by simp
  qed simp
  have v: "eg_viewports (fold (resize_leaf env) rects h) = eg_viewports h" for rects h
  proof (induction rects arbitrary: h)
    case (Cons x rects)
    have "eg_viewports (resize_leaf env x h) = eg_viewports h" by (cases x) (auto simp: resize_leaf_def split: option.splits pane_entry.splits)
    then show ?case using Cons.IH [of "resize_leaf env x h"] by simp
  qed simp
  show "recompute_window_geometry env wid g = Some (res, g') \<Longrightarrow> ?thesis"
    by (auto simp: recompute_window_geometry_def Let_def case_prod_beta put_session_def bind_Some_conv f v split: option.splits)
qed

lemma assoc_put_cases: "(c, x) \<in> set (assoc_put k v xs) \<Longrightarrow> c = k \<or> (c, x) \<in> set xs"
  by (induction k v xs rule: assoc_put.induct) (auto split: if_splits)

lemma report_inv:
  assumes "daemon_inv pw d" and "a \<in> set (dm_streams d)" and "ak_reading a" and "ak_window a = Some w"
    and r: "report_viewport_and_recompute env w (ak_client a) rows cols (dm_engine d) = Some (size', g)"
  shows "daemon_inv pw (d\<lparr>dm_engine := g\<rparr>)"
proof -
  have step: "engine_step pw (dm_engine d) g" using r by (rule engine_step.viewport)
  have g: "eg_viewports g = eg_viewports (report_viewport w (ak_client a) rows cols (dm_engine d))"
      "eg_window_session g = eg_window_session (dm_engine d)"
    using recompute_same [OF r [unfolded report_viewport_and_recompute_def]] by (simp_all add: report_viewport_def)
  have "accounted (d\<lparr>dm_engine := g\<rparr>)"
  proof (rule accountedI)
    fix w' cs c x
    assume "eg_viewports (dm_engine (d\<lparr>dm_engine := g\<rparr>)) w' = Some cs" "(c, x) \<in> set cs" "eg_window_session (dm_engine (d\<lparr>dm_engine := g\<rparr>)) w' \<noteq> None"
    then have h: "eg_viewports g w' = Some cs" "(c, x) \<in> set cs" "eg_window_session g w' \<noteq> None" by simp_all
    have "w' = w \<and> c = ak_client a \<or> (\<exists>cs'. eg_viewports (dm_engine d) w' = Some cs' \<and> (c, x) \<in> set cs')"
      using h(1,2) by (auto simp: g report_viewport_def dest!: assoc_put_cases split: if_splits option.splits)
    then show "backed (dm_streams (d\<lparr>dm_engine := g\<rparr>)) (dm_deferred (d\<lparr>dm_engine := g\<rparr>)) w' c"
      using assms(1-4) accountedD [of d w' _ c x] h(3) by (auto simp: g daemon_inv_def backed_def)
  qed
  then show ?thesis using assms(1) step engine_moves by (simp add: daemon_inv_def counted_def outputs_ok_def) blast
qed

lemma input_inv:
  assumes "daemon_inv pw d" and "i < length (dm_streams d)" and "ak_reading (dm_streams d ! i)"
    and "attach_input dv (dm_streams d ! i) msg d = Some d'"
  shows "daemon_inv pw d'"
proof (cases msg)
  case (ResizeMsg rows cols)
  show ?thesis
  proof (cases "ak_window (dm_streams d ! i)")
    case (Some w)
    then obtain size' g where r: "report_viewport_and_recompute (dv_op dv) w (ak_client (dm_streams d ! i)) (saturate16 rows) (saturate16 cols) (dm_engine d) = Some (size', g)"
        "d' = d\<lparr>dm_engine := g\<rparr>"
      using assms(4) ResizeMsg by (auto simp: bind_Some_conv)
    show ?thesis unfolding r(2) by (rule report_inv [OF assms(1) nth_mem [OF assms(2)] assms(3) Some r(1)])
  qed (use assms ResizeMsg in simp)
qed (use assms in \<open>auto simp: daemon_inv_def counted_def outputs_ok_def elim!: accounted_same [rotated 2] split: if_splits\<close>)

lemma filter_update:
  "i < length xs \<Longrightarrow> int (length (filter P (xs[i := y]))) = int (length (filter P xs)) - (if P (xs ! i) then 1 else 0) + (if P y then 1 else 0)"
proof (induction xs arbitrary: i)
  case (Cons x xs)
  show ?case
  proof (cases i)
    case (Suc j)
    then show ?thesis using Cons.IH [of j] Cons.prems by (simp split: if_splits)
  qed simp
qed simp

lemma input_ended_inv:
  assumes "daemon_inv pw d" and i: "i < length (dm_streams d)"
  shows "daemon_inv pw (input_ended dv i (dm_streams d ! i) d)"
proof -
  let ?a = "dm_streams d ! i" and ?d = "input_ended dv i (dm_streams d ! i) d"
  have b: "backed (dm_streams ?d) (dm_deferred ?d) w c" if "backed (dm_streams d) (dm_deferred d) w c" for w c
    using that unfolding backed_def
  proof
    assume "\<exists>a\<in>set (dm_streams d). ak_reading a \<and> ak_window a = Some w \<and> ak_client a = c"
    then obtain j where j: "j < length (dm_streams d)" "ak_reading (dm_streams d ! j)" "ak_window (dm_streams d ! j) = Some w" "ak_client (dm_streams d ! j) = c"
      by (auto simp: in_set_conv_nth)
    show "(\<exists>a\<in>set (dm_streams ?d). ak_reading a \<and> ak_window a = Some w \<and> ak_client a = c) \<or> (\<exists>f\<in>set (dm_deferred ?d). df_window f = w \<and> df_client f = c)"
    proof (cases "j = i")
      case True
      then show ?thesis using j by (auto simp: input_ended_def Let_def)
    next
      case False
      then have "dm_streams d ! j \<in> set (dm_streams ?d)" using j(1) by (auto simp: input_ended_def Let_def in_set_conv_nth intro!: exI [of _ j])
      then show ?thesis using j by blast
    qed
  next
    assume "\<exists>f\<in>set (dm_deferred d). df_window f = w \<and> df_client f = c"
    then show "(\<exists>a\<in>set (dm_streams ?d). ak_reading a \<and> ak_window a = Some w \<and> ak_client a = c) \<or> (\<exists>f\<in>set (dm_deferred ?d). df_window f = w \<and> df_client f = c)"
      by (auto simp: input_ended_def Let_def split: option.split)
  qed
  have "accounted ?d" by (rule accounted_same [OF _ b]) (use assms(1) in \<open>auto simp: daemon_inv_def input_ended_def Let_def\<close>)
  moreover have "counted ?d" using assms(1) filter_update [OF i, of ak_forwarding "?a\<lparr>ak_reading := False\<rparr>"]
    by (simp add: daemon_inv_def counted_def input_ended_def Let_def)
  ultimately show ?thesis using assms(1) by (simp add: daemon_inv_def input_ended_def Let_def outputs_ok_def)
qed

lemma forward_ended_inv:
  assumes "daemon_inv pw d" and i: "i < length (dm_streams d)" and f: "ak_forwarding (dm_streams d ! i)"
  shows "daemon_inv pw (forward_ended dv exited i (dm_streams d ! i) d)"
proof -
  let ?a = "dm_streams d ! i" and ?d = "forward_ended dv exited i (dm_streams d ! i) d"
  have same: "dm_engine ?d = dm_engine d" "dm_output ?d = dm_output d" "dm_deferred ?d = dm_deferred d" "dm_counters ?d = dm_counters d"
      "dm_streams ?d = (dm_streams d)[i := ?a\<lparr>ak_forwarding := False\<rparr>]" "dm_gauge ?d = dm_gauge d - 1"
    by (auto simp: forward_ended_def warn_if_exit_follows_disconnect_def Let_def split: option.splits)
  have "\<exists>b\<in>set (dm_streams ?d). ak_reading b = ak_reading a \<and> ak_window b = ak_window a \<and> ak_client b = ak_client a" if a: "a \<in> set (dm_streams d)" for a
  proof -
    obtain j where j: "j < length (dm_streams d)" "dm_streams d ! j = a" using a by (auto simp: in_set_conv_nth)
    have "dm_streams ?d ! j \<in> set (dm_streams ?d)" using j(1) same(5) by simp
    moreover have "dm_streams ?d ! j = (if j = i then a\<lparr>ak_forwarding := False\<rparr> else a)" using j i same(5) by auto
    ultimately show ?thesis by (intro bexI [of _ "dm_streams ?d ! j"]) auto
  qed
  then have b: "backed (dm_streams ?d) (dm_deferred ?d) w c" if "backed (dm_streams d) (dm_deferred d) w c" for w c
    using that unfolding backed_def same(3) by (metis (no_types, lifting))
  have "accounted ?d" by (rule accounted_same [OF same(1) b]) (use assms(1) in \<open>auto simp: daemon_inv_def\<close>)
  moreover have "counted ?d" using assms(1) f filter_update [OF i, of ak_forwarding "?a\<lparr>ak_forwarding := False\<rparr>"]
    by (simp add: daemon_inv_def counted_def same)
  ultimately show ?thesis using assms(1) by (simp add: daemon_inv_def same outputs_ok_def)
qed

text \<open>A window the engine knows is found among the sessions, and the other way round.\<close>

lemma window_snapshot_iff:
  assumes "engine_ok g" and "set order = dom (eg_sessions g)"
  shows "window_snapshot_of g order w = None \<longleftrightarrow> eg_window_session g w = None"
proof -
  have i: "index_ok (eg_sessions g) (eg_pane_window g) (eg_window_session g)" using assms(1) by (simp add: engine_ok_def core_ok_def)
  let ?ws = "concat (map ss_windows (List.map_filter (eg_sessions g) order))"
  have "x \<in> set ?ws \<longleftrightarrow> (\<exists>sid s. eg_sessions g sid = Some s \<and> x \<in> set (ss_windows s))" for x
    using assms(2) by (auto simp: map_filter_def dom_def) blast
  then have "window_snapshot_of g order w = None \<longleftrightarrow> (\<forall>sid s. eg_sessions g sid = Some s \<longrightarrow> w \<notin> win_ids s)"
    unfolding window_snapshot_of_def win_ids_def by (auto simp: find_None_iff)
  also have "\<dots> \<longleftrightarrow> eg_window_session g w = None" using i unfolding index_ok_def by (metis option.distinct(1) not_Some_eq)
  finally show ?thesis .
qed

lemma run_deferred_inv:
  assumes "daemon_inv pw d" and i: "i < length (dm_deferred d)" and ok: "env_ok dv (dm_engine d)"
    and r: "run_deferred dv (dm_deferred d ! i) d = Some d1"
  shows "daemon_inv pw (d1\<lparr>dm_deferred := take i (dm_deferred d1) @ drop (Suc i) (dm_deferred d1)\<rparr>)"
proof -
  let ?c = "dm_deferred d ! i"
  let ?d = "d1\<lparr>dm_deferred := take i (dm_deferred d1) @ drop (Suc i) (dm_deferred d1)\<rparr>"
  have reach: "reachable engine_init (engine_step pw) (dm_engine d)" using assms(1) by (simp add: daemon_inv_def)
  have snap: "window_snapshot_of (dm_engine d) (dv_order dv) (df_window ?c) = None \<longleftrightarrow> eg_window_session (dm_engine d) (df_window ?c) = None"
    using window_snapshot_iff [OF reachable_ok [OF reach]] ok by (simp add: env_ok_def)
  have rest: "df_window f = df_window ?c \<and> df_client f = df_client ?c \<or> f \<in> set (take i (dm_deferred d) @ drop (Suc i) (dm_deferred d))"
    if "f \<in> set (dm_deferred d)" for f
    using that id_take_nth_drop [OF i] by (metis Un_iff set_append set_ConsD)
  have e: "dm_streams d1 = dm_streams d" "dm_deferred d1 = dm_deferred d" "dm_output d1 = dm_output d" "counted d1 = counted d"
      "reachable engine_init (engine_step pw) (dm_engine d1)" "eg_window_session (dm_engine d1) = eg_window_session (dm_engine d)"
      "eg_window_session (dm_engine d) (df_window ?c) = None \<and> dm_engine d1 = dm_engine d
       \<or> eg_viewports (dm_engine d1) = eg_viewports (unregister_viewport (df_window ?c) (df_client ?c) (dm_engine d))"
    if "dm_engine d1 = g \<and> d1 = d\<lparr>dm_engine := g\<rparr>" and "(eg_window_session (dm_engine d) (df_window ?c) = None \<and> g = dm_engine d)
       \<or> recompute_window_geometry (dv_op dv) (df_window ?c) (unregister_viewport (df_window ?c) (df_client ?c) (dm_engine d)) = Some (x, g)" for g x
  proof -
    show "dm_streams d1 = dm_streams d" "dm_deferred d1 = dm_deferred d" "dm_output d1 = dm_output d" "counted d1 = counted d"
      using that(1) by (auto simp: counted_def)
    have u: "eg_window_session (unregister_viewport (df_window ?c) (df_client ?c) (dm_engine d)) = eg_window_session (dm_engine d)"
      by (simp add: unregister_viewport_def split: option.split)
    show "reachable engine_init (engine_step pw) (dm_engine d1)"
      using that reach reachable.reach_step [OF reach engine_step.detach [of pw "dm_engine d" "df_window ?c" "df_client ?c"]]
      by (auto intro: reachable.reach_step engine_step.recompute)
    show "eg_window_session (dm_engine d1) = eg_window_session (dm_engine d)" using that u recompute_same by auto
    show "eg_window_session (dm_engine d) (df_window ?c) = None \<and> dm_engine d1 = dm_engine d
       \<or> eg_viewports (dm_engine d1) = eg_viewports (unregister_viewport (df_window ?c) (df_client ?c) (dm_engine d))"
      using that recompute_same by auto
  qed
  have "\<exists>g x. (dm_engine d1 = g \<and> d1 = d\<lparr>dm_engine := g\<rparr>) \<and> ((eg_window_session (dm_engine d) (df_window ?c) = None \<and> g = dm_engine d)
       \<or> recompute_window_geometry (dv_op dv) (df_window ?c) (unregister_viewport (df_window ?c) (df_client ?c) (dm_engine d)) = Some (x, g))"
    using r snap by (auto simp: run_deferred_def bind_Some_conv split: if_splits)
  then obtain g x where g: "dm_engine d1 = g \<and> d1 = d\<lparr>dm_engine := g\<rparr>" "(eg_window_session (dm_engine d) (df_window ?c) = None \<and> g = dm_engine d)
       \<or> recompute_window_geometry (dv_op dv) (df_window ?c) (unregister_viewport (df_window ?c) (df_client ?c) (dm_engine d)) = Some (x, g)" by blast
  note e = e [OF g]
  have "accounted ?d"
  proof (rule accountedI)
    fix w cs c y
    assume h: "eg_viewports (dm_engine ?d) w = Some cs" "(c, y) \<in> set cs" "eg_window_session (dm_engine ?d) w \<noteq> None"
    have w: "eg_window_session (dm_engine d) w \<noteq> None" using h(3) e(6) by simp
    have old: "\<exists>cs'. eg_viewports (dm_engine d) w = Some cs' \<and> (c, y) \<in> set cs'" and new: "\<not> (w = df_window ?c \<and> c = df_client ?c)"
      using e(7) h(1,2) w by (auto simp: unregister_viewport_def split: option.splits if_splits)
    then obtain cs' where "eg_viewports (dm_engine d) w = Some cs'" "(c, y) \<in> set cs'" by blast
    then have "backed (dm_streams d) (dm_deferred d) w c" using assms(1) accountedD [OF _ _ _ w] by (simp only: daemon_inv_def)
    then show "backed (dm_streams ?d) (dm_deferred ?d) w c" using rest new e(1,2) unfolding backed_def by auto
  qed
  then show ?thesis using assms(1) e by (simp add: daemon_inv_def counted_def outputs_ok_def)
qed

lemma daemon_step_inv:
  assumes t: "tokenizers_ok cw tok adv" and "daemon_step pw cw tok adv d d'" and i: "daemon_inv pw d"
  shows "daemon_inv pw d'"
  using assms(2)
proof cases
  case (request dv req res)
  show ?thesis
  proof (cases "\<exists>first. req = Attach first")
    case True
    then show ?thesis using request attach_inv [OF t i] by (auto simp: answer_Some)
  next
    case False
    then show ?thesis using touches_inv [OF i handle_touches [OF request(2,1)]] env_okD(5) [OF request(1)] by auto
  qed
next
  case (input_msg j dv msg)
  then show ?thesis using input_inv [OF i] by blast
next
  case (input_end j dv)
  then show ?thesis using input_ended_inv [OF i] by blast
next
  case (forward_end j exited dv)
  then show ?thesis using forward_ended_inv [OF i] by blast
next
  case (cleanup j dv d1)
  then show ?thesis using run_deferred_inv [OF i] by blast
next
  case (wait dv r k b)
  have tick: "touches pw {} d (d\<lparr>dm_engine := g\<rparr>)"
    if "supervise_tick pw (dv_op dv) (dv_entry_order dv) (dv_dirty_order dv) (dm_engine d) = Some (x, g)" for x g
    using that wait(1) by (intro touches_engine(1)) (auto simp: env_ok_def intro: engine_step.tick quiet_tick)
  have "touches pw {} d d'" using wait(2) tick by (auto simp: wait_turn_def bind_Some_conv split: if_splits)
  then show ?thesis using touches_inv [OF i] by blast
next
  case (tick dv next_due g)
  have "touches pw {} d d'" unfolding tick(1)
    using tick(2,3) by (intro touches_engine(1)) (auto simp: env_ok_def intro: engine_step.tick quiet_tick)
  then show ?thesis using touches_inv [OF i] by blast
next
  case (process g)
  have "touches pw {} d d'" unfolding process(1)
    using process(2) by (intro touches_engine(1)) (auto intro: engine_step.reader quiet_reader)
  then show ?thesis using touches_inv [OF i] by blast
next
  case (pane_output r st)
  have "outputs_ok d'" using i stream_step_inv [OF t _ pane_output(2)] unfolding outputs_ok_def daemon_inv_def pane_output(1)
    by (metis (no_types, lifting) daemon.select_convs(2) daemon.surjective daemon.update_convs(2) fun_upd_apply)
  moreover have "accounted d'" by (rule accounted_same [of d' d]) (use i in \<open>auto simp: daemon_inv_def pane_output(1)\<close>)
  ultimately show ?thesis using i by (simp add: daemon_inv_def counted_def pane_output(1))
qed

lemma daemon_init_inv: "daemon_init pw d \<Longrightarrow> daemon_inv pw d"
  by (auto simp: daemon_init_def daemon_inv_def daemon_new_def counted_def counters_new_def outputs_ok_def intro!: accountedI) 
    (metis stream_new_inv)

interpretation daemon: invariant_system "daemon_init pw" "daemon_step pw cw tok adv" "\<lambda>d. tokenizers_ok cw tok adv \<longrightarrow> daemon_inv pw d" for pw cw tok adv
  by unfold_locales (auto intro: daemon_init_inv daemon_step_inv)

lemma daemon_reachable_inv: "reachable (daemon_init pw) (daemon_step pw cw tok adv) d \<Longrightarrow> tokenizers_ok cw tok adv \<Longrightarrow> daemon_inv pw d"
  using daemon.reachable_inv by blast

section \<open>Engine runs, panics and blame\<close>

lemma one_step: "engine_step pw g g' \<Longrightarrow> (engine_step pw)\<^sup>*\<^sup>* g g'"
  by (rule r_into_rtranclp)

lemma tick_step:
  "env_ok dv g \<Longrightarrow> supervise_tick pw (dv_op dv) (dv_entry_order dv) (dv_dirty_order dv) g = Some (x, g') \<Longrightarrow> engine_step pw g g'"
  by (auto simp: env_ok_def intro: engine_step.tick)

lemmas tick_path = one_step [OF tick_step]
lemmas viewport_path = one_step [OF engine_step.viewport]

lemma run_deferred_engine:
  assumes "run_deferred dv c d = Some d'"
  shows "(engine_step pw)\<^sup>*\<^sup>* (dm_engine d) (dm_engine d')"
proof (cases "window_snapshot_of (dm_engine d) (dv_order dv) (df_window c) = None")
  case False
  then obtain x where "recompute_window_geometry (dv_op dv) (df_window c) (unregister_viewport (df_window c) (df_client c) (dm_engine d)) = Some (x, dm_engine d')"
    using assms by (auto simp: run_deferred_def bind_Some_conv)
  then have "engine_step pw (unregister_viewport (df_window c) (df_client c) (dm_engine d)) (dm_engine d')" by (rule engine_step.recompute)
  then show ?thesis using one_step converse_rtranclp_into_rtranclp [where r = "engine_step pw", OF engine_step.detach] by blast
qed (use assms in \<open>simp add: run_deferred_def\<close>)

lemma touches_path: "touches pw W d d' \<Longrightarrow> (engine_step pw)\<^sup>*\<^sup>* (dm_engine d) (dm_engine d')"
  by (auto simp: touches_def)

lemma input_engine: "attach_input dv a msg d = Some d' \<Longrightarrow> (engine_step pw)\<^sup>*\<^sup>* (dm_engine d) (dm_engine d')"
  by (cases "(dv, a, msg, d)" rule: attach_input.cases) (auto simp: bind_Some_conv dest: viewport_path split: option.splits if_splits)

lemma daemon_step_engine:
  assumes "daemon_step pw cw tok adv d d'"
  shows "(engine_step pw)\<^sup>*\<^sup>* (dm_engine d) (dm_engine d')"
  using assms
proof cases
  case (request dv req res)
  show ?thesis
  proof (cases "\<exists>first. req = Attach first")
    case True
    then obtain first x where "rpc_attach first dv d = Some (x, d')" using request(2) by (auto simp: answer_Some)
    then show ?thesis by (cases rule: attach_cases) (auto intro: one_step engine_step.client)
  next
    case False
    then show ?thesis using touches_path handle_touches [OF request(2,1)] by blast
  qed
next
  case (input_msg i dv msg)
  then show ?thesis using input_engine by blast
next
  case (cleanup i dv d1)
  then show ?thesis using run_deferred_engine by (metis daemon.select_convs(1) daemon.surjective daemon.update_convs(8))
next
  case (wait dv r k b)
  then show ?thesis
    by (auto simp: wait_turn_def bind_Some_conv split: if_splits dest: tick_path)
next
  case (tick dv next_due g)
  then show ?thesis by (auto dest: tick_path)
qed (auto simp: input_ended_def forward_ended_def warn_if_exit_follows_disconnect_def Let_def intro: one_step engine_step.reader split: option.splits)

text \<open>An engine error that blames the request is about the restart policy.\<close>

lemma blame_code: "gs_code (engine_error_to_status e) = InvalidArgument \<longleftrightarrow> (\<exists>why. e = InvalidRestartPolicy why)"
  by (cases e rule: engine_error_to_status.cases) (auto simp: plain_def)

lemma respawn_blameless: "do_respawn pw env w i e b = (Inl er, w') \<Longrightarrow> er \<noteq> InvalidRestartPolicy why"
  by (auto simp: do_respawn_def Let_def split: option.splits sum.splits prod.splits if_splits)

lemma start_blameless: "start_pane_inner pw env p fb spawn g = (Inl er, g') \<Longrightarrow> er \<noteq> InvalidRestartPolicy why"
  by (auto simp: start_pane_inner_def start_def Let_def dest: respawn_blameless split: option.splits sum.splits prod.splits if_splits pane_entry.splits)

lemma window_lookup_blameless: "window_and_session_for_pane g p = Inl er \<Longrightarrow> er \<noteq> InvalidRestartPolicy why"
  by (auto simp: window_and_session_for_pane_def split: option.splits)

lemma session_of_blameless: "session_of_pane g p = Inl er \<Longrightarrow> er \<noteq> InvalidRestartPolicy why"
  by (auto simp: session_of_pane_def dest: window_lookup_blameless split: sum.splits)

lemma supervised_blameless:
  "supervised_op env p f g = (Inl er, g') \<Longrightarrow> (\<And>w'. f (eg_sup g) \<noteq> (Inl (InvalidRestartPolicy why), w')) \<Longrightarrow> er \<noteq> InvalidRestartPolicy why"
  by (auto simp: supervised_op_def Let_def dest: session_of_blameless split: sum.splits prod.splits)

lemma stop_blameless: "stop_pane env p g = (Inl er, g') \<Longrightarrow> er \<noteq> InvalidRestartPolicy why"
  unfolding stop_pane_def by (erule supervised_blameless) (auto simp: stop_def Let_def split: option.splits sum.splits prod.splits if_splits)

lemma reset_blameless: "reset_restart_budget env p g = (Inl er, g') \<Longrightarrow> er \<noteq> InvalidRestartPolicy why"
  unfolding reset_restart_budget_def by (erule supervised_blameless) (auto simp: sn_reset_budget_def split: option.splits)

lemma set_policy_blameless:
  "policy_validate policy = Inr () \<Longrightarrow> set_restart_policy env p policy g = (Inl er, g') \<Longrightarrow> er \<noteq> InvalidRestartPolicy why"
  by (auto simp: set_restart_policy_def sn_set_policy_def Let_def dest!: supervised_blameless split: sum.splits prod.splits option.splits)

lemma set_policies_blameless:
  "policy_validate policy = Inr () \<Longrightarrow> set_policies now policy ps sn = (Inl er, sn') \<Longrightarrow> er \<noteq> InvalidRestartPolicy why"
  by (induction ps arbitrary: sn) (auto simp: sn_set_policy_def Let_def split: option.splits prod.splits sum.splits)

lemma set_session_policy_blameless:
  "policy_validate policy = Inr () \<Longrightarrow> set_session_restart_policy env sid policy b g = (Inl er, g') \<Longrightarrow> er \<noteq> InvalidRestartPolicy why"
  by (auto simp: set_session_restart_policy_def Let_def dest: set_policies_blameless split: option.splits prod.splits sum.splits if_splits)

lemma start_pane_blameless: "start_pane pw env p spawn g = (Inl er, g') \<Longrightarrow> er \<noteq> InvalidRestartPolicy why"
  by (auto simp: start_pane_def dest: session_of_blameless start_blameless split: sum.splits prod.splits)

lemma restart_blameless: "restart_pane pw env p reset spawn g = (Inl er, g') \<Longrightarrow> er \<noteq> InvalidRestartPolicy why"
  by (auto simp: restart_pane_def sn_restart_def Let_def dest: session_of_blameless start_blameless respawn_blameless
    split: sum.splits prod.splits option.splits if_splits pane_entry.splits)

lemma revive_blameless: "revive_session pw env prepare spawn sid g = (Inl er, g') \<Longrightarrow> er \<noteq> InvalidRestartPolicy why"
  by (auto simp: revive_session_def Let_def split: option.splits prod.splits if_splits)

lemma create_window_blameless: "create_window pw env sid wid m spawn g = (Inl er, g') \<Longrightarrow> er \<noteq> InvalidRestartPolicy why"
  by (auto simp: create_window_def Let_def split: option.splits sum.splits)

lemma split_blameless: "split_pane pw env p o' m spawn g = Some (Inl er, g') \<Longrightarrow> er \<noteq> InvalidRestartPolicy why"
  by (auto simp: split_pane_def split_layout_def Let_def dest: window_lookup_blameless
    split: option.splits sum.splits prod.splits elim: engine_of_layout_error.elims)

lemma close_blameless: "close_pane env p g = Some (Inl er, g') \<Longrightarrow> er \<noteq> InvalidRestartPolicy why"
  by (auto simp: close_pane_def close_layout_def Let_def dest: window_lookup_blameless
    split: option.splits sum.splits prod.splits)

text \<open>Handlers return.\<close>

lemma with_uuid_returns: "(\<And>i. f i \<noteq> None) \<Longrightarrow> with_uuid dv s f d \<noteq> None"
  by (simp add: with_uuid_def split: sum.split)

lemma answer_None [simp]: "answer f r = None \<longleftrightarrow> r = None"
  by (simp add: answer_def)

lemma bind_returns:
  "m \<noteq> None \<Longrightarrow> (\<And>x. f x \<noteq> None) \<Longrightarrow> Option.bind m f \<noteq> None"
  "m \<noteq> None \<Longrightarrow> (\<And>x. \<exists>a b. f x = Some (a, b)) \<Longrightarrow> \<exists>a b. Option.bind m f = Some (a, b)"
  by (cases m; auto)+

lemma pane_screen_ok: "daemon_inv pw d \<Longrightarrow> \<exists>sz n. screen_ok sz n (pa_screen (st_parser (dm_output d r)))"
  unfolding daemon_inv_def outputs_ok_def stream_inv_def by blast

lemma rpc_capture_returns:
  assumes "daemon_inv pw d"
  shows "rpc_capture_pane p k dv d \<noteq> None"
proof -
  have "snapshot_at_offset k (pa_screen (st_parser (dm_output d r))) \<noteq> None" for r
    using pane_screen_ok [OF assms, of r] capture_returns by blast
  then show ?thesis unfolding rpc_capture_pane_def
    by (intro with_uuid_returns) (auto simp: Let_def case_prod_beta intro!: bind_returns split: sum.split)
qed

lemma rpc_search_returns:
  assumes "daemon_inv pw d"
  shows "rpc_search_scrollback p pat k dv d \<noteq> None"
proof -
  have "search_scrollback pat k (pa_screen (st_parser (dm_output d r))) \<noteq> None" for r
    using pane_screen_ok [OF assms, of r] search_returns by blast
  then show ?thesis unfolding rpc_search_scrollback_def
    by (intro with_uuid_returns) (auto simp: case_prod_beta intro!: bind_returns split: sum.split)
qed

lemma rpc_split_returns:
  assumes "daemon_inv pw d" and "env_ok dv (dm_engine d)"
  shows "rpc_split_pane pw p o' c dv d \<noteq> None"
proof -
  obtain m spawn where sp: "dv_spawn dv (non_empty c) default_launch None = (m, spawn)" by fastforce
  have e: "engine_ok (dm_engine d)" using assms(1) reachable_ok by (auto simp: daemon_inv_def)
  have "split_pane pw (dv_op dv) i o' m spawn (dm_engine d) \<noteq> None" for i o'
    by (rule split_pane_keeps [OF e, of spawn pw "dv_op dv" i o' m]) (use env_okD(1) [OF assms(2)] sp in auto)
  then show ?thesis unfolding rpc_split_pane_def
    by (intro with_uuid_returns) (auto simp: sp intro!: bind_returns split: sum.split)
qed

lemma rpc_close_returns:
  assumes "daemon_inv pw d"
  shows "rpc_close_pane p dv d \<noteq> None"
proof -
  have "close_pane (dv_op dv) i (dm_engine d) \<noteq> None" for i
    by (rule close_pane_keeps [OF reachable_ok, of pw "dm_engine d" "dv_op dv" i pw]) (use assms in \<open>auto simp: daemon_inv_def\<close>)
  then show ?thesis unfolding rpc_close_pane_def
    by (intro with_uuid_returns bind_returns(1)) (auto split: sum.split)
qed

lemma rpc_attach_returns:
  assumes "daemon_inv pw d"
  shows "rpc_attach first dv d \<noteq> None"
proof -
  have "attach_prime resume (dm_output d r) \<noteq> None" for resume r
    using assms attach_prime_returns unfolding daemon_inv_def outputs_ok_def by blast
  then show ?thesis unfolding rpc_attach_def with_uuid_def
    by (auto intro!: bind_returns simp: case_prod_beta Let_def split: option.split attach_payload.split sum.split)
qed

lemma handle_returns:
  assumes "daemon_inv pw d" and "env_ok dv (dm_engine d)"
  shows "handle pw req dv d \<noteq> None"
  by (cases req) (use rpc_capture_returns [OF assms(1)] rpc_search_returns [OF assms(1)] rpc_split_returns [OF assms] rpc_close_returns [OF assms(1)]
      rpc_attach_returns [OF assms(1)] in
    \<open>auto simp: rpc_create_session_def rpc_list_sessions_def rpc_kill_session_def rpc_revive_session_def rpc_create_window_def rpc_set_restart_policy_def
      rpc_get_pane_status_def rpc_restart_pane_def rpc_stop_pane_def rpc_start_pane_def rpc_reset_restart_budget_def with_uuid_def Let_def case_prod_beta
      split: sum.splits option.splits policy_target.splits\<close>)

text \<open>What a request may be blamed for.\<close>

lemma with_engine_blame:
  assumes "with_engine d res k = (Inl st, d')" and "gs_code st = InvalidArgument"
    and "\<And>e g why. res = (Inl e, g) \<Longrightarrow> e \<noteq> InvalidRestartPolicy why" and "\<And>x g e. k x g = Inl e \<Longrightarrow> gs_code e \<noteq> InvalidArgument"
  shows False
  using assms blame_code by (cases res) (auto simp: with_engine_def split: sum.splits)

lemma uuid_blame:
  assumes "with_uuid dv s f d = Some (Inl st, d')" and "\<And>i. f i = Some (Inl st, d') \<Longrightarrow> d' = d"
  shows "d' = d"
  using assms(1) by (cases rule: with_uuid_cases) (use assms(2) in auto)

lemma call_blame:
  assumes "with_uuid dv s (\<lambda>i. Some (with_engine d (call i) (k i))) d = Some (Inl st, d')" and "gs_code st = InvalidArgument"
    and "\<And>i e g why. call i = (Inl e, g) \<Longrightarrow> e \<noteq> InvalidRestartPolicy why" and "\<And>i x g e. k i x g = Inl e \<Longrightarrow> gs_code e \<noteq> InvalidArgument"
  shows "d' = d"
  using assms(1) by (rule uuid_blame) (use with_engine_blame assms(2-4) in blast)

lemma pane_status_blame: "pane_status_of dv p g = Inl e \<Longrightarrow> gs_code e \<noteq> InvalidArgument"
  by (auto simp: pane_status_of_def plain_def split: option.splits)

lemma resolve_blame:
  "resolve_readable_pane g p = Inl e \<Longrightarrow> gs_code e \<noteq> InvalidArgument" "resolve_attachable_pane g p = Inl e \<Longrightarrow> gs_code e \<noteq> InvalidArgument"
  by (auto simp: resolve_readable_pane_def resolve_attachable_pane_def resolve_live_pane_def dead_pane_status_def plain_def
    split: option.splits pane_lookup.splits sum.splits if_splits)

lemma create_blame:
  assumes "rpc_create_session pw req dv d = Some (Inl st, d')"
  shows "d' = d \<or> gs_code st = Internal"
proof -
  have g: "g' = g"
    if "create_session_supervised pw env sid wid name policy m spawn g = (Inl e, g')" for env sid wid name policy m spawn g e g'
    using that by (auto simp: create_session_supervised_def Let_def split: sum.splits)
  show ?thesis using assms
    by (auto simp: rpc_create_session_def plain_def Let_def dest: g split: sum.splits prod.splits option.splits)
qed

lemma split_blame:
  assumes "rpc_split_pane pw s o' c dv d = Some (Inl st, d')" and "gs_code st = InvalidArgument"
  shows "d' = d"
  using assms(1) unfolding rpc_split_pane_def
proof (rule uuid_blame)
  fix p
  obtain m spawn where sp: "dv_spawn dv (non_empty c) default_launch None = (m, spawn)" by fastforce
  assume r: "(case orientation_from_proto o' of Inl e \<Rightarrow> Some (Inl e, d) | Inr orient \<Rightarrow>
       let (m, spawn) = dv_spawn dv (non_empty c) default_launch None
       in do { res \<leftarrow> split_pane pw (dv_op dv) p orient m spawn (dm_engine d);
               Some (with_engine d res (\<lambda>s g. Inr (session_to_proto (dv_show dv) s))) }) = Some (Inl st, d')"
  show "d' = d"
  proof (cases "orientation_from_proto o'")
    case (Inr orient)
    with r sp obtain res where "split_pane pw (dv_op dv) p orient m spawn (dm_engine d) = Some res"
        "with_engine d res (\<lambda>s g. Inr (session_to_proto (dv_show dv) s)) = (Inl st, d')" by (auto simp: bind_Some_conv)
    then show ?thesis using with_engine_blame [OF _ assms(2)] split_blameless by blast
  qed (use r in simp)
qed

lemma close_blame:
  assumes "rpc_close_pane s dv d = Some (Inl st, d')" and "gs_code st = InvalidArgument"
  shows "d' = d"
  using assms(1) unfolding rpc_close_pane_def
proof (rule uuid_blame)
  fix p
  assume r: "do { res \<leftarrow> close_pane (dv_op dv) p (dm_engine d);
          (case res of
             (Inl e, g) \<Rightarrow> Some (Inl (engine_error_to_status e), d\<lparr>dm_engine := g\<rparr>)
           | (Inr out, g) \<Rightarrow> Some (Inr (close_response (dv_show dv) out),
                d\<lparr>dm_engine := g, dm_tracker := purge_disconnect_tracker p (dm_tracker d)\<rparr>)) } = Some (Inl st, d')"
  obtain res g where c: "close_pane (dv_op dv) p (dm_engine d) = Some (res, g)" using r by (auto simp: bind_Some_conv)
  show "d' = d"
  proof (cases res)
    case (Inl e)
    then show ?thesis using r c assms(2) blame_code [of e] close_blameless by auto
  qed (use r c in simp)
qed

lemma policy_blame:
  assumes "rpc_set_restart_policy tgt q b dv d = Some (Inl st, d')" and "gs_code st = InvalidArgument"
  shows "d' = d"
proof (cases "case q of None \<Rightarrow> Inl (plain InvalidArgument) | Some q \<Rightarrow> policy_from_proto q")
  case (Inr pol)
  have v: "policy_validate pol = Inr ()" using Inr policy_from_valid by (auto split: option.splits)
  show ?thesis
  proof (cases tgt)
    case (Some t)
    show ?thesis
      by (cases t) (use assms Inr Some in
        \<open>auto simp: rpc_set_restart_policy_def elim!: call_blame dest: set_policy_blameless [OF v] set_session_policy_blameless [OF v]\<close>)
  qed (use assms Inr in \<open>simp add: rpc_set_restart_policy_def\<close>)
qed (use assms in \<open>simp add: rpc_set_restart_policy_def\<close>)

lemma attach_blame: "rpc_attach first dv d = Some (Inl st, d') \<Longrightarrow> d' = d"
  by (cases rule: attach_cases) auto

lemma read_blame:
  "rpc_capture_pane p k dv d = Some (Inl st, d') \<Longrightarrow> d' = d" "rpc_search_scrollback p pat k dv d = Some (Inl st, d') \<Longrightarrow> d' = d"
  unfolding rpc_capture_pane_def rpc_search_scrollback_def
  by (erule uuid_blame; auto simp: Let_def bind_Some_conv split: sum.splits)+

lemma kill_blame: "rpc_kill_session s dv d = Some (Inl st, d') \<Longrightarrow> gs_code st = InvalidArgument \<Longrightarrow> d' = d"
  unfolding rpc_kill_session_def
  by (erule uuid_blame) (auto simp: Let_def plain_def split: sum.splits prod.splits)

lemma handle_blame:
  assumes "handle pw req dv d = Some (Inl st, d')" and c: "gs_code st = InvalidArgument"
  shows "d' = d"
proof -
  have inl: "r = Inl e" if "Inl e = map_sum id f r" for r :: "status + 'z" and f :: "'z \<Rightarrow> response" and e using that by (cases r) auto
  show ?thesis
  proof (cases req)
    case (CreateSession r)
    then show ?thesis using assms by (auto simp: answer_Some dest!: inl create_blame)
  next
    case (ReviveSession s)
    then show ?thesis using assms(1)
      by (auto simp: answer_Some rpc_revive_session_def Let_def dest!: inl elim!: call_blame [OF _ c] dest: revive_blameless)
  next
    case (CreateWindow s cmd)
    obtain m spawn where "dv_spawn dv (non_empty cmd) default_launch None = (m, spawn)" by fastforce
    then show ?thesis using assms(1) CreateWindow
      by (auto simp: answer_Some rpc_create_window_def dest!: inl elim!: call_blame [OF _ c] dest: create_window_blameless)
  next
    case (RestartPane s b)
    then show ?thesis using assms(1)
      by (auto simp: answer_Some rpc_restart_pane_def Let_def dest!: inl elim!: call_blame [OF _ c] dest: restart_blameless)
  next
    case (StopPane s)
    then show ?thesis using assms(1) by (auto simp: answer_Some rpc_stop_pane_def dest!: inl elim!: call_blame [OF _ c] dest: stop_blameless)
  next
    case (StartPane s)
    then show ?thesis using assms(1)
      by (auto simp: answer_Some rpc_start_pane_def dest!: inl elim!: call_blame [OF _ c] dest: start_pane_blameless pane_status_blame)
  next
    case (ResetRestartBudget s)
    then show ?thesis using assms(1)
      by (auto simp: answer_Some rpc_reset_restart_budget_def dest!: inl elim!: call_blame [OF _ c] dest: reset_blameless pane_status_blame)
  next
    case (GetPaneStatus s)
    then show ?thesis using assms(1) by (auto simp: answer_Some rpc_get_pane_status_def dest!: inl elim!: uuid_blame)
  qed (use assms in \<open>auto simp: answer_Some rpc_list_sessions_def dest!: inl dest: kill_blame read_blame split_blame close_blame policy_blame attach_blame\<close>)
qed

section \<open>Leaving\<close>

lemma leaf_ids: "collect_leaf_pane_ids (layout_to_snapshot g n) = leaves n"
proof (induction g n rule: layout_to_snapshot.induct)
  case (1 g i)
  then show ?case by (simp add: leaf_info_def Let_def split: option.split pane_entry.split)
next
  case (2 g o' cs)
  then show ?case by (auto simp: comp_def case_prod_beta intro!: arg_cong [of _ _ concat])
qed

lemma snapshot_leaf_ids:
  "concat (map (\<lambda>w. collect_leaf_pane_ids (ws_layout w)) (sx_windows (session_to_snapshot g s))) = session_panes s"
  by (simp add: session_to_snapshot_def Let_def session_panes_def leaf_ids comp_def)

lemma purge_all: "fold purge_disconnect_tracker ps t = (\<lambda>p. if p \<in> set ps then None else t p)"
  by (induction ps arbitrary: t) (auto simp: purge_disconnect_tracker_def fun_eq_iff)

lemma kill_windows: "eg_sessions g sid = Some s \<Longrightarrow> eg_window_session (snd (kill_session env sid g)) = (\<lambda>w. if w \<in> win_ids s then None else eg_window_session g w)"
  by (simp add: kill_session_def kill_index_def Let_def remove_panes_simps remove_windows_simps win_ids_def fun_eq_iff)

lemma kill_result: "eg_sessions g sid = Some s \<Longrightarrow> fst (kill_session env sid g) = Inr ()"
  by (simp add: kill_session_def Let_def)

lemma rpc_kill_result:
  assumes "dv_parse dv x = Some sid" and "eg_sessions (dm_engine d) sid = Some s"
  shows "rpc_kill_session x dv d = Some (Inr (), d\<lparr>dm_engine := snd (kill_session (dv_op dv) sid (dm_engine d)),
    dm_tracker := (\<lambda>p. if p \<in> set (session_panes s) then None else dm_tracker d p)\<rparr>)"
  using assms kill_result [OF assms(2), of "dv_op dv"]
  by (cases "kill_session (dv_op dv) sid (dm_engine d)")
    (simp add: rpc_kill_session_def with_uuid_def parse_uuid_def get_session_snapshot_def snapshot_leaf_ids purge_all)

text \<open>A daemon with one session and no clients, and what its surroundings answer.\<close>

definition example_surroundings :: daemon_env where
  "example_surroundings = \<lparr>dv_op = example_env, dv_instant = 0, dv_session_id = 70, dv_window_id = 80, dv_spawn = (\<lambda>_ _ _. (no_meta, Inl ''no'')),
     dv_start = (\<lambda>_. Inl ''no''), dv_prepare = (\<lambda>_. None), dv_kind = (\<lambda>_. None), dv_show = (\<lambda>i. if i = 7 then ''seven'' else ''other''),
     dv_parse = (\<lambda>s. if s = ''seven'' then Some 7 else if s = ''nine'' then Some 9 else None), dv_order = [7], dv_entry_order = [9], dv_dirty_order = [],
     dv_write_ok = True\<rparr>"

definition example_daemon :: "(unit, bytes) daemon" where
  "example_daemon = daemon_new None None example_engine (\<lambda>_. stream_new () [] \<lparr>sz_rows = 2, sz_cols = 3\<rparr> 5 10)"

abbreviation example_step :: "(unit, bytes) daemon \<Rightarrow> (unit, bytes) daemon \<Rightarrow> bool" where
  "example_step \<equiv> daemon_step example_powi (\<lambda>_. Some 1) ascii_tokenizer osc_only"

lemma example_daemon_init: "daemon_init example_powi example_daemon"
  unfolding daemon_init_def example_daemon_def
  by (intro exI [of _ None] exI [of _ example_engine] exI conjI allI)
    (auto simp: example_engine_reachable example_engine_simps size_ok_def intro!: exI [of _ "\<lparr>sz_rows = 2, sz_cols = 3\<rparr>"])

lemma example_daemon_reachable: "reachable (daemon_init example_powi) example_step example_daemon"
  using example_daemon_init by (rule reachable.reach_init)

lemma example_env_ok: "env_ok example_surroundings example_engine"
  using example_entries by (simp add: env_ok_def example_surroundings_def spawns_apart_def example_engine_simps example_env_def)

lemma example_daemon_engine: "dm_engine example_daemon = example_engine"
  by (simp add: example_daemon_def daemon_new_def)

lemma example_attachable: "resolve_attachable_pane example_engine 9 = Inr 0"
proof -
  have "\<not> live_exited example_engine 0"
    by (simp add: live_exited_def pane_at_def example_engine_def create_session_supervised_def default_policy_valid Let_def engine_parts
      engine_new_def example_spawn_def register_live_def install_hook_def set_exit_hook_def put_def pane_new_def)
  then show ?thesis by (simp add: resolve_attachable_pane_def resolve_live_pane_def lookup_pane_def example_engine_simps)
qed

text \<open>A client has attached to the pane and reported its size.\<close>

lemma example_attached:
  "\<exists>d. reachable (daemon_init example_powi) example_step d \<and> eg_viewports (dm_engine d) 8 = Some [(eg_next_client example_engine, clamp_viewport 10 20)]
    \<and> eg_window_session (dm_engine d) 8 = Some 7 \<and> (\<exists>s. eg_sessions (dm_engine d) 7 = Some s)"
proof -
  let ?req = "Some \<lparr>aq_payload = PaneIdMsg ''nine'', aq_resume_from_seq = None\<rparr>"
  have ok: "env_ok example_surroundings (dm_engine example_daemon)" using example_env_ok by (simp add: example_daemon_engine)
  have i: "daemon_inv example_powi example_daemon" by (rule daemon_reachable_inv [OF example_daemon_reachable example_tokenizers])
  obtain x d1 where a: "rpc_attach ?req example_surroundings example_daemon = Some (x, d1)" using rpc_attach_returns [OF i] by fastforce
  obtain pr st where d1: "d1 = example_daemon\<lparr>dm_engine := snd (new_client_id example_engine), dm_output := (dm_output example_daemon)(0 := st),
      dm_gauge := dm_gauge example_daemon + 1, dm_counters := record_resume_outcome (pr_outcome pr) (dm_counters example_daemon),
      dm_streams := dm_streams example_daemon @ [new_stream example_engine 9 0 pr]\<rparr>"
    using a by (auto simp: rpc_attach_def with_uuid_def parse_uuid_def example_surroundings_def example_daemon_engine example_attachable
      new_client_id_def new_stream_def bind_Some_conv)
  have "handle example_powi (Attach ?req) example_surroundings example_daemon = Some (map_sum id StreamMsg x, d1)" using a by (simp add: answer_def)
  then have r1: "reachable (daemon_init example_powi) example_step d1"
    using reachable.reach_step [OF example_daemon_reachable daemon_step.request [OF ok]] by blast
  have s1: "dm_streams d1 = [new_stream example_engine 9 0 pr]" "dm_engine d1 = snd (new_client_id example_engine)"
    by (simp_all add: d1 example_daemon_def daemon_new_def)
  have "\<exists>size' g. report_viewport_and_recompute example_env 8 (eg_next_client example_engine) 10 20 (dm_engine d1) = Some (size', g)"
    unfolding report_viewport_and_recompute_def
    using recompute_keeps [OF report_viewport_ok [OF reachable_ok [of example_powi]]] daemon_reachable_inv [OF r1 example_tokenizers]
    unfolding daemon_inv_def by metis
  then obtain size' g where g: "report_viewport_and_recompute example_env 8 (eg_next_client example_engine) 10 20 (dm_engine d1) = Some (size', g)" by blast
  have m: "attach_input example_surroundings (dm_streams d1 ! 0) (ResizeMsg 10 20) d1 = Some (d1\<lparr>dm_engine := g\<rparr>)"
    using g by (simp add: s1 new_stream_def example_engine_simps example_surroundings_def saturate16_def)
  have "example_step d1 (d1\<lparr>dm_engine := g\<rparr>)" by (rule daemon_step.input_msg [OF _ _ m]) (simp_all add: s1 new_stream_def)
  then have r2: "reachable (daemon_init example_powi) example_step (d1\<lparr>dm_engine := g\<rparr>)" using reachable.reach_step [OF r1] by blast
  have e: "eg_viewports g = [8 \<mapsto> [(eg_next_client example_engine, clamp_viewport 10 20)]]" "eg_window_session g = [8 \<mapsto> 7]"
    using recompute_same [OF g [unfolded report_viewport_and_recompute_def]] by (simp_all add: s1 report_viewport_def new_client_id_def example_engine_simps)
  have "engine_ok g" using daemon_reachable_inv [OF r2 example_tokenizers] reachable_ok by (auto simp: daemon_inv_def)
  then have "\<exists>s. eg_sessions g 7 = Some s" using e(2) unfolding engine_ok_def core_ok_def index_ok_def by (metis fun_upd_same)
  then show ?thesis using r2 e by (intro exI [of _ "d1\<lparr>dm_engine := g\<rparr>"]) simp
qed

section \<open>Properties\<close>







text \<open>
  C22. The gauge counts the open streams and the resume counters count every attach: in every state the daemon
  can reach the gauge is the number of streams whose forwarding task still runs, and the three counters add up
  to the number of attaches that succeeded.
\<close>

theorem attach_gauge_exact:
  assumes "tokenizers_ok cw tok adv" and "reachable (daemon_init pw) (daemon_step pw cw tok adv) d"
  shows "dm_gauge d = int (length (filter ak_forwarding (dm_streams d)))
    \<and> rc_resumed_from_buffer (dm_counters d) + rc_gap_exceeded_fallback (dm_counters d) + rc_no_resume_token_full_attach (dm_counters d)
      = int (length (dm_streams d))"
  using daemon_reachable_inv [OF assms(2,1)] by (simp add: daemon_inv_def counted_def)

theorem attach_gauge_exact_witness: "dm_gauge example_daemon = int (length (filter ak_forwarding (dm_streams example_daemon)))"
  using attach_gauge_exact [OF example_tokenizers example_daemon_reachable] by blast

text \<open>
  C21. No window is sized by a client that is gone: in every state the daemon can reach, each viewport of an
  existing window belongs to a client whose request stream is open, or its cleanup is scheduled.
\<close>

theorem viewports_have_clients:
  assumes "tokenizers_ok cw tok adv" and "reachable (daemon_init pw) (daemon_step pw cw tok adv) d"
    and "eg_viewports (dm_engine d) w = Some cs" and "(c, size') \<in> set cs" and "eg_window_session (dm_engine d) w \<noteq> None"
  shows "(\<exists>a\<in>set (dm_streams d). ak_reading a \<and> ak_window a = Some w \<and> ak_client a = c) \<or> (\<exists>f\<in>set (dm_deferred d). df_window f = w \<and> df_client f = c)"
  using daemon_reachable_inv [OF assms(2,1)] accountedD [OF _ assms(3-5)] by (simp add: daemon_inv_def backed_def)

theorem viewports_have_clients_witness:
  "\<exists>d. eg_viewports (dm_engine d) 8 = Some [(eg_next_client example_engine, clamp_viewport 10 20)] \<and> reachable (daemon_init example_powi) example_step d
    \<and> ((\<exists>a\<in>set (dm_streams d). ak_reading a \<and> ak_window a = Some 8 \<and> ak_client a = eg_next_client example_engine)
      \<or> (\<exists>f\<in>set (dm_deferred d). df_window f = 8 \<and> df_client f = eg_next_client example_engine))"
proof -
  obtain d where d: "reachable (daemon_init example_powi) example_step d" "eg_viewports (dm_engine d) 8 = Some [(eg_next_client example_engine, clamp_viewport 10 20)]"
      "eg_window_session (dm_engine d) 8 = Some 7" using example_attached by blast
  from viewports_have_clients [OF example_tokenizers d(1,2), of "eg_next_client example_engine" "clamp_viewport 10 20"] d show ?thesis by auto
qed

text \<open>
  What killing a session leaves behind: the disconnect tracker forgets exactly the panes of the session,
  but the viewports of its windows stay in the engine, and a cleanup that was put off for such a window does
  nothing when its time comes.
\<close>

theorem kill_keeps_viewports:
  assumes "tokenizers_ok cw tok adv" and "reachable (daemon_init pw) (daemon_step pw cw tok adv) d"
    and "dv_parse dv x = Some sid" and "eg_sessions (dm_engine d) sid = Some s"
  shows "\<exists>d'. rpc_kill_session x dv d = Some (Inr (), d')
    \<and> dm_tracker d' = (\<lambda>p. if p \<in> set (session_panes s) then None else dm_tracker d p)
    \<and> eg_viewports (dm_engine d') = eg_viewports (dm_engine d)
    \<and> (\<forall>dv' f. df_window f \<in> win_ids s \<longrightarrow> set (dv_order dv') = dom (eg_sessions (dm_engine d')) \<longrightarrow> run_deferred dv' f d' = Some d')"
proof -
  let ?g = "snd (kill_session (dv_op dv) sid (dm_engine d))"
  have r: "reachable engine_init (engine_step pw) (dm_engine d)" using daemon_reachable_inv [OF assms(2,1)] by (simp add: daemon_inv_def)
  have ok: "engine_ok ?g" by (rule reachable_ok [OF reachable.reach_step [OF r engine_step.kill]])
  have q: "eg_viewports ?g = eg_viewports (dm_engine d)" using quiet_kill by (auto simp: quiet_def)
  have "run_deferred dv' f (d\<lparr>dm_engine := ?g, dm_tracker := t\<rparr>) = Some (d\<lparr>dm_engine := ?g, dm_tracker := t\<rparr>)"
    if "df_window f \<in> win_ids s" "set (dv_order dv') = dom (eg_sessions ?g)" for dv' f t
    using window_snapshot_iff [OF ok that(2), of "df_window f"] kill_windows [OF assms(4)] that(1) by (simp add: run_deferred_def)
  then show ?thesis using rpc_kill_result [OF assms(3,4)] q by simp
qed

theorem kill_keeps_viewports_witness:
  "\<exists>d d'. rpc_kill_session ''seven'' example_surroundings d = Some (Inr (), d') \<and> reachable (daemon_init example_powi) example_step d
    \<and> eg_viewports (dm_engine d') 8 = Some [(eg_next_client example_engine, clamp_viewport 10 20)]"
proof -
  obtain d s where d: "reachable (daemon_init example_powi) example_step d" "eg_viewports (dm_engine d) 8 = Some [(eg_next_client example_engine, clamp_viewport 10 20)]"
      "eg_sessions (dm_engine d) 7 = Some s" using example_attached by blast
  have "dv_parse example_surroundings ''seven'' = Some 7" by (simp add: example_surroundings_def)
  from kill_keeps_viewports [OF example_tokenizers d(1) this d(3)] obtain d' where
    "rpc_kill_session ''seven'' example_surroundings d = Some (Inr (), d')" "eg_viewports (dm_engine d') = eg_viewports (dm_engine d)" by blast
  then show ?thesis using d(1,2) by (intro exI [of _ d] exI [of _ d']) simp
qed

end
