(* ===== verification/Listener_Health.thy ===== *)
theory Listener_Health
  imports Prelude
begin

text \<open>
  The health of the daemon's listening sockets: \<open>crates/tymuxd/src/listener_health.rs\<close> and the probe of
  \<open>crates/tymuxd/src/main.rs\<close> (\<open>tcp_health_probe\<close> and the functions it is made of).

  \<^item> An error number is its \<open>libc\<close> name; a number without a name in the sources is \<open>OtherErrno\<close>. An
    \<open>io::Error\<close> is what \<open>raw_os_error\<close> tells of it.
  \<^item> Clocks are read in milliseconds. Every reading of the accept loop is part of the event it belongs
    to: \<open>ae_log_at\<close> for the limiter, \<open>ae_now\<close> for the streak, \<open>ae_check\<close> for \<open>since.elapsed()\<close>.
  \<^item> The kernel's answer to \<open>setrlimit\<close> is an argument with a state of its own.
  \<^item> Log lines are the values that are logged; their wording is left out.
\<close>

section \<open>Limits on open files\<close>

datatype errno = EBADF | ENOTSOCK | EINVAL | EMFILE | ENFILE | ENOBUFS | ENOMEM | EADDRNOTAVAIL | ENETUNREACH
  | ENETDOWN | EHOSTUNREACH | ETIMEDOUT | EPERM | ENOENT | EEXIST | ENOTDIR | EADDRINUSE | OtherErrno i32

type_synonym io_error = "errno option"

definition MACOS_OPEN_MAX :: u64 where "MACOS_OPEN_MAX = 10240"
definition DEFAULT_NOFILE_CAP :: u64 where "DEFAULT_NOFILE_CAP = 1048576"
definition FD_PRESSURE_PERCENT :: u64 where "FD_PRESSURE_PERCENT = 80"

definition desired_soft_limit :: "u64 \<Rightarrow> u64 \<Rightarrow> u64 \<Rightarrow> u64" where
  "desired_soft_limit soft hard cap = max soft (min hard cap)"

definition nofile_cap :: "bool \<Rightarrow> u64" where
  "nofile_cap macos = (if macos then MACOS_OPEN_MAX else DEFAULT_NOFILE_CAP)"

record nofile_limits =
  soft_before :: u64
  soft_after :: u64
  hard :: u64

definition next_lower_target :: "u64 \<Rightarrow> u64 \<Rightarrow> u64 option option" where
  "next_lower_target target soft = do {
     gap \<leftarrow> checked_sub target soft;
     next \<leftarrow> checked_add u64_max soft (gap div 2);
     Some (if soft < next then Some next else None) }"

lemma next_lower_target_lower:
  "next_lower_target target soft = Some (Some t') \<Longrightarrow> soft < t' \<and> t' < target \<and> t' = soft + (target - soft) div 2"
  by (auto simp: next_lower_target_def arith_defs bind_Some_conv split: if_splits)

function raise_with :: "u64 \<Rightarrow> u64 \<Rightarrow> (u64 \<Rightarrow> 'k \<Rightarrow> (io_error + unit) \<times> 'k) \<Rightarrow> 'k \<Rightarrow> ((io_error + u64) \<times> 'k) option" where
  "raise_with soft candidate setl k =
     (case setl candidate k of
        (Inr _, k') \<Rightarrow> Some (Inr candidate, k')
      | (Inl e, k') \<Rightarrow>
          (case next_lower_target candidate soft of
             None \<Rightarrow> None
           | Some None \<Rightarrow> Some (Inl e, k')
           | Some (Some t') \<Rightarrow> raise_with soft t' setl k'))"
  by pat_completeness auto

termination raise_with
  by (relation "measure (\<lambda>(soft, candidate, setl, k). candidate - soft)") (auto dest!: next_lower_target_lower)

declare raise_with.simps [simp del]

text \<open>
  \<open>getrlimit\<close> is the argument \<open>lim\<close>: the error, or the soft and the hard limit. The value given to
  \<open>setrlimit\<close> is the new soft limit; the hard limit is passed back unchanged.
\<close>

definition raise_nofile_limit :: "bool \<Rightarrow> io_error + (u64 \<times> u64) \<Rightarrow> (u64 \<Rightarrow> u64 \<Rightarrow> 'k \<Rightarrow> (io_error + unit) \<times> 'k) \<Rightarrow> 'k
    \<Rightarrow> ((io_error + nofile_limits) \<times> 'k) option" where
  "raise_nofile_limit macos lim setrlimit k =
     (case lim of
        Inl e \<Rightarrow> Some (Inl e, k)
      | Inr (soft, h) \<Rightarrow>
          (let target = desired_soft_limit soft h (nofile_cap macos) in
           if target = soft then Some (Inr \<lparr>soft_before = soft, soft_after = soft, hard = h\<rparr>, k)
           else (case raise_with soft target (\<lambda>v. setrlimit v h) k of
                   None \<Rightarrow> None
                 | Some (Inl e, k') \<Rightarrow> Some (Inl e, k')
                 | Some (Inr after, k') \<Rightarrow> Some (Inr \<lparr>soft_before = soft, soft_after = after, hard = h\<rparr>, k'))))"

definition nofile_soft_limit :: "io_error + (u64 \<times> u64) \<Rightarrow> u64" where
  "nofile_soft_limit lim = (case lim of Inl _ \<Rightarrow> 0 | Inr (soft, _) \<Rightarrow> soft)"

definition open_fd_count :: "u64 option \<Rightarrow> u64" where
  "open_fd_count entries = (case entries of Some n \<Rightarrow> saturating_sub n 1 | None \<Rightarrow> 0)"

definition fd_pressure :: "u64 \<Rightarrow> u64 \<Rightarrow> bool option" where
  "fd_pressure open limit =
     (if limit = 0 then Some False
      else if open * 100 \<le> u64_max \<and> limit * FD_PRESSURE_PERCENT \<le> u64_max
      then Some (limit * FD_PRESSURE_PERCENT \<le> open * 100) else None)"

section \<open>Accept errors\<close>

datatype accept_error_kind = AcceptFatal | AcceptFdExhausted | AcceptTransient

definition classify_accept_error :: "io_error \<Rightarrow> accept_error_kind" where
  "classify_accept_error e =
     (case e of
        Some EBADF \<Rightarrow> AcceptFatal | Some ENOTSOCK \<Rightarrow> AcceptFatal | Some EINVAL \<Rightarrow> AcceptFatal
      | Some EMFILE \<Rightarrow> AcceptFdExhausted | Some ENFILE \<Rightarrow> AcceptFdExhausted | _ \<Rightarrow> AcceptTransient)"

definition ACCEPT_ERROR_LOG_INTERVAL :: u64 where "ACCEPT_ERROR_LOG_INTERVAL = 10000"
definition ACCEPT_BACKOFF_START :: u64 where "ACCEPT_BACKOFF_START = 10"
definition ACCEPT_BACKOFF_MAX :: u64 where "ACCEPT_BACKOFF_MAX = 1000"
definition ACCEPT_PERSISTENT_ERROR_LIMIT :: u64 where "ACCEPT_PERSISTENT_ERROR_LIMIT = 120000"

record accept_error_limiter =
  last_logged :: "u64 option"
  suppressed :: u64

definition admit :: "u64 \<Rightarrow> accept_error_limiter \<Rightarrow> (u64 option \<times> accept_error_limiter) option" where
  "admit now l =
     (if (case last_logged l of None \<Rightarrow> True | Some t \<Rightarrow> ACCEPT_ERROR_LOG_INTERVAL \<le> saturating_sub now t)
      then Some (Some (suppressed l), l\<lparr>last_logged := Some now, suppressed := 0\<rparr>)
      else (case checked_add u64_max (suppressed l) 1 of
              None \<Rightarrow> None | Some n \<Rightarrow> Some (None, l\<lparr>suppressed := n\<rparr>)))"

record accept_state =
  ac_limiter :: accept_error_limiter
  ac_backoff :: u64
  ac_failing_since :: "u64 option"
  ac_last_error :: "u64 option"

definition accept_init :: accept_state where
  "accept_init = \<lparr>ac_limiter = \<lparr>last_logged = None, suppressed = 0\<rparr>, ac_backoff = ACCEPT_BACKOFF_START,
     ac_failing_since = None, ac_last_error = None\<rparr>"

datatype 'c accept_next = Ended | Accepted 'c | AcceptFailed io_error

record 'c accept_event =
  ae_next :: "'c accept_next"
  ae_log_at :: u64
  ae_now :: u64
  ae_check :: u64

datatype 'c accept_result = StreamEnd | YieldConn 'c | YieldErr io_error | Retry u64

record 'c accept_output =
  ao_logged :: "u64 option"
  ao_dead :: bool
  ao_result :: "'c accept_result"

text \<open>One turn of the loop: what is logged, whether \<open>on_dead\<close> runs, and what the turn ends with.\<close>

definition accept_failed :: "io_error \<Rightarrow> 'c accept_event \<Rightarrow> accept_state \<Rightarrow> ('c accept_output \<times> accept_state) option" where
  "accept_failed e ev st = do {
     (logged, lim) \<leftarrow> admit (ae_log_at ev) (ac_limiter st);
     let st1 = st\<lparr>ac_limiter := lim\<rparr>;
     if classify_accept_error e = AcceptFatal
     then Some (\<lparr>ao_logged = logged, ao_dead = True, ao_result = YieldErr e\<rparr>, st1)
     else
       let now = ae_now ev;
           st2 = (case ac_last_error st1 of
                    Some t \<Rightarrow> if ACCEPT_BACKOFF_MAX * 2 < saturating_sub now t
                              then st1\<lparr>ac_failing_since := None, ac_backoff := ACCEPT_BACKOFF_START\<rparr> else st1
                  | None \<Rightarrow> st1);
           since = (case ac_failing_since st2 of Some t \<Rightarrow> t | None \<Rightarrow> now);
           st3 = st2\<lparr>ac_last_error := Some now, ac_failing_since := Some since\<rparr>
       in if ACCEPT_PERSISTENT_ERROR_LIMIT \<le> saturating_sub (ae_check ev) since
          then Some (\<lparr>ao_logged = logged, ao_dead = True, ao_result = YieldErr e\<rparr>, st3)
          else Some (\<lparr>ao_logged = logged, ao_dead = False, ao_result = Retry (ac_backoff st3)\<rparr>,
                     st3\<lparr>ac_backoff := min (ac_backoff st3 * 2) ACCEPT_BACKOFF_MAX\<rparr>) }"

definition accept_turn :: "'c accept_event \<Rightarrow> accept_state \<Rightarrow> ('c accept_output \<times> accept_state) option" where
  "accept_turn ev st =
     (case ae_next ev of
        Ended \<Rightarrow> Some (\<lparr>ao_logged = None, ao_dead = True, ao_result = StreamEnd\<rparr>, st)
      | Accepted c \<Rightarrow> Some (\<lparr>ao_logged = None, ao_dead = False, ao_result = YieldConn c\<rparr>,
                           st\<lparr>ac_backoff := ACCEPT_BACKOFF_START, ac_failing_since := None\<rparr>)
      | AcceptFailed e \<Rightarrow> accept_failed e ev st)"

text \<open>The stream, polled until it is about to end for good.\<close>

fun log_accept_errors :: "'c accept_event list \<Rightarrow> accept_state \<Rightarrow> ('c accept_output list \<times> accept_state) option" where
  "log_accept_errors [] st = Some ([], st)"
| "log_accept_errors (ev # evs) st =
     (case accept_turn ev st of
        None \<Rightarrow> None
      | Some (out, st') \<Rightarrow>
          if ao_dead out then Some ([out], st')
          else (case log_accept_errors evs st' of
                  None \<Rightarrow> None
                | Some (outs, st'') \<Rightarrow> Some (out # outs, st'')))"

section \<open>The probe\<close>

datatype tcp_probe_end = Shutdown | ListenerDead

datatype tcp_probe_outcome = Connected | ProbeFailed | Inconclusive

definition TCP_HEALTH_PROBE_WARN_THRESHOLD :: u32 where "TCP_HEALTH_PROBE_WARN_THRESHOLD = 3"
definition TCP_HEALTH_PROBE_EXIT_THRESHOLD :: u32 where "TCP_HEALTH_PROBE_EXIT_THRESHOLD = 4"

definition probe_timeout_outcome :: "bool \<Rightarrow> tcp_probe_outcome" where
  "probe_timeout_outcome loopback = (if loopback then ProbeFailed else Inconclusive)"

definition probe_connect_error_outcome :: "io_error \<Rightarrow> bool \<Rightarrow> tcp_probe_outcome" where
  "probe_connect_error_outcome e loopback =
     (case e of
        Some n \<Rightarrow>
          if n \<in> set [EMFILE, ENFILE, ENOBUFS, ENOMEM, EADDRNOTAVAIL, ENETUNREACH, ENETDOWN, EHOSTUNREACH] then Inconclusive
          else if n = ETIMEDOUT then probe_timeout_outcome loopback
          else ProbeFailed
      | None \<Rightarrow> ProbeFailed)"

datatype tcp_health_probe_log = ProbeSilent | Failing u32 | FatalLog u32 | Recovered

definition tcp_health_probe_transition :: "u32 \<Rightarrow> tcp_probe_outcome \<Rightarrow> (u32 \<times> tcp_health_probe_log) option" where
  "tcp_health_probe_transition consecutive_failures outcome =
     (case outcome of
        Connected \<Rightarrow> Some (0, if TCP_HEALTH_PROBE_WARN_THRESHOLD \<le> consecutive_failures then Recovered else ProbeSilent)
      | Inconclusive \<Rightarrow> Some (consecutive_failures, ProbeSilent)
      | ProbeFailed \<Rightarrow>
          (case checked_add u32_max consecutive_failures 1 of
             None \<Rightarrow> None
           | Some next \<Rightarrow>
               Some (next, if TCP_HEALTH_PROBE_EXIT_THRESHOLD \<le> next then FatalLog next
                           else if TCP_HEALTH_PROBE_WARN_THRESHOLD \<le> next then Failing next else ProbeSilent)))"

text \<open>What one attempt to connect gives, and what wakes the loop. A tick carries the open files and the limit it reads.\<close>

datatype probe_connect = ConnectOk | ConnectErr io_error | ConnectTimeout

datatype probe_wake = WakeShutdown | WakeTick probe_connect u64 u64

definition probe_outcome :: "bool \<Rightarrow> probe_connect \<Rightarrow> tcp_probe_outcome" where
  "probe_outcome loopback c =
     (case c of ConnectOk \<Rightarrow> Connected
              | ConnectErr e \<Rightarrow> probe_connect_error_outcome e loopback
              | ConnectTimeout \<Rightarrow> probe_timeout_outcome loopback)"

text \<open>
  The loop over the wake-ups so far: the log lines, and how it ended, if it did. The warning about the
  open files is the flag beside each line.
\<close>

fun tcp_health_probe :: "bool \<Rightarrow> u32 \<Rightarrow> probe_wake list \<Rightarrow> ((tcp_health_probe_log \<times> bool) list \<times> tcp_probe_end option) option" where
  "tcp_health_probe loopback n [] = Some ([], None)"
| "tcp_health_probe loopback n (WakeShutdown # ws) = Some ([], Some Shutdown)"
| "tcp_health_probe loopback n (WakeTick c open_fds fd_limit # ws) =
     (case tcp_health_probe_transition n (probe_outcome loopback c) of
        None \<Rightarrow> None
      | Some (n', act) \<Rightarrow>
          (case fd_pressure open_fds fd_limit of
             None \<Rightarrow> None
           | Some full \<Rightarrow>
               (case act of
                  FatalLog _ \<Rightarrow> Some ([(act, full)], Some ListenerDead)
                | _ \<Rightarrow>
                    (case tcp_health_probe loopback n' ws of
                       None \<Rightarrow> None
                     | Some (ls, r) \<Rightarrow> Some ((act, full) # ls, r)))))"

section \<open>Lemmas on the limits\<close>

lemma next_lower_target_total:
  "soft \<le> target \<Longrightarrow> target \<le> u64_max \<Longrightarrow>
   next_lower_target target soft = Some (if 2 \<le> target - soft then Some (soft + (target - soft) div 2) else None)"
  by (auto simp: next_lower_target_def arith_defs)

text \<open>The candidates are tried from the top, each half as far above the soft limit as the one before.\<close>

lemma raise_with_result:
  assumes "soft < candidate" "candidate \<le> u64_max"
  shows "\<exists>r k'. raise_with soft candidate setl k = Some (r, k') \<and> (\<forall>v. r = Inr v \<longrightarrow> soft < v \<and> v \<le> candidate)"
  using assms
proof (induction soft candidate setl k rule: raise_with.induct)
  case (1 soft candidate setl k)
  show ?case
  proof (cases "setl candidate k")
    case (Pair a k')
    show ?thesis
    proof (cases a)
      case (Inl e)
      show ?thesis
      proof (cases "2 \<le> candidate - soft")
        case True
        let ?t = "soft + (candidate - soft) div 2"
        have n: "next_lower_target candidate soft = Some (Some ?t)"
          using next_lower_target_total[of soft candidate] 1(2,3) True by simp
        have "soft < ?t" "?t \<le> candidate" "?t \<le> u64_max" using True 1(3) by auto
        then have "\<exists>r k''. raise_with soft ?t setl k' = Some (r, k'') \<and> (\<forall>v. r = Inr v \<longrightarrow> soft < v \<and> v \<le> ?t)"
          using 1(1)[OF Pair[symmetric] Inl n] by simp
        then show ?thesis using \<open>?t \<le> candidate\<close> Pair Inl n
          by (subst raise_with.simps) (fastforce intro: order_trans)
      next
        case False
        then show ?thesis using 1(2,3) Pair Inl next_lower_target_total[of soft candidate]
          by (subst raise_with.simps) simp
      qed
    next
      case (Inr u)
      then show ?thesis using Pair 1(2) by (subst raise_with.simps) simp
    qed
  qed
qed

definition ceiling_kernel :: "u64 \<Rightarrow> u64 \<Rightarrow> 'k \<Rightarrow> (io_error + unit) \<times> 'k" where
  "ceiling_kernel cap v k = (if v \<le> cap then Inr () else Inl (Some EINVAL), k)"

lemma raise_with_ceiling:
  assumes "soft < candidate" "candidate \<le> u64_max" "soft < cap"
  shows "\<exists>r. raise_with soft candidate (ceiling_kernel cap) k = Some (Inr r, k) \<and> soft < r \<and> r \<le> candidate \<and> r \<le> cap
           \<and> (r = candidate \<or> cap \<le> soft + 2 * (r - soft))"
  using assms
proof (induction "candidate - soft" arbitrary: candidate rule: less_induct)
  case less
  show ?case
  proof (cases "candidate \<le> cap")
    case True
    then show ?thesis using less.prems by (subst raise_with.simps) (simp add: ceiling_kernel_def)
  next
    case False
    let ?t = "soft + (candidate - soft) div 2"
    have big: "2 \<le> candidate - soft" using False less.prems by simp
    have n: "next_lower_target candidate soft = Some (Some ?t)"
      using next_lower_target_total[of soft candidate] less.prems big by simp
    have "\<exists>r. raise_with soft ?t (ceiling_kernel cap) k = Some (Inr r, k) \<and> soft < r \<and> r \<le> ?t \<and> r \<le> cap
           \<and> (r = ?t \<or> cap \<le> soft + 2 * (r - soft))"
      using less.hyps[of ?t] less.prems big by auto
    then obtain r where r: "raise_with soft ?t (ceiling_kernel cap) k = Some (Inr r, k)" "soft < r" "r \<le> ?t" "r \<le> cap"
      "r = ?t \<or> cap \<le> soft + 2 * (r - soft)" by blast
    have "raise_with soft candidate (ceiling_kernel cap) k = Some (Inr r, k)"
      using False n r(1) by (subst raise_with.simps) (simp add: ceiling_kernel_def)
    moreover have "cap \<le> soft + 2 * (r - soft)"
    proof (cases "r = ?t")
      case True
      then show ?thesis using False less.prems by simp
    qed (use r(5) in simp)
    moreover have "?t \<le> candidate" using less.prems by simp
    ultimately show ?thesis using r by (intro exI[of _ r]) linarith
  qed
qed

section \<open>Lemmas on the accept stream\<close>

abbreviation nonfatal :: "'c accept_event \<Rightarrow> bool" where
  "nonfatal ev \<equiv> (case ae_next ev of AcceptFailed e \<Rightarrow> classify_accept_error e \<noteq> AcceptFatal | _ \<Rightarrow> False)"

abbreviation failed_event :: "'c accept_event \<Rightarrow> bool" where
  "failed_event ev \<equiv> (case ae_next ev of AcceptFailed _ \<Rightarrow> True | _ \<Rightarrow> False)"

definition accept_inv :: "accept_state \<Rightarrow> bool" where
  "accept_inv st \<longleftrightarrow> ACCEPT_BACKOFF_START \<le> ac_backoff st \<and> ac_backoff st \<le> ACCEPT_BACKOFF_MAX"

lemmas accept_consts = ACCEPT_BACKOFF_START_def ACCEPT_BACKOFF_MAX_def ACCEPT_PERSISTENT_ERROR_LIMIT_def
  ACCEPT_ERROR_LOG_INTERVAL_def

lemma accept_turn_inv: "accept_inv st \<Longrightarrow> accept_turn ev st = Some (out, st') \<Longrightarrow> accept_inv st'"
  by (auto simp: accept_turn_def accept_failed_def accept_inv_def accept_consts bind_Some_conv Let_def
      split: accept_next.splits if_splits option.splits)

lemma log_accept_errors_inv: "accept_inv st \<Longrightarrow> log_accept_errors evs st = Some (outs, st') \<Longrightarrow> accept_inv st'"
proof (induction evs arbitrary: st outs)
  case (Cons ev evs)
  obtain out st1 where t: "accept_turn ev st = Some (out, st1)" using Cons.prems(2) by (auto split: option.splits)
  have "accept_inv st1" by (rule accept_turn_inv[OF Cons.prems(1) t])
  then show ?case using Cons.prems(2) t Cons.IH by (auto split: option.splits if_splits)
qed simp

lemma admit_bound: "admit now l = Some (g, l') \<Longrightarrow> suppressed l' \<le> Suc (suppressed l)"
  by (auto simp: admit_def arith_defs split: if_splits option.splits)

lemma admit_total: "suppressed l < u64_max \<Longrightarrow> \<exists>r. admit now l = Some r"
  by (auto simp: admit_def arith_defs split: option.splits)

lemma accept_failed_limiter:
  "accept_failed e ev st = Some (out, st') \<Longrightarrow> admit (ae_log_at ev) (ac_limiter st) = Some (ao_logged out, ac_limiter st')"
  by (auto simp: accept_failed_def bind_Some_conv Let_def split: if_splits option.splits)

lemma accept_turn_limiter:
  "accept_turn ev st = Some (out, st') \<Longrightarrow>
   (if failed_event ev then admit (ae_log_at ev) (ac_limiter st) = Some (ao_logged out, ac_limiter st')
    else ao_logged out = None \<and> ac_limiter st' = ac_limiter st)"
  by (auto simp: accept_turn_def dest: accept_failed_limiter split: accept_next.splits)

lemma accept_failed_total: "admit (ae_log_at ev) (ac_limiter st) = Some r \<Longrightarrow> \<exists>out st'. accept_failed e ev st = Some (out, st')"
  by (cases r) (simp add: accept_failed_def Let_def)

lemma accept_turn_total: "suppressed (ac_limiter st) < u64_max \<Longrightarrow> \<exists>out st'. accept_turn ev st = Some (out, st')"
  using admit_total[of "ac_limiter st" "ae_log_at ev"]
  by (auto simp: accept_turn_def dest: accept_failed_total split: accept_next.splits)

lemma accept_turn_suppressed: "accept_turn ev st = Some (out, st') \<Longrightarrow> suppressed (ac_limiter st') \<le> Suc (suppressed (ac_limiter st))"
  by (frule accept_turn_limiter) (auto dest: admit_bound split: if_splits)

lemma log_accept_errors_total:
  "suppressed (ac_limiter st) + length evs \<le> u64_max \<Longrightarrow> \<exists>outs st'. log_accept_errors evs st = Some (outs, st')"
proof (induction evs arbitrary: st)
  case (Cons ev evs)
  obtain out st1 where t: "accept_turn ev st = Some (out, st1)"
    using accept_turn_total[of st ev] Cons.prems by auto
  have "suppressed (ac_limiter st1) + length evs \<le> u64_max"
    using accept_turn_suppressed[OF t] Cons.prems by simp
  from Cons.IH[OF this] t show ?case by auto
qed simp

subsection \<open>The streak of errors\<close>

definition close_after :: "'c accept_event \<Rightarrow> 'c accept_event \<Rightarrow> bool" where
  "close_after a b \<longleftrightarrow> ae_now b \<le> ae_now a + 2 * ACCEPT_BACKOFF_MAX"

definition steady_run :: "'c accept_event list \<Rightarrow> bool" where
  "steady_run run \<longleftrightarrow> run \<noteq> [] \<and> list_all nonfatal run \<and> successively close_after run"

definition extend_streak :: "'c accept_event list \<Rightarrow> 'c accept_event \<Rightarrow> 'c accept_event list" where
  "extend_streak run ev = (if \<not> nonfatal ev then [] else if run \<noteq> [] \<and> close_after (last run) ev then run @ [ev] else [ev])"

definition streak :: "'c accept_event list \<Rightarrow> 'c accept_event list" where
  "streak evs = foldl extend_streak [] evs"

lemma streak_Nil [simp]: "streak [] = []"
  by (simp add: streak_def)

lemma streak_snoc [simp]: "streak (evs @ [ev]) = extend_streak (streak evs) ev"
  by (simp add: streak_def)

lemma streak_suffix: "suffix (streak evs) evs"
  by (induction evs rule: rev_induct) (auto simp: extend_streak_def suffix_def)

lemma streak_steady: "streak evs \<noteq> [] \<Longrightarrow> steady_run (streak evs)"
proof (induction evs rule: rev_induct)
  case (snoc ev evs)
  then show ?case by (auto simp: extend_streak_def steady_run_def successively_append_iff split: if_splits)
qed simp

lemma steady_run_butlast: "steady_run (run @ [ev]) \<Longrightarrow> run \<noteq> [] \<Longrightarrow> steady_run run \<and> close_after (last run) ev"
  by (auto simp: steady_run_def successively_append_iff)

lemma streak_maximal: "steady_run run \<Longrightarrow> suffix run evs \<Longrightarrow> suffix run (streak evs)"
proof (induction evs arbitrary: run rule: rev_induct)
  case Nil
  then show ?case by simp
next
  case (snoc ev evs)
  have "run \<noteq> []" using snoc.prems(1) by (simp add: steady_run_def)
  then obtain run' where run: "run = run' @ [ev]" and sub: "suffix run' evs"
    using snoc.prems(2) by (auto simp: suffix_snoc)
  have ev: "nonfatal ev" using snoc.prems(1) by (simp add: run steady_run_def)
  show ?case
  proof (cases "run' = []")
    case True
    then show ?thesis using ev by (auto simp: run extend_streak_def suffix_def)
  next
    case False
    have "suffix run' (streak evs)" using snoc.IH[OF _ sub] steady_run_butlast[OF snoc.prems(1)[unfolded run] False] by simp
    moreover from this False have "last (streak evs) = last run'" "streak evs \<noteq> []" by (auto simp: suffix_def)
    ultimately show ?thesis using ev steady_run_butlast[OF snoc.prems(1)[unfolded run] False]
      by (simp add: run extend_streak_def)
  qed
qed

definition streak_state :: "'c accept_event list \<Rightarrow> accept_state \<Rightarrow> bool" where
  "streak_state hist st \<longleftrightarrow>
     (if streak hist = [] then ac_failing_since st = None
      else ac_failing_since st = Some (ae_now (hd (streak hist))) \<and> ac_last_error st = Some (ae_now (last (streak hist))))"

lemma accept_turn_nonfatal:
  assumes "nonfatal ev" and "accept_turn ev st = Some (out, st')"
  shows "\<exists>since. ac_failing_since st' = Some since \<and> ac_last_error st' = Some (ae_now ev)
     \<and> (ao_dead out \<longleftrightarrow> ACCEPT_PERSISTENT_ERROR_LIMIT \<le> ae_check ev - since)
     \<and> since = (if ac_failing_since st = None \<or> (\<exists>t. ac_last_error st = Some t \<and> t + 2 * ACCEPT_BACKOFF_MAX < ae_now ev)
                then ae_now ev else the (ac_failing_since st))"
  using assms
  by (auto simp: accept_turn_def accept_failed_def bind_Some_conv Let_def saturating_sub_def
      split: accept_next.splits if_splits option.splits)

lemma accept_turn_other:
  "\<not> nonfatal ev \<Longrightarrow> accept_turn ev st = Some (out, st') \<Longrightarrow> \<not> ao_dead out \<Longrightarrow> ac_failing_since st' = None"
  by (auto simp: accept_turn_def accept_failed_def bind_Some_conv Let_def split: accept_next.splits if_splits option.splits)

lemma accept_turn_streak:
  assumes "streak_state hist st" and t: "accept_turn ev st = Some (out, st')"
  shows "\<not> ao_dead out \<Longrightarrow> streak_state (hist @ [ev]) st'"
    and "nonfatal ev \<Longrightarrow> ao_dead out \<longleftrightarrow> ACCEPT_PERSISTENT_ERROR_LIMIT \<le> ae_check ev - ae_now (hd (streak (hist @ [ev])))"
proof -
  have nf: "ac_failing_since st' = Some (ae_now (hd (streak (hist @ [ev])))) \<and> ac_last_error st' = Some (ae_now ev)
      \<and> (ao_dead out \<longleftrightarrow> ACCEPT_PERSISTENT_ERROR_LIMIT \<le> ae_check ev - ae_now (hd (streak (hist @ [ev]))))"
    if "nonfatal ev"
    using accept_turn_nonfatal[OF that t] assms(1) that
    by (auto simp: streak_state_def extend_streak_def close_after_def not_less split: if_splits)
  show "ao_dead out \<longleftrightarrow> ACCEPT_PERSISTENT_ERROR_LIMIT \<le> ae_check ev - ae_now (hd (streak (hist @ [ev])))" if "nonfatal ev"
    using nf[OF that] by simp
  show "streak_state (hist @ [ev]) st'" if "\<not> ao_dead out"
  proof (cases "nonfatal ev")
    case True
    then show ?thesis using nf[OF True] by (auto simp: streak_state_def extend_streak_def)
  next
    case False
    then show ?thesis using accept_turn_other[OF False t that] by (simp add: streak_state_def extend_streak_def)
  qed
qed

lemma log_accept_errors_streak:
  assumes "streak_state hist st" "log_accept_errors evs st = Some (outs, st')" "length outs = length evs" "evs \<noteq> []"
    "nonfatal (last evs)"
  shows "ao_dead (last outs) \<longleftrightarrow> ACCEPT_PERSISTENT_ERROR_LIMIT \<le> ae_check (last evs) - ae_now (hd (streak (hist @ evs)))"
  using assms
proof (induction evs arbitrary: hist st outs)
  case (Cons ev evs)
  obtain out st1 where t: "accept_turn ev st = Some (out, st1)" using Cons.prems(2) by (auto split: option.splits)
  show ?case
  proof (cases evs)
    case Nil
    then show ?thesis using Cons.prems t accept_turn_streak(2)[OF Cons.prems(1) t] by (auto split: if_splits)
  next
    case (Cons ev2 evs2)
    have alive: "\<not> ao_dead out" using Cons Cons.prems(2,3) t by (auto split: if_splits)
    obtain outs2 where o: "log_accept_errors evs st1 = Some (outs2, st')" "outs = out # outs2"
      using Cons.prems(2) t alive by (auto split: option.splits)
    have ne: "outs2 \<noteq> []" using Cons.prems(3) o(2) Cons by auto
    have "ao_dead (last outs2) \<longleftrightarrow> ACCEPT_PERSISTENT_ERROR_LIMIT \<le> ae_check (last evs) - ae_now (hd (streak ((hist @ [ev]) @ evs)))"
      using Cons.IH[OF accept_turn_streak(1)[OF Cons.prems(1) t alive] o(1)] Cons.prems(3,5) o(2) Cons by simp
    then show ?thesis using ne o(2) Cons by simp
  qed
qed simp

lemma log_accept_errors_length: "log_accept_errors evs st = Some (outs, st') \<Longrightarrow> length outs \<le> length evs"
  by (induction evs arbitrary: st outs) (fastforce split: option.splits if_splits)+

lemma streak_state_init: "streak_state [] accept_init"
  by (simp add: streak_state_def accept_init_def)

subsection \<open>What is logged\<close>

definition lines_stand_for :: "'c accept_output list \<Rightarrow> nat" where
  "lines_stand_for outs = sum_list (map (\<lambda>out. case ao_logged out of Some n \<Rightarrow> n + 1 | None \<Rightarrow> 0) outs)"

definition log_times :: "'c accept_event list \<Rightarrow> 'c accept_output list \<Rightarrow> u64 list" where
  "log_times evs outs = map (\<lambda>(ev, out). ae_log_at ev) (filter (\<lambda>(ev, out). ao_logged out \<noteq> None) (zip evs outs))"

lemma admit_count: "admit now l = Some (g, l') \<Longrightarrow>
   Suc (suppressed l) = (case g of Some n \<Rightarrow> n + 1 | None \<Rightarrow> 0) + suppressed l'"
  by (auto simp: admit_def arith_defs split: if_splits option.splits)

lemma log_accept_errors_count:
  "log_accept_errors evs st = Some (outs, st') \<Longrightarrow>
   suppressed (ac_limiter st) + length (filter failed_event (take (length outs) evs))
     = lines_stand_for outs + suppressed (ac_limiter st')"
proof (induction evs arbitrary: st outs)
  case (Cons ev evs)
  obtain out st1 where t: "accept_turn ev st = Some (out, st1)" using Cons.prems by (auto split: option.splits)
  have one: "suppressed (ac_limiter st) + (if failed_event ev then 1 else 0)
      = (case ao_logged out of Some n \<Rightarrow> n + 1 | None \<Rightarrow> 0) + suppressed (ac_limiter st1)"
    using accept_turn_limiter[OF t] admit_count by (fastforce split: if_splits)
  show ?case
  proof (cases "ao_dead out")
    case True
    then show ?thesis using Cons.prems t one by (auto simp: lines_stand_for_def)
  next
    case False
    obtain outs2 where "log_accept_errors evs st1 = Some (outs2, st')" "outs = out # outs2"
      using Cons.prems t False by (auto split: option.splits)
    then show ?thesis using Cons.IH one by (fastforce simp: lines_stand_for_def)
  qed
qed (simp add: lines_stand_for_def)

lemma admit_times:
  "admit now l = Some (g, l') \<Longrightarrow>
   (if g = None then last_logged l' = last_logged l
    else last_logged l' = Some now \<and> (\<forall>t. last_logged l = Some t \<longrightarrow> t + ACCEPT_ERROR_LOG_INTERVAL \<le> now))"
  by (auto simp: admit_def arith_defs accept_consts split: if_splits option.splits)

lemma log_accept_errors_times:
  "log_accept_errors evs st = Some (outs, st') \<Longrightarrow>
   successively (\<lambda>a b. a + ACCEPT_ERROR_LOG_INTERVAL \<le> b)
     ((case last_logged (ac_limiter st) of Some t \<Rightarrow> [t] | None \<Rightarrow> []) @ log_times evs outs)"
proof (induction evs arbitrary: st outs)
  case Nil
  then show ?case by (auto simp: log_times_def split: option.splits)
next
  case (Cons ev evs)
  obtain out st1 where t: "accept_turn ev st = Some (out, st1)" using Cons.prems by (auto split: option.splits)
  have one: "if ao_logged out = None then last_logged (ac_limiter st1) = last_logged (ac_limiter st)
     else last_logged (ac_limiter st1) = Some (ae_log_at ev)
       \<and> (\<forall>t. last_logged (ac_limiter st) = Some t \<longrightarrow> t + ACCEPT_ERROR_LOG_INTERVAL \<le> ae_log_at ev)"
    using accept_turn_limiter[OF t] admit_times by (fastforce split: if_splits)
  show ?case
  proof (cases "ao_dead out")
    case True
    then show ?thesis using Cons.prems t one by (auto simp: log_times_def split: option.splits)
  next
    case False
    obtain outs2 where o: "log_accept_errors evs st1 = Some (outs2, st')" "outs = out # outs2"
      using Cons.prems t False by (auto split: option.splits)
    show ?thesis using Cons.IH[OF o(1)] one
      by (cases "ao_logged out") (auto simp: o(2) log_times_def split: option.splits)
  qed
qed

section \<open>Lemmas on the probe\<close>

text \<open>The failed probes since the last one that connected.\<close>

definition failures_since :: "tcp_probe_outcome list \<Rightarrow> nat" where
  "failures_since os = length (filter ((=) ProbeFailed) (takeWhile ((\<noteq>) Connected) (rev os)))"

lemma failures_since_snoc:
  "failures_since (os @ [out]) =
     (case out of Connected \<Rightarrow> 0 | ProbeFailed \<Rightarrow> Suc (failures_since os) | Inconclusive \<Rightarrow> failures_since os)"
  by (simp add: failures_since_def split: tcp_probe_outcome.splits)

definition tick :: "probe_connect \<times> u64 \<times> u64 \<Rightarrow> probe_wake" where
  "tick x = (case x of (c, open_fds, fd_limit) \<Rightarrow> WakeTick c open_fds fd_limit)"

definition countable_fds :: "probe_connect \<times> u64 \<times> u64 \<Rightarrow> bool" where
  "countable_fds x \<longleftrightarrow> (case x of (c, open_fds, fd_limit) \<Rightarrow> open_fds * 100 \<le> u64_max \<and> fd_limit * FD_PRESSURE_PERCENT \<le> u64_max)"

abbreviation outcomes :: "bool \<Rightarrow> (probe_connect \<times> u64 \<times> u64) list \<Rightarrow> tcp_probe_outcome list" where
  "outcomes loopback xs \<equiv> map (\<lambda>x. probe_outcome loopback (fst x)) xs"

lemma tick_Pair [simp]: "tick (c, n, m) = WakeTick c n m"
  by (simp add: tick_def)

lemma tcp_health_probe_tick:
  assumes "tcp_health_probe_transition n (probe_outcome loopback c) = Some (n', act)" "\<forall>k. act \<noteq> FatalLog k"
    "fd_pressure fds lim = Some full" "tcp_health_probe loopback n' ws = Some (ls, r)"
  shows "tcp_health_probe loopback n (WakeTick c fds lim # ws) = Some ((act, full) # ls, r)"
  using assms by (cases act) auto

lemma fd_pressure_total: "countable_fds (c, n, m) \<Longrightarrow> \<exists>b. fd_pressure n m = Some b"
  by (auto simp: countable_fds_def fd_pressure_def)

lemma probe_transition:
  "failures_since hist < TCP_HEALTH_PROBE_EXIT_THRESHOLD \<Longrightarrow>
   tcp_health_probe_transition (failures_since hist) out =
     Some (failures_since (hist @ [out]),
       if out = Connected then (if TCP_HEALTH_PROBE_WARN_THRESHOLD \<le> failures_since hist then Recovered else ProbeSilent)
       else if out = Inconclusive then ProbeSilent
       else if TCP_HEALTH_PROBE_EXIT_THRESHOLD \<le> failures_since (hist @ [out]) then FatalLog (failures_since (hist @ [out]))
       else if TCP_HEALTH_PROBE_WARN_THRESHOLD \<le> failures_since (hist @ [out]) then Failing (failures_since (hist @ [out]))
       else ProbeSilent)"
  by (simp add: tcp_health_probe_transition_def failures_since_snoc arith_defs TCP_HEALTH_PROBE_EXIT_THRESHOLD_def
      split: tcp_probe_outcome.splits)

lemma tcp_health_probe_run:
  assumes "failures_since hist < TCP_HEALTH_PROBE_EXIT_THRESHOLD" "list_all countable_fds xs"
  shows "\<exists>ls r. tcp_health_probe loopback (failures_since hist) (map tick xs) = Some (ls, r) \<and> r \<noteq> Some Shutdown
     \<and> (r = Some ListenerDead \<longleftrightarrow>
         (\<exists>n \<le> length xs. TCP_HEALTH_PROBE_EXIT_THRESHOLD \<le> failures_since (hist @ take n (outcomes loopback xs))))"
  using assms
proof (induction xs arbitrary: hist)
  case Nil
  then show ?case by simp
next
  case (Cons x xs)
  obtain c fds lim where x: "x = (c, fds, lim)" by (cases x)
  let ?o = "probe_outcome loopback c"
  obtain full where full: "fd_pressure fds lim = Some full" using fd_pressure_total[of c fds lim] Cons.prems(2) x by auto
  note tr = probe_transition[OF Cons.prems(1), of ?o]
  have shift: "(\<exists>n \<le> length (x # xs). TCP_HEALTH_PROBE_EXIT_THRESHOLD \<le> failures_since (hist @ take n (outcomes loopback (x # xs))))
     \<longleftrightarrow> (\<exists>n \<le> length xs. TCP_HEALTH_PROBE_EXIT_THRESHOLD \<le> failures_since ((hist @ [?o]) @ take n (outcomes loopback xs)))"
    (is "?L \<longleftrightarrow> ?R")
  proof
    assume ?L
    then obtain n where n: "n \<le> length (x # xs)"
      "TCP_HEALTH_PROBE_EXIT_THRESHOLD \<le> failures_since (hist @ take n (outcomes loopback (x # xs)))" by blast
    then have "n \<noteq> 0" using Cons.prems(1) by (cases n) auto
    then show ?R using n x by (cases n) auto
  next
    assume ?R
    then obtain n where "n \<le> length xs"
      "TCP_HEALTH_PROBE_EXIT_THRESHOLD \<le> failures_since ((hist @ [?o]) @ take n (outcomes loopback xs))" by blast
    then show ?L using x by (intro exI[of _ "Suc n"]) simp
  qed
  show ?case
  proof (cases "TCP_HEALTH_PROBE_EXIT_THRESHOLD \<le> failures_since (hist @ [?o])")
    case True
    then have "?o = ProbeFailed"
      using Cons.prems(1) by (auto simp: failures_since_snoc split: tcp_probe_outcome.splits)
    moreover have ?thesis if "?o = ProbeFailed"
      unfolding shift using True that tr full x by (auto intro: exI[of _ 0])
    ultimately show ?thesis by blast
  next
    case False
    then obtain ls r where r: "tcp_health_probe loopback (failures_since (hist @ [?o])) (map tick xs) = Some (ls, r)" "r \<noteq> Some Shutdown"
      "r = Some ListenerDead \<longleftrightarrow>
         (\<exists>n \<le> length xs. TCP_HEALTH_PROBE_EXIT_THRESHOLD \<le> failures_since ((hist @ [?o]) @ take n (outcomes loopback xs)))"
      using Cons.IH[of "hist @ [?o]"] Cons.prems(2) by auto
    have "\<exists>act. tcp_health_probe loopback (failures_since hist) (map tick (x # xs)) = Some ((act, full) # ls, r)"
      using tcp_health_probe_tick[OF tr _ full r(1)] False x by simp
    then show ?thesis unfolding shift using r(2,3) by blast
  qed
qed

section \<open>Properties\<close>

text \<open>
  C32. The accept stream gives up on a listener exactly when it should: the stream always returns, and when
  its last event so far is an error that a retry could cure, it forwards the error and reports the listener dead if and
  only if that error ends an unbroken run of such errors, no two more than two seconds apart and with no
  successful accept between them, that has lasted 120 seconds.
\<close>

theorem accept_gives_up_iff:
  assumes "length evs \<le> u64_max" and "evs \<noteq> []" and "nonfatal (last evs)" and "sorted (map ae_now evs)"
  shows "\<exists>outs st'. log_accept_errors evs accept_init = Some (outs, st') \<and>
     (length outs = length evs \<longrightarrow>
       (ao_dead (last outs) \<longleftrightarrow>
         (\<exists>run. suffix run evs \<and> steady_run run \<and> ACCEPT_PERSISTENT_ERROR_LIMIT \<le> ae_check (last evs) - ae_now (hd run))))"
proof -
  obtain outs st' where log: "log_accept_errors evs accept_init = Some (outs, st')"
    using log_accept_errors_total[of accept_init evs] assms(1) by (auto simp: accept_init_def)
  have ne: "streak evs \<noteq> []"
    using streak_snoc[of "butlast evs" "last evs"] assms(2,3) by (simp add: extend_streak_def)
  have earlier: "ae_now (hd (streak evs)) \<le> ae_now (hd run)" if run: "suffix run evs" "steady_run run" for run
  proof -
    obtain pre where pre: "streak evs = pre @ run" using streak_maximal[OF run(2,1)] by (auto simp: suffix_def)
    have "sorted (map ae_now (streak evs))"
      using assms(4) streak_suffix[of evs] by (metis map_append sorted_append suffix_def)
    moreover have "run \<noteq> []" using run(2) by (simp add: steady_run_def)
    ultimately show ?thesis by (cases pre; cases run) (auto simp: pre sorted_append)
  qed
  have "ao_dead (last outs) \<longleftrightarrow> (\<exists>run. suffix run evs \<and> steady_run run \<and>
      ACCEPT_PERSISTENT_ERROR_LIMIT \<le> ae_check (last evs) - ae_now (hd run))" if "length outs = length evs"
  proof -
    have dead: "ao_dead (last outs) \<longleftrightarrow> ACCEPT_PERSISTENT_ERROR_LIMIT \<le> ae_check (last evs) - ae_now (hd (streak evs))"
      using log_accept_errors_streak[OF streak_state_init log that assms(2,3)] by simp
    show ?thesis unfolding dead
      using streak_suffix[of evs] streak_steady[OF ne] earlier by (meson diff_le_mono2 order_trans)
  qed
  then show ?thesis using log by blast
qed

definition stuck_event :: "nat \<Rightarrow> nat accept_event" where
  "stuck_event i = \<lparr>ae_next = AcceptFailed (Some EMFILE), ae_log_at = 1000 * i, ae_now = 1000 * i, ae_check = 1000 * i\<rparr>"

lemma stuck_ends: "last (map stuck_event [0..<Suc n]) = stuck_event n" "hd (map stuck_event [0..<Suc n]) = stuck_event 0"
  by (simp_all add: hd_map del: upt_Suc) (simp add: last_map)

lemma stuck_run: "steady_run (map stuck_event [0..<Suc n])"
proof -
  have "successively close_after (map stuck_event [0..<Suc n])"
    by (induction n) (auto simp: successively_append_iff close_after_def stuck_event_def accept_consts last_map)
  moreover have "list_all nonfatal (map stuck_event [0..<Suc n])"
    by (simp add: list_all_iff stuck_event_def classify_accept_error_def del: upt_Suc)
  ultimately show ?thesis by (simp add: steady_run_def)
qed

theorem accept_gives_up_iff_witness:
  "\<exists>outs st'. log_accept_errors (map stuck_event [0..<121]) accept_init = Some (outs, st') \<and>
     (length outs < 121 \<or> ao_dead (last outs))"
proof -
  let ?evs = "map stuck_event [0..<Suc 120]"
  note l = stuck_ends[of 120]
  have m: "sorted (map ae_now ?evs)" by (simp add: sorted_map sorted_wrt_upt stuck_event_def comp_def del: upt_Suc)
  have "nonfatal (last ?evs)" unfolding l by (simp add: stuck_event_def classify_accept_error_def)
  moreover have "ACCEPT_PERSISTENT_ERROR_LIMIT \<le> ae_check (last ?evs) - ae_now (hd ?evs)"
    unfolding l by (simp add: stuck_event_def accept_consts)
  ultimately have "\<exists>outs st'. log_accept_errors ?evs accept_init = Some (outs, st') \<and> (length outs = 121 \<longrightarrow> ao_dead (last outs))"
    using accept_gives_up_iff[of ?evs] m stuck_run[of 120] by (fastforce simp del: upt_Suc)
  moreover have "length outs \<le> 121" if "log_accept_errors ?evs accept_init = Some (outs, st')" for outs st'
    using log_accept_errors_length[OF that] by (simp del: upt_Suc)
  ultimately show ?thesis by (simp del: upt_Suc) (metis le_neq_implies_less)
qed

text \<open>
  No accept error goes unreported: the lines logged so far, each with the number of errors it says were
  suppressed before it, together with the errors suppressed since, are all the errors the stream has seen; two lines are at
  least ten seconds apart; and the pause between attempts is always between 10 ms and one second.
\<close>

theorem accept_errors_accounted:
  assumes "length evs \<le> u64_max"
  shows "\<exists>outs st'. log_accept_errors evs accept_init = Some (outs, st')
     \<and> length (filter failed_event (take (length outs) evs)) = lines_stand_for outs + suppressed (ac_limiter st')
     \<and> successively (\<lambda>a b. a + ACCEPT_ERROR_LOG_INTERVAL \<le> b) (log_times evs outs)
     \<and> ACCEPT_BACKOFF_START \<le> ac_backoff st' \<and> ac_backoff st' \<le> ACCEPT_BACKOFF_MAX"
proof -
  obtain outs st' where log: "log_accept_errors evs accept_init = Some (outs, st')"
    using log_accept_errors_total[of accept_init evs] assms by (auto simp: accept_init_def)
  have "accept_inv accept_init" by (simp add: accept_inv_def accept_init_def accept_consts)
  then have "accept_inv st'" by (rule log_accept_errors_inv[OF _ log])
  then show ?thesis using log log_accept_errors_count[OF log] log_accept_errors_times[OF log]
    by (auto simp: accept_init_def accept_inv_def)
qed

theorem accept_errors_accounted_witness:
  "\<exists>outs st'. log_accept_errors (map stuck_event [0..<3]) accept_init = Some (outs, st')
     \<and> length (filter failed_event (take (length outs) (map stuck_event [0..<3]))) = lines_stand_for outs + suppressed (ac_limiter st')
     \<and> successively (\<lambda>a b. a + ACCEPT_ERROR_LOG_INTERVAL \<le> b) (log_times (map stuck_event [0..<3]) outs)
     \<and> ACCEPT_BACKOFF_START \<le> ac_backoff st' \<and> ac_backoff st' \<le> ACCEPT_BACKOFF_MAX"
  by (rule accept_errors_accounted) simp

text \<open>
  C33. Raising the limit on open files finds what the kernel allows: when the kernel takes every value up
  to some ceiling above the current soft limit, the daemon ends with a higher limit that the kernel takes, which is either the
  target itself or at least half of the headroom there was, never above the hard limit, and the search always ends.
\<close>

theorem raise_nofile_limit_finds_ceiling:
  assumes "soft < hd_lim" "hd_lim \<le> u64_max" "soft < nofile_cap macos" "soft < cap"
  shows "\<exists>lim. raise_nofile_limit macos (Inr (soft, hd_lim)) (\<lambda>v _. ceiling_kernel cap v) k = Some (Inr lim, k)
     \<and> soft_before lim = soft \<and> hard lim = hd_lim \<and> soft < soft_after lim \<and> soft_after lim \<le> hd_lim \<and> soft_after lim \<le> cap
     \<and> (soft_after lim = desired_soft_limit soft hd_lim (nofile_cap macos) \<or> cap - soft \<le> 2 * (soft_after lim - soft))"
proof -
  let ?t = "desired_soft_limit soft hd_lim (nofile_cap macos)"
  have t: "soft < ?t" "?t \<le> hd_lim" using assms by (auto simp: desired_soft_limit_def)
  obtain r where "raise_with soft ?t (ceiling_kernel cap) k = Some (Inr r, k)" "soft < r" "r \<le> ?t" "r \<le> cap"
    "r = ?t \<or> cap \<le> soft + 2 * (r - soft)"
    using raise_with_ceiling[of soft ?t cap k] t assms by auto
  then show ?thesis using t by (auto simp: raise_nofile_limit_def Let_def)
qed

theorem raise_nofile_limit_finds_ceiling_witness:
  "\<exists>lim. raise_nofile_limit True (Inr (256, u64_max)) (\<lambda>v _. ceiling_kernel 6000 v) () = Some (Inr lim, ())
     \<and> soft_before lim = 256 \<and> hard lim = u64_max \<and> 256 < soft_after lim \<and> soft_after lim \<le> u64_max \<and> soft_after lim \<le> 6000
     \<and> (soft_after lim = desired_soft_limit 256 u64_max (nofile_cap True) \<or> 6000 - 256 \<le> 2 * (soft_after lim - 256))"
  by (rule raise_nofile_limit_finds_ceiling) (simp_all add: nofile_cap_def MACOS_OPEN_MAX_def)

text \<open>
  The probe declares the listener dead exactly when four probes have failed with none connecting in
  between: inconclusive probes neither count nor reset the count, and as long as no shutdown is requested and the file counts
  can be multiplied out, the probe never panics and ends for no other reason.
\<close>

theorem probe_gives_up_iff:
  assumes "list_all countable_fds xs"
  shows "\<exists>ls r. tcp_health_probe loopback 0 (map tick xs) = Some (ls, r) \<and> r \<noteq> Some Shutdown
     \<and> (r = Some ListenerDead \<longleftrightarrow>
         (\<exists>n \<le> length xs. TCP_HEALTH_PROBE_EXIT_THRESHOLD \<le> failures_since (take n (outcomes loopback xs))))"
  using tcp_health_probe_run[of "[]" xs loopback] assms
  by (simp add: failures_since_def TCP_HEALTH_PROBE_EXIT_THRESHOLD_def)

theorem probe_gives_up_iff_witness:
  "\<exists>ls r. tcp_health_probe True 0 (map tick (replicate 4 (ConnectTimeout, 10, 256))) = Some (ls, r) \<and> r = Some ListenerDead"
proof -
  let ?xs = "replicate 4 (ConnectTimeout, 10, 256) :: (probe_connect \<times> u64 \<times> u64) list"
  have "list_all countable_fds ?xs" by (simp add: list_all_iff countable_fds_def FD_PRESSURE_PERCENT_def)
  moreover have "TCP_HEALTH_PROBE_EXIT_THRESHOLD \<le> failures_since (take 4 (outcomes True ?xs))"
    by (simp add: failures_since_def probe_outcome_def probe_timeout_outcome_def TCP_HEALTH_PROBE_EXIT_THRESHOLD_def
        numeral_eq_Suc)
  ultimately show ?thesis using probe_gives_up_iff[of ?xs True] by (metis length_replicate order_refl)
qed

text \<open>
  With an unlimited number of files the check for file pressure cannot be computed: whatever the number
  of open files, the multiplication by the percentage overflows, so that a build that checks arithmetic loses the
  probe on its first tick.
\<close>

theorem fd_pressure_unlimited:
  "fd_pressure open u64_max = None
   \<and> tcp_health_probe loopback 0 (WakeTick ConnectOk open u64_max # ws) = None"
  by (simp add: fd_pressure_def FD_PRESSURE_PERCENT_def tcp_health_probe_transition_def probe_outcome_def)

end
