(* ===== verification/Auth.thy ===== *)
theory Auth
  imports Cli_Target Listener_Health
begin

unbundle bit_operations_syntax

text \<open>
  Who may talk to the daemon: \<open>crates/tymuxd/src/auth.rs\<close>.

  \<^item> The command line is the list of its arguments and the environment a partial function from names to
    values. Strings are their UTF-8 bytes.
  \<^item> A path is its components, with a flag that says whether it starts at the root. The file system maps
    paths to nodes; links are followed at the last component only.
  \<^item> A system call that the sources check for failure fails when the record \<open>sys_env\<close> says so. What one
    process sees of the others is \<open>os_locked\<close> (lock files held by some process) and \<open>os_bound\<close> (sockets with a
    live listener).
  \<^item> \<open>getgrnam\<close>, \<open>/proc/<pid>/status\<close> and the peer credentials of a connection are arguments.
  \<^item> A rejected request is its gRPC code; log lines are left out.
\<close>

section \<open>Configuration\<close>

type_synonym environment = "string \<Rightarrow> string option"

definition strip_str :: "string \<Rightarrow> string \<Rightarrow> string option" where
  "strip_str p s = (if prefix p s then Some (drop (length p) s) else None)"

fun arg_position :: "('a \<Rightarrow> bool) \<Rightarrow> 'a list \<Rightarrow> nat option" where
  "arg_position P [] = None"
| "arg_position P (x # xs) = (if P x then Some 0 else map_option Suc (arg_position P xs))"

fun find_map :: "('a \<Rightarrow> 'b option) \<Rightarrow> 'a list \<Rightarrow> 'b option" where
  "find_map f [] = None"
| "find_map f (x # xs) = (case f x of Some y \<Rightarrow> Some y | None \<Rightarrow> find_map f xs)"

definition arg_at :: "'a list \<Rightarrow> nat \<Rightarrow> 'a option" where
  "arg_at xs i = (if i < length xs then Some (xs ! i) else None)"

definition or_opt :: "'a option \<Rightarrow> 'a option \<Rightarrow> 'a option" where
  "or_opt a b = (case a of Some x \<Rightarrow> Some x | None \<Rightarrow> b)"

definition filter_opt :: "('a \<Rightarrow> bool) \<Rightarrow> 'a option \<Rightarrow> 'a option" where
  "filter_opt P a = (case a of Some x \<Rightarrow> if P x then Some x else None | None \<Rightarrow> None)"

text \<open>A flag of the command line: the argument after the first \<open>--flag\<close>, else the first \<open>--flag=value\<close>.\<close>

definition flag_value :: "string \<Rightarrow> string list \<Rightarrow> string option" where
  "flag_value flag args =
     or_opt (case arg_position ((=) flag) args of Some i \<Rightarrow> arg_at args (i + 1) | None \<Rightarrow> None)
            (find_map (strip_str (flag @ ''='')) args)"

datatype bearer_token = BearerToken string

definition token_parse :: "string \<Rightarrow> bearer_token option" where
  "token_parse raw = (if raw \<noteq> [] then Some (BearerToken raw) else None)"

fun token_bytes :: "bearer_token \<Rightarrow> string" where
  "token_bytes (BearerToken s) = s"

definition resolve_token :: "string list \<Rightarrow> environment \<Rightarrow> bearer_token option" where
  "resolve_token args env = Option.bind (or_opt (flag_value ''--token'' args) (env ''TYMUXD_TOKEN'')) token_parse"

section \<open>Paths\<close>

datatype path = Path bool "string list"

fun split_slash :: "string \<Rightarrow> string list" where
  "split_slash [] = [[]]"
| "split_slash (c # cs) = (if c = CHR ''/'' then [] # split_slash cs
     else (case split_slash cs of [] \<Rightarrow> [[c]] | w # ws \<Rightarrow> (c # w) # ws))"

definition path_of :: "string \<Rightarrow> path" where
  "path_of s =
     (let parts = split_slash s; absolute = (prefix ''/'' s);
          cs = filter (\<lambda>c. c \<noteq> [] \<and> c \<noteq> ''.'') parts
      in Path absolute (if \<not> absolute \<and> prefix [''.''] parts then ''.'' # cs else cs))"

fun path_join :: "path \<Rightarrow> string \<Rightarrow> path" where
  "path_join (Path a cs) c = Path a (cs @ [c])"

fun path_parent :: "path \<Rightarrow> path option" where
  "path_parent (Path a cs) = (if cs = [] then None else Some (Path a (butlast cs)))"

text \<open>\<open>with_extension\<close>: the text after the last dot of the file name is replaced, a leading dot apart.\<close>

definition file_stem :: "string \<Rightarrow> string" where
  "file_stem name =
     (let stem = rev (drop 1 (dropWhile ((\<noteq>) CHR ''.'') (rev name)))
      in if CHR ''.'' \<in> set name \<and> stem \<noteq> [] then stem else name)"

fun with_extension :: "path \<Rightarrow> string \<Rightarrow> path" where
  "with_extension (Path a cs) ext =
     (if cs = [] \<or> last cs = ''..'' then Path a cs
      else Path a (butlast cs @ [file_stem (last cs) @ ''.'' @ ext]))"

definition default_uds_socket_path :: "environment \<Rightarrow> u32 \<Rightarrow> path" where
  "default_uds_socket_path env uid =
     (case filter_opt (\<lambda>v. v \<noteq> []) (env ''XDG_RUNTIME_DIR'') of
        Some dir \<Rightarrow> path_join (path_join (path_of dir) ''tymuxd'') ''tymuxd.sock''
      | None \<Rightarrow>
          (let base = (case filter_opt (\<lambda>v. v \<noteq> []) (env ''TMPDIR'') of Some d \<Rightarrow> path_of d | None \<Rightarrow> path_of ''/tmp'')
           in path_join (path_join base (''tymuxd-'' @ decimal uid)) ''tymuxd.sock''))"

definition resolve_uds_socket_path :: "string list \<Rightarrow> environment \<Rightarrow> u32 \<Rightarrow> path" where
  "resolve_uds_socket_path args env uid =
     (case or_opt (flag_value ''--socket-path'' args) (filter_opt (\<lambda>v. v \<noteq> []) (env ''TYMUXD_SOCKET_PATH'')) of
        Some s \<Rightarrow> path_of s
      | None \<Rightarrow> default_uds_socket_path env uid)"

definition resolve_socket_group_name :: "string list \<Rightarrow> environment \<Rightarrow> string option" where
  "resolve_socket_group_name args env =
     filter_opt (\<lambda>v. v \<noteq> []) (or_opt (flag_value ''--socket-group'' args) (env ''TYMUXD_SOCKET_GROUP''))"

definition resolve_gid_by_name :: "(string \<Rightarrow> u32 option) \<Rightarrow> string \<Rightarrow> u32 option" where
  "resolve_gid_by_name getgrnam name = (if CHR 0x00 \<in> set name then None else getgrnam name)"

definition resolve_tcp_disabled :: "string list \<Rightarrow> environment \<Rightarrow> bool" where
  "resolve_tcp_disabled args env \<longleftrightarrow>
     ''--disable-tcp-loopback'' \<in> set args
     \<or> (case env ''TYMUXD_DISABLE_TCP_LOOPBACK'' of Some v \<Rightarrow> v \<noteq> [] | None \<Rightarrow> False)"

section \<open>The file system\<close>

datatype fs_kind = FsDir | FsSocket | FsFile | FsLink path

record fs_node =
  fn_kind :: fs_kind
  fn_uid :: u32
  fn_gid :: u32
  fn_mode :: nat

record os_state =
  os_euid :: u32
  os_egid :: u32
  os_umask :: nat
  os_fs :: "path \<Rightarrow> fs_node option"
  os_locked :: "path set"
  os_bound :: "path set"

record sys_env =
  se_meta :: "io_error option"
  se_mkdir :: "(nat \<times> io_error) option"
  se_chmod :: "io_error option"
  se_open :: "io_error option"
  se_connect :: "io_error option"
  se_unlink :: "io_error option"
  se_bind :: "io_error option"
  se_chown :: "io_error option"

definition no_failures :: sys_env where
  "no_failures = \<lparr>se_meta = None, se_mkdir = None, se_chmod = None, se_open = None, se_connect = None, se_unlink = None,
     se_bind = None, se_chown = None\<rparr>"

fun follow :: "nat \<Rightarrow> (path \<Rightarrow> fs_node option) \<Rightarrow> path \<Rightarrow> fs_node option" where
  "follow 0 fs p = None"
| "follow (Suc n) fs p = (case fs p of
      None \<Rightarrow> None
    | Some nd \<Rightarrow> (case fn_kind nd of FsLink q \<Rightarrow> follow n fs q | _ \<Rightarrow> Some nd))"

text \<open>The kernel follows at most 40 links.\<close>

definition path_exists :: "os_state \<Rightarrow> path \<Rightarrow> bool" where
  "path_exists os p \<longleftrightarrow> follow 41 (os_fs os) p \<noteq> None"

definition masked :: "nat \<Rightarrow> nat \<Rightarrow> nat" where
  "masked umask perms = perms - (perms AND umask)"

definition add_node :: "path \<Rightarrow> fs_kind \<Rightarrow> nat \<Rightarrow> os_state \<Rightarrow> os_state" where
  "add_node p kind perms os =
     os\<lparr>os_fs := (os_fs os)(p \<mapsto> \<lparr>fn_kind = kind, fn_uid = os_euid os, fn_gid = os_egid os, fn_mode = masked (os_umask os) perms\<rparr>)\<rparr>"

text \<open>\<open>create_dir_all\<close>: the missing directories on the way, from the top; the \<open>n\<close>-th may fail.\<close>

fun create_dirs :: "(nat \<times> io_error) option \<Rightarrow> path list \<Rightarrow> os_state \<Rightarrow> (io_error + unit) \<times> os_state" where
  "create_dirs fail [] os = (Inr (), os)"
| "create_dirs fail (p # ps) os =
     (case os_fs os p of
        Some nd \<Rightarrow>
          (case follow 41 (os_fs os) p of
             Some nd' \<Rightarrow> if fn_kind nd' = FsDir then create_dirs fail ps os else (Inl (Some ENOTDIR), os)
           | None \<Rightarrow> (Inl (Some EEXIST), os))
      | None \<Rightarrow>
          (case fail of
             Some (0, e) \<Rightarrow> (Inl e, os)
           | Some (Suc n, e) \<Rightarrow> create_dirs (Some (n, e)) ps (add_node p FsDir 511 os)
           | None \<Rightarrow> create_dirs None ps (add_node p FsDir 511 os)))"

definition create_dir_all :: "sys_env \<Rightarrow> path \<Rightarrow> os_state \<Rightarrow> (io_error + unit) \<times> os_state" where
  "create_dir_all env p os =
     (case p of Path a cs \<Rightarrow>
        if cs = [] then (Inr (), os)
        else if os_fs os p \<noteq> None
        then (case follow 41 (os_fs os) p of
                Some nd \<Rightarrow> if fn_kind nd = FsDir then (Inr (), os) else (Inl (Some EEXIST), os)
              | None \<Rightarrow> (Inl (Some EEXIST), os))
        else create_dirs (se_mkdir env) (map (Path a) (tl (prefixes cs))) os)"

definition set_permissions :: "sys_env \<Rightarrow> path \<Rightarrow> nat \<Rightarrow> os_state \<Rightarrow> (io_error + unit) \<times> os_state" where
  "set_permissions env p perms os =
     (case se_chmod env of
        Some e \<Rightarrow> (Inl e, os)
      | None \<Rightarrow>
          if \<not> path_exists os p then (Inl (Some ENOENT), os)
          else (case os_fs os p of
                  None \<Rightarrow> (Inl (Some ENOENT), os)
                | Some nd \<Rightarrow> (Inr (), os\<lparr>os_fs := (os_fs os)(p \<mapsto> nd\<lparr>fn_mode := perms\<rparr>)\<rparr>)))"

section \<open>The socket\<close>

datatype start_error = SocketCreation io_error | ForeignParent u32 nat | LockFile io_error | AlreadyStarting
  | AlreadyRunning | StaleSocket io_error | ProbeFailure io_error | NotInGroup | GroupOwnership io_error

definition parent_mode :: "u32 option \<Rightarrow> nat" where
  "parent_mode group_gid = (if group_gid \<noteq> None then 488 else 448)"

definition ensure_socket_parent_dir :: "sys_env \<Rightarrow> path \<Rightarrow> u32 option \<Rightarrow> os_state \<Rightarrow> (start_error + unit) \<times> os_state" where
  "ensure_socket_parent_dir env socket_path group_gid os =
     (case path_parent socket_path of
        None \<Rightarrow> (Inr (), os)
      | Some parent \<Rightarrow>
          if path_exists os parent
          then (case (se_meta env, os_fs os parent) of
                  (Some e, _) \<Rightarrow> (Inl (SocketCreation e), os)
                | (None, None) \<Rightarrow> (Inl (SocketCreation (Some ENOENT)), os)
                | (None, Some meta) \<Rightarrow>
                    if fn_uid meta \<noteq> os_euid os \<or> fn_mode meta AND 511 \<noteq> parent_mode group_gid
                    then (Inl (ForeignParent (fn_uid meta) (fn_mode meta AND 511)), os)
                    else (Inr (), os))
          else (case create_dir_all env parent os of
                  (Inl e, os1) \<Rightarrow> (Inl (SocketCreation e), os1)
                | (Inr _, os1) \<Rightarrow>
                    (case set_permissions env parent (parent_mode group_gid) os1 of
                       (Inl e, os2) \<Rightarrow> (Inl (SocketCreation e), os2)
                     | (Inr _, os2) \<Rightarrow> (Inr (), os2))))"

definition acquire_socket_lock :: "sys_env \<Rightarrow> path \<Rightarrow> os_state \<Rightarrow> (start_error + path) \<times> os_state" where
  "acquire_socket_lock env socket_path os =
     (let lock_path = with_extension socket_path ''sock.lock''
      in case se_open env of
           Some e \<Rightarrow> (Inl (LockFile e), os)
         | None \<Rightarrow>
             (let os1 = (if path_exists os lock_path then os else add_node lock_path FsFile 438 os)
              in if lock_path \<in> os_locked os1 then (Inl AlreadyStarting, os1)
                 else (Inr lock_path, os1\<lparr>os_locked := insert lock_path (os_locked os1)\<rparr>)))"

text \<open>
  A connection attempt reaches a live listener; otherwise it fails with the error of \<open>se_connect\<close>, and the
  kinds \<open>ConnectionRefused\<close> and \<open>NotFound\<close> are \<open>None\<close>.
\<close>

definition reconcile_stale_socket :: "sys_env \<Rightarrow> path \<Rightarrow> os_state \<Rightarrow> (start_error + unit) \<times> os_state" where
  "reconcile_stale_socket env socket_path os =
     (if \<not> path_exists os socket_path then (Inr (), os)
      else if socket_path \<in> os_bound os then (Inl AlreadyRunning, os)
      else (case se_connect env of
              Some e \<Rightarrow> (Inl (ProbeFailure e), os)
            | None \<Rightarrow>
                (case se_unlink env of
                   Some e \<Rightarrow> (Inl (StaleSocket e), os)
                 | None \<Rightarrow> (Inr (), os\<lparr>os_fs := (os_fs os)(socket_path := None)\<rparr>))))"

definition unix_bind :: "sys_env \<Rightarrow> path \<Rightarrow> os_state \<Rightarrow> (io_error + unit) \<times> os_state" where
  "unix_bind env p os =
     (case se_bind env of
        Some e \<Rightarrow> (Inl e, os)
      | None \<Rightarrow> if os_fs os p \<noteq> None then (Inl (Some EADDRINUSE), os)
                else (Inr (), add_node p FsSocket 511 (os\<lparr>os_bound := insert p (os_bound os)\<rparr>)))"

definition chown_group :: "sys_env \<Rightarrow> path \<Rightarrow> u32 \<Rightarrow> os_state \<Rightarrow> (io_error + unit) \<times> os_state" where
  "chown_group env p gid os =
     (case se_chown env of
        Some e \<Rightarrow> (Inl e, os)
      | None \<Rightarrow> (case os_fs os p of
                   None \<Rightarrow> (Inl (Some ENOENT), os)
                 | Some nd \<Rightarrow> (Inr (), os\<lparr>os_fs := (os_fs os)(p \<mapsto> nd\<lparr>fn_gid := gid\<rparr>)\<rparr>)))"

definition bind_uds_listener :: "sys_env \<Rightarrow> path \<Rightarrow> u32 option \<Rightarrow> os_state \<Rightarrow> (start_error + path) \<times> os_state" where
  "bind_uds_listener env socket_path group_gid os =
     (case ensure_socket_parent_dir env socket_path group_gid os of
        (Inl e, os1) \<Rightarrow> (Inl e, os1)
      | (Inr _, os1) \<Rightarrow>
          (let old = os_umask os1;
               new_umask = (if group_gid \<noteq> None then 79 else 127);
               (bound, os2) = unix_bind env socket_path (os1\<lparr>os_umask := new_umask\<rparr>);
               os3 = os2\<lparr>os_umask := old\<rparr>
           in case bound of
                Inl e \<Rightarrow> (Inl (SocketCreation e), os3)
              | Inr _ \<Rightarrow>
                  (case group_gid of
                     None \<Rightarrow> (Inr socket_path, os3)
                   | Some gid \<Rightarrow>
                       (case chown_group env socket_path gid os3 of
                          (Inl e, os4) \<Rightarrow> (Inl (if e = Some EPERM then NotInGroup else GroupOwnership e), os4)
                        | (Inr _, os4) \<Rightarrow> (Inr socket_path, os4)))))"

definition check_non_loopback_requires_token :: "bool \<Rightarrow> bearer_token option \<Rightarrow> bool" where
  "check_non_loopback_requires_token is_loopback token = (is_loopback \<or> token \<noteq> None)"

section \<open>Requests\<close>

datatype auth_code = Unauthenticated | PermissionDenied

text \<open>\<open>HeaderValue::to_str\<close> succeeds on visible ASCII and tabs only.\<close>

definition header_to_str :: "string \<Rightarrow> string option" where
  "header_to_str v = (if \<forall>c \<in> set v. c = CHR 0x09 \<or> 32 \<le> (of_char c :: nat) \<and> (of_char c :: nat) < 127 then Some v else None)"

record bearer_auth_interceptor =
  ba_token :: bearer_token
  ba_rejection_count :: int

abbreviation i64_max :: int where "i64_max \<equiv> 9223372036854775807"

definition count_rejection :: "int \<Rightarrow> int option" where
  "count_rejection n = (if n < i64_max then Some (n + 1) else None)"

definition bearer_call :: "string option \<Rightarrow> bearer_auth_interceptor \<Rightarrow> ((auth_code + unit) \<times> bearer_auth_interceptor) option" where
  "bearer_call authorization b =
     (case Option.bind (Option.bind authorization header_to_str) (strip_str ''Bearer '') of
        None \<Rightarrow> map_option (\<lambda>n. (Inl Unauthenticated, b\<lparr>ba_rejection_count := n\<rparr>)) (count_rejection (ba_rejection_count b))
      | Some supplied \<Rightarrow>
          if supplied = token_bytes (ba_token b) then Some (Inr (), b)
          else map_option (\<lambda>n. (Inl Unauthenticated, b\<lparr>ba_rejection_count := n\<rparr>)) (count_rejection (ba_rejection_count b)))"

record peer_identity =
  pi_uid :: u32
  pi_gid :: u32
  pi_pid :: "i32 option"

definition is_ascii_space :: "char \<Rightarrow> bool" where
  "is_ascii_space c \<longleftrightarrow> of_char c \<in> {9, 10, 11, 12, 13, 32 :: nat}"

fun split_spaces :: "string \<Rightarrow> string \<Rightarrow> string list" where
  "split_spaces [] w = (if w = [] then [] else [rev w])"
| "split_spaces (c # cs) w = (if is_ascii_space c then (if w = [] then [] else [rev w]) @ split_spaces cs [] else split_spaces cs (c # w))"

fun split_lines :: "string \<Rightarrow> string \<Rightarrow> string list" where
  "split_lines [] l = (if l = [] then [] else [rev l])"
| "split_lines (c # cs) l = (if c = CHR 0x0A then rev (case l of r # l' \<Rightarrow> if r = CHR 0x0D then l' else l | [] \<Rightarrow> []) # split_lines cs []
     else split_lines cs (c # l))"

definition parse_u32 :: "string \<Rightarrow> u32 option" where
  "parse_u32 s = filter_opt (\<lambda>n. n \<le> u32_max) (parse_usize s)"

definition peer_is_group_member_linux :: "(i32 \<Rightarrow> string option) \<Rightarrow> i32 \<Rightarrow> u32 \<Rightarrow> bool" where
  "peer_is_group_member_linux proc_status pid gid =
     (case proc_status pid of
        None \<Rightarrow> False
      | Some status \<Rightarrow>
          (case find_map (strip_str ''Groups:'') (split_lines status []) of
             None \<Rightarrow> False
           | Some groups \<Rightarrow> gid \<in> set (List.map_filter parse_u32 (split_spaces groups []))))"

definition peer_is_group_member :: "bool \<Rightarrow> (i32 \<Rightarrow> string option) \<Rightarrow> peer_identity \<Rightarrow> u32 \<Rightarrow> bool" where
  "peer_is_group_member linux proc_status peer gid =
     (case pi_pid peer of
        Some pid \<Rightarrow> if linux then peer_is_group_member_linux proc_status pid gid else pi_gid peer = gid
      | None \<Rightarrow> pi_gid peer = gid)"

definition peer_is_authorized :: "bool \<Rightarrow> (i32 \<Rightarrow> string option) \<Rightarrow> u32 \<Rightarrow> u32 option \<Rightarrow> peer_identity \<Rightarrow> bool" where
  "peer_is_authorized linux proc_status daemon_uid allowed_gid peer =
     (if pi_uid peer = daemon_uid then True
      else (case allowed_gid of None \<Rightarrow> False | Some gid \<Rightarrow> peer_is_group_member linux proc_status peer gid))"

record uds_auth_decision =
  ud_authorized :: bool
  ud_peer_uid :: "u32 option"
  ud_peer_gid :: "u32 option"

definition pre_authorized :: "bool \<Rightarrow> (i32 \<Rightarrow> string option) \<Rightarrow> u32 \<Rightarrow> u32 option \<Rightarrow> peer_identity option \<Rightarrow> uds_auth_decision" where
  "pre_authorized linux proc_status daemon_uid allowed_gid cred =
     \<lparr>ud_authorized = (case cred of None \<Rightarrow> False | Some c \<Rightarrow> peer_is_authorized linux proc_status daemon_uid allowed_gid c),
      ud_peer_uid = map_option pi_uid cred, ud_peer_gid = map_option pi_gid cred\<rparr>"

definition uds_call :: "uds_auth_decision option \<Rightarrow> int \<Rightarrow> ((auth_code + unit) \<times> int) option" where
  "uds_call decision rejection_count =
     (if (case decision of Some d \<Rightarrow> ud_authorized d | None \<Rightarrow> False) then Some (Inr (), rejection_count)
      else map_option (\<lambda>n. (Inl PermissionDenied, n)) (count_rejection rejection_count))"

section \<open>Lemmas on text\<close>

lemma strip_str_Some: "strip_str p s = Some r \<longleftrightarrow> s = p @ r"
  by (auto simp: strip_str_def prefix_def)

lemma find_map_skip: "\<forall>x \<in> set xs. f x = None \<Longrightarrow> find_map f (xs @ ys) = find_map f ys"
  by (induction xs) auto

definition plain_line :: "string \<Rightarrow> bool" where
  "plain_line l \<longleftrightarrow> CHR 0x0A \<notin> set l \<and> CHR 0x0D \<notin> set l"

lemma split_lines_plain:
  "plain_line l \<Longrightarrow> CHR 0x0D \<notin> set w \<Longrightarrow> split_lines (l @ CHR 0x0A # cs) w = (rev w @ l) # split_lines cs []"
  by (induction l arbitrary: w) (auto simp: plain_line_def split: list.splits)

lemma split_lines_block:
  "list_all plain_line ls \<Longrightarrow> split_lines (concat (map (\<lambda>l. l @ [CHR 0x0A]) ls) @ cs) [] = ls @ split_lines cs []"
  by (induction ls) (auto simp: split_lines_plain)

lemma split_spaces_word:
  "list_all (\<lambda>c. \<not> is_ascii_space c) w \<Longrightarrow> is_ascii_space sp \<Longrightarrow> w \<noteq> [] \<or> v \<noteq> [] \<Longrightarrow>
   split_spaces (w @ sp # cs) v = (rev v @ w) # split_spaces cs []"
proof (induction w arbitrary: v)
  case (Cons c w)
  then show ?case using Cons.IH[of "c # v"] by simp
qed simp

lemma decimal_no_space: "list_all (\<lambda>c. \<not> is_ascii_space c) (decimal n)" "decimal n \<noteq> []"
proof -
  obtain ds where ds: "decimal n = map digit_char ds" "ds \<noteq> []" "\<forall>d \<in> set ds. d < 10" using decimal_digits[of n] by blast
  have "\<not> is_ascii_space (digit_char d)" if "d < 10" for d
    using that by (simp add: is_ascii_space_def digit_char_def)
  then show "list_all (\<lambda>c. \<not> is_ascii_space c) (decimal n)" "decimal n \<noteq> []"
    using ds by (auto simp: list_all_iff)
qed

lemma decimal_plain: "plain_line (decimal n)"
proof -
  have "is_ascii_space CHR 0x0A" "is_ascii_space CHR 0x0D" by (simp_all add: is_ascii_space_def)
  then show ?thesis using decimal_no_space(1)[of n] by (auto simp: plain_line_def list_all_iff)
qed

lemma split_spaces_numbers:
  "split_spaces (concat (map (\<lambda>g. decimal g @ '' '') gids)) [] = map decimal gids"
proof (induction gids)
  case (Cons g gids)
  have "is_ascii_space CHR '' ''" by (simp add: is_ascii_space_def)
  then show ?case using split_spaces_word[of "decimal g" "CHR '' ''" "[]"] decimal_no_space[of g] Cons by simp
qed simp

lemma parse_u32_decimal: "g \<le> u32_max \<Longrightarrow> parse_u32 (decimal g) = Some g"
  by (simp add: parse_u32_def filter_opt_def parse_usize_decimal)

text \<open>The text of \<open>/proc/<pid>/status\<close>: some lines, the groups, and the rest.\<close>

definition status_text :: "string list \<Rightarrow> u32 list \<Rightarrow> string \<Rightarrow> string" where
  "status_text before gids rest =
     concat (map (\<lambda>l. l @ [CHR 0x0A]) before) @ ''Groups:'' @ [CHR 0x09] @ concat (map (\<lambda>g. decimal g @ '' '') gids) @ CHR 0x0A # rest"

lemma group_member_status:
  assumes "list_all plain_line before" "list_all (\<lambda>l. \<not> prefix ''Groups:'' l) before" "list_all (\<lambda>g. g \<le> u32_max) gids"
    "proc_status pid = Some (status_text before gids rest)"
  shows "peer_is_group_member_linux proc_status pid gid \<longleftrightarrow> gid \<in> set gids"
proof -
  let ?g = "''Groups:'' @ [CHR 0x09] @ concat (map (\<lambda>g. decimal g @ '' '') gids)"
  have plain: "plain_line ?g"
    using decimal_plain by (induction gids) (auto simp: plain_line_def)
  have lines: "split_lines (status_text before gids rest) [] = before @ ?g # split_lines rest []"
    using split_lines_block[OF assms(1)] split_lines_plain[OF plain, of "[]" rest] by (simp add: status_text_def)
  have "find_map (strip_str ''Groups:'') (split_lines (status_text before gids rest) [])
      = Some ([CHR 0x09] @ concat (map (\<lambda>g. decimal g @ '' '') gids))"
    unfolding lines using assms(2)
    by (subst find_map_skip) (auto simp: strip_str_def list_all_iff)
  moreover have "split_spaces ([CHR 0x09] @ concat (map (\<lambda>g. decimal g @ '' '') gids)) [] = map decimal gids"
    using split_spaces_numbers[of gids] by (simp add: is_ascii_space_def)
  moreover have "List.map_filter parse_u32 (map decimal gids) = gids"
    using assms(3) by (induction gids) (auto simp: List.map_filter_simps parse_u32_decimal)
  ultimately show ?thesis using assms(4) by (simp add: peer_is_group_member_linux_def)
qed

section \<open>Lemmas on requests\<close>

definition printable :: "string \<Rightarrow> bool" where
  "printable v \<longleftrightarrow> header_to_str v = Some v"

lemma header_to_str_Some: "header_to_str v = Some w \<longleftrightarrow> w = v \<and> printable v"
  by (auto simp: header_to_str_def printable_def split: if_splits)

lemma printable_append: "printable (v @ w) \<longleftrightarrow> printable v \<and> printable w"
  by (auto simp: printable_def header_to_str_def)

lemma printable_bearer: "printable (''Bearer '' @ t) \<longleftrightarrow> printable t"
  unfolding printable_append by (simp add: printable_def header_to_str_def)

lemma presented_token:
  "Option.bind (Option.bind authorization header_to_str) (strip_str p) = Some s
   \<longleftrightarrow> authorization = Some (p @ s) \<and> printable (p @ s)"
  by (cases authorization) (auto simp: bind_Some_conv header_to_str_Some strip_str_Some)

lemma bearer_call_cases:
  assumes "ba_rejection_count b < i64_max"
  shows "bearer_call authorization b =
    (if authorization = Some (''Bearer '' @ token_bytes (ba_token b)) \<and> printable (token_bytes (ba_token b)) then Some (Inr (), b)
     else Some (Inl Unauthenticated, b\<lparr>ba_rejection_count := ba_rejection_count b + 1\<rparr>))"
proof (cases "Option.bind (Option.bind authorization header_to_str) (strip_str ''Bearer '')")
  case None
  have "\<not> (authorization = Some (''Bearer '' @ t) \<and> printable t)" for t
    using None presented_token[of authorization "''Bearer ''" t] printable_bearer[of t] by auto
  then show ?thesis using None assms by (simp add: bearer_call_def count_rejection_def)
next
  case (Some t)
  then have "authorization = Some (''Bearer '' @ t)" "printable t"
    using presented_token[of authorization "''Bearer ''" t] printable_bearer[of t] by auto
  then show ?thesis using Some assms by (auto simp: bearer_call_def count_rejection_def)
qed

fun bearer_calls :: "string option list \<Rightarrow> bearer_auth_interceptor \<Rightarrow> ((auth_code + unit) list \<times> bearer_auth_interceptor) option" where
  "bearer_calls [] b = Some ([], b)"
| "bearer_calls (h # hs) b =
     (case bearer_call h b of
        None \<Rightarrow> None
      | Some (r, b1) \<Rightarrow> map_option (\<lambda>(rs, b2). (r # rs, b2)) (bearer_calls hs b1))"

section \<open>Properties\<close>



text \<open>
  C19. Only the owner and the group get in: on Linux a connection to the socket whose peer the kernel
  identifies has all its requests answered if its user runs the daemon or the configured group is one of those the kernel
  lists for its process, and has each of them rejected and counted otherwise; a peer without credentials never gets in.
\<close>

theorem uds_gate_exact:
  assumes "list_all plain_line before" "list_all (\<lambda>l. \<not> prefix ''Groups:'' l) before" "list_all (\<lambda>g. g \<le> u32_max) gids"
    "proc_status pid = Some (status_text before gids rest)" "pi_pid peer = Some pid" "n < i64_max"
  shows "uds_call (Some (pre_authorized True proc_status daemon_uid allowed_gid (Some peer))) n =
      (if pi_uid peer = daemon_uid \<or> (\<exists>gid \<in> set gids. allowed_gid = Some gid) then Some (Inr (), n) else Some (Inl PermissionDenied, n + 1))
    \<and> uds_call (Some (pre_authorized True proc_status daemon_uid allowed_gid None)) n = Some (Inl PermissionDenied, n + 1)
    \<and> uds_call None n = Some (Inl PermissionDenied, n + 1)"
  using group_member_status[of before gids proc_status pid rest, OF assms(1-4)] assms(5,6)
  by (auto simp: uds_call_def pre_authorized_def peer_is_authorized_def peer_is_group_member_def count_rejection_def split: option.splits)

theorem uds_gate_exact_witness:
  "uds_call (Some (pre_authorized True (\<lambda>_. Some (status_text [''Name:'' @ [CHR 0x09] @ ''tymux''] [4, 27] [])) 1000 (Some 27)
      (Some \<lparr>pi_uid = 1001, pi_gid = 1001, pi_pid = Some 42\<rparr>))) 0 = Some (Inr (), 0)"
  using uds_gate_exact[of "[''Name:'' @ [CHR 0x09] @ ''tymux'']" "[4, 27]" "\<lambda>_. Some (status_text [''Name:'' @ [CHR 0x09] @ ''tymux''] [4, 27] [])"
      42 "[]" "\<lparr>pi_uid = 1001, pi_gid = 1001, pi_pid = Some 42\<rparr>" 0 1000 "Some 27"]
  by (simp add: plain_line_def)

text \<open>
  An empty flag hides the environment: with \<open>--token=\<close> on the command line there is no token whatever
  \<open>TYMUXD_TOKEN\<close> says, \<open>--socket-group=\<close> likewise turns the group off, and \<open>--socket-path=\<close> names the empty path.
\<close>

theorem empty_flags_hide_env:
  "resolve_token [''tymuxd'', ''--token=''] env = None
   \<and> resolve_socket_group_name [''tymuxd'', ''--socket-group=''] env = None
   \<and> resolve_uds_socket_path [''tymuxd'', ''--socket-path=''] env uid = Path False []"
  by (simp add: resolve_token_def resolve_socket_group_name_def resolve_uds_socket_path_def flag_value_def or_opt_def strip_str_def
      token_parse_def filter_opt_def path_of_def)

text \<open>
  Two sockets of one directory share a lock when their names differ after the last dot only, so that a
  daemon on one of them keeps a daemon on the other from starting.
\<close>

theorem lock_names_collide:
  "with_extension (path_of ''/run/t/main.a'') ''sock.lock'' = with_extension (path_of ''/run/t/main.b'') ''sock.lock''
   \<and> fst (acquire_socket_lock no_failures (path_of ''/run/t/main.b'')
            (snd (acquire_socket_lock no_failures (path_of ''/run/t/main.a'') os))) = Inl AlreadyStarting"
  by (simp add: path_of_def file_stem_def acquire_socket_lock_def no_failures_def Let_def add_node_def)

end
