(* ===== verification/Startup.thy ===== *)
theory Startup
  imports Auth Daemon_Properties
begin

text \<open>
  From the command line to a serving daemon: \<open>main\<close> of \<open>crates/tymuxd/src/main.rs\<close> and the functions it calls,
  with what the listeners do with a request before a handler sees it.

  \<^item> \<open>tymuxd_main\<close> follows \<open>main\<close> from the first look at the arguments to the point where both
    listeners are bound. \<open>startup_input\<close> is what it draws from its surroundings: the standard library's parser of
    socket addresses, the group database, the answers of the kernel, the files of the sessions directory and the clock.
  \<^item> An exit with a message is \<open>Refused\<close>; a panic is \<open>None\<close>.
  \<^item> \<open>serve_tcp\<close> and \<open>serve_uds\<close> put the interceptor of a listener in front of the handlers of the daemon.
  \<^item> Left out: logging, \<open>setsid\<close>'s effect on the terminal, the text of the help, tonic's transport.
\<close>

section \<open>Addresses\<close>

datatype ip_addr = V4 u8 u8 u8 u8 | V6 nat

fun is_loopback :: "ip_addr \<Rightarrow> bool" where
  "is_loopback (V4 a b c d) = (a = 127)"
| "is_loopback (V6 n) = (n = 1)"

fun is_unspecified :: "ip_addr \<Rightarrow> bool" where
  "is_unspecified (V4 a b c d) = (a = 0 \<and> b = 0 \<and> c = 0 \<and> d = 0)"
| "is_unspecified (V6 n) = (n = 0)"

record socket_addr =
  sa_ip :: ip_addr
  sa_port :: u16

definition tcp_probe_target :: "socket_addr \<Rightarrow> socket_addr" where
  "tcp_probe_target addr =
     (if is_unspecified (sa_ip addr)
      then addr\<lparr>sa_ip := (case sa_ip addr of V6 _ \<Rightarrow> V6 1 | V4 _ _ _ _ \<Rightarrow> V4 127 0 0 1)\<rparr>
      else addr)"

section \<open>Pieces of the start-up\<close>

definition interpret_setsid_result :: "i32 \<Rightarrow> i32 \<Rightarrow> i32 + i32" where
  "interpret_setsid_result sid eno = (if sid = -1 then Inl eno else Inr sid)"

fun count_node :: "persisted_layout_node \<Rightarrow> usize" where
  "count_node (PLeaf pane) = (if pp_command pane \<noteq> [] \<and> pp_exit_code pane = None then 1 else 0)"
| "count_node (PSplit orient children) = sum_list (map (\<lambda>(c, _). count_node c) children)"

definition count_orphan_candidates :: "persisted_session_record list \<Rightarrow> usize" where
  "count_orphan_candidates records = sum_list (map (\<lambda>w. count_node (pw_layout w)) (concat (map pq_windows records)))"

definition DEFAULT_SHUTDOWN_DRAIN :: u64 where "DEFAULT_SHUTDOWN_DRAIN = 5 * 10 ^ 9"
definition MIN_SHUTDOWN_DRAIN :: u64 where "MIN_SHUTDOWN_DRAIN = 100 * 10 ^ 6"

text \<open>\<open>Duration::try_from_secs_f64\<close> in nanoseconds, rounded to nearest, ties to even.\<close>

fun try_from_secs :: "fp \<Rightarrow> u64 option" where
  "try_from_secs NaN = None"
| "try_from_secs (Inf _) = None"
| "try_from_secs (Fin x) = (if x < 0 \<or> 2 ^ 64 \<le> x then None else Some (nat (round_half_even (x * 10 ^ 9))))"

fun drain_flag :: "string list \<Rightarrow> string option" where
  "drain_flag [] = None"
| "drain_flag (a # as) =
     (case strip_str ''--shutdown-drain-secs='' a of
        Some v \<Rightarrow> Some v
      | None \<Rightarrow> if a = ''--shutdown-drain-secs'' \<and> as \<noteq> [] then Some (hd as) else drain_flag as)"

text \<open>\<open>parse_f64\<close> is \<open>v.trim().parse::<f64>().ok()\<close>.\<close>

definition resolve_shutdown_drain :: "(string \<Rightarrow> fp option) \<Rightarrow> string list \<Rightarrow> environment \<Rightarrow> u64" where
  "resolve_shutdown_drain parse_f64 args env =
     (case Option.bind (Option.bind (or_opt (drain_flag args) (env ''TYMUXD_SHUTDOWN_DRAIN_SECS'')) parse_f64) try_from_secs of
        None \<Rightarrow> DEFAULT_SHUTDOWN_DRAIN
      | Some d \<Rightarrow> max d MIN_SHUTDOWN_DRAIN)"

definition stale_session_max_age :: "environment \<Rightarrow> u64 option" where
  "stale_session_max_age env =
     (case Option.bind (env ''TYMUXD_STALE_SESSION_MAX_AGE_DAYS'') parse_usize of
        None \<Rightarrow> Some STALE_SESSION_MAX_AGE
      | Some days \<Rightarrow> if days * 86400 \<le> u64_max then Some (days * 86400) else None)"

definition restore_records :: "u64 \<Rightarrow> u64 \<Rightarrow> session_file list option \<Rightarrow> persisted_session_record list" where
  "restore_records max_age now files =
     load_all (if max_age = 0 then files else map_option (\<lambda>fs. snd (prune_stale_at max_age now fs)) files)"

definition listener_ended_unexpectedly :: "bool \<Rightarrow> bool" where
  "listener_ended_unexpectedly shutdown_requested = (\<not> shutdown_requested)"

definition exit_if_listener_ended_unexpectedly :: "bool \<Rightarrow> nat option" where
  "exit_if_listener_ended_unexpectedly shutdown_requested = (if listener_ended_unexpectedly shutdown_requested then Some 1 else None)"

definition supervise_tcp_listener :: "bool \<Rightarrow> bool \<Rightarrow> probe_wake list \<Rightarrow> nat option option" where
  "supervise_tcp_listener loopback shutdown_requested ws =
     map_option (\<lambda>(ls, r). if r = Some ListenerDead then exit_if_listener_ended_unexpectedly shutdown_requested else None)
       (tcp_health_probe loopback 0 ws)"

definition exit_on_listener_death :: "bool \<Rightarrow> 'c accept_output \<Rightarrow> nat option" where
  "exit_on_listener_death shutdown_requested out =
     (if ao_dead out then exit_if_listener_ended_unexpectedly shutdown_requested else None)"

section \<open>The socket\<close>

definition and_then :: "('e + 'a) \<times> 's \<Rightarrow> ('a \<Rightarrow> 's \<Rightarrow> ('e + 'b) \<times> 's) \<Rightarrow> ('e + 'b) \<times> 's" where
  "and_then r f = (case r of (Inl e, s) \<Rightarrow> (Inl e, s) | (Inr x, s) \<Rightarrow> f x s)"

definition claim_socket :: "sys_env \<Rightarrow> sys_env \<Rightarrow> path \<Rightarrow> u32 option \<Rightarrow> os_state \<Rightarrow> (start_error + path \<times> path) \<times> os_state" where
  "claim_socket sys1 sys2 socket_path allowed_gid os =
     and_then (ensure_socket_parent_dir sys1 socket_path allowed_gid os) (\<lambda>_ os.
     and_then (acquire_socket_lock sys1 socket_path os) (\<lambda>lock os.
     and_then (reconcile_stale_socket sys1 socket_path os) (\<lambda>_ os.
     and_then (bind_uds_listener sys2 socket_path allowed_gid os) (\<lambda>listener os.
     (Inr (lock, listener), os)))))"

section \<open>The main function\<close>

record ('v, 'p) startup_input =
  si_args :: "string list"
  si_env :: environment
  si_macos :: bool
  si_rlimit :: "io_error + (u64 \<times> u64)"
  si_setrlimit :: "u64 \<Rightarrow> u64 \<Rightarrow> io_error + unit"
  si_parse_addr :: "string \<Rightarrow> socket_addr option"
  si_parse_f64 :: "string \<Rightarrow> fp option"
  si_getgrnam :: "string \<Rightarrow> u32 option"
  si_sys1 :: sys_env
  si_sys2 :: sys_env
  si_sessions :: "io_error + session_file list option"
  si_now :: u64
  si_tcp_bind :: "io_error option"
  si_streams :: "nat \<Rightarrow> ('v, 'p) stream"

datatype printed = HelpText | BuildInfo | VersionText

datatype refusal = BadAddress | TokenRequired | UnknownGroup string | SocketRefused start_error
  | SessionsDir io_error | TcpBind io_error

record ('v, 'p) serving =
  sv_daemon :: "('v, 'p) daemon"
  sv_uid :: u32
  sv_allowed_gid :: "u32 option"
  sv_socket :: path
  sv_lock :: path
  sv_tcp :: "(socket_addr \<times> bearer_token option) option"
  sv_child_nofile :: "u64 option"
  sv_orphans :: usize
  sv_drain :: u64

datatype ('v, 'p) outcome = Printed printed | Refused refusal | Serving "('v, 'p) serving"

definition info_flag :: "string list \<Rightarrow> printed option" where
  "info_flag args =
     (if ''-h'' \<in> set args \<or> ''--help'' \<in> set args then Some HelpText
      else if ''--build-info'' \<in> set args then Some BuildInfo
      else if ''-V'' \<in> set args \<or> ''--version'' \<in> set args then Some VersionText
      else None)"

definition child_nofile :: "('v, 'p) startup_input \<Rightarrow> u64 option option" where
  "child_nofile si =
     map_option (\<lambda>(r, _). case r of Inr l \<Rightarrow> Some (soft_before l) | Inl _ \<Rightarrow> None)
       (raise_nofile_limit (si_macos si) (si_rlimit si) (\<lambda>v h k. (si_setrlimit si v h, k)) ())"

definition socket_group :: "('v, 'p) startup_input \<Rightarrow> refusal + u32 option" where
  "socket_group si =
     (case resolve_socket_group_name (si_args si) (si_env si) of
        None \<Rightarrow> Inr None
      | Some name \<Rightarrow> (case resolve_gid_by_name (si_getgrnam si) name of
                        None \<Rightarrow> Inl (UnknownGroup name) | Some gid \<Rightarrow> Inr (Some gid)))"

definition env_ms :: "environment \<Rightarrow> string \<Rightarrow> u64 option" where
  "env_ms env name = Option.bind (env name) parse_usize"

definition start_daemon :: "('v, 'p) startup_input \<Rightarrow> u64 \<Rightarrow> session_file list option \<Rightarrow> persisted_session_record list \<times> ('v, 'p) daemon" where
  "start_daemon si max_age files =
     (let records = restore_records max_age (si_now si) files
      in (records, daemon_new (env_ms (si_env si) ''TYMUXD_DISCONNECT_REGRESSION_WINDOW_MS'')
            (env_ms (si_env si) ''TYMUXD_GRACE_PERIOD_MS'') (load_persisted records engine_new) (si_streams si)))"

text \<open>The part of \<open>main\<close> that runs once the socket is bound.\<close>

definition start_serving :: "('v, 'p) startup_input \<Rightarrow> u64 option \<Rightarrow> socket_addr \<Rightarrow> bearer_token option \<Rightarrow> u32 \<Rightarrow> u32 option
    \<Rightarrow> path \<times> path \<Rightarrow> ('v, 'p) outcome option" where
  "start_serving si nofile addr token uid gid socket =
     (case si_sessions si of
        Inl e \<Rightarrow> Some (Refused (SessionsDir e))
      | Inr files \<Rightarrow>
          (case stale_session_max_age (si_env si) of
             None \<Rightarrow> None
           | Some max_age \<Rightarrow>
               (let (records, daemon) = start_daemon si max_age files;
                    tcp_disabled = resolve_tcp_disabled (si_args si) (si_env si)
                in case (tcp_disabled, si_tcp_bind si) of
                     (False, Some e) \<Rightarrow> Some (Refused (TcpBind e))
                   | _ \<Rightarrow>
                       Some (Serving
                         \<lparr>sv_daemon = daemon, sv_uid = uid, sv_allowed_gid = gid, sv_socket = snd socket, sv_lock = fst socket,
                          sv_tcp = (if tcp_disabled then None else Some (addr, token)), sv_child_nofile = nofile,
                          sv_orphans = count_orphan_candidates records,
                          sv_drain = resolve_shutdown_drain (si_parse_f64 si) (si_args si) (si_env si)\<rparr>))))"

definition tymuxd_main :: "('v, 'p) startup_input \<Rightarrow> os_state \<Rightarrow> (('v, 'p) outcome \<times> os_state) option" where
  "tymuxd_main si os =
     (case info_flag (si_args si) of
        Some p \<Rightarrow> Some (Printed p, os)
      | None \<Rightarrow>
          (case child_nofile si of
             None \<Rightarrow> None
           | Some nofile \<Rightarrow>
               (case si_parse_addr si (case si_env si ''TYMUXD_ADDR'' of Some a \<Rightarrow> a | None \<Rightarrow> ''127.0.0.1:7419'') of
                  None \<Rightarrow> Some (Refused BadAddress, os)
                | Some addr \<Rightarrow>
                    (let token = resolve_token (si_args si) (si_env si); uid = os_euid os in
                     if \<not> check_non_loopback_requires_token (is_loopback (sa_ip addr)) token
                     then Some (Refused TokenRequired, os)
                     else (case socket_group si of
                             Inl r \<Rightarrow> Some (Refused r, os)
                           | Inr gid \<Rightarrow>
                               (case claim_socket (si_sys1 si) (si_sys2 si)
                                       (resolve_uds_socket_path (si_args si) (si_env si) uid) gid os of
                                  (Inl e, os1) \<Rightarrow> Some (Refused (SocketRefused e), os1)
                                | (Inr socket, os1) \<Rightarrow>
                                    map_option (\<lambda>out. (out, os1)) (start_serving si nofile addr token uid gid socket)))))))"

section \<open>Requests through the listeners\<close>

definition serve_tcp :: "powi_fun \<Rightarrow> bearer_token option \<Rightarrow> string option \<Rightarrow> request \<Rightarrow> daemon_env \<Rightarrow> int \<times> ('v, 'p) daemon
    \<Rightarrow> ((auth_code + (status + response)) \<times> int \<times> ('v, 'p) daemon) option" where
  "serve_tcp pw token authorization req dv s =
     (case s of (n, d) \<Rightarrow>
       let run = (\<lambda>n. map_option (\<lambda>(res, d'). (Inr res, n, d')) (handle pw req dv d))
       in case token of
            None \<Rightarrow> run n
          | Some t \<Rightarrow>
              (case bearer_call authorization \<lparr>ba_token = t, ba_rejection_count = n\<rparr> of
                 None \<Rightarrow> None
               | Some (Inl code, b) \<Rightarrow> Some (Inl code, ba_rejection_count b, d)
               | Some (Inr _, b) \<Rightarrow> run (ba_rejection_count b)))"

definition serve_uds :: "powi_fun \<Rightarrow> uds_auth_decision option \<Rightarrow> request \<Rightarrow> daemon_env \<Rightarrow> int \<times> ('v, 'p) daemon
    \<Rightarrow> ((auth_code + (status + response)) \<times> int \<times> ('v, 'p) daemon) option" where
  "serve_uds pw decision req dv s =
     (case s of (n, d) \<Rightarrow>
       case uds_call decision n of
         None \<Rightarrow> None
       | Some (Inl code, n') \<Rightarrow> Some (Inl code, n', d)
       | Some (Inr _, n') \<Rightarrow> map_option (\<lambda>(res, d'). (Inr res, n', d')) (handle pw req dv d))"

section \<open>Lemmas on the socket\<close>

text \<open>What the steps before \<open>bind\<close> leave alone.\<close>

definition same_process :: "os_state \<Rightarrow> os_state \<Rightarrow> bool" where
  "same_process os os' \<longleftrightarrow> os_euid os' = os_euid os \<and> os_egid os' = os_egid os \<and> os_umask os' = os_umask os
     \<and> os_locked os' = os_locked os \<and> os_bound os' = os_bound os"

lemma same_process_refl [simp]: "same_process os os"
  by (simp add: same_process_def)

lemma same_process_trans: "same_process a b \<Longrightarrow> same_process b c \<Longrightarrow> same_process a c"
  by (simp add: same_process_def)

lemma add_node_same [simp]: "same_process os (add_node p k m os)"
  by (simp add: same_process_def add_node_def)

lemma follow_none: "fs p = None \<Longrightarrow> follow n fs p = None"
  by (cases n) simp_all

lemma path_exists_node:
  "path_exists os p \<longleftrightarrow> (case os_fs os p of None \<Rightarrow> False
     | Some nd \<Rightarrow> (case fn_kind nd of FsLink q \<Rightarrow> follow 40 (os_fs os) q \<noteq> None | _ \<Rightarrow> True))"
  by (simp add: path_exists_def numeral_eq_Suc split: option.splits fs_kind.splits)

lemma create_dirs_Cons:
  assumes "create_dirs fail (p # ps) os = (r, os1)"
  shows "(os1 = os \<and> isl r) \<or> (os_fs os p \<noteq> None \<and> create_dirs fail ps os = (r, os1))
     \<or> (os_fs os p = None \<and> (\<exists>f. create_dirs f ps (add_node p FsDir 511 os) = (r, os1)))"
  using assms by (auto split: option.splits if_splits prod.splits nat.splits)

lemma create_dirs_frame:
  "create_dirs fail ps os = (r, os1) \<Longrightarrow> same_process os os1 \<and> (\<forall>q. q \<notin> set ps \<or> os_fs os q \<noteq> None \<longrightarrow> os_fs os1 q = os_fs os q)"
proof (induction ps arbitrary: fail os)
  case (Cons p ps)
  consider "os1 = os" | "create_dirs fail ps os = (r, os1)"
    | f where "os_fs os p = None" "create_dirs f ps (add_node p FsDir 511 os) = (r, os1)"
    using create_dirs_Cons[OF Cons.prems] by blast
  then show ?case
  proof cases
    case 3
    then show ?thesis using Cons.IH[OF 3(2)] same_process_trans[OF add_node_same[of os p FsDir 511]]
      by (auto simp: add_node_def)
  qed (use Cons.IH in auto)
qed simp

lemma create_dirs_made:
  "create_dirs fail ps os = (Inr u, os1) \<Longrightarrow> q \<in> set ps \<Longrightarrow> os_fs os q = None \<Longrightarrow> \<exists>nd. os_fs os1 q = Some nd \<and> fn_uid nd = os_euid os"
proof (induction ps arbitrary: fail os)
  case (Cons p ps)
  consider "os_fs os p \<noteq> None" "create_dirs fail ps os = (Inr u, os1)"
    | f where "os_fs os p = None" "create_dirs f ps (add_node p FsDir 511 os) = (Inr u, os1)"
    using create_dirs_Cons[OF Cons.prems(1)] by auto
  then show ?case
  proof cases
    case 1
    then show ?thesis using Cons by auto
  next
    case 2
    show ?thesis
    proof (cases "q = p")
      case True
      then show ?thesis using create_dirs_frame[OF 2(2)] by (auto simp: add_node_def)
    next
      case False
      then show ?thesis using Cons.IH[OF 2(2)] Cons.prems(2,3) by (simp add: add_node_def)
    qed
  qed
qed simp

lemma set_permissions_frame:
  "set_permissions env p m os = (r, os1) \<Longrightarrow> same_process os os1 \<and> (\<forall>q. q \<noteq> p \<longrightarrow> os_fs os1 q = os_fs os q)
     \<and> (\<forall>u. r = Inr u \<longrightarrow> path_exists os p \<and> (\<exists>nd. os_fs os p = Some nd \<and> os_fs os1 p = Some (nd\<lparr>fn_mode := m\<rparr>)))"
  by (auto simp: set_permissions_def same_process_def split: option.splits if_splits)

lemma butlast_shorter: "cs \<noteq> [] \<Longrightarrow> \<not> prefix cs (butlast cs)"
proof
  assume "cs \<noteq> []" and "prefix cs (butlast cs)"
  then have "length cs \<le> length (butlast cs)" "0 < length cs" using prefix_length_le by blast+
  then show False by (simp only: length_butlast)
qed

lemma parent_differs: "path_parent p = Some q \<Longrightarrow> q \<noteq> p"
  using butlast_shorter by (cases p) (fastforce split: if_splits)

text \<open>The directory of the socket belongs to the daemon and nobody else may write to it.\<close>

definition private_dir :: "u32 option \<Rightarrow> os_state \<Rightarrow> path \<Rightarrow> bool" where
  "private_dir gid os q \<longleftrightarrow> (case os_fs os q of None \<Rightarrow> False
     | Some nd \<Rightarrow> fn_uid nd = os_euid os \<and> fn_mode nd AND 511 = parent_mode gid)"

lemma proper_prefix_apart: "cs \<noteq> [] \<Longrightarrow> Path a cs \<notin> set (map (Path a) (tl (prefixes (butlast cs))))"
  using butlast_shorter[of cs] list.set_sel(2)[of "prefixes (butlast cs)" cs] by (auto simp del: prefixes.simps)

lemma create_dir_all_frame:
  assumes "path_parent p = Some q" and "create_dir_all env q os = (r, os1)"
  shows "same_process os os1 \<and> os_fs os1 p = os_fs os p"
proof -
  obtain a cs where p: "p = Path a cs" by (cases p)
  then have q: "q = Path a (butlast cs)" "cs \<noteq> []" using assms(1) by (auto split: if_splits)
  have "os1 = os \<or> create_dirs (se_mkdir env) (map (Path a) (tl (prefixes (butlast cs)))) os = (r, os1)"
    using assms(2) q(1) by (auto simp: create_dir_all_def split: if_splits option.splits)
  then show ?thesis
  proof
    assume c: "create_dirs (se_mkdir env) (map (Path a) (tl (prefixes (butlast cs)))) os = (r, os1)"
    show ?thesis using create_dirs_frame[OF c] proper_prefix_apart[OF q(2), of a] p by blast
  qed simp
qed

lemma create_dir_all_made:
  assumes "create_dir_all env (Path a cs) os = (Inr u, os1)" "os_fs os (Path a cs) = None" "cs \<noteq> []"
  shows "\<exists>nd. os_fs os1 (Path a cs) = Some nd \<and> fn_uid nd = os_euid os"
proof -
  have "cs \<in> set (tl (prefixes cs))" using assms(3) by (cases cs) auto
  then show ?thesis using create_dirs_made[of _ _ os u os1 "Path a cs"] assms by (auto simp: create_dir_all_def)
qed

lemma ensure_socket_parent_dir_frame:
  assumes "ensure_socket_parent_dir env p gid os = (r, os1)"
  shows "same_process os os1 \<and> os_fs os1 p = os_fs os p"
proof (cases "path_parent p")
  case None
  then show ?thesis using assms by (simp add: ensure_socket_parent_dir_def)
next
  case (Some q)
  obtain x osa where c: "create_dir_all env q os = (x, osa)" by fastforce
  obtain y osb where m: "set_permissions env q (parent_mode gid) osa = (y, osb)" by fastforce
  have "os1 \<in> {os, osa, osb}"
    using assms Some c m by (auto simp: ensure_socket_parent_dir_def split: if_splits option.splits sum.splits)
  then show ?thesis
    using create_dir_all_frame[OF Some c] set_permissions_frame[OF m] parent_differs[OF Some] same_process_trans by auto
qed

lemma ensure_socket_parent_dir_private:
  assumes "ensure_socket_parent_dir env p gid os = (Inr u, os1)" and q: "path_parent p = Some q"
  shows "private_dir gid os1 q"
proof (cases "path_exists os q")
  case True
  then show ?thesis
    using assms by (auto simp: ensure_socket_parent_dir_def private_dir_def split: option.splits if_splits)
next
  case False
  obtain osa where c: "create_dir_all env q os = (Inr (), osa)" and m: "set_permissions env q (parent_mode gid) osa = (Inr (), os1)"
    using assms False by (auto simp: ensure_socket_parent_dir_def split: sum.splits prod.splits)
  obtain a cs where qs: "q = Path a cs" by (cases q)
  note sp = create_dir_all_frame[OF q c] set_permissions_frame[OF m]
  have made: "\<exists>nd. os_fs osa q = Some nd \<and> fn_uid nd = os_euid os"
  proof (cases "cs = []")
    case True
    then have "osa = os" using c qs by (simp add: create_dir_all_def)
    then show ?thesis using sp(2) False by auto
  next
    case cs: False
    show ?thesis
    proof (cases "os_fs os q")
      case None
      then show ?thesis using create_dir_all_made c cs qs by metis
    next
      case (Some nd)
      then show ?thesis using c False qs cs by (auto simp: create_dir_all_def path_exists_def)
    qed
  qed
  then obtain nd where "os_fs os1 q = Some (nd\<lparr>fn_mode := parent_mode gid\<rparr>)" "fn_uid nd = os_euid os" using sp(2) by auto
  moreover have "os_euid os1 = os_euid os" using sp by (simp add: same_process_def)
  moreover have "parent_mode gid AND 511 = parent_mode gid" by (simp add: parent_mode_def)
  ultimately show ?thesis by (simp add: private_dir_def)
qed

definition socket_mode :: "u32 option \<Rightarrow> nat" where
  "socket_mode gid = (if gid \<noteq> None then 432 else 384)"

lemma masked_socket: "masked (if gid \<noteq> None then 79 else 127) 511 = socket_mode gid"
  by (simp add: masked_def socket_mode_def)

definition socket_node :: "os_state \<Rightarrow> u32 option \<Rightarrow> fs_node" where
  "socket_node os gid = \<lparr>fn_kind = FsSocket, fn_uid = os_euid os,
     fn_gid = (case gid of Some g \<Rightarrow> g | None \<Rightarrow> os_egid os), fn_mode = socket_mode gid\<rparr>"

lemma bind_uds_listener_ok:
  assumes "bind_uds_listener env p gid os = (Inr l, os')"
  shows "l = p \<and> os_fs os' p = Some (socket_node os gid) \<and> p \<in> os_bound os' \<and> os_umask os' = os_umask os \<and> os_locked os' = os_locked os
    \<and> os_euid os' = os_euid os \<and> (\<forall>q. path_parent p = Some q \<longrightarrow> private_dir gid os' q)"
proof -
  obtain os1 where e: "ensure_socket_parent_dir env p gid os = (Inr (), os1)"
    using assms by (auto simp: bind_uds_listener_def split: prod.splits sum.splits)
  note f = ensure_socket_parent_dir_frame[OF e]
  define os3 where "os3 = (add_node p FsSocket 511 (os1\<lparr>os_umask := (if gid \<noteq> None then 79 else 127), os_bound := insert p (os_bound os1)\<rparr>))\<lparr>os_umask := os_umask os1\<rparr>"
  have out: "l = p \<and> os' = (case gid of None \<Rightarrow> os3 | Some g \<Rightarrow> os3\<lparr>os_fs := (os_fs os3)(p \<mapsto> (the (os_fs os3 p))\<lparr>fn_gid := g\<rparr>)\<rparr>)"
    using assms e by (auto simp: bind_uds_listener_def unix_bind_def chown_group_def os3_def Let_def split: option.splits if_splits prod.splits sum.splits)
  have dir: "private_dir gid os' q" if q: "path_parent p = Some q" for q
    using ensure_socket_parent_dir_private[OF e q] parent_differs[OF q] out
    by (auto simp: private_dir_def os3_def add_node_def split: option.splits)
  show ?thesis using dir out f masked_socket[of gid]
    by (auto simp: os3_def add_node_def socket_node_def same_process_def split: option.splits)
qed

lemma and_then_Inr: "and_then r f = (Inr y, s) \<longleftrightarrow> (\<exists>x s'. r = (Inr x, s') \<and> f x s' = (Inr y, s))"
  by (auto simp: and_then_def split: prod.splits sum.splits)

lemma acquire_socket_lock_frame:
  assumes "acquire_socket_lock env p os = (r, os1)"
  shows "os_euid os1 = os_euid os \<and> os_egid os1 = os_egid os \<and> os_umask os1 = os_umask os \<and> os_bound os1 = os_bound os
    \<and> (\<forall>q. path_exists os q \<longrightarrow> os_fs os1 q = os_fs os q)
    \<and> (case r of Inl _ \<Rightarrow> os_locked os1 = os_locked os
       | Inr lock \<Rightarrow> lock = with_extension p ''sock.lock'' \<and> lock \<notin> os_locked os \<and> os_locked os1 = insert lock (os_locked os))"
  using assms by (auto simp: acquire_socket_lock_def Let_def add_node_def split: option.splits if_splits)

lemma reconcile_frame:
  "reconcile_stale_socket env p os = (r, os1) \<Longrightarrow> same_process os os1"
  by (auto simp: reconcile_stale_socket_def same_process_def split: if_splits option.splits)

lemma claim_socket_ok:
  assumes "claim_socket sys1 sys2 p gid os = (Inr (lock, l), os')"
  shows "l = p \<and> lock = with_extension p ''sock.lock'' \<and> lock \<notin> os_locked os \<and> os_locked os' = insert lock (os_locked os)
    \<and> os_fs os' p = Some (socket_node os gid) \<and> p \<in> os_bound os' \<and> os_umask os' = os_umask os
    \<and> (\<forall>q. path_parent p = Some q \<longrightarrow> private_dir gid os' q)"
proof -
  obtain os1 os2 os3 where e: "ensure_socket_parent_dir sys1 p gid os = (Inr (), os1)"
    and a: "acquire_socket_lock sys1 p os1 = (Inr lock, os2)"
    and r: "reconcile_stale_socket sys1 p os2 = (Inr (), os3)"
    and b: "bind_uds_listener sys2 p gid os3 = (Inr l, os')"
    using assms by (auto simp: claim_socket_def and_then_Inr)
  note fr = ensure_socket_parent_dir_frame[OF e] acquire_socket_lock_frame[OF a] reconcile_frame[OF r]
  have "socket_node os3 gid = socket_node os gid"
    using fr by (simp add: socket_node_def same_process_def cong: option.case_cong)
  then show ?thesis using bind_uds_listener_ok[OF b] fr by (auto simp: same_process_def)
qed

lemma claim_socket_locked:
  assumes "with_extension p ''sock.lock'' \<in> os_locked os" and nd: "os_fs os p = Some nd" "fn_kind nd = FsSocket"
  shows "\<exists>e os1. claim_socket sys1 sys2 p gid os = (Inl e, os1) \<and> os_fs os1 p = Some nd \<and> same_process os os1"
proof -
  obtain r os1 where e: "ensure_socket_parent_dir sys1 p gid os = (r, os1)" by fastforce
  note f1 = ensure_socket_parent_dir_frame[OF e]
  obtain a os2 where l: "acquire_socket_lock sys1 p os1 = (a, os2)" by fastforce
  note f2 = acquire_socket_lock_frame[OF l]
  have "path_exists os1 p" using f1 nd by (simp add: path_exists_def numeral_eq_Suc)
  moreover have "\<exists>e. a = Inl e" using f1 f2 assms(1) by (auto simp: same_process_def split: sum.splits)
  ultimately show ?thesis using e l f1 f2 nd
    by (cases r) (auto simp: claim_socket_def and_then_def same_process_def)
qed

lemma tymuxd_main_serving:
  assumes "tymuxd_main si os = Some (Serving sv, os')"
  obtains nofile addr gid socket where "child_nofile si = Some nofile"
    "si_parse_addr si (case si_env si ''TYMUXD_ADDR'' of Some a \<Rightarrow> a | None \<Rightarrow> ''127.0.0.1:7419'') = Some addr"
    "check_non_loopback_requires_token (is_loopback (sa_ip addr)) (resolve_token (si_args si) (si_env si))"
    "socket_group si = Inr gid"
    "claim_socket (si_sys1 si) (si_sys2 si) (resolve_uds_socket_path (si_args si) (si_env si) (os_euid os)) gid os = (Inr socket, os')"
    "start_serving si nofile addr (resolve_token (si_args si) (si_env si)) (os_euid os) gid socket = Some (Serving sv)"
  using assms by (auto simp: tymuxd_main_def Let_def split: option.splits if_splits sum.splits prod.splits)

lemma tymuxd_main_claims:
  assumes "tymuxd_main si os = Some (out, os')"
  shows "(os' = os \<and> (\<forall>sv. out \<noteq> Serving sv)) \<or>
    (\<exists>gid r. claim_socket (si_sys1 si) (si_sys2 si) (resolve_uds_socket_path (si_args si) (si_env si) (os_euid os)) gid os = (r, os')
       \<and> (isl r \<longrightarrow> (\<forall>sv. out \<noteq> Serving sv)))"
  using assms
  by (auto simp: tymuxd_main_def Let_def split: option.splits if_splits sum.splits prod.splits) (metis sum.disc(2))+

lemma start_serving_Serving:
  assumes "start_serving si nofile addr token uid gid socket = Some (Serving sv)"
  obtains files max_age where "si_sessions si = Inr files" "stale_session_max_age (si_env si) = Some max_age"
    "sv_daemon sv = snd (start_daemon si max_age files)" "sv_uid sv = uid" "sv_allowed_gid sv = gid" "sv_socket sv = snd socket"
    "sv_lock sv = fst socket" "sv_tcp sv = (if resolve_tcp_disabled (si_args si) (si_env si) then None else Some (addr, token))"
  using assms by (auto simp: start_serving_def Let_def split: sum.splits option.splits prod.splits bool.splits)

lemma resolve_token_nonempty: "resolve_token args env = Some t \<Longrightarrow> token_bytes t \<noteq> []"
  by (auto simp: resolve_token_def token_parse_def bind_Some_conv split: if_splits)

lemma serve_tcp_rejects:
  "n < i64_max \<Longrightarrow> authorization \<noteq> Some (''Bearer '' @ token_bytes t) \<Longrightarrow>
   serve_tcp pw (Some t) authorization req dv (n, d) = Some (Inl Unauthenticated, n + 1, d)"
  using bearer_call_cases[of "\<lparr>ba_token = t, ba_rejection_count = n\<rparr>" authorization] by (simp add: serve_tcp_def)

section \<open>Lemmas on the restored sessions\<close>

fun records_fit :: "engine \<Rightarrow> persisted_session_record list \<Rightarrow> bool" where
  "records_fit g [] = True"
| "records_fit g (r # rs) = (record_fits g r \<and> records_fit (load_record r g) rs)"

lemma load_persisted_reachable:
  "reachable engine_init (engine_step pw) g \<Longrightarrow> records_fit g rs \<Longrightarrow> reachable engine_init (engine_step pw) (load_persisted rs g)"
  by (induction rs arbitrary: g) (auto simp: load_persisted_def intro: reachable.reach_step engine_step.load)

lemma load_windows_viewports: "eg_viewports (snd (load_windows sid policy ws g)) = eg_viewports g"
proof (induction ws arbitrary: g)
  case (Cons w ws)
  have f: "eg_viewports (fold (\<lambda>p h. on_sup (f p) (insert_pane p x h)) ps g) = eg_viewports g" for f x ps g
    by (induction ps arbitrary: g) (auto simp: on_sup_def insert_pane_def)
  have "eg_viewports (snd (load_window sid policy w g)) = eg_viewports g"
    by (simp add: load_window_def Let_def f insert_window_def split: prod.splits)
  then show ?case using Cons by (auto simp: Let_def split: prod.splits) (metis snd_conv)
qed simp

lemma load_persisted_viewports: "eg_viewports (load_persisted rs g) = eg_viewports g"
proof (induction rs arbitrary: g)
  case (Cons r rs)
  have "eg_viewports (load_record r g) = eg_viewports g"
    using load_windows_viewports by (simp add: load_record_def Let_def put_session_def split: prod.splits) (metis snd_conv)
  then show ?case using Cons[of "load_record r g"] by (simp add: load_persisted_def)
qed (simp add: load_persisted_def)

section \<open>An example start\<close>

definition start_env :: environment where
  "start_env = [''TYMUXD_ADDR'' \<mapsto> ''0.0.0.0:7419'', ''TYMUXD_TOKEN'' \<mapsto> ''s3cret'', ''XDG_RUNTIME_DIR'' \<mapsto> ''/r'']"

definition example_input :: "(unit, nat list) startup_input" where
  "example_input =
     \<lparr>si_args = [''tymuxd''], si_env = start_env, si_macos = False, si_rlimit = Inr (1024, 1024), si_setrlimit = (\<lambda>_ _. Inr ()),
      si_parse_addr = (\<lambda>a. Some \<lparr>sa_ip = (if a = ''0.0.0.0:7419'' then V4 0 0 0 0 else V4 127 0 0 1), sa_port = 7419\<rparr>),
      si_parse_f64 = (\<lambda>_. None), si_getgrnam = (\<lambda>_. None), si_sys1 = no_failures, si_sys2 = no_failures,
      si_sessions = Inr (Some []), si_now = 0, si_tcp_bind = None,
      si_streams = (\<lambda>_. stream_new () [] \<lparr>sz_rows = 2, sz_cols = 3\<rparr> 5 10)\<rparr>"

definition example_os :: os_state where
  "example_os = \<lparr>os_euid = 1000, os_egid = 1000, os_umask = 18, os_fs = Map.empty, os_locked = {}, os_bound = {}\<rparr>"

definition example_socket :: path where
  "example_socket = Path True [''r'', ''tymuxd'', ''tymuxd.sock'']"

lemma example_resolves:
  "resolve_token [''tymuxd''] start_env = Some (BearerToken ''s3cret'')"
  "resolve_socket_group_name [''tymuxd''] start_env = None"
  "resolve_uds_socket_path [''tymuxd''] start_env uid = example_socket"
  "resolve_tcp_disabled [''tymuxd''] start_env = False"
  "stale_session_max_age start_env = Some STALE_SESSION_MAX_AGE"
  by (simp_all add: resolve_token_def resolve_socket_group_name_def resolve_uds_socket_path_def default_uds_socket_path_def
      resolve_tcp_disabled_def stale_session_max_age_def flag_value_def or_opt_def filter_opt_def start_env_def strip_str_def
      token_parse_def path_of_def example_socket_def)

lemma example_claim: "\<exists>os'. claim_socket no_failures no_failures example_socket None example_os =
     (Inr (Path True [''r'', ''tymuxd'', ''tymuxd.sock.lock''], example_socket), os')"
  by (simp add: claim_socket_def and_then_def example_socket_def example_os_def ensure_socket_parent_dir_def create_dir_all_def
      set_permissions_def acquire_socket_lock_def reconcile_stale_socket_def bind_uds_listener_def unix_bind_def no_failures_def
      path_exists_node add_node_def file_stem_def parent_mode_def Let_def)

lemma example_fields [simp]:
  "si_args example_input = [''tymuxd'']" "si_env example_input = start_env" "si_sys1 example_input = no_failures"
  "si_sys2 example_input = no_failures" "si_sessions example_input = Inr (Some [])" "si_tcp_bind example_input = None"
  "si_parse_addr example_input a = Some \<lparr>sa_ip = (if a = ''0.0.0.0:7419'' then V4 0 0 0 0 else V4 127 0 0 1), sa_port = 7419\<rparr>"
  "start_env ''TYMUXD_ADDR'' = Some ''0.0.0.0:7419''" "os_euid example_os = 1000"
  by (simp_all add: example_input_def start_env_def example_os_def)

lemma example_serves:
  "\<exists>sv os'. tymuxd_main example_input example_os = Some (Serving sv, os') \<and> sv_socket sv = example_socket
     \<and> sv_tcp sv = Some (\<lparr>sa_ip = V4 0 0 0 0, sa_port = 7419\<rparr>, Some (BearerToken ''s3cret''))"
proof -
  obtain os' where c: "claim_socket no_failures no_failures example_socket None example_os =
     (Inr (Path True [''r'', ''tymuxd'', ''tymuxd.sock.lock''], example_socket), os')" using example_claim by blast
  have n: "child_nofile example_input = Some (Some 1024)"
    by (simp add: child_nofile_def example_input_def raise_nofile_limit_def desired_soft_limit_def nofile_cap_def DEFAULT_NOFILE_CAP_def Let_def)
  have "tymuxd_main example_input example_os = map_option (\<lambda>out. (out, os'))
     (start_serving example_input (Some 1024) \<lparr>sa_ip = V4 0 0 0 0, sa_port = 7419\<rparr> (Some (BearerToken ''s3cret'')) 1000 None
       (Path True [''r'', ''tymuxd'', ''tymuxd.sock.lock''], example_socket))"
    using c by (simp add: tymuxd_main_def info_flag_def n example_resolves check_non_loopback_requires_token_def socket_group_def Let_def)
  then show ?thesis by (simp add: start_serving_def example_resolves Let_def split: prod.splits)
qed

lemma example_main_total: "\<exists>out os2. tymuxd_main example_input os = Some (out, os2)"
proof -
  have n: "child_nofile example_input = Some (Some 1024)"
    by (simp add: child_nofile_def example_input_def raise_nofile_limit_def desired_soft_limit_def nofile_cap_def DEFAULT_NOFILE_CAP_def Let_def)
  obtain r os1 where "claim_socket no_failures no_failures example_socket None os = (r, os1)" by fastforce
  then show ?thesis
    by (cases r) (auto simp: tymuxd_main_def info_flag_def n example_resolves check_non_loopback_requires_token_def socket_group_def
        start_serving_def Let_def split: prod.splits)
qed

definition loopback_input :: "(unit, nat list) startup_input" where
  "loopback_input = example_input\<lparr>si_parse_addr := (\<lambda>_. Some \<lparr>sa_ip = V4 127 0 0 1, sa_port = 7419\<rparr>)\<rparr>"

lemma loopback_serves:
  "\<exists>sv os'. tymuxd_main loopback_input example_os = Some (Serving sv, os')
     \<and> sv_tcp sv = Some (\<lparr>sa_ip = V4 127 0 0 1, sa_port = 7419\<rparr>, Some (BearerToken ''s3cret''))"
proof -
  obtain os' where c: "claim_socket no_failures no_failures example_socket None example_os =
     (Inr (Path True [''r'', ''tymuxd'', ''tymuxd.sock.lock''], example_socket), os')" using example_claim by blast
  have "child_nofile loopback_input = Some (Some 1024)"
    by (simp add: child_nofile_def loopback_input_def example_input_def raise_nofile_limit_def desired_soft_limit_def nofile_cap_def
        DEFAULT_NOFILE_CAP_def Let_def)
  with c show ?thesis
    by (auto simp: tymuxd_main_def info_flag_def loopback_input_def example_resolves check_non_loopback_requires_token_def socket_group_def
        start_serving_def Let_def split: prod.splits)
qed

section \<open>Properties\<close>

text \<open>
  C10. No open door to the network: if the daemon comes up with a listener on an address other than loopback,
  a non-empty token is configured, and a request without exactly that token in its authorization header is answered
  Unauthenticated, is counted, and leaves the daemon as it was.
\<close>

theorem network_needs_token:
  assumes "tymuxd_main si os = Some (Serving sv, os')" and "sv_tcp sv = Some (addr, token)" and "\<not> is_loopback (sa_ip addr)"
    and "n < i64_max"
  shows "\<exists>t. t \<noteq> [] \<and> token = Some (BearerToken t)
     \<and> (authorization = Some (''Bearer '' @ t) \<or> serve_tcp pw token authorization req dv (n, d) = Some (Inl Unauthenticated, n + 1, d))"
proof -
  obtain nofile a gid socket where c: "check_non_loopback_requires_token (is_loopback (sa_ip a)) (resolve_token (si_args si) (si_env si))"
    and s: "start_serving si nofile a (resolve_token (si_args si) (si_env si)) (os_euid os) gid socket = Some (Serving sv)"
    using assms(1) by (rule tymuxd_main_serving)
  have "a = addr \<and> token = resolve_token (si_args si) (si_env si)"
    using s assms(2) by (auto elim!: start_serving_Serving split: if_splits)
  then obtain t where t: "token = Some t" "token_bytes t \<noteq> []"
    using c assms(3) resolve_token_nonempty by (auto simp: check_non_loopback_requires_token_def)
  then show ?thesis using serve_tcp_rejects[OF assms(4), of authorization t pw req dv d] by (cases t) auto
qed

theorem network_needs_token_witness:
  "\<exists>sv os'. tymuxd_main example_input example_os = Some (Serving sv, os')
     \<and> (\<forall>dv. serve_tcp example_powi (Some (BearerToken ''s3cret'')) (Some ''Bearer guess'') ListSessions dv (0, sv_daemon sv)
              = Some (Inl Unauthenticated, 1, sv_daemon sv))"
proof -
  obtain sv os' where s: "tymuxd_main example_input example_os = Some (Serving sv, os')"
    "sv_tcp sv = Some (\<lparr>sa_ip = V4 0 0 0 0, sa_port = 7419\<rparr>, Some (BearerToken ''s3cret''))" using example_serves by blast
  have "serve_tcp example_powi (Some (BearerToken ''s3cret'')) (Some ''Bearer guess'') ListSessions dv (0, sv_daemon sv)
      = Some (Inl Unauthenticated, 1, sv_daemon sv)" for dv
    using network_needs_token[OF s, of 0 "Some ''Bearer guess''" example_powi ListSessions dv "sv_daemon sv"] by simp
  then show ?thesis using s(1) by blast
qed

text \<open>
  C34. The socket is private from the start: when the daemon serves, the node at the socket's path is a
  socket of the daemon's user with mode 0600, or 0660 and the configured group, in a directory of the same user that nobody
  else may write to, with the lock file held that nobody held before, and the process's umask is what it was.
\<close>

theorem socket_private:
  assumes "tymuxd_main si os = Some (Serving sv, os')"
  shows "os_fs os' (sv_socket sv) = Some (socket_node os (sv_allowed_gid sv)) \<and> sv_socket sv \<in> os_bound os'
    \<and> sv_lock sv = with_extension (sv_socket sv) ''sock.lock'' \<and> sv_lock sv \<notin> os_locked os \<and> sv_lock sv \<in> os_locked os'
    \<and> (case path_parent (sv_socket sv) of None \<Rightarrow> True | Some q \<Rightarrow> private_dir (sv_allowed_gid sv) os' q)
    \<and> os_umask os' = os_umask os"
proof -
  obtain nofile a gid socket where
    c: "claim_socket (si_sys1 si) (si_sys2 si) (resolve_uds_socket_path (si_args si) (si_env si) (os_euid os)) gid os = (Inr socket, os')"
    and s: "start_serving si nofile a (resolve_token (si_args si) (si_env si)) (os_euid os) gid socket = Some (Serving sv)"
    using assms by (rule tymuxd_main_serving)
  have "sv_socket sv = snd socket \<and> sv_lock sv = fst socket \<and> sv_allowed_gid sv = gid"
    using s by (auto elim!: start_serving_Serving)
  moreover obtain lock l where sk: "socket = (lock, l)" by (cases socket)
  ultimately show ?thesis using claim_socket_ok[OF c[unfolded sk]] by (auto split: option.splits)
qed

theorem socket_private_witness:
  "\<exists>sv os'. tymuxd_main example_input example_os = Some (Serving sv, os') \<and> os_fs os' (sv_socket sv) \<noteq> None"
  using example_serves socket_private[of example_input example_os] by blast

text \<open>
  C16. One daemon per socket: while a daemon serves, a second start that resolves to the same socket path is
  refused, whatever its other settings, and leaves the socket, the listeners and the locks as they were.
\<close>

theorem second_daemon_refused:
  assumes "tymuxd_main si os = Some (Serving sv, os')"
    and "resolve_uds_socket_path (si_args si2) (si_env si2) (os_euid os') = sv_socket sv"
    and "tymuxd_main si2 os' = Some (out, os2)"
  shows "(case out of Serving _ \<Rightarrow> False | _ \<Rightarrow> True) \<and> os_fs os2 (sv_socket sv) = os_fs os' (sv_socket sv)
    \<and> os_bound os2 = os_bound os' \<and> os_locked os2 = os_locked os'"
proof -
  obtain nofile a gid socket where
    c: "claim_socket (si_sys1 si) (si_sys2 si) (resolve_uds_socket_path (si_args si) (si_env si) (os_euid os)) gid os = (Inr socket, os')"
    and s: "start_serving si nofile a (resolve_token (si_args si) (si_env si)) (os_euid os) gid socket = Some (Serving sv)"
    using assms(1) by (rule tymuxd_main_serving)
  have sv: "sv_socket sv = snd socket" using s by (auto elim!: start_serving_Serving)
  note ok = claim_socket_ok[of "si_sys1 si" "si_sys2 si" _ gid os "fst socket" "snd socket" os', simplified, OF c]
  have "\<exists>e os1. claim_socket x y (sv_socket sv) g os' = (Inl e, os1) \<and> os_fs os1 (sv_socket sv) = os_fs os' (sv_socket sv)
      \<and> same_process os' os1" for x y g
    using claim_socket_locked[of "sv_socket sv" os' "socket_node os gid" x y g] ok sv by (auto simp: socket_node_def)
  then have "os_fs os2 (sv_socket sv) = os_fs os' (sv_socket sv) \<and> same_process os' os2 \<and> (\<forall>sv. out \<noteq> Serving sv)"
    using tymuxd_main_claims[OF assms(3)] unfolding assms(2) by (metis Pair_inject same_process_refl sum.disc(1))
  then show ?thesis by (simp add: same_process_def split: outcome.splits)
qed

theorem second_daemon_refused_witness:
  "\<exists>sv os' out os2. tymuxd_main example_input example_os = Some (Serving sv, os') \<and> tymuxd_main example_input os' = Some (out, os2)
     \<and> os_fs os2 (sv_socket sv) = os_fs os' (sv_socket sv)"
proof -
  obtain sv os' where s: "tymuxd_main example_input example_os = Some (Serving sv, os')" "sv_socket sv = example_socket"
    using example_serves by blast
  obtain out os2 where "tymuxd_main example_input os' = Some (out, os2)"
    using example_main_total by blast
  then show ?thesis using second_daemon_refused[OF s(1), of example_input out os2] s by (auto simp: example_resolves)
qed



text \<open>
  A token is enforced on loopback too: the daemon that serves on a loopback address with a token
  configured rejects a request without it.
\<close>

theorem loopback_token_enforced:
  assumes "tymuxd_main si os = Some (Serving sv, os')" and "sv_tcp sv = Some (addr, token)" and "is_loopback (sa_ip addr)"
    and "resolve_token (si_args si) (si_env si) = Some t" and "n < i64_max"
  shows "serve_tcp pw token None req dv (n, d) = Some (Inl Unauthenticated, n + 1, d)"
proof -
  obtain nofile a gid socket where
    s: "start_serving si nofile a (resolve_token (si_args si) (si_env si)) (os_euid os) gid socket = Some (Serving sv)"
    using assms(1) by (rule tymuxd_main_serving)
  have "token = Some t" using s assms(2,4) by (auto elim!: start_serving_Serving split: if_splits)
  then show ?thesis using serve_tcp_rejects[OF assms(5), of None t] by simp
qed

theorem loopback_token_enforced_witness:
  "\<exists>sv os'. tymuxd_main loopback_input example_os = Some (Serving sv, os')
     \<and> (\<forall>dv. serve_tcp example_powi (Some (BearerToken ''s3cret'')) None ListSessions dv (0, sv_daemon sv)
              = Some (Inl Unauthenticated, 1, sv_daemon sv))"
proof -
  obtain sv os' where s: "tymuxd_main loopback_input example_os = Some (Serving sv, os')"
    "sv_tcp sv = Some (\<lparr>sa_ip = V4 127 0 0 1, sa_port = 7419\<rparr>, Some (BearerToken ''s3cret''))" using loopback_serves by blast
  have "serve_tcp example_powi (Some (BearerToken ''s3cret'')) None ListSessions dv (0, sv_daemon sv)
      = Some (Inl Unauthenticated, 1, sv_daemon sv)" for dv
    using loopback_token_enforced[OF s, of "BearerToken ''s3cret''" 0 example_powi ListSessions dv "sv_daemon sv"]
    by (simp add: loopback_input_def example_resolves)
  then show ?thesis using s(1) by blast
qed

text \<open>
  What is not a socket is removed as a stale one: when nobody listens at the path and the attempt to
  connect is refused, a regular file that the path names is deleted.
\<close>

theorem regular_file_removed:
  assumes "os_fs os p = Some nd" and "fn_kind nd = FsFile" and "p \<notin> os_bound os"
  shows "reconcile_stale_socket no_failures p os = (Inr (), os\<lparr>os_fs := (os_fs os)(p := None)\<rparr>)"
  using assms by (simp add: reconcile_stale_socket_def path_exists_node no_failures_def)

theorem regular_file_removed_witness:
  "\<exists>os p. (case os_fs os p of Some nd \<Rightarrow> fn_kind nd = FsFile | None \<Rightarrow> False) \<and> os_fs (snd (reconcile_stale_socket no_failures p os)) p = None"
proof -
  let ?p = "path_of ''/home/a/notes''"
  let ?os = "add_node ?p FsFile 438 example_os"
  have "reconcile_stale_socket no_failures ?p ?os = (Inr (), ?os\<lparr>os_fs := (os_fs ?os)(?p := None)\<rparr>)"
    by (rule regular_file_removed[of _ _ "the (os_fs ?os ?p)"]) (simp_all add: add_node_def example_os_def)
  then show ?thesis by (intro exI[of _ ?os] exI[of _ ?p]) (simp add: add_node_def)
qed

text \<open>
  A very large age limit for session records overflows: a number of days whose seconds do not fit into 64
  bits stops a build that checks arithmetic after the socket is bound.
\<close>

theorem stale_age_overflow:
  "stale_session_max_age [''TYMUXD_STALE_SESSION_MAX_AGE_DAYS'' \<mapsto> ''213503982334602''] = None"
  by (simp add: stale_session_max_age_def parse_usize_def digit_value_def)

end
