(* ===== verification/Spec2Isabelle.thy ===== *)
theory Spec2Isabelle
  imports Layout Replay Supervision Terminal_Query Persistence Engine_Properties Vt_Reflow Cli_Attach Daemon_Properties Startup
begin

text \<open>
  \<^bold>\<open>tymux\<close> is a terminal multiplexer: a daemon (\<open>crates/tymuxd\<close>) that keeps shells running on ptys behind a gRPC
  interface, a core library (\<open>crates/tymux-core\<close>), a terminal emulator (\<open>crates/vt100\<close>) and a command line
  client (\<open>crates/tymux-cli\<close>). This development models the logic of these four Rust crates and proves what makes it
  correct. Paths below are relative to \<open>src/crates\<close>.

  \<^bold>\<open>How the parts interact.\<close> The client turns key presses into bytes and actions and sends them to the daemon. The
  daemon authorizes the connection, converts messages and calls the engine. The engine keeps sessions, windows with
  their split trees, the panes, an index and the persisted records, and drives the supervisor, which restarts
  processes by a pure state machine. Each pane has a reader thread that feeds the output of its process to the
  terminal emulator, answers terminal queries, stores the output in a replay buffer and broadcasts it to the attach
  streams; a stream starts with a snapshot of the screen or with the chunks a returning client missed.

  \<^bold>\<open>Conventions.\<close> Unsigned integers are naturals; where the source adds or subtracts plainly, the model uses
  \<open>checked_add\<close> and \<open>checked_sub\<close>, and \<open>None\<close> is the panic of a build with overflow checks. Values packed bitwise
  (cell lengths, attributes, mode bits) are words. A \<open>Result\<close> is a sum with the error on the left, a panic is \<open>None\<close>. A uuid is a number.
  Floating point values are rational numbers rounded to the format after every operation, with infinities and NaN
  (Floats). Operations of shared state are explicit state transformers, one for each critical section of
  the source; threads interleave between them. What the operating system, the clock, the uuid generator and
  third-party crates answer is an argument; what is relied on is a named hypothesis: \<open>width_fun_ok\<close> (a character is
  at most two columns wide, an ASCII one at most one), \<open>event_ok\<close> (a printed character is a scalar value),
  \<open>tokenizers_ok\<close> (both tokenizers keep to this, and a byte causes at most one dispatch, by a final byte or terminator), \<open>env_ok\<close> (new ids
  are fresh, lists of sessions and panes are complete).

  \<^bold>\<open>Theories, from the bottom up.\<close>

  \<^item> Prelude: types, checked arithmetic, \<open>returns\<close> (an option computation returns and its value satisfies a
    predicate), the locale \<open>invariant_system\<close> (initial states, steps, an invariant; reachable states satisfy it).
    Floats, Utf8: IEEE rounding and UTF-8 as the standard library has them.
  \<^item> Layout (\<open>tymux-core/src/layout.rs\<close>): the split tree. Geometry tiles the window; a split keeps the tree well formed
    and both halves above the minimum; remove undoes split.
  \<^item> Replay (\<open>replay_buffer.rs\<close>): the buffer of output chunks. It is a suffix of what was pushed, bounded, and a
    resume returns exactly the missed chunks or a gap. The locale \<open>chunk_log\<close> is the contract of the buffer, interpreted on
    \<open>rb_push\<close>.
  \<^item> Restart (\<open>restart.rs\<close>): policy, delays and the lifecycle state machine. Pane_Process (\<open>pane.rs\<close>): the flags that
    reader thread, supervisor and clients share. Supervision (\<open>supervision.rs\<close>): the supervisor over a store of panes,
    interleaved with reader threads; it refines the state machine, and a forgotten pane is never restarted.
  \<^item> Query_Scanner and Terminal_Query (\<open>terminal_query.rs\<close> and its directory): recognising queries in the output over
    arbitrary chunks, replies, the clients that answer themselves, and the bounded queue of replies.
  \<^item> Persistence (\<open>persistence.rs\<close>, \<open>launch.rs\<close>): records, their validation and the way back.
  \<^item> Engine_Ops, Engine_Invariant, Engine, Engine_Properties (\<open>engine.rs\<close>): every operation of the engine; the
    invariant \<open>engine_ok\<close> that ties sessions, index, panes and supervisor; the locale \<open>pane_registry\<close> is what the engine
    needs of the supervisor, interpreted on its operations.
  \<^item> Vt_Cell, Vt_Grid, Vt_Screen, Vt_Safety, Vt_Properties (\<open>vt100/src\<close>): attributes, cells, rows, the grid with its
    scrollback, the screen with its modes, links and control sequences, and the dispatch of tokenizer events. No
    stream of bytes makes it panic, and wide characters stay complete. The locale \<open>attr_class\<close> states what a property of attributes
    needs for the grid to keep it; it is interpreted on \<open>linked\<close>.
  \<^item> Pane_Snapshot and Pane_Stream (\<open>pane.rs\<close>, and \<open>attach\<close> of \<open>tymuxd/src/main.rs\<close>): what a client sees of a screen, and that
    a client receives each chunk exactly once, across snapshot, backlog and live output.
  \<^item> Proto (\<open>proto/tymux/v1/tymux.proto\<close> and the conversions of \<open>tymuxd/src/main.rs\<close>); Daemon and Daemon_Properties
    (\<open>tymuxd/src/main.rs\<close>): the request handlers, attach streams with their two tasks, gauge, counters, disconnect
    tracker and deferred viewport cleanup, as a transition system over the engine.
  \<^item> Cli_Config, Cli_Input, Cli_Copy_Mode, Cli_Target, Cli_Attach (\<open>tymux-cli/src\<close>): bindings and status bar, the
    reassembly of key sequences and pastes, copy mode, targets and policy flags, the attach loop.
  \<^item> Listener_Health (\<open>tymuxd/src/listener_health.rs\<close>): limits on open files, the accept-error stream, the probe. Auth
    (\<open>auth.rs\<close>): configuration, the socket's path, lock and permissions, and both authorization gates. Startup
    (\<open>main\<close> of \<open>tymuxd/src/main.rs\<close>): from the arguments to bound listeners, and the gates in front of the handlers.

  \<open>invariant_system\<close> is interpreted for the lifecycle machine, the supervisor, the reply queue, the engine and the daemon, each with
  the transition system of that component; the properties of reachable states rest on these interpretations.

  \<^bold>\<open>Bounds.\<close> A screen has at least one row and one column and fewer than 65535 columns (\<open>size_ok\<close>): the source adds
  one to a column, and the engine keeps viewports at 500 by 1000. Loops are structural or have a termination proof; loops whose end
  depends on data take fuel with a lemma that it is enough. Counters that grow by one per event (sequence numbers, freed rows) are
  unbounded or assumed below the top of their type. The clocks count milliseconds or nanoseconds.

  \<^bold>\<open>Not modelled.\<close> System calls and their orchestration (\<open>spawn.rs\<close>, \<open>pane/handoff.rs\<close>, \<open>setsid\<close>, signals): no
  logic beyond the kernel's answers, which are arguments. The escape-sequence writers of \<open>vt100\<close> (\<open>term.rs\<close>,
  \<open>*_formatted\<close>, \<open>*_diff\<close>): tymux does not call them. The stream \<open>WatchWindow\<close> and \<open>WriteStdin\<close>, heartbeats, and the lifecycle
  events on an attach stream: broadcast channels and timers around the operations that are modelled. The command line of the
  client (\<open>clap\<close>, dialing, printing). Log lines and wordings of messages. \<open>tymux-bench\<close>, \<open>tymux-e2e\<close> and generated protocol code.
\<close>

end
